(* ===== verification/Prelude.thy ===== *)
theory Prelude
  imports Main "HOL-Library.Word"
begin

unbundle bit_operations_syntax

text \<open>
  Shared vocabulary of the development: byte buffers as the code keeps them in
  \<^verbatim>\<open>AlignedBuffer\<close>, \<^verbatim>\<open>std::vector<std::byte>\<close> and \<^verbatim>\<open>std::span\<close>, the buffer
  splitting helpers of \<^verbatim>\<open>util/bspan.hpp\<close>, the error-value combinators, and the
  generic contracts (state-invariant preservation along runs) that several components
  share as locales.
\<close>

section \<open>Types\<close>

type_synonym byte = "8 word"
type_synonym bytes = "byte list"
type_synonym u16 = "16 word"
type_synonym u32 = "32 word"
type_synonym u64 = "64 word"

text \<open>
  Identifiers are fixed-size byte buffers (\<^verbatim>\<open>AlignedBuffer<N>\<close>); their size is part
  of the well-formedness predicates of the structures that hold them.
\<close>

type_synonym hop_id = bytes
type_synonym router_id = bytes
type_synonym symm_key = bytes
type_synonym symm_nonce = bytes

text \<open>Time points and durations, in milliseconds (\<^verbatim>\<open>sys_ms\<close>, \<^verbatim>\<open>steady_ms\<close>).\<close>

type_synonym ms = int

named_theorems buf_simps \<open>lengths and splittings of byte buffers\<close>
named_theorems xor_simps \<open>cancellation of buffer xor\<close>

section \<open>Buffer operations\<close>

text \<open>\<^verbatim>\<open>AlignedBuffer::operator^\<close> and \<^verbatim>\<open>operator^=\<close>: bytewise xor of two equally long buffers.\<close>

definition buf_xor :: "bytes \<Rightarrow> bytes \<Rightarrow> bytes" where
  "buf_xor a b = map2 (XOR) a b"

text \<open>\<^verbatim>\<open>AlignedBuffer::zero\<close>: a buffer of \<open>n\<close> zero bytes.\<close>

definition buf_zero :: "nat \<Rightarrow> bytes" where
  "buf_zero n = replicate n 0"

text \<open>\<^verbatim>\<open>is_zero\<close>: all bytes are zero.\<close>

definition is_zero :: "bytes \<Rightarrow> bool" where
  "is_zero b \<longleftrightarrow> list_all (\<lambda>x. x = 0) b"

text \<open>\<^verbatim>\<open>detail::split_span\<close> repeated over a list of lengths.\<close>

fun split_spans :: "nat list \<Rightarrow> bytes \<Rightarrow> bytes list" where
  "split_spans [] xs = []"
| "split_spans (n # ns) xs = take n xs # split_spans ns (drop n xs)"

text \<open>
  \<^verbatim>\<open>split_span_tail<Lengths...>\<close>: the leading piece and the fixed-size trailing pieces.
  The code does not check that the input is long enough: the subtraction wraps and the spans
  leave the buffer.  That is the value \<open>None\<close>.
\<close>

definition split_span_tail :: "nat list \<Rightarrow> bytes \<Rightarrow> (bytes \<times> bytes list) option" where
  "split_span_tail ns xs =
     (if sum_list ns \<le> length xs
      then let d = length xs - sum_list ns in Some (take d xs, split_spans ns (drop d xs))
      else None)"

text \<open>Overwriting the part of a buffer that a span at offset \<open>off\<close> covers.\<close>

definition write_span :: "nat \<Rightarrow> bytes \<Rightarrow> bytes \<Rightarrow> bytes" where
  "write_span off new xs = take off xs @ new @ drop (off + length new) xs"

text \<open>Reading \<open>n\<close> bytes at offset \<open>off\<close> (\<^verbatim>\<open>span.subspan(off, n)\<close>).\<close>

definition subspan :: "nat \<Rightarrow> nat \<Rightarrow> bytes \<Rightarrow> bytes" where
  "subspan off n xs = take n (drop off xs)"

section \<open>Lemmas on buffers\<close>

lemma length_buf_xor [simp, buf_simps]: "length (buf_xor a b) = min (length a) (length b)"
  by (simp add: buf_xor_def)

lemma buf_xor_cancel [xor_simps]: "length a = length b \<Longrightarrow> buf_xor (buf_xor a b) b = a"
  unfolding buf_xor_def
  by (induction a b rule: list_induct2) (simp_all add: xor.assoc)

lemma buf_xor_commute: "length a = length b \<Longrightarrow> buf_xor a b = buf_xor b a"
  unfolding buf_xor_def
  by (induction a b rule: list_induct2) (simp_all add: ac_simps)

lemma buf_xor_assoc:
  "length a = length b \<Longrightarrow> length b = length c \<Longrightarrow>
     buf_xor (buf_xor a b) c = buf_xor a (buf_xor b c)"
  unfolding buf_xor_def
  by (induction a b c rule: list_induct3) (simp_all add: ac_simps)

lemma length_buf_zero [simp, buf_simps]: "length (buf_zero n) = n"
  by (simp add: buf_zero_def)

lemma is_zero_buf_zero [simp]: "is_zero (buf_zero n)"
  by (simp add: is_zero_def buf_zero_def list_all_iff)

lemma is_zero_iff: "is_zero b \<longleftrightarrow> b = buf_zero (length b)"
  by (induction b) (auto simp: is_zero_def buf_zero_def)

lemma split_span_tail_append [buf_simps]:
  "length a = n1 \<Longrightarrow> length b = n2 \<Longrightarrow> length c = n3 \<Longrightarrow>
     split_span_tail [n1, n2, n3] (p @ a @ b @ c) = Some (p, [a, b, c])"
  by (simp add: split_span_tail_def)

lemma split_span_tail_append2 [buf_simps]:
  "length a = n1 \<Longrightarrow> length b = n2 \<Longrightarrow>
     split_span_tail [n1, n2] (p @ a @ b) = Some (p, [a, b])"
  by (simp add: split_span_tail_def)

lemma split_span_tail_short: "length xs < sum_list ns \<Longrightarrow> split_span_tail ns xs = None"
  by (simp add: split_span_tail_def)

lemma split_span_tail3_SomeE:
  assumes "split_span_tail [n1, n2, n3] xs = Some (p, q)"
  obtains a b c where "q = [a, b, c]" and "xs = p @ a @ b @ c"
    and "length a = n1" and "length b = n2" and "length c = n3"
proof -
  let ?d = "length xs - (n1 + n2 + n3)"
  let ?t = "drop ?d xs"
  from assms have le: "n1 + n2 + n3 \<le> length xs"
    and p: "p = take ?d xs"
    and q: "q = [take n1 ?t, take n2 (drop n1 ?t), take n3 (drop n2 (drop n1 ?t))]"
    by (auto simp: split_span_tail_def Let_def add.assoc split: if_splits)
  have lt: "length ?t = n1 + n2 + n3" using le by simp
  have "?t = take n1 ?t @ take n2 (drop n1 ?t) @ drop n2 (drop n1 ?t)"
    by (metis append_take_drop_id)
  moreover have "take n3 (drop n2 (drop n1 ?t)) = drop n2 (drop n1 ?t)"
    using lt by simp
  ultimately have "xs = p @ take n1 ?t @ take n2 (drop n1 ?t) @ take n3 (drop n2 (drop n1 ?t))"
    using p by (metis append_take_drop_id)
  then show thesis
    using that [OF q] lt by simp
qed

lemma length_write_span [simp, buf_simps]:
  "off + length new \<le> length xs \<Longrightarrow> length (write_span off new xs) = length xs"
  by (simp add: write_span_def)

lemma length_subspan [simp, buf_simps]:
  "off + n \<le> length xs \<Longrightarrow> length (subspan off n xs) = n"
  by (simp add: subspan_def)

lemma subspan_append_skip:
  "length a = k \<Longrightarrow> k \<le> off \<Longrightarrow> subspan off n (a @ b) = subspan (off - k) n b"
  by (simp add: subspan_def)

lemma subspan_append_exact: "length a = n \<Longrightarrow> subspan 0 n (a @ b) = a"
  by (simp add: subspan_def)

lemma write_span_append:
  "length a = off \<Longrightarrow> length old = length new \<Longrightarrow> write_span off new (a @ old @ r) = a @ new @ r"
  by (simp add: write_span_def)

lemma subspan_append_mid: "length a = off \<Longrightarrow> length b = n \<Longrightarrow> subspan off n (a @ b @ r) = b"
  by (simp add: subspan_def)

lemma concat_length_const:
  "\<forall>x \<in> set xs. length x = n \<Longrightarrow> length (concat xs) = n * length xs"
  by (induction xs) auto

section \<open>Text\<close>

text \<open>A string literal as bytes.\<close>

definition string_bytes :: "string \<Rightarrow> bytes" where
  "string_bytes s = map of_char s"

section \<open>Decimal numbers\<close>

text \<open>Sizes printed in decimal, as bytes.\<close>

definition digit_byte :: "nat \<Rightarrow> byte" where "digit_byte d = of_nat (48 + d)"
definition is_digit :: "byte \<Rightarrow> bool" where "is_digit b \<longleftrightarrow> 48 \<le> b \<and> b \<le> 57"

fun dec :: "nat \<Rightarrow> bytes" where
  "dec n = (if n < 10 then [digit_byte n] else dec (n div 10) @ [digit_byte (n mod 10)])"

declare dec.simps [simp del]

definition undec :: "bytes \<Rightarrow> nat" where
  "undec bs = foldl (\<lambda>a b. 10 * a + (unat b - 48)) 0 bs"

lemma unat_digit_byte: "d < 10 \<Longrightarrow> unat (digit_byte d) = 48 + d"
  by (simp add: digit_byte_def unsigned_of_nat take_bit_nat_eq_self del: of_nat_add)

lemma is_digit_byte: "d < 10 \<Longrightarrow> is_digit (digit_byte d)"
  using unat_digit_byte [of d] by (simp add: is_digit_def word_le_nat_alt)

lemma dec_digits: "\<forall>b \<in> set (dec n). is_digit b"
  by (induction n rule: dec.induct) (subst dec.simps, auto simp: is_digit_byte)

lemma undec_dec [simp]: "undec (dec n) = n"
proof (induction n rule: dec.induct)
  case (1 n)
  show ?case
  proof (cases "n < 10")
    case True
    then show ?thesis by (simp add: dec.simps [of n] undec_def unat_digit_byte)
  next
    case False
    with 1 show ?thesis by (simp add: dec.simps [of n] undec_def unat_digit_byte)
  qed
qed

lemma length_dec: "n \<le> 999 \<Longrightarrow> length (dec n) = (if n < 10 then 1 else if n < 100 then 2 else 3)"
  by (subst dec.simps, auto, (subst dec.simps, auto)+)

lemma dec_not_Nil [simp]: "dec n \<noteq> []"
  by (subst dec.simps) simp

lemma hd_dec: "is_digit (hd (dec n))"
  using dec_digits [of n] by (cases "dec n") auto

lemma length_dec_le: "0 < k \<Longrightarrow> n < 10 ^ k \<Longrightarrow> length (dec n) \<le> k"
proof (induction k arbitrary: n)
  case (Suc k)
  show ?case
  proof (cases "n < 10")
    case True
    then show ?thesis by (simp add: dec.simps [of n])
  next
    case False
    then have "0 < k"
      using Suc.prems(2) by (cases k) auto
    moreover have "n div 10 < 10 ^ k"
      using Suc.prems(2) by (simp add: less_mult_imp_div_less mult.commute)
    ultimately show ?thesis
      using False Suc.IH [of "n div 10"] by (simp add: dec.simps [of n])
  qed
qed simp

section \<open>Runs of a transition system\<close>

text \<open>
  The contract that every stateful component of the library discharges for its own step
  relation: the invariant holds in the initial states and every step keeps it.  Its clients
  obtain the invariant in every reachable state.
\<close>

locale invariant_system =
  fixes init :: "'s \<Rightarrow> bool"
    and step :: "'s \<Rightarrow> 's \<Rightarrow> bool"
    and inv :: "'s \<Rightarrow> bool"
  assumes init_inv: "init s \<Longrightarrow> inv s"
    and step_inv: "inv s \<Longrightarrow> step s t \<Longrightarrow> inv t"
begin

lemma run_inv: "step\<^sup>*\<^sup>* s t \<Longrightarrow> inv s \<Longrightarrow> inv t"
  by (induction rule: rtranclp_induct) (auto intro: step_inv)

lemma reachable_inv: "init s \<Longrightarrow> step\<^sup>*\<^sup>* s t \<Longrightarrow> inv t"
  by (blast intro: run_inv init_inv)

end

end
