(* ===== verification/Crypto.thy ===== *)
theory Crypto
  imports Prelude
begin

text \<open>
  The symmetric and key-agreement layer (\<^verbatim>\<open>crypto/crypto.cpp\<close>,
  \<^verbatim>\<open>crypto/session_keys.cpp\<close>, \<^verbatim>\<open>crypto/keys.cpp\<close>).  The primitives themselves belong to
  libsodium, which is not part of the repository: they are the fields of the record
  \<open>sodium\<close>, an argument of every definition that calls them.  What the router relies on
  (documented libsodium behaviour) is stated by the predicates \<open>xchacha20_laws\<close>,
  \<open>aead_laws\<close>, \<open>hash_laws\<close>, \<open>ed25519_laws\<close> and \<open>x25519_laws\<close>.
  Values drawn from the random generator are explicit arguments.
\<close>

section \<open>The primitives\<close>

record sodium =
  stream_xchacha20_xor :: "bytes \<Rightarrow> bytes \<Rightarrow> bytes \<Rightarrow> bytes"
    \<comment> \<open>data, nonce, key\<close>
  aead_xchacha20poly1305_encrypt :: "bytes \<Rightarrow> bytes \<Rightarrow> bytes \<Rightarrow> bytes \<Rightarrow> bytes"
    \<comment> \<open>plaintext, additional data, nonce, key\<close>
  aead_xchacha20poly1305_decrypt :: "bytes \<Rightarrow> bytes \<Rightarrow> bytes \<Rightarrow> bytes \<Rightarrow> bytes option"
    \<comment> \<open>ciphertext with tag, additional data, nonce, key\<close>
  generichash_blake2b :: "nat \<Rightarrow> bytes \<Rightarrow> bytes \<Rightarrow> bytes \<Rightarrow> bytes"
    \<comment> \<open>output length, key, personalisation, message\<close>
  sign_seed_keypair :: "bytes \<Rightarrow> bytes \<times> bytes"
    \<comment> \<open>seed to public key and 64-byte secret key\<close>
  sign_ed25519_sk_to_curve25519 :: "bytes \<Rightarrow> bytes"
  sign_ed25519_pk_to_curve25519 :: "bytes \<Rightarrow> bytes option"
  scalarmult_ed25519 :: "bytes \<Rightarrow> bytes \<Rightarrow> bytes option"
  scalarmult_ed25519_noclamp :: "bytes \<Rightarrow> bytes \<Rightarrow> bytes option"
  core_ed25519_scalar_reduce :: "bytes \<Rightarrow> bytes"
  scalarmult_curve25519 :: "bytes \<Rightarrow> bytes \<Rightarrow> bytes option"
  scalarmult_curve25519_base :: "bytes \<Rightarrow> bytes"

definition TAG_SIZE :: nat where "TAG_SIZE = 16"
definition SYMM_NONCE_SIZE :: nat where "SYMM_NONCE_SIZE = 24"
definition SYMM_KEY_SIZE :: nat where "SYMM_KEY_SIZE = 32"
definition HOPID_SIZE :: nat where "HOPID_SIZE = 16"
definition PUBKEY_SIZE :: nat where "PUBKEY_SIZE = 32"

lemmas size_defs = TAG_SIZE_def SYMM_NONCE_SIZE_def SYMM_KEY_SIZE_def HOPID_SIZE_def PUBKEY_SIZE_def

subsection \<open>Documented behaviour the router relies on\<close>

text \<open>
  XChaCha20 is a stream cipher: the output has the length of the input, byte \<open>i\<close> of the
  output depends only on byte \<open>i\<close> of the input (and key and nonce), and applying the
  cipher twice restores the input.
\<close>

definition xchacha20_laws :: "sodium \<Rightarrow> bool" where
  "xchacha20_laws S \<longleftrightarrow>
     (\<forall>d n k. length (stream_xchacha20_xor S d n k) = length d) \<and>
     (\<forall>d n k m. take m (stream_xchacha20_xor S d n k) = stream_xchacha20_xor S (take m d) n k) \<and>
     (\<forall>d n k. stream_xchacha20_xor S (stream_xchacha20_xor S d n k) n k = d)"

text \<open>The AEAD construction appends a 16-byte tag and decrypts what it encrypted.\<close>

definition aead_laws :: "sodium \<Rightarrow> bool" where
  "aead_laws S \<longleftrightarrow>
     (\<forall>p ad n k. length (aead_xchacha20poly1305_encrypt S p ad n k) = length p + TAG_SIZE) \<and>
     (\<forall>p ad n k. aead_xchacha20poly1305_decrypt S
        (aead_xchacha20poly1305_encrypt S p ad n k) ad n k = Some p)"

definition hash_laws :: "sodium \<Rightarrow> bool" where
  "hash_laws S \<longleftrightarrow> (\<forall>n k p m. length (generichash_blake2b S n k p m) = n)"

text \<open>
  Key pairs made from a seed carry their public key in the last 32 bytes of the secret key, and
  Diffie-Hellman on the Edwards curve commutes on such pairs.
\<close>

definition ed25519_laws :: "sodium \<Rightarrow> bool" where
  "ed25519_laws S \<longleftrightarrow>
     (\<forall>s. length (snd (sign_seed_keypair S s)) = 64 \<and>
          drop 32 (snd (sign_seed_keypair S s)) = fst (sign_seed_keypair S s) \<and>
          length (fst (sign_seed_keypair S s)) = PUBKEY_SIZE) \<and>
     (\<forall>s t. scalarmult_ed25519 S (sign_ed25519_sk_to_curve25519 S (snd (sign_seed_keypair S s)))
                (fst (sign_seed_keypair S t)) =
            scalarmult_ed25519 S (sign_ed25519_sk_to_curve25519 S (snd (sign_seed_keypair S t)))
                (fst (sign_seed_keypair S s)) \<and>
            scalarmult_ed25519 S (sign_ed25519_sk_to_curve25519 S (snd (sign_seed_keypair S s)))
                (fst (sign_seed_keypair S t)) \<noteq> None)"

text \<open>
  X25519 Diffie-Hellman commutes, and converting the two halves of an Ed25519 key pair gives an
  X25519 key pair.
\<close>

definition x25519_laws :: "sodium \<Rightarrow> bool" where
  "x25519_laws S \<longleftrightarrow>
     (\<forall>a b. scalarmult_curve25519 S a (scalarmult_curve25519_base S b) =
            scalarmult_curve25519 S b (scalarmult_curve25519_base S a) \<and>
            scalarmult_curve25519 S a (scalarmult_curve25519_base S b) \<noteq> None) \<and>
     (\<forall>a. length (scalarmult_curve25519_base S a) = PUBKEY_SIZE) \<and>
     (\<forall>s. sign_ed25519_pk_to_curve25519 S (fst (sign_seed_keypair S s)) =
          Some (scalarmult_curve25519_base S
            (sign_ed25519_sk_to_curve25519 S (snd (sign_seed_keypair S s)))))"

definition sodium_laws :: "sodium \<Rightarrow> bool" where
  "sodium_laws S \<longleftrightarrow> xchacha20_laws S \<and> aead_laws S \<and> hash_laws S \<and> ed25519_laws S \<and> x25519_laws S"

section \<open>Symmetric encryption\<close>

text \<open>\<^verbatim>\<open>crypto::xchacha20\<close>: in-place stream encryption of a span.\<close>

definition xchacha20 :: "sodium \<Rightarrow> bytes \<Rightarrow> symm_key \<Rightarrow> symm_nonce \<Rightarrow> bytes" where
  "xchacha20 S buf secret nonce = stream_xchacha20_xor S buf nonce secret"

text \<open>
  \<^verbatim>\<open>xchacha20_poly1305_encrypt_inplace\<close>: the last \<^const>\<open>TAG_SIZE\<close> bytes of the buffer
  are room for the tag.  A shorter buffer violates the function's assertion (\<open>None\<close>).
\<close>

definition xchacha20_poly1305_encrypt_inplace ::
  "sodium \<Rightarrow> bytes \<Rightarrow> symm_key \<Rightarrow> symm_nonce \<Rightarrow> bytes \<Rightarrow> bytes option" where
  "xchacha20_poly1305_encrypt_inplace S buf secret nonce ad =
     (if TAG_SIZE \<le> length buf
      then Some (aead_xchacha20poly1305_encrypt S (take (length buf - TAG_SIZE) buf) ad nonce secret)
      else None)"

definition xchacha20_poly1305_decrypt_inplace ::
  "sodium \<Rightarrow> bytes \<Rightarrow> symm_key \<Rightarrow> symm_nonce \<Rightarrow> bytes \<Rightarrow> bytes option" where
  "xchacha20_poly1305_decrypt_inplace S buf secret nonce ad =
     (if length buf < TAG_SIZE then None
      else aead_xchacha20poly1305_decrypt S buf ad nonce secret)"

definition xchacha20_poly1305_encrypt :: "sodium \<Rightarrow> bytes \<Rightarrow> symm_key \<Rightarrow> symm_nonce \<Rightarrow> bytes" where
  "xchacha20_poly1305_encrypt S plaintext secret nonce =
     aead_xchacha20poly1305_encrypt S plaintext [] nonce secret"

definition xchacha20_poly1305_decrypt ::
  "sodium \<Rightarrow> bytes \<Rightarrow> symm_key \<Rightarrow> symm_nonce \<Rightarrow> bytes option" where
  "xchacha20_poly1305_decrypt S ciphertext secret nonce =
     (if length ciphertext < TAG_SIZE then None
      else aead_xchacha20poly1305_decrypt S ciphertext [] nonce secret)"

text \<open>\<^verbatim>\<open>crypto::shorthash\<close>: the unkeyed 32-byte hash.\<close>

definition shorthash :: "sodium \<Rightarrow> bytes \<Rightarrow> bytes" where
  "shorthash S buf = generichash_blake2b S 32 [] [] buf"

text \<open>The xor nonce of a hop: the truncated hash of its shared secret.\<close>

definition xor_nonce_of :: "sodium \<Rightarrow> symm_key \<Rightarrow> symm_nonce" where
  "xor_nonce_of S secret = take SYMM_NONCE_SIZE (shorthash S secret)"

section \<open>Key agreement\<close>

text \<open>\<^verbatim>\<open>Ed25519SecretKey::generate\<close> from a fresh random seed, and its public half.\<close>

definition ed25519_generate :: "sodium \<Rightarrow> bytes \<Rightarrow> bytes" where
  "ed25519_generate S seed = snd (sign_seed_keypair S seed)"

definition ed25519_to_pubkey :: "bytes \<Rightarrow> bytes" where
  "ed25519_to_pubkey sk = drop 32 sk"

text \<open>\<^verbatim>\<open>dh\<close>: both sides hash client key, server key and the shared point, keyed by the nonce.\<close>

definition dh :: "sodium \<Rightarrow> bytes \<Rightarrow> bytes \<Rightarrow> bool \<Rightarrow> bytes \<Rightarrow> symm_nonce \<Rightarrow> symm_key option" where
  "dh S client_pk server_pk we_are_client local_keys nonce =
     (let a = sign_ed25519_sk_to_curve25519 S local_keys
      in case scalarmult_ed25519 S a (if we_are_client then server_pk else client_pk) of
           None \<Rightarrow> None
         | Some shared \<Rightarrow>
             Some (generichash_blake2b S SYMM_KEY_SIZE nonce [] (client_pk @ server_pk @ shared)))"

definition dh_client :: "sodium \<Rightarrow> bytes \<Rightarrow> bytes \<Rightarrow> symm_nonce \<Rightarrow> symm_key option" where
  "dh_client S pk sk n = dh S (ed25519_to_pubkey sk) pk True sk n"

definition dh_server :: "sodium \<Rightarrow> bytes \<Rightarrow> bytes \<Rightarrow> symm_nonce \<Rightarrow> symm_key option" where
  "dh_server S pk sk n = dh S pk (ed25519_to_pubkey sk) False sk n"

text \<open>\<^verbatim>\<open>dh_client_gen\<close>: seed and nonce are the random draws; an invalid server key throws.\<close>

definition dh_client_gen ::
  "sodium \<Rightarrow> bytes \<Rightarrow> bytes \<Rightarrow> symm_nonce \<Rightarrow> (symm_key \<times> bytes \<times> symm_nonce) option" where
  "dh_client_gen S server_pk seed nonce =
     (let eph_keys = ed25519_generate S seed
      in case dh_client S server_pk eph_keys nonce of
           None \<Rightarrow> None
         | Some secret \<Rightarrow> Some (secret, ed25519_to_pubkey eph_keys, nonce))"

subsection \<open>X25519 (\<^verbatim>\<open>session_keys.cpp\<close>)\<close>

record x25519_keypair =
  xpub :: bytes
  xsec :: bytes

text \<open>\<^verbatim>\<open>X25519PubKey(const PubKey&)\<close> throws on an invalid key.\<close>

definition x25519_pubkey_of_ed :: "sodium \<Rightarrow> bytes \<Rightarrow> bytes option" where
  "x25519_pubkey_of_ed S ed_pk = sign_ed25519_pk_to_curve25519 S ed_pk"

definition x25519_to_pubkey :: "sodium \<Rightarrow> bytes \<Rightarrow> bytes" where
  "x25519_to_pubkey S sec = scalarmult_curve25519_base S sec"

text \<open>\<^verbatim>\<open>X25519KeyPair(const Ed25519SecretKey&)\<close>.\<close>

definition x25519_keypair_of_ed :: "sodium \<Rightarrow> bytes \<Rightarrow> x25519_keypair" where
  "x25519_keypair_of_ed S ed_sk =
     (let sec = sign_ed25519_sk_to_curve25519 S ed_sk
      in \<lparr>xpub = x25519_to_pubkey S sec, xsec = sec\<rparr>)"

text \<open>\<^verbatim>\<open>X25519KeyPair::generate\<close>, with the random secret as argument.\<close>

definition x25519_generate :: "sodium \<Rightarrow> bytes \<Rightarrow> x25519_keypair" where
  "x25519_generate S sec = \<lparr>xpub = scalarmult_curve25519_base S sec, xsec = sec\<rparr>"

text \<open>The personalisation string \<^verbatim>\<open>srouter_path_v01\<close>.\<close>

definition path_build_personal :: bytes where
  "path_build_personal = string_bytes ''srouter_path_v01''"

text \<open>\<^verbatim>\<open>path_build_secret\<close>: throws (\<open>None\<close>) when the scalar multiplication fails.\<close>

definition path_build_secret :: "sodium \<Rightarrow> x25519_keypair \<Rightarrow> bytes \<Rightarrow> bool \<Rightarrow> symm_key option" where
  "path_build_secret S local_keys remote is_client =
     (let A = (if is_client then xpub local_keys else remote);
          B = (if is_client then remote else xpub local_keys)
      in case scalarmult_curve25519 S (xsec local_keys) remote of
           None \<Rightarrow> None
         | Some ab \<Rightarrow>
             Some (generichash_blake2b S SYMM_KEY_SIZE [] path_build_personal (A @ B @ ab)))"

text \<open>
  \<^verbatim>\<open>session_secret\<close>: the inbound and outbound traffic keys of a session; \<open>le32\<close> is the
  little-endian encoding of the session tags (\<^verbatim>\<open>oxenc::write_host_as_little\<close>).
\<close>

definition ss_context_key :: bytes where
  "ss_context_key = string_bytes ''srouter session context''"

definition session_secret ::
  "sodium \<Rightarrow> (u32 \<Rightarrow> bytes) \<Rightarrow> router_id \<Rightarrow> router_id \<Rightarrow> x25519_keypair \<Rightarrow> bytes \<Rightarrow> bool \<Rightarrow>
     bytes \<Rightarrow> bytes \<Rightarrow> u32 \<Rightarrow> u32 \<Rightarrow> (symm_key \<times> symm_key) option" where
  "session_secret S le32 initiator receiver a B is_initiator k_s M tag_i tag_r =
     (let context = generichash_blake2b S 64 ss_context_key []
                      (initiator @ receiver @ le32 tag_i @ le32 tag_r);
          X = (if is_initiator then xpub a else B);
          Y = (if is_initiator then B else xpub a)
      in case scalarmult_curve25519 S (xsec a) B of
           None \<Rightarrow> None
         | Some ab \<Rightarrow>
             (let ss = generichash_blake2b S (2 * SYMM_KEY_SIZE) context [] (ab @ X @ Y @ k_s @ M);
                  k1 = take SYMM_KEY_SIZE ss;
                  k2 = drop SYMM_KEY_SIZE ss;
                  key_out = (if is_initiator then k1 else k2);
                  key_in = (if is_initiator then k2 else k1)
              in Some (key_in, key_out)))"

section \<open>Blinding and name records\<close>

definition GENERICHASH_KEYBYTES_MAX :: nat where "GENERICHASH_KEYBYTES_MAX = 64"

definition blinding_scalar :: "sodium \<Rightarrow> bytes \<Rightarrow> bytes \<Rightarrow> bytes" where
  "blinding_scalar S pubkey blind_domain =
     (let dom = (if GENERICHASH_KEYBYTES_MAX < length blind_domain
                 then take GENERICHASH_KEYBYTES_MAX blind_domain else blind_domain);
          n = generichash_blake2b S 64 dom [] pubkey
      in core_ed25519_scalar_reduce S n)"

definition blind :: "sodium \<Rightarrow> bytes \<Rightarrow> bytes \<Rightarrow> bytes option" where
  "blind S root blind_domain = scalarmult_ed25519_noclamp S (blinding_scalar S root blind_domain) root"

text \<open>
  \<^verbatim>\<open>maybe_decrypt_name\<close>: the payload size is computed in \<^verbatim>\<open>size_t\<close>, so a ciphertext
  shorter than the tag wraps to a huge size and is refused by the comparison with 32.
\<close>

definition maybe_decrypt_name :: "sodium \<Rightarrow> bytes \<Rightarrow> symm_nonce \<Rightarrow> bytes \<Rightarrow> bytes option" where
  "maybe_decrypt_name S ciphertext nonce namestr =
     (if (of_nat (length ciphertext) - of_nat TAG_SIZE :: u64) \<noteq> 32 then None
      else let namehash = shorthash S namestr;
               derivedKey = generichash_blake2b S 32 namehash [] namestr
           in aead_xchacha20poly1305_decrypt S ciphertext [] nonce derivedKey)"

section \<open>Lemmas\<close>

lemma xchacha20_involution [simp]:
  "xchacha20_laws S \<Longrightarrow> xchacha20 S (xchacha20 S d k n) k n = d"
  by (simp add: xchacha20_laws_def xchacha20_def)

lemma length_xchacha20 [simp]: "xchacha20_laws S \<Longrightarrow> length (xchacha20 S d k n) = length d"
  by (simp add: xchacha20_laws_def xchacha20_def)

lemma xchacha20_Nil [simp]: "xchacha20_laws S \<Longrightarrow> xchacha20 S [] k n = []"
  by (metis length_xchacha20 length_0_conv)

lemma take_xchacha20: "xchacha20_laws S \<Longrightarrow> take m (xchacha20 S d k n) = xchacha20 S (take m d) k n"
  by (simp add: xchacha20_laws_def xchacha20_def)

text \<open>De-onioning a longer buffer treats its prefix like the prefix alone.\<close>

lemma xchacha20_append_prefix:
  assumes "xchacha20_laws S"
  shows "\<exists>ys'. xchacha20 S (xs @ ys) k n = xchacha20 S xs k n @ ys' \<and> length ys' = length ys"
proof -
  have "take (length xs) (xchacha20 S (xs @ ys) k n) = xchacha20 S xs k n"
    using assms by (simp add: take_xchacha20)
  then have "xchacha20 S (xs @ ys) k n =
      xchacha20 S xs k n @ drop (length xs) (xchacha20 S (xs @ ys) k n)"
    by (metis append_take_drop_id)
  then show ?thesis using assms by (metis length_append length_drop length_xchacha20 diff_add_inverse)
qed

lemma aead_inplace_roundtrip:
  assumes "aead_laws S" and "length pad = TAG_SIZE"
  shows "\<exists>c. xchacha20_poly1305_encrypt_inplace S (p @ pad) k n ad = Some c \<and>
             length c = length p + TAG_SIZE \<and>
             xchacha20_poly1305_decrypt_inplace S c k n ad = Some p"
  using assms
  by (simp add: xchacha20_poly1305_encrypt_inplace_def xchacha20_poly1305_decrypt_inplace_def aead_laws_def)

lemma length_xor_nonce_of [simp]: "hash_laws S \<Longrightarrow> length (xor_nonce_of S k) = SYMM_NONCE_SIZE"
  by (simp add: hash_laws_def xor_nonce_of_def shorthash_def size_defs)

lemma sodium_lawsD:
  assumes "sodium_laws S"
  shows "xchacha20_laws S" "aead_laws S" "hash_laws S" "ed25519_laws S" "x25519_laws S"
  using assms by (simp_all add: sodium_laws_def)

lemma of_char_word8_inject: "(of_char c :: byte) = of_char d \<longleftrightarrow> c = d"
proof
  assume "(of_char c :: byte) = of_char d"
  then have "unat (of_nat (of_char c) :: byte) = unat (of_nat (of_char d) :: byte)" by (simp add: of_nat_of_char)
  then have "(of_char c :: nat) = of_char d"
    using nat_of_char_less_256 [of c] nat_of_char_less_256 [of d] by (simp add: unsigned_of_nat take_bit_nat_eq_self)
  then show "c = d" by simp
qed simp

lemma string_bytes_inject [simp]: "string_bytes s = string_bytes t \<longleftrightarrow> s = t"
  unfolding string_bytes_def by (rule inj_map_eq_map) (simp add: inj_on_def of_char_word8_inject)

lemma dh_client_server:
  assumes "ed25519_laws S"
  shows "dh_client S (fst (sign_seed_keypair S t)) (ed25519_generate S s) n =
         dh_server S (ed25519_to_pubkey (ed25519_generate S s)) (snd (sign_seed_keypair S t)) n"
    and "dh_client S (fst (sign_seed_keypair S t)) (ed25519_generate S s) n \<noteq> None"
  using assms
  by (auto simp: dh_client_def dh_server_def dh_def ed25519_laws_def ed25519_generate_def
      ed25519_to_pubkey_def Let_def split: option.splits)

lemma path_build_secret_agree:
  assumes "x25519_laws S"
  shows "path_build_secret S (x25519_generate S a) (scalarmult_curve25519_base S b) True =
         path_build_secret S \<lparr>xpub = scalarmult_curve25519_base S b, xsec = b\<rparr>
           (scalarmult_curve25519_base S a) False"
    and "path_build_secret S (x25519_generate S a) (scalarmult_curve25519_base S b) True \<noteq> None"
  using assms
  by (auto simp: path_build_secret_def x25519_generate_def x25519_laws_def Let_def split: option.splits)

end
