(* ===== verification/Oxenc.thy ===== *)
theory Oxenc
  imports Prelude "HOL-Library.List_Lexorder" "HOL-Library.Char_ord"
begin

text \<open>
  The serialisation library oxenc is a git submodule and not part of the repository: its
  bt-encoding (bencode) producer and consumer and its endian conversions are the fields of the
  record \<open>oxenc\<close>.  A consumer (\<^verbatim>\<open>bt_dict_consumer\<close>) is the view of the bytes still to
  be read; every read that the code wraps in \<^verbatim>\<open>try\<close> may throw, which is \<open>None\<close>.
\<close>

datatype bt_value = BStr bytes | BInt int | BList "bt_value list" | BDict "(string \<times> bt_value) list"

record oxenc =
  bt_dict :: "(string \<times> bt_value) list \<Rightarrow> bytes"
    \<comment> \<open>\<^verbatim>\<open>bt_dict_producer\<close> with the appended pairs, in order\<close>
  bt_open :: "bytes \<Rightarrow> bytes option"
    \<comment> \<open>construction of a \<^verbatim>\<open>bt_dict_consumer\<close>\<close>
  bt_require :: "string \<Rightarrow> bytes \<Rightarrow> (bt_value \<times> bytes) option"
    \<comment> \<open>\<^verbatim>\<open>require(key)\<close>: skips to the key and reads its value\<close>
  bt_optional :: "string \<Rightarrow> bytes \<Rightarrow> bt_value option \<times> bytes"
    \<comment> \<open>\<^verbatim>\<open>skip_until(key)\<close> and, if the key is there, its value\<close>
  bt_finish :: "bytes \<Rightarrow> bool"
    \<comment> \<open>\<^verbatim>\<open>finish()\<close>: nothing is left to read\<close>
  bt_list_open :: "bytes \<Rightarrow> bytes option"
    \<comment> \<open>construction of a \<^verbatim>\<open>bt_list_consumer\<close>\<close>
  bt_consume_dict :: "bytes \<Rightarrow> (bytes \<times> bytes) option"
    \<comment> \<open>\<^verbatim>\<open>consume_dict_data\<close>: the encoding of the next list element, a dictionary\<close>
  bt_list_finish :: "bytes \<Rightarrow> bool"
  little16 :: "u16 \<Rightarrow> bytes"
  load_little16 :: "bytes \<Rightarrow> u16"
  little32 :: "u32 \<Rightarrow> bytes"
  load_little32 :: "bytes \<Rightarrow> u32"
  big32 :: "u32 \<Rightarrow> bytes"
  load_big32 :: "bytes \<Rightarrow> u32"

section \<open>Typed reads\<close>

text \<open>\<^verbatim>\<open>require<std::string_view>\<close> / \<^verbatim>\<open>require_span<std::byte>\<close>: the value must be a string.\<close>

definition bt_require_str :: "oxenc \<Rightarrow> string \<Rightarrow> bytes \<Rightarrow> (bytes \<times> bytes) option" where
  "bt_require_str X key c =
     (case bt_require X key c of Some (BStr v, c') \<Rightarrow> Some (v, c') | _ \<Rightarrow> None)"

text \<open>\<^verbatim>\<open>require_span<std::byte, N>\<close>: a string of exactly \<open>N\<close> bytes.\<close>

definition bt_require_span :: "oxenc \<Rightarrow> nat \<Rightarrow> string \<Rightarrow> bytes \<Rightarrow> (bytes \<times> bytes) option" where
  "bt_require_span X n key c =
     (case bt_require_str X key c of
        Some (v, c') \<Rightarrow> if length v = n then Some (v, c') else None
      | None \<Rightarrow> None)"

text \<open>\<^verbatim>\<open>require<T>\<close> for an integer type with range \<open>lo..hi\<close>.\<close>

definition bt_require_int :: "oxenc \<Rightarrow> int \<Rightarrow> int \<Rightarrow> string \<Rightarrow> bytes \<Rightarrow> (int \<times> bytes) option" where
  "bt_require_int X lo hi key c =
     (case bt_require X key c of
        Some (BInt v, c') \<Rightarrow> if lo \<le> v \<and> v \<le> hi then Some (v, c') else None
      | _ \<Rightarrow> None)"

section \<open>Documented behaviour\<close>

text \<open>Reading the given keys one after the other.\<close>

fun bt_requires :: "oxenc \<Rightarrow> string list \<Rightarrow> bytes \<Rightarrow> (bt_value list \<times> bytes) option" where
  "bt_requires X [] c = Some ([], c)"
| "bt_requires X (k # ks) c =
     (case bt_require X k c of
        None \<Rightarrow> None
      | Some (v, c') \<Rightarrow>
          (case bt_requires X ks c' of None \<Rightarrow> None | Some (vs, c'') \<Rightarrow> Some (v # vs, c'')))"

text \<open>Dictionaries, nested ones included, have ascending keys.\<close>

fun bt_wf :: "bt_value \<Rightarrow> bool" where
  "bt_wf (BStr _) = True"
| "bt_wf (BInt _) = True"
| "bt_wf (BList vs) = list_all bt_wf vs"
| "bt_wf (BDict kvs) = (sorted_wrt (<) (map fst kvs) \<and> list_all (\<lambda>kv. bt_wf (snd kv)) kvs)"

definition dict_wf :: "(string \<times> bt_value) list \<Rightarrow> bool" where
  "dict_wf kvs \<longleftrightarrow> sorted_wrt (<) (map fst kvs) \<and> (\<forall>v \<in> set (map snd kvs). bt_wf v)"

text \<open>
  A consumer is positioned before the pairs still to be read: the encoding of a dictionary without its
  opening byte.  Reading a key passes over the pairs with smaller keys; when the key is absent,
  \<^verbatim>\<open>require\<close> throws and an optional read gives nothing.
\<close>

definition bt_at :: "oxenc \<Rightarrow> (string \<times> bt_value) list \<Rightarrow> bytes" where
  "bt_at X kvs = tl (bt_dict X kvs)"

definition pairs_after :: "string \<Rightarrow> (string \<times> bt_value) list \<Rightarrow> (string \<times> bt_value) list" where
  "pairs_after k kvs = dropWhile (\<lambda>kv. fst kv \<le> k) kvs"

definition bt_reader_law :: "oxenc \<Rightarrow> bool" where
  "bt_reader_law X \<longleftrightarrow>
     (\<forall>kvs. dict_wf kvs \<longrightarrow>
        bt_open X (bt_dict X kvs) = Some (bt_at X kvs) \<and>
        (\<forall>k. bt_require X k (bt_at X kvs) = map_option (\<lambda>v. (v, bt_at X (pairs_after k kvs))) (map_of kvs k)) \<and>
        (\<forall>k. bt_optional X k (bt_at X kvs) = (map_of kvs k, bt_at X (pairs_after k kvs))) \<and>
        (bt_finish X (bt_at X kvs) \<longleftrightarrow> kvs = []))"

text \<open>
  \<^verbatim>\<open>bt_pair_bytes\<close> of \<^verbatim>\<open>path_handler.cpp\<close>: the encoded size of one pair with a short key
  and a value of at most 999 bytes.
\<close>

definition bt_pair_bytes :: "nat \<Rightarrow> nat \<Rightarrow> nat" where
  "bt_pair_bytes value_len key_len =
     (2 + key_len) + (if value_len < 10 then 2 else if value_len < 100 then 3 else 4) + value_len"

text \<open>
  The bencoding of a dictionary starts with \<open>d\<close>; that of string pairs has the size given by the
  formula.
\<close>

definition bt_size_law :: "oxenc \<Rightarrow> bool" where
  "bt_size_law X \<longleftrightarrow>
     (\<forall>kvs. bt_dict X kvs \<noteq> [] \<and> hd (bt_dict X kvs) = 100) \<and>
     (\<forall>kvs. (\<forall>(k, v) \<in> set kvs. length k \<le> 9 \<and> length v \<le> 999) \<longrightarrow>
        length (bt_dict X (map (\<lambda>(k, v). (k, BStr v)) kvs)) =
          2 + sum_list (map (\<lambda>(k, v). bt_pair_bytes (length v) (length k)) kvs))"

text \<open>
  A list of dictionaries is their encodings between \<open>l\<close> and \<open>e\<close>; a dictionary of one
  string under a key is written with decimal lengths.
\<close>

definition bt_list_law :: "oxenc \<Rightarrow> bool" where
  "bt_list_law X \<longleftrightarrow>
     (\<forall>c. bt_list_open X (108 # c) = Some c) \<and> bt_list_finish X [101] \<and>
     (\<forall>d rest. dict_wf d \<longrightarrow>
        bt_consume_dict X (bt_dict X d @ rest) = Some (bt_dict X d, rest) \<and>
        \<not> bt_list_finish X (bt_dict X d @ rest))"

definition bt_text_law :: "oxenc \<Rightarrow> bool" where
  "bt_text_law X \<longleftrightarrow>
     (\<forall>k v. bt_dict X [(k, BStr v)] =
        [100] @ dec (length k) @ [58] @ string_bytes k @ dec (length v) @ [58] @ v @ [101])"

definition endian_laws :: "oxenc \<Rightarrow> bool" where
  "endian_laws X \<longleftrightarrow>
     (\<forall>w. length (little16 X w) = 2 \<and> load_little16 X (little16 X w) = w) \<and>
     (\<forall>w. length (little32 X w) = 4 \<and> load_little32 X (little32 X w) = w) \<and>
     (\<forall>w. length (big32 X w) = 4 \<and> load_big32 X (big32 X w) = w)"

definition oxenc_laws :: "oxenc \<Rightarrow> bool" where
  "oxenc_laws X \<longleftrightarrow> bt_reader_law X \<and> bt_size_law X \<and> endian_laws X"

section \<open>Lemmas\<close>

lemma bt_requires_Nil_iff [simp]: "bt_requires X [] c = Some (vs, c') \<longleftrightarrow> vs = [] \<and> c' = c"
  by auto

lemma bt_requires_Cons_iff:
  "bt_requires X (k # ks) c = Some (v # vs, c'') \<longleftrightarrow>
     (\<exists>c'. bt_require X k c = Some (v, c') \<and> bt_requires X ks c' = Some (vs, c''))"
  by (auto split: option.splits prod.splits)

lemma pairs_after_Cons [simp]:
  "pairs_after k [] = []" "pairs_after k ((k, v) # kvs) = pairs_after k kvs"
  "k < k' \<Longrightarrow> pairs_after k ((k', v) # kvs) = (k', v) # kvs" "k' < k \<Longrightarrow> pairs_after k ((k', v) # kvs) = pairs_after k kvs"
  by (simp_all add: pairs_after_def)

lemma pairs_after_sorted: "dict_wf ((k, v) # kvs) \<Longrightarrow> pairs_after k kvs = kvs"
  by (cases kvs) (auto simp: dict_wf_def)

lemma dict_wf_simps [simp]:
  "dict_wf []"
  "dict_wf ((k, v) # kvs) \<longleftrightarrow> bt_wf v \<and> (\<forall>k' \<in> fst ` set kvs. k < k') \<and> dict_wf kvs"
  by (auto simp: dict_wf_def)

lemma bt_reader:
  assumes "bt_reader_law X" and "dict_wf kvs"
  shows "bt_open X (bt_dict X kvs) = Some (bt_at X kvs)"
    and "bt_require X k (bt_at X kvs) = map_option (\<lambda>v. (v, bt_at X (pairs_after k kvs))) (map_of kvs k)"
    and "bt_optional X k (bt_at X kvs) = (map_of kvs k, bt_at X (pairs_after k kvs))"
    and "bt_finish X (bt_at X kvs) \<longleftrightarrow> kvs = []"
  using assms by (simp_all add: bt_reader_law_def)

text \<open>Reading all keys in order gives the values back and leaves nothing over.\<close>

lemma bt_requires_all:
  assumes "bt_reader_law X"
  shows "dict_wf kvs \<Longrightarrow> bt_requires X (map fst kvs) (bt_at X kvs) = Some (map snd kvs, bt_at X [])"
proof (induction kvs)
  case (Cons kv kvs)
  obtain k v where kv: "kv = (k, v)" by (cases kv)
  have "pairs_after k kvs = kvs"
    using Cons.prems by (intro pairs_after_sorted [of k v]) (simp add: kv)
  then show ?case
    using Cons bt_reader(2) [OF assms Cons.prems, of k] by (simp add: kv)
qed simp

lemma bt_roundtrip:
  assumes "bt_reader_law X" and "sorted_wrt (<) (map fst kvs)" and "\<forall>v \<in> set (map snd kvs). bt_wf v"
  obtains c0 c where "bt_open X (bt_dict X kvs) = Some c0"
    and "bt_requires X (map fst kvs) c0 = Some (map snd kvs, c)" and "bt_finish X c"
proof -
  have "dict_wf kvs"
    using assms(2,3) by (simp add: dict_wf_def)
  then show thesis
    by (intro that [OF bt_reader(1) bt_requires_all]) (simp_all add: assms(1) bt_reader(4) [OF assms(1), of "[]"])
qed

lemma bt_read2:
  assumes "bt_reader_law X" and "k1 < k2"
  obtains c0 c1 c2 where "bt_open X (bt_dict X [(k1, BStr v1), (k2, BStr v2)]) = Some c0"
    "bt_require_str X k1 c0 = Some (v1, c1)" "bt_require_str X k2 c1 = Some (v2, c2)"
proof -
  let ?kvs = "[(k1, BStr v1), (k2, BStr v2)]"
  obtain c0 c where "bt_open X (bt_dict X ?kvs) = Some c0"
    and "bt_requires X (map fst ?kvs) c0 = Some (map snd ?kvs, c)"
    by (rule bt_roundtrip [of X ?kvs]) (use assms in \<open>auto intro: less_trans\<close>)
  then show thesis
    by (auto simp: bt_requires_Cons_iff bt_require_str_def simp del: bt_requires.simps
        intro!: that)
qed

text \<open>Reading back three and four string values, the shapes the path build frames use.\<close>

lemma bt_read3:
  assumes "bt_reader_law X" and "k1 < k2" and "k2 < k3"
  obtains c0 c1 c2 c3 where
    "bt_open X (bt_dict X [(k1, BStr v1), (k2, BStr v2), (k3, BStr v3)]) = Some c0"
    "bt_require_str X k1 c0 = Some (v1, c1)" "bt_require_str X k2 c1 = Some (v2, c2)"
    "bt_require_str X k3 c2 = Some (v3, c3)" "bt_finish X c3"
proof -
  let ?kvs = "[(k1, BStr v1), (k2, BStr v2), (k3, BStr v3)]"
  obtain c0 c where "bt_open X (bt_dict X ?kvs) = Some c0" and "bt_finish X c"
    and "bt_requires X (map fst ?kvs) c0 = Some (map snd ?kvs, c)"
    by (rule bt_roundtrip [of X ?kvs]) (use assms in \<open>auto intro: less_trans\<close>)
  then show thesis
    by (auto simp: bt_requires_Cons_iff bt_require_str_def simp del: bt_requires.simps
        intro!: that)
qed

lemma bt_read4:
  assumes "bt_reader_law X" and "k1 < k2" and "k2 < k3" and "k3 < k4"
  obtains c0 c1 c2 c3 c4 where
    "bt_open X (bt_dict X [(k1, BStr v1), (k2, BStr v2), (k3, BStr v3), (k4, BStr v4)]) = Some c0"
    "bt_require_str X k1 c0 = Some (v1, c1)" "bt_require_str X k2 c1 = Some (v2, c2)"
    "bt_require_str X k3 c2 = Some (v3, c3)" "bt_require_str X k4 c3 = Some (v4, c4)"
proof -
  let ?kvs = "[(k1, BStr v1), (k2, BStr v2), (k3, BStr v3), (k4, BStr v4)]"
  obtain c0 c where "bt_open X (bt_dict X ?kvs) = Some c0"
    and "bt_requires X (map fst ?kvs) c0 = Some (map snd ?kvs, c)"
    by (rule bt_roundtrip [of X ?kvs]) (use assms in \<open>auto intro: less_trans\<close>)
  then show thesis
    by (auto simp: bt_requires_Cons_iff bt_require_str_def simp del: bt_requires.simps
        intro!: that)
qed

end
