(* ===== verification/Relay_Contact.thy ===== *)
theory Relay_Contact
  imports Crypto Oxenc
begin

text \<open>
  Relay contacts (\<^verbatim>\<open>contact/relay_contact.hpp\<close>, \<^verbatim>\<open>contact/relay_contact.cpp\<close>): the signed
  record by which a relay is known, its serialisation, and its age predicates.
\<close>

section \<open>The record\<close>

text \<open>
  A \<^verbatim>\<open>quic::Address\<close> that came from an RC is its packed form: IPv4 or IPv6 address bytes
  followed by the two port bytes, both in network order.
\<close>

type_synonym packed_addr = bytes

record relay_contact =
  rc_router_id :: router_id
  rc_addr :: packed_addr
  rc_addr6 :: "packed_addr option"
  rc_timestamp :: int \<comment> \<open>\<^verbatim>\<open>sys_seconds\<close>\<close>
  rc_netid :: int
  rc_version :: "byte list" \<comment> \<open>major, minor, patch\<close>
  rc_payload :: bytes

definition RC_VERSION :: int where "RC_VERSION = 0"
definition MAX_RC_SIZE :: nat where "MAX_RC_SIZE = 2048"
definition OUTDATED_AGE :: ms where "OUTDATED_AGE = 12 * 60 * 60 * 1000"
definition RC_LIFETIME :: ms where "RC_LIFETIME = 30 * 24 * 60 * 60 * 1000"
definition MIN_GOSSIP_RC_AGE :: int where "MIN_GOSSIP_RC_AGE = 60" \<comment> \<open>seconds\<close>

text \<open>The creation time as a millisecond time point.\<close>

definition rc_time_ms :: "relay_contact \<Rightarrow> ms" where
  "rc_time_ms rc = rc_timestamp rc * 1000"

section \<open>Age predicates\<close>

definition is_outdated :: "relay_contact \<Rightarrow> ms \<Rightarrow> bool" where
  "is_outdated rc now \<longleftrightarrow> rc_time_ms rc + OUTDATED_AGE \<le> now"

definition rc_is_expired :: "relay_contact \<Rightarrow> ms \<Rightarrow> bool" where
  "rc_is_expired rc now \<longleftrightarrow> rc_time_ms rc + RC_LIFETIME \<le> now"

definition time_to_expiry :: "relay_contact \<Rightarrow> ms \<Rightarrow> ms" where
  "time_to_expiry rc now =
     (let expiry = rc_time_ms rc + RC_LIFETIME in if now < expiry then expiry - now else 0)"

definition rc_age :: "relay_contact \<Rightarrow> ms \<Rightarrow> ms" where
  "rc_age rc now = (let delta = now - rc_time_ms rc in if 0 < delta then delta else 0)"

definition expires_within_delta :: "relay_contact \<Rightarrow> ms \<Rightarrow> ms \<Rightarrow> bool" where
  "expires_within_delta rc now dlt \<longleftrightarrow> time_to_expiry rc now \<le> dlt"

definition newer_than :: "relay_contact \<Rightarrow> relay_contact \<Rightarrow> int \<Rightarrow> bool" where
  "newer_than rc other at_least \<longleftrightarrow> at_least \<le> rc_timestamp rc - rc_timestamp other"

definition address_changed :: "relay_contact \<Rightarrow> relay_contact \<Rightarrow> bool" where
  "address_changed rc other \<longleftrightarrow> (rc_addr rc, rc_addr6 rc) \<noteq> (rc_addr other, rc_addr6 other)"

text \<open>
  Comparison of \<^verbatim>\<open>std::array<uint8_t, 3>\<close> versions (lexicographic, \<^verbatim>\<open>operator>=\<close>).
\<close>

fun version_ge :: "byte list \<Rightarrow> byte list \<Rightarrow> bool" where
  "version_ge [] [] = True"
| "version_ge (a # as) (b # bs) = (if a = b then version_ge as bs else b < a)"
| "version_ge (_ # _) [] = True"
| "version_ge [] (_ # _) = False"

section \<open>Parsing\<close>

datatype rc_error = RcMalformed | RcVersion | RcNetid | RcAddress | RcBogon | RcPubkey
  | RcRouterVersion | RcSignature | RcExpired | RcTrailing | RcTooBig

text \<open>
  What \<^verbatim>\<open>RelayContact::load\<close> needs beside the dictionary reader: optional reads
  (\<^verbatim>\<open>maybe\<close>), the signed prefix of the payload, routability of an address
  (\<^verbatim>\<open>quic::Address::is_public\<close>) and the Ed25519 verification.
\<close>

record rc_env =
  bt_maybe :: "string \<Rightarrow> bytes \<Rightarrow> bt_value option \<times> bytes"
    \<comment> \<open>optional read: skips to the key if present\<close>
  bt_require_signature :: "bytes \<Rightarrow> bytes \<Rightarrow> (bytes \<times> bytes \<times> bytes) option"
    \<comment> \<open>payload and consumer to signed message, signature and the consumer after it\<close>
  bt_is_finished :: "bytes \<Rightarrow> bool"
  addr_is_public :: "packed_addr \<Rightarrow> bool"
  verify :: "router_id \<Rightarrow> bytes \<Rightarrow> bytes \<Rightarrow> bool"
    \<comment> \<open>public key, message, signature\<close>

definition rc_maybe_int :: "rc_env \<Rightarrow> int \<Rightarrow> int \<Rightarrow> int \<Rightarrow> string \<Rightarrow> bytes \<Rightarrow> (int \<times> bytes) option" where
  "rc_maybe_int E lo hi dflt key c =
     (case bt_maybe E key c of
        (None, c') \<Rightarrow> Some (dflt, c')
      | (Some (BInt v), c') \<Rightarrow> if lo \<le> v \<and> v \<le> hi then Some (v, c') else None
      | (Some _, c') \<Rightarrow> None)"

definition rc_maybe_str :: "rc_env \<Rightarrow> string \<Rightarrow> bytes \<Rightarrow> (bytes option \<times> bytes) option" where
  "rc_maybe_str E key c =
     (case bt_maybe E key c of
        (None, c') \<Rightarrow> Some (None, c')
      | (Some (BStr v), c') \<Rightarrow> Some (Some v, c')
      | (Some _, c') \<Rightarrow> None)"

text \<open>
  \<^verbatim>\<open>RelayContact::load\<close>, in the order of its reads and checks.  \<open>block_bogons\<close> is the
  static flag \<^verbatim>\<open>BLOCK_BOGONS\<close>; \<open>now\<close> the clock reading of the signature callback.
\<close>

definition rc_load_signature ::
  "rc_env \<Rightarrow> bytes \<Rightarrow> bytes \<Rightarrow> bool \<Rightarrow> ms \<Rightarrow> relay_contact \<Rightarrow> rc_error + relay_contact" where
  "rc_load_signature E payload c accept_expired now rc =
     (case bt_require_signature E payload c of
        None \<Rightarrow> Inl RcMalformed
      | Some (msg, sig, c') \<Rightarrow>
          if length sig \<noteq> 64 then Inl RcSignature
          else if \<not> accept_expired \<and> rc_is_expired rc now then Inl RcExpired
          else if \<not> verify E (rc_router_id rc) msg sig then Inl RcSignature
          else if \<not> bt_is_finished E c' then Inl RcTrailing
          else Inr rc)"

definition rc_load_identity ::
  "oxenc \<Rightarrow> rc_env \<Rightarrow> bytes \<Rightarrow> bytes \<Rightarrow> bool \<Rightarrow> ms \<Rightarrow> int \<Rightarrow> packed_addr \<Rightarrow> packed_addr option \<Rightarrow>
     rc_error + relay_contact" where
  "rc_load_identity X E payload c accept_expired now netid addr addr6 =
     (case bt_require_str X ''p'' c of
        None \<Rightarrow> Inl RcMalformed
      | Some (pubkey, c) \<Rightarrow>
          if length pubkey \<noteq> 32 then Inl RcPubkey
          else (case bt_require_int X 0 (2 ^ 64 - 1) ''t'' c of
                  None \<Rightarrow> Inl RcMalformed
                | Some (t, c) \<Rightarrow>
                    (case bt_require_str X ''v'' c of
                       None \<Rightarrow> Inl RcMalformed
                     | Some (ver, c) \<Rightarrow>
                         if length ver \<noteq> 3 then Inl RcRouterVersion
                         else rc_load_signature E payload c accept_expired now
                                \<lparr>rc_router_id = pubkey, rc_addr = addr, rc_addr6 = addr6,
                                 rc_timestamp = t, rc_netid = netid, rc_version = ver,
                                 rc_payload = payload\<rparr>)))"

definition rc_load ::
  "oxenc \<Rightarrow> rc_env \<Rightarrow> bool \<Rightarrow> bytes \<Rightarrow> int \<Rightarrow> bool \<Rightarrow> ms \<Rightarrow> rc_error + relay_contact" where
  "rc_load X E block_bogons payload netid accept_expired now =
     (case bt_open X payload of
        None \<Rightarrow> Inl RcMalformed
      | Some c \<Rightarrow>
     (case rc_maybe_int E 0 255 0 '''' c of
        None \<Rightarrow> Inl RcMalformed
      | Some (rc_ver, c) \<Rightarrow>
          if rc_ver \<noteq> RC_VERSION then Inl RcVersion
          else
     (case rc_maybe_int E (- (2 ^ 31)) (2 ^ 31 - 1) 0 ''#'' c of
        None \<Rightarrow> Inl RcMalformed
      | Some (parsed_netid, c) \<Rightarrow>
          if netid \<noteq> parsed_netid then Inl RcNetid
          else
     (case bt_require_str X ''4'' c of
        None \<Rightarrow> Inl RcMalformed
      | Some (addr, c) \<Rightarrow>
          if length addr \<noteq> 6 then Inl RcAddress
          else if \<not> addr_is_public E addr \<and> block_bogons then Inl RcBogon
          else
     (case rc_maybe_str E ''6'' c of
        None \<Rightarrow> Inl RcMalformed
      | Some (None, c) \<Rightarrow> rc_load_identity X E payload c accept_expired now netid addr None
      | Some (Some addr6, c) \<Rightarrow>
          if length addr6 \<noteq> 18 then Inl RcAddress
          else if \<not> addr_is_public E addr6 then Inl RcBogon
          else rc_load_identity X E payload c accept_expired now netid addr (Some addr6))))))"

text \<open>The parsing constructor refuses oversized input before reading it.\<close>

definition rc_parse ::
  "oxenc \<Rightarrow> rc_env \<Rightarrow> bool \<Rightarrow> bytes \<Rightarrow> int \<Rightarrow> bool \<Rightarrow> ms \<Rightarrow> rc_error + relay_contact" where
  "rc_parse X E block_bogons data netid accept_expired now =
     (if MAX_RC_SIZE < length data then Inl RcTooBig
      else rc_load X E block_bogons data netid accept_expired now)"

section \<open>Lemmas\<close>

lemmas rc_age_defs = is_outdated_def rc_is_expired_def time_to_expiry_def rc_age_def
  expires_within_delta_def newer_than_def rc_time_ms_def OUTDATED_AGE_def RC_LIFETIME_def

lemma version_ge_refl [simp]: "version_ge v v"
  by (induction v) auto

lemma version_ge_total: "version_ge a b \<or> version_ge b a"
  by (induction a b rule: version_ge.induct) auto

lemma version_ge_antisym: "version_ge a b \<Longrightarrow> version_ge b a \<Longrightarrow> a = b"
  by (induction a b rule: version_ge.induct) (auto split: if_splits)

lemma version_ge_trans: "version_ge a b \<Longrightarrow> version_ge b c \<Longrightarrow> version_ge a c"
proof (induction a b arbitrary: c rule: version_ge.induct)
  case (2 a as b bs)
  then show ?case by (cases c) (auto split: if_splits)
qed (auto elim: version_ge.elims)

text \<open>The payload carries a 64-byte signature of its signed part that verifies under the key.\<close>

definition rc_signed_by :: "rc_env \<Rightarrow> bytes \<Rightarrow> router_id \<Rightarrow> bool" where
  "rc_signed_by E payload rid \<longleftrightarrow>
     (\<exists>c msg sig c'. bt_require_signature E payload c = Some (msg, sig, c') \<and>
        length sig = 64 \<and> verify E rid msg sig)"

lemma rc_signed_byI:
  "bt_require_signature E payload c = Some (msg, sig, c') \<Longrightarrow> length sig = 64 \<Longrightarrow> verify E rid msg sig \<Longrightarrow>
     rc_signed_by E payload rid"
  unfolding rc_signed_by_def by blast

lemma rc_load_signature_Inr:
  "rc_load_signature E payload c ae now rc = Inr r \<Longrightarrow>
     r = rc \<and> rc_signed_by E payload (rc_router_id rc) \<and> (ae \<or> \<not> rc_is_expired rc now)"
  by (auto simp: rc_load_signature_def split: option.splits if_splits intro: rc_signed_byI)

lemma rc_load_identity_Inr:
  assumes "rc_load_identity X E payload c ae now netid addr addr6 = Inr r"
  shows "rc_addr r = addr \<and> rc_addr6 r = addr6 \<and> rc_netid r = netid \<and> rc_payload r = payload \<and>
     length (rc_router_id r) = 32 \<and> length (rc_version r) = 3 \<and> 0 \<le> rc_timestamp r \<and>
     rc_signed_by E payload (rc_router_id r) \<and> (ae \<or> \<not> rc_is_expired r now)"
  using assms
  by (auto simp: rc_load_identity_def bt_require_int_def split: option.splits if_splits bt_value.splits
      dest!: rc_load_signature_Inr)

text \<open>What an accepted RC guarantees: the fields have their sizes and the signature verified.\<close>

lemma rc_load_Inr:
  assumes "rc_load X E bb payload netid ae now = Inr r"
  shows "length (rc_addr r) = 6 \<and> rc_netid r = netid \<and> rc_payload r = payload \<and>
     (\<forall>a. rc_addr6 r = Some a \<longrightarrow> length a = 18 \<and> addr_is_public E a) \<and>
     (bb \<longrightarrow> addr_is_public E (rc_addr r)) \<and>
     length (rc_router_id r) = 32 \<and> length (rc_version r) = 3 \<and> 0 \<le> rc_timestamp r \<and>
     rc_signed_by E payload (rc_router_id r) \<and> (ae \<or> \<not> rc_is_expired r now)"
  using assms
  by (auto simp: rc_load_def split: option.splits if_splits dest!: rc_load_identity_Inr)

end
