(* ===== verification/Path.thy ===== *)
theory Path
  imports Relay_Contact
begin

text \<open>
  Transit hops and paths (\<^verbatim>\<open>path/transit_hop.hpp\<close>, \<^verbatim>\<open>path/transit_hop.cpp\<close>,
  \<^verbatim>\<open>path/path.hpp\<close>, \<^verbatim>\<open>path/path.cpp\<close>): construction of a path from the selected relays,
  the layered encryption of the messages a client sends down a path and of the responses it
  receives, and the ping bookkeeping that expires a dead path.
\<close>

section \<open>Constants (\<^verbatim>\<open>constants/path.hpp\<close>)\<close>

definition BUILD_LENGTH :: nat where "BUILD_LENGTH = 8"
definition BUILD_FRAME_SIZE_V0 :: nat where "BUILD_FRAME_SIZE_V0 = 169"
definition BUILD_FRAME_SIZE_V1 :: nat where "BUILD_FRAME_SIZE_V1 = 115"
definition BUILD_FRAME_SIZE_MIN :: nat where "BUILD_FRAME_SIZE_MIN = BUILD_FRAME_SIZE_V1"
definition BUILD_FRAME_SIZE_MAX :: nat where "BUILD_FRAME_SIZE_MAX = 256"
definition BUILD_FRAME_SIZE :: nat where "BUILD_FRAME_SIZE = BUILD_FRAME_SIZE_V0"
definition BUILD_FRAME_V1_MIN_VERSION :: "byte list" where "BUILD_FRAME_V1_MIN_VERSION = [1, 1, 0]"
definition MAX_LIFETIME :: ms where "MAX_LIFETIME = 20 * 60 * 1000"
definition MAX_LIFETIME_FUZZ :: ms where "MAX_LIFETIME_FUZZ = 3 * 60 * 1000"
definition MAX_LIFETIME_ACCEPTED :: ms where
  "MAX_LIFETIME_ACCEPTED = MAX_LIFETIME + MAX_LIFETIME_FUZZ"
definition CC_PUBLISH_LOCATIONS :: nat where "CC_PUBLISH_LOCATIONS = 4"

lemmas build_consts = BUILD_LENGTH_def BUILD_FRAME_SIZE_V0_def BUILD_FRAME_SIZE_V1_def
  BUILD_FRAME_SIZE_MIN_def BUILD_FRAME_SIZE_MAX_def BUILD_FRAME_SIZE_def
lemmas lifetime_consts = MAX_LIFETIME_def MAX_LIFETIME_FUZZ_def MAX_LIFETIME_ACCEPTED_def

text \<open>\<^verbatim>\<open>sys_ms::min()\<close>.\<close>

definition SYS_MS_MIN :: ms where "SYS_MS_MIN = - (2 ^ 63)"

section \<open>Transit hops\<close>

text \<open>\<^verbatim>\<open>std::variant<RouterID, quic::ConnectionID>\<close>: a relay, or the connection of a client.\<close>

datatype peer = PeerRelay router_id | PeerConn nat

record transit_hop =
  txid :: hop_id
  rxid :: hop_id
  upstream :: router_id
  router_id :: router_id
  downstream :: peer
  shared_secret :: symm_key
  xor_nonce :: symm_nonce
  expiry :: ms
  last_activity :: ms
  version :: nat
  terminal_hop :: bool
  hop_dead :: bool

definition transit_hop_default :: transit_hop where
  "transit_hop_default =
     \<lparr>txid = buf_zero HOPID_SIZE, rxid = buf_zero HOPID_SIZE, upstream = buf_zero PUBKEY_SIZE,
      router_id = buf_zero PUBKEY_SIZE, downstream = PeerRelay (buf_zero PUBKEY_SIZE),
      shared_secret = buf_zero SYMM_KEY_SIZE, xor_nonce = buf_zero SYMM_NONCE_SIZE,
      expiry = SYS_MS_MIN, last_activity = SYS_MS_MIN, version = 0, terminal_hop = False,
      hop_dead = False\<rparr>"

datatype transit_hop_error = INVALID_DATA | DH_PUBKEY | INVALID_PAYLOAD | INVALID_HOP_ID
  | HOP_ID_UNAVAILABLE | INVALID_LIFETIME | UPSTREAM_UNREACHABLE

text \<open>
  \<^verbatim>\<open>TransitHop::next_id\<close>: messages that arrived under the rxid go upstream, all others
  (the assertion says: those under the txid) downstream.
\<close>

definition next_id :: "transit_hop \<Rightarrow> hop_id \<Rightarrow> peer \<times> hop_id" where
  "next_id hop h = (if h = rxid hop then (PeerRelay (upstream hop), txid hop) else (downstream hop, rxid hop))"

definition same_transit :: "transit_hop \<Rightarrow> transit_hop \<Rightarrow> bool" where
  "same_transit a b \<longleftrightarrow> txid a = txid b \<and> rxid a = rxid b \<and> upstream a = upstream b \<and> downstream a = downstream b"

definition hop_is_expired :: "transit_hop \<Rightarrow> ms \<Rightarrow> bool" where
  "hop_is_expired hop now \<longleftrightarrow> expiry hop \<le> now"

section \<open>Paths\<close>

record path =
  hops :: "transit_hop list"
  aligned_hopid :: "hop_id option"
  is_built :: bool
  is_established :: bool
  is_dead :: bool
  path_expiry :: ms
  next_ping :: ms
  ping_responses :: int
  ping_timeouts :: int
  ping_recent_timeouts :: int
  ping_last :: ms
  ping_cumulative :: ms
  ping_abs_diffs :: ms

text \<open>
  \<^verbatim>\<open>Path::Path\<close>: hop \<open>i\<close> receives under the id under which hop \<open>i - 1\<close> sends; the last hop
  is its own upstream and uses one id for both directions.  \<open>rnd k\<close> is the \<open>k\<close>-th
  \<^verbatim>\<open>HopID::make_random()\<close>.  An empty list of relays has no last element (the caller,
  \<^verbatim>\<open>PathHandler::can_build\<close>, refuses it).
\<close>

definition frame_version_of :: "relay_contact \<Rightarrow> nat" where
  "frame_version_of rc = (if version_ge (rc_version rc) BUILD_FRAME_V1_MIN_VERSION then 1 else 0)"

fun path_hops :: "(nat \<Rightarrow> hop_id) \<Rightarrow> nat \<Rightarrow> router_id \<Rightarrow> hop_id \<Rightarrow> relay_contact list \<Rightarrow> transit_hop list" where
  "path_hops rnd k prev rx [] = []"
| "path_hops rnd k prev rx [rc] =
     [transit_hop_default\<lparr>router_id := rc_router_id rc, rxid := rx, txid := rx,
        upstream := rc_router_id rc, downstream := PeerRelay prev,
        version := frame_version_of rc, terminal_hop := True\<rparr>]"
| "path_hops rnd k prev rx (rc # rc' # rcs) =
     transit_hop_default\<lparr>router_id := rc_router_id rc, rxid := rx, txid := rnd k,
        upstream := rc_router_id rc', downstream := PeerRelay prev,
        version := frame_version_of rc\<rparr>
     # path_hops rnd (Suc k) (rc_router_id rc) (rnd k) (rc' # rcs)"

definition path_new :: "router_id \<Rightarrow> (nat \<Rightarrow> hop_id) \<Rightarrow> relay_contact list \<Rightarrow> ms \<Rightarrow> path" where
  "path_new self rnd hop_rcs expiry_ts =
     \<lparr>hops = path_hops rnd 1 self (rnd 0) hop_rcs, aligned_hopid = None, is_built = False, is_established = False,
      is_dead = False, path_expiry = expiry_ts, next_ping = 0, ping_responses = 0,
      ping_timeouts = 0, ping_recent_timeouts = 0, ping_last = 0, ping_cumulative = 0,
      ping_abs_diffs = 0\<rparr>"

definition edge :: "path \<Rightarrow> transit_hop" where "edge p = hd (hops p)"
definition terminus :: "path \<Rightarrow> transit_hop" where "terminus p = last (hops p)"
definition terminal_rid :: "path \<Rightarrow> router_id" where "terminal_rid p = router_id (terminus p)"
definition terminal_hopid :: "path \<Rightarrow> hop_id" where "terminal_hopid p = txid (terminus p)"

definition is_expired :: "path \<Rightarrow> ms \<Rightarrow> bool" where "is_expired p now \<longleftrightarrow> path_expiry p < now"
definition is_active :: "path \<Rightarrow> ms \<Rightarrow> bool" where
  "is_active p now \<longleftrightarrow> is_established p \<and> \<not> is_expired p now"
definition expires_in :: "path \<Rightarrow> ms \<Rightarrow> ms" where "expires_in p now = path_expiry p - now"

text \<open>\<^verbatim>\<open>Path::set_built\<close>: true only for the first caller.\<close>

definition set_built :: "path \<Rightarrow> bool \<times> path" where
  "set_built p = (\<not> is_built p, p\<lparr>is_built := True\<rparr>)"

definition set_established :: "path \<Rightarrow> path" where
  "set_established p = (if is_established p then p else p\<lparr>is_established := True\<rparr>)"

text \<open>\<^verbatim>\<open>Path::operator==\<close>.\<close>

definition path_eq :: "path \<Rightarrow> path \<Rightarrow> bool" where
  "path_eq p q \<longleftrightarrow> list_all2 same_transit (hops p) (hops q)"

subsection \<open>Client introductions\<close>

record client_intro =
  intro_relay :: router_id
  intro_hop :: hop_id
  intro_expiry :: int \<comment> \<open>seconds\<close>

definition make_intro :: "path \<Rightarrow> client_intro" where
  "make_intro p =
     \<lparr>intro_relay = router_id (terminus p), intro_hop = txid (terminus p),
      intro_expiry = path_expiry p div 1000\<rparr>"

subsection \<open>Pings\<close>

text \<open>
  \<^verbatim>\<open>Path::do_ping\<close>: whether a \<^verbatim>\<open>path_ping\<close> is sent, and the path afterwards.  \<open>sys_now\<close> is
  the system clock read by \<^verbatim>\<open>is_active\<close>, \<open>start_time\<close> the steady clock.
\<close>

definition do_ping :: "ms \<Rightarrow> ms \<Rightarrow> ms \<Rightarrow> path \<Rightarrow> bool \<times> path" where
  "do_ping ping_interval sys_now start_time p =
     (if \<not> is_active p sys_now \<or> start_time < next_ping p then (False, p)
      else (True, p\<lparr>next_ping := start_time + ping_interval - 20\<rparr>))"

record path_control_response =
  pcr_body :: bytes
  pcr_timed_out :: bool
  pcr_error :: bool

definition ok :: "path_control_response \<Rightarrow> bool" where
  "ok r \<longleftrightarrow> \<not> pcr_timed_out r \<and> \<not> pcr_error r"

text \<open>
  The response callback of \<^verbatim>\<open>do_ping\<close>: counters on success; on a timeout the path expires
  after more than \<^verbatim>\<open>max_missed_pings\<close> consecutive ones, on any other error at once
  (\<^verbatim>\<open>_expiry = {}\<close>, the epoch).
\<close>

definition ping_response :: "int \<Rightarrow> ms \<Rightarrow> path_control_response \<Rightarrow> path \<Rightarrow> path" where
  "ping_response max_missed_pings time_taken resp p =
     (if ok resp then
        (let n = ping_responses p + 1 in
         p\<lparr>ping_responses := n,
           ping_abs_diffs := (if 1 < n then ping_abs_diffs p + \<bar>time_taken - ping_last p\<bar> else ping_abs_diffs p),
           ping_last := time_taken,
           ping_recent_timeouts := 0,
           ping_cumulative := ping_cumulative p + time_taken\<rparr>)
      else if pcr_timed_out resp then
        (let n = ping_recent_timeouts p + 1;
             q = p\<lparr>ping_timeouts := ping_timeouts p + 1, ping_recent_timeouts := n\<rparr>
         in if max_missed_pings < n then q\<lparr>path_expiry := 0\<rparr> else q)
      else p\<lparr>path_expiry := 0\<rparr>)"

section \<open>Layered encryption of path messages\<close>

text \<open>\<^verbatim>\<open>MessageType\<close>: the trailing type byte of data and control messages.\<close>

definition MSG_DATA :: byte where "MSG_DATA = 1"
definition MSG_CONTROL_MIN :: byte where "MSG_CONTROL_MIN = 1"
definition MSG_CONTROL :: byte where "MSG_CONTROL = 1"
definition MSG_SESSION_HANDSHAKE :: byte where "MSG_SESSION_HANDSHAKE = 2"
definition MSG_CONTROL_MAX :: byte where "MSG_CONTROL_MAX = 2"

lemmas msg_defs = MSG_DATA_def MSG_CONTROL_MIN_def MSG_CONTROL_def MSG_SESSION_HANDSHAKE_def
  MSG_CONTROL_MAX_def

definition ENCRYPT_PATH_MESSAGE_OVERHEAD :: nat where
  "ENCRYPT_PATH_MESSAGE_OVERHEAD = SYMM_NONCE_SIZE + HOPID_SIZE + 1"
definition ENCRYPT_PATH_MESSAGE_OVERHEAD_MAC :: nat where
  "ENCRYPT_PATH_MESSAGE_OVERHEAD_MAC = ENCRYPT_PATH_MESSAGE_OVERHEAD + TAG_SIZE"

lemmas overhead_defs = ENCRYPT_PATH_MESSAGE_OVERHEAD_def ENCRYPT_PATH_MESSAGE_OVERHEAD_MAC_def

text \<open>
  The loop of \<^verbatim>\<open>Path::encrypt_path_message\<close> over the hops from the terminus to the edge.
  \<open>mac\<close> is \<^verbatim>\<open>first && with_mac\<close>: the terminus layer is authenticated when a tag is wanted.
\<close>

fun encrypt_layers :: "sodium \<Rightarrow> bool \<Rightarrow> transit_hop list \<Rightarrow> bytes \<Rightarrow> symm_nonce \<Rightarrow> (bytes \<times> symm_nonce) option" where
  "encrypt_layers S mac [] payload nonce = Some (payload, nonce)"
| "encrypt_layers S mac (hop # hs) payload nonce =
     (if mac then
        (case xchacha20_poly1305_encrypt_inplace S payload (shared_secret hop) nonce [] of
           None \<Rightarrow> None
         | Some payload' \<Rightarrow> encrypt_layers S False hs payload' (buf_xor nonce (xor_nonce hop)))
      else encrypt_layers S False hs (xchacha20 S payload (shared_secret hop) nonce)
             (buf_xor nonce (xor_nonce hop)))"

definition encrypt_path_message ::
  "sodium \<Rightarrow> path \<Rightarrow> bytes \<Rightarrow> symm_nonce \<Rightarrow> byte \<Rightarrow> bool \<Rightarrow> bytes option" where
  "encrypt_path_message S p data nonce type with_mac =
     (let hopid = rxid (edge p);
          inner = data @ (if with_mac then replicate TAG_SIZE 0 else [])
      in case encrypt_layers S with_mac (rev (hops p)) inner nonce of
           None \<Rightarrow> None
         | Some (inner_payload, nonce') \<Rightarrow> Some (inner_payload @ nonce' @ hopid @ [type]))"

text \<open>
  \<^verbatim>\<open>Path::decrypt_path_message\<close>: undo the layers from the edge on, then verify and open the
  terminus layer.  Failures give the empty string.
\<close>

fun decrypt_layers :: "sodium \<Rightarrow> transit_hop list \<Rightarrow> bytes \<Rightarrow> symm_nonce \<Rightarrow> bytes option" where
  "decrypt_layers S [] payload nonce = None"
| "decrypt_layers S [hop] payload nonce =
     xchacha20_poly1305_decrypt_inplace S payload (shared_secret hop) (buf_xor nonce (xor_nonce hop)) []"
| "decrypt_layers S (hop # h' # hs) payload nonce =
     (let nonce' = buf_xor nonce (xor_nonce hop)
      in decrypt_layers S (h' # hs) (xchacha20 S payload (shared_secret hop) nonce') nonce')"

definition decrypt_path_message :: "sodium \<Rightarrow> path \<Rightarrow> bytes \<Rightarrow> bytes" where
  "decrypt_path_message S p payload =
     (if length payload \<le> ENCRYPT_PATH_MESSAGE_OVERHEAD_MAC then []
      else case split_span_tail [SYMM_NONCE_SIZE, HOPID_SIZE, 1] payload of
             Some (inner_payload, [bnonce, bhop, msgtype]) \<Rightarrow>
               (case decrypt_layers S (hops p) inner_payload bnonce of
                  Some decrypted \<Rightarrow> decrypted
                | None \<Rightarrow> [])
           | _ \<Rightarrow> [])"

subsection \<open>Sending\<close>

text \<open>What a path hands to the link layer: a datagram or a command for the edge relay.\<close>

datatype link_send =
    SendDatagram peer bytes
  | SendCommand peer string bytes

definition send_path_data_message :: "sodium \<Rightarrow> path \<Rightarrow> bytes \<Rightarrow> symm_nonce \<Rightarrow> link_send option" where
  "send_path_data_message S p data nonce =
     map_option (SendDatagram (PeerRelay (router_id (edge p))))
       (encrypt_path_message S p data nonce MSG_DATA False)"

definition send_path_control_message ::
  "sodium \<Rightarrow> oxenc \<Rightarrow> path \<Rightarrow> bytes \<Rightarrow> bytes \<Rightarrow> symm_nonce \<Rightarrow> link_send option" where
  "send_path_control_message S X p method msg_body nonce =
     (let inner_payload = bt_dict X [(''e'', BStr method), (''p'', BStr msg_body)]
      in map_option (SendCommand (PeerRelay (router_id (edge p))) ''path_control'')
           (encrypt_path_message S p inner_payload nonce MSG_CONTROL True))"

definition send_session_control_message ::
  "sodium \<Rightarrow> path \<Rightarrow> bytes \<Rightarrow> symm_nonce \<Rightarrow> byte \<Rightarrow> link_send option" where
  "send_session_control_message S p msg_body nonce type =
     map_option (SendCommand (PeerRelay (router_id (edge p))) ''session_control'')
       (encrypt_path_message S p msg_body nonce type False)"

text \<open>
  The requests of \<^verbatim>\<open>Path::find_client_contact\<close>, \<^verbatim>\<open>publish_client_contact\<close> and
  \<^verbatim>\<open>resolve_sns\<close> are control messages with these bodies.
\<close>

definition find_client_contact ::
  "sodium \<Rightarrow> oxenc \<Rightarrow> path \<Rightarrow> bytes \<Rightarrow> int \<Rightarrow> symm_nonce \<Rightarrow> link_send option" where
  "find_client_contact S X p blinded_pk lookup_index nonce =
     send_path_control_message S X p (string_bytes ''find_cc'')
       (bt_dict X [(''k'', BStr blinded_pk), (''n'', BInt lookup_index)]) nonce"

definition publish_client_contact ::
  "sodium \<Rightarrow> oxenc \<Rightarrow> path \<Rightarrow> bytes \<Rightarrow> int \<Rightarrow> symm_nonce \<Rightarrow> link_send option" where
  "publish_client_contact S X p encrypted_cc location nonce =
     send_path_control_message S X p (string_bytes ''publish_cc'')
       (bt_dict X [(''e'', BStr encrypted_cc), (''n'', BInt location)]) nonce"

definition resolve_sns :: "sodium \<Rightarrow> oxenc \<Rightarrow> path \<Rightarrow> bytes \<Rightarrow> symm_nonce \<Rightarrow> link_send option" where
  "resolve_sns S X p name_hash nonce =
     send_path_control_message S X p (string_bytes ''resolve_sns'')
       (bt_dict X [(''s'', BStr name_hash)]) nonce"

text \<open>
  An incoming response (\<^verbatim>\<open>quic::message\<close>) and the decryptor of
  \<^verbatim>\<open>send_path_control_message\<close>.  The path may be gone (\<open>None\<close>) when it arrives.
\<close>

datatype response = RespOk bytes | RespError bytes | RespTimeout

fun response_body :: "response \<Rightarrow> bytes" where
  "response_body (RespOk b) = b"
| "response_body (RespError b) = b"
| "response_body RespTimeout = []"

definition control_response :: "sodium \<Rightarrow> path option \<Rightarrow> response \<Rightarrow> path_control_response" where
  "control_response S self m =
     (case self of
        None \<Rightarrow> \<lparr>pcr_body = [], pcr_timed_out = True, pcr_error = False\<rparr>
      | Some p \<Rightarrow>
          (case m of
             RespOk b \<Rightarrow> \<lparr>pcr_body = decrypt_path_message S p b, pcr_timed_out = False, pcr_error = False\<rparr>
           | RespError b \<Rightarrow> \<lparr>pcr_body = b, pcr_timed_out = False, pcr_error = True\<rparr>
           | RespTimeout \<Rightarrow> \<lparr>pcr_body = response_body m, pcr_timed_out = True, pcr_error = True\<rparr>))"

section \<open>Lemmas on path construction\<close>

lemma length_path_hops [simp]: "length (path_hops rnd k prev rx rcs) = length rcs"
  by (induction rnd k prev rx rcs rule: path_hops.induct) auto

lemma path_hops_eq_Nil [simp]: "path_hops rnd k prev rx rcs = [] \<longleftrightarrow> rcs = []"
  by (metis length_0_conv length_path_hops)

lemma path_hops_router_ids: "map router_id (path_hops rnd k prev rx rcs) = map rc_router_id rcs"
  by (induction rnd k prev rx rcs rule: path_hops.induct) auto

text \<open>
  Consecutive hops are joined: each sends under the id the next one receives under, knows
  the next one as its upstream and is known to it as its downstream; only the last hop is
  terminal, and it is its own upstream.
\<close>

fun hops_linked :: "peer \<Rightarrow> hop_id \<Rightarrow> transit_hop list \<Rightarrow> bool" where
  "hops_linked prev rx [] = False"
| "hops_linked prev rx [h] \<longleftrightarrow>
     downstream h = prev \<and> rxid h = rx \<and> txid h = rx \<and> upstream h = router_id h \<and> terminal_hop h"
| "hops_linked prev rx (h # h' # hs) \<longleftrightarrow>
     downstream h = prev \<and> rxid h = rx \<and> upstream h = router_id h' \<and> \<not> terminal_hop h \<and>
     hops_linked (PeerRelay (router_id h)) (txid h) (h' # hs)"

lemma path_hops_hd: "router_id (hd (path_hops rnd k prev rx (rc # rcs))) = rc_router_id rc"
  by (cases rcs) auto

lemma path_hops_linked: "rcs \<noteq> [] \<Longrightarrow> hops_linked (PeerRelay prev) rx (path_hops rnd k prev rx rcs)"
proof (induction rnd k prev rx rcs rule: path_hops.induct)
  case (3 rnd k prev rx rc rc' rcs)
  let ?hs = "path_hops rnd (Suc k) (rc_router_id rc) (rnd k) (rc' # rcs)"
  obtain h hs where hs: "?hs = h # hs" by (metis list.exhaust list.distinct(1) path_hops_eq_Nil)
  with 3 path_hops_hd [of rnd "Suc k" "rc_router_id rc" "rnd k" rc' rcs] show ?case
    by (auto simp: transit_hop_default_def)
qed (auto simp: transit_hop_default_def)

text \<open>The receiving ids of a path are the random draws, in order.\<close>

lemma path_hops_rxids:
  "rcs \<noteq> [] \<Longrightarrow> map rxid (path_hops rnd k prev rx rcs) = rx # map rnd [k..<k + length rcs - 1]"
proof (induction rnd k prev rx rcs rule: path_hops.induct)
  case (3 rnd k prev rx rc rc' rcs)
  have "[k..<k + length (rc # rc' # rcs) - 1] = k # [Suc k..<Suc k + length (rc' # rcs) - 1]"
    by (simp add: upt_rec [of k] Suc_le_eq)
  with 3 show ?case by (simp del: upt_Suc)
qed simp_all

section \<open>Lemmas on the layers\<close>

text \<open>
  Two inverse operations of a hop on payload and nonce: \<open>wrap_layer\<close> applies the cipher and then
  mutates the nonce (the client when it encrypts or consumes session traffic, a relay when it
  passes a response back); \<open>peel_layer\<close> mutates the nonce and then applies the cipher (a relay
  when it passes a message on, the client when it reads a response).
\<close>

definition wrap_layer :: "sodium \<Rightarrow> transit_hop \<Rightarrow> bytes \<times> symm_nonce \<Rightarrow> bytes \<times> symm_nonce" where
  "wrap_layer S hop m = (xchacha20 S (fst m) (shared_secret hop) (snd m), buf_xor (snd m) (xor_nonce hop))"

definition peel_layer :: "sodium \<Rightarrow> transit_hop \<Rightarrow> bytes \<times> symm_nonce \<Rightarrow> bytes \<times> symm_nonce" where
  "peel_layer S hop m =
     (let n = buf_xor (snd m) (xor_nonce hop) in (xchacha20 S (fst m) (shared_secret hop) n, n))"

definition nonces_wf :: "transit_hop list \<Rightarrow> bool" where
  "nonces_wf hs \<longleftrightarrow> (\<forall>h \<in> set hs. length (xor_nonce h) = SYMM_NONCE_SIZE)"

lemma nonces_wf_simps [simp]:
  "nonces_wf []"
  "nonces_wf (h # hs) \<longleftrightarrow> length (xor_nonce h) = SYMM_NONCE_SIZE \<and> nonces_wf hs"
  "nonces_wf (hs @ hs') \<longleftrightarrow> nonces_wf hs \<and> nonces_wf hs'"
  "nonces_wf (rev hs) \<longleftrightarrow> nonces_wf hs"
  by (auto simp: nonces_wf_def)

lemma length_layer [simp]:
  assumes "xchacha20_laws S" and "length (xor_nonce h) = SYMM_NONCE_SIZE" and "length (snd m) = SYMM_NONCE_SIZE"
  shows "length (fst (wrap_layer S h m)) = length (fst m)" "length (snd (wrap_layer S h m)) = SYMM_NONCE_SIZE"
    "length (fst (peel_layer S h m)) = length (fst m)" "length (snd (peel_layer S h m)) = SYMM_NONCE_SIZE"
  using assms by (simp_all add: wrap_layer_def peel_layer_def Let_def)

lemma peel_wrap [simp]:
  assumes "xchacha20_laws S" and "length (xor_nonce h) = SYMM_NONCE_SIZE" and "length (snd m) = SYMM_NONCE_SIZE"
  shows "peel_layer S h (wrap_layer S h m) = m"
  using assms by (simp add: wrap_layer_def peel_layer_def buf_xor_cancel)

lemma wrap_peel [simp]:
  assumes "xchacha20_laws S" and "length (xor_nonce h) = SYMM_NONCE_SIZE" and "length (snd m) = SYMM_NONCE_SIZE"
  shows "wrap_layer S h (peel_layer S h m) = m"
  using assms by (simp add: wrap_layer_def peel_layer_def buf_xor_cancel Let_def)

lemma length_fold_wrap [simp]:
  assumes "xchacha20_laws S" and "nonces_wf hs" and "length (snd m) = SYMM_NONCE_SIZE"
  shows "length (fst (fold (wrap_layer S) hs m)) = length (fst m)"
    "length (snd (fold (wrap_layer S) hs m)) = SYMM_NONCE_SIZE"
  using assms by (induction hs arbitrary: m) simp_all

lemma length_fold_peel [simp]:
  assumes "xchacha20_laws S" and "nonces_wf hs" and "length (snd m) = SYMM_NONCE_SIZE"
  shows "length (fst (fold (peel_layer S) hs m)) = length (fst m)"
    "length (snd (fold (peel_layer S) hs m)) = SYMM_NONCE_SIZE"
  using assms by (induction hs arbitrary: m) simp_all

text \<open>Layers added in one order come off in the other.\<close>

lemma fold_peel_wrap:
  assumes "xchacha20_laws S" and "nonces_wf hs" and "length (snd m) = SYMM_NONCE_SIZE"
  shows "fold (peel_layer S) hs (fold (wrap_layer S) (rev hs) m) = m"
  using assms by (induction hs) simp_all

lemma fold_wrap_peel:
  assumes "xchacha20_laws S" and "nonces_wf hs" and "length (snd m) = SYMM_NONCE_SIZE"
  shows "fold (wrap_layer S) hs (fold (peel_layer S) (rev hs) m) = m"
  using assms by (induction hs) simp_all

text \<open>The loops of the client are these folds.\<close>

lemma encrypt_layers_plain: "encrypt_layers S False hs p n = Some (fold (wrap_layer S) hs (p, n))"
  by (induction hs arbitrary: p n) (simp_all add: wrap_layer_def)

lemma encrypt_layers_mac:
  "encrypt_layers S True (h # hs) p n =
     map_option (\<lambda>c. fold (wrap_layer S) hs (c, buf_xor n (xor_nonce h)))
       (xchacha20_poly1305_encrypt_inplace S p (shared_secret h) n [])"
  by (simp add: encrypt_layers_plain split: option.split)

lemma decrypt_layers_snoc:
  "decrypt_layers S (hs @ [h]) p n =
     (let m = fold (peel_layer S) hs (p, n)
      in xchacha20_poly1305_decrypt_inplace S (fst m) (shared_secret h) (buf_xor (snd m) (xor_nonce h)) [])"
proof (induction hs arbitrary: p n)
  case (Cons g hs)
  obtain h' hs' where eq: "hs @ [h] = h' # hs'" by (cases hs) auto
  have "decrypt_layers S (g # hs @ [h]) p n =
      decrypt_layers S (hs @ [h]) (fst (peel_layer S g (p, n))) (snd (peel_layer S g (p, n)))"
    by (simp add: eq peel_layer_def Let_def)
  also have "\<dots> = (let m = fold (peel_layer S) hs (peel_layer S g (p, n))
      in xchacha20_poly1305_decrypt_inplace S (fst m) (shared_secret h) (buf_xor (snd m) (xor_nonce h)) [])"
    by (simp only: Cons.IH prod.collapse)
  finally show ?case by simp
qed simp

lemma encrypt_path_message_plain:
  "encrypt_path_message S p data nonce type False =
     (let m = fold (wrap_layer S) (rev (hops p)) (data, nonce)
      in Some (fst m @ snd m @ rxid (edge p) @ [type]))"
  by (simp add: encrypt_path_message_def encrypt_layers_plain Let_def split: prod.split)

end
