(* ===== verification/Path_Context.thy ===== *)
theory Path_Context
  imports Path "HOL-Library.AList"
begin

text \<open>
  The lookup tables of a router (\<^verbatim>\<open>path/path_context.cpp\<close>): own paths by the receiving id of
  their edge, and transit hops by both of their ids.  The tables hold shared pointers, and
  \<^verbatim>\<open>is_dead\<close> is written through one of them while other holders read it; so objects live in
  a store addressed by references and the tables are association lists of references.
\<close>

section \<open>State\<close>

type_synonym hop_ref = nat
type_synonym path_ref = nat

record path_context =
  path_map :: "(hop_id \<times> path_ref) list"
  transit_hops :: "(hop_id \<times> hop_ref) list"
  allow_transit_flag :: bool
  path_objs :: "path_ref \<Rightarrow> path option"
  hop_objs :: "hop_ref \<Rightarrow> transit_hop option"
  next_hop_ref :: hop_ref

definition path_context_new :: path_context where
  "path_context_new =
     \<lparr>path_map = [], transit_hops = [], allow_transit_flag = False, path_objs = (\<lambda>_. None),
      hop_objs = (\<lambda>_. None), next_hop_ref = 0\<rparr>"

text \<open>\<^verbatim>\<open>unordered_map::emplace\<close> keeps an existing entry.\<close>

definition emplace :: "'k \<Rightarrow> 'v \<Rightarrow> ('k \<times> 'v) list \<Rightarrow> ('k \<times> 'v) list" where
  "emplace k v m = (case map_of m k of None \<Rightarrow> (k, v) # m | Some _ \<Rightarrow> m)"

text \<open>Writing \<^verbatim>\<open>is_dead\<close> through a pointer.\<close>

definition kill_hop :: "hop_ref \<Rightarrow> path_context \<Rightarrow> path_context" where
  "kill_hop r c =
     c\<lparr>hop_objs := (case hop_objs c r of None \<Rightarrow> hop_objs c
                   | Some h \<Rightarrow> (hop_objs c)(r \<mapsto> h\<lparr>hop_dead := True\<rparr>))\<rparr>"

definition kill_path :: "path_ref \<Rightarrow> path_context \<Rightarrow> path_context" where
  "kill_path r c =
     c\<lparr>path_objs := (case path_objs c r of None \<Rightarrow> path_objs c
                    | Some p \<Rightarrow> (path_objs c)(r \<mapsto> p\<lparr>is_dead := True\<rparr>))\<rparr>"

section \<open>Operations\<close>

definition allow_transit :: "path_context \<Rightarrow> path_context" where
  "allow_transit c = c\<lparr>allow_transit_flag := True\<rparr>"

definition is_transit_allowed :: "path_context \<Rightarrow> bool" where
  "is_transit_allowed c = allow_transit_flag c"

text \<open>\<^verbatim>\<open>add_path\<close>, by reference to the path object.\<close>

definition add_path :: "path_ref \<Rightarrow> path_context \<Rightarrow> path_context" where
  "add_path r c =
     (case path_objs c r of None \<Rightarrow> c
      | Some p \<Rightarrow> c\<lparr>path_map := emplace (rxid (edge p)) r (path_map c)\<rparr>)"

text \<open>The erasing loop of \<^verbatim>\<open>expire_hops\<close>, entry by entry in iteration order.\<close>

fun expire_hops_loop :: "ms \<Rightarrow> (hop_id \<times> hop_ref) list \<Rightarrow> path_context \<Rightarrow> (hop_id \<times> hop_ref) list \<times> path_context" where
  "expire_hops_loop now [] c = ([], c)"
| "expire_hops_loop now ((k, r) # m) c =
     (case hop_objs c r of
        Some h \<Rightarrow>
          if hop_is_expired h now then expire_hops_loop now m (kill_hop r c)
          else (let (m', c') = expire_hops_loop now m c in ((k, r) # m', c'))
      | None \<Rightarrow> (let (m', c') = expire_hops_loop now m c in ((k, r) # m', c')))"

definition expire_hops :: "ms \<Rightarrow> path_context \<Rightarrow> path_context" where
  "expire_hops now c =
     (let (m, c') = expire_hops_loop now (transit_hops c) c in c'\<lparr>transit_hops := m\<rparr>)"

definition drop_path_ctx :: "path \<Rightarrow> path_context \<Rightarrow> path_context" where
  "drop_path_ctx p c =
     (case map_of (path_map c) (rxid (edge p)) of
        None \<Rightarrow> c
      | Some r \<Rightarrow> (kill_path r c)\<lparr>path_map := AList.delete (rxid (edge p)) (path_map c)\<rparr>)"

text \<open>\<^verbatim>\<open>drop(const TransitHop&)\<close>: the txid first, then the rxid.\<close>

definition drop_hop_id :: "hop_id \<Rightarrow> path_context \<Rightarrow> path_context" where
  "drop_hop_id h c =
     (case map_of (transit_hops c) h of
        None \<Rightarrow> c
      | Some r \<Rightarrow> (kill_hop r c)\<lparr>transit_hops := AList.delete h (transit_hops c)\<rparr>)"

definition drop_hop :: "transit_hop \<Rightarrow> path_context \<Rightarrow> path_context" where
  "drop_hop thop c = drop_hop_id (rxid thop) (drop_hop_id (txid thop) c)"

definition path_ctx_stats :: "path_context \<Rightarrow> nat \<times> nat" where
  "path_ctx_stats c = (length (path_map c) div 2, length (transit_hops c) div 2)"

definition has_transit_hop :: "hop_id \<Rightarrow> path_context \<Rightarrow> bool" where
  "has_transit_hop h c \<longleftrightarrow> map_of (transit_hops c) h \<noteq> None"

definition has_transit_hop_obj :: "transit_hop \<Rightarrow> path_context \<Rightarrow> bool" where
  "has_transit_hop_obj hop c \<longleftrightarrow> has_transit_hop (rxid hop) c \<or> has_transit_hop (txid hop) c"

definition put_transit_hop :: "transit_hop \<Rightarrow> path_context \<Rightarrow> path_context" where
  "put_transit_hop hop c =
     (let r = next_hop_ref c
      in c\<lparr>hop_objs := (hop_objs c)(r \<mapsto> hop), next_hop_ref := Suc r,
           transit_hops := emplace (txid hop) r (emplace (rxid hop) r (transit_hops c))\<rparr>)"

definition get_transit_hop_ptr :: "path_context \<Rightarrow> hop_id \<Rightarrow> hop_ref option" where
  "get_transit_hop_ptr c h = map_of (transit_hops c) h"

definition get_transit_hop :: "path_context \<Rightarrow> hop_id \<Rightarrow> transit_hop option" where
  "get_transit_hop c h = Option.bind (map_of (transit_hops c) h) (hop_objs c)"

definition get_path :: "path_context \<Rightarrow> hop_id \<Rightarrow> path option" where
  "get_path c h = Option.bind (map_of (path_map c) h) (path_objs c)"

section \<open>Invariant\<close>

text \<open>
  Entry \<open>(k, r)\<close> of the transit table refers to a live object with \<open>k\<close> among its ids, and
  the other id of that object leads to the same object.
\<close>

definition entry_wf :: "path_context \<Rightarrow> hop_id \<Rightarrow> hop_ref \<Rightarrow> bool" where
  "entry_wf c k r \<longleftrightarrow>
     (case hop_objs c r of None \<Rightarrow> False
      | Some h \<Rightarrow> \<not> hop_dead h \<and> (k = rxid h \<or> k = txid h) \<and>
          map_of (transit_hops c) (rxid h) = Some r \<and> map_of (transit_hops c) (txid h) = Some r)"

definition ctx_wf :: "path_context \<Rightarrow> bool" where
  "ctx_wf c \<longleftrightarrow>
     distinct (map fst (transit_hops c)) \<and>
     (\<forall>(k, r) \<in> set (transit_hops c). entry_wf c k r) \<and>
     (\<forall>r. hop_objs c r \<noteq> None \<longrightarrow> r < next_hop_ref c)"

section \<open>Lemmas on the store\<close>

lemma map_of_emplace: "map_of (emplace k v m) k' = (if k' = k \<and> map_of m k = None then Some v else map_of m k')"
  by (auto simp: emplace_def split: option.split)

lemma distinct_emplace: "distinct (map fst m) \<Longrightarrow> distinct (map fst (emplace k v m))"
  by (auto simp: emplace_def map_of_eq_None_iff split: option.split)

lemma set_emplace: "set (emplace k v m) \<subseteq> insert (k, v) (set m)"
  by (auto simp: emplace_def split: option.splits)

lemma kill_hop_simps [simp]:
  "transit_hops (kill_hop r c) = transit_hops c" "next_hop_ref (kill_hop r c) = next_hop_ref c"
  "path_map (kill_hop r c) = path_map c" "path_objs (kill_hop r c) = path_objs c"
  by (simp_all add: kill_hop_def)

lemma hop_objs_kill [simp]:
  "hop_objs (kill_hop r c) r' =
     (if r' = r then map_option (\<lambda>h. h\<lparr>hop_dead := True\<rparr>) (hop_objs c r) else hop_objs c r')"
  by (auto simp: kill_hop_def split: option.split)

definition keeps :: "ms \<Rightarrow> path_context \<Rightarrow> hop_id \<times> hop_ref \<Rightarrow> bool" where
  "keeps now c e \<longleftrightarrow> (case hop_objs c (snd e) of Some h \<Rightarrow> \<not> hop_is_expired h now | None \<Rightarrow> True)"

lemma keeps_kill [simp]: "keeps now (kill_hop r c) = keeps now c"
  by (auto simp: keeps_def hop_is_expired_def fun_eq_iff split: option.splits)

lemma expire_hops_loop_eq:
  "expire_hops_loop now m c =
     (filter (keeps now c) m, fold kill_hop (map snd (filter (\<lambda>e. \<not> keeps now c e) m)) c)"
proof (induction now m c rule: expire_hops_loop.induct)
  case (2 now k r m c)
  show ?case
  proof (cases "hop_objs c r")
    case None
    then have "keeps now c (k, r)" by (simp add: keeps_def)
    with 2 None show ?thesis by simp
  next
    case (Some h)
    then have "keeps now c (k, r) \<longleftrightarrow> \<not> hop_is_expired h now" by (simp add: keeps_def)
    with 2 Some show ?thesis by simp
  qed
qed simp

lemma hop_objs_fold_kill:
  "hop_objs (fold kill_hop rs c) r =
     (if r \<in> set rs then map_option (\<lambda>h. h\<lparr>hop_dead := True\<rparr>) (hop_objs c r) else hop_objs c r)"
proof (induction rs arbitrary: c)
  case (Cons a rs)
  have idem: "map_option (\<lambda>h. h\<lparr>hop_dead := True\<rparr>) (map_option (\<lambda>h. h\<lparr>hop_dead := True\<rparr>) z) =
      map_option (\<lambda>h. h\<lparr>hop_dead := True\<rparr>) z" for z :: "transit_hop option"
    by (cases z) auto
  show ?case by (auto simp: Cons.IH idem)
qed simp

lemma fold_kill_simps [simp]:
  "transit_hops (fold kill_hop rs c) = transit_hops c" "next_hop_ref (fold kill_hop rs c) = next_hop_ref c"
  by (induction rs arbitrary: c) auto

section \<open>Preservation of the invariant\<close>

lemma ctx_wf_new [simp]: "ctx_wf path_context_new"
  by (simp add: ctx_wf_def path_context_new_def)

lemma ctx_wf_lookup:
  assumes "ctx_wf c" and "map_of (transit_hops c) k = Some r"
  obtains h where "hop_objs c r = Some h" and "\<not> hop_dead h" and "k = rxid h \<or> k = txid h"
    and "map_of (transit_hops c) (rxid h) = Some r" and "map_of (transit_hops c) (txid h) = Some r"
  using assms map_of_SomeD [of "transit_hops c" k r]
  by (fastforce simp: ctx_wf_def entry_wf_def split: option.splits)

lemma ctx_wf_pair:
  assumes "ctx_wf c" and "map_of (transit_hops c) k = Some r" and "hop_objs c r = Some h"
  shows "map_of (transit_hops c) (rxid h) = Some r" "map_of (transit_hops c) (txid h) = Some r"
    "\<not> hop_dead h" "k = rxid h \<or> k = txid h"
  using ctx_wf_lookup [OF assms(1,2)] assms(3) by (metis option.inject)+

lemma ctx_wfI:
  assumes "distinct (map fst (transit_hops c))"
    and "\<And>k r. map_of (transit_hops c) k = Some r \<Longrightarrow> entry_wf c k r"
    and "\<And>r. hop_objs c r \<noteq> None \<Longrightarrow> r < next_hop_ref c"
  shows "ctx_wf c"
  using assms by (auto simp: ctx_wf_def)

lemma entry_wfI:
  "hop_objs c r = Some h \<Longrightarrow> \<not> hop_dead h \<Longrightarrow> k = rxid h \<or> k = txid h \<Longrightarrow>
     map_of (transit_hops c) (rxid h) = Some r \<Longrightarrow> map_of (transit_hops c) (txid h) = Some r \<Longrightarrow> entry_wf c k r"
  by (simp add: entry_wf_def)

lemma map_of_put:
  "\<not> has_transit_hop_obj h c \<Longrightarrow>
     map_of (transit_hops (put_transit_hop h c)) k =
       (if k = rxid h \<or> k = txid h then Some (next_hop_ref c) else map_of (transit_hops c) k)"
  by (auto simp: put_transit_hop_def Let_def map_of_emplace has_transit_hop_obj_def has_transit_hop_def)

lemma hop_objs_put: "hop_objs (put_transit_hop h c) = (hop_objs c)(next_hop_ref c \<mapsto> h)"
  by (simp add: put_transit_hop_def Let_def)

lemma ctx_wf_fresh: "ctx_wf c \<Longrightarrow> hop_objs c (next_hop_ref c) = None"
  unfolding ctx_wf_def by blast

lemma ctx_wf_put:
  assumes wf: "ctx_wf c" and free: "\<not> has_transit_hop_obj h c" and live: "\<not> hop_dead h"
  shows "ctx_wf (put_transit_hop h c)"
proof (rule ctx_wfI)
  show "distinct (map fst (transit_hops (put_transit_hop h c)))"
    using wf by (simp add: put_transit_hop_def Let_def ctx_wf_def distinct_emplace)
next
  fix k r
  assume look: "map_of (transit_hops (put_transit_hop h c)) k = Some r"
  show "entry_wf (put_transit_hop h c) k r"
  proof (cases "k = rxid h \<or> k = txid h")
    case True
    with look free live show ?thesis
      by (auto intro!: entry_wfI simp: map_of_put hop_objs_put)
  next
    case False
    with look free have "map_of (transit_hops c) k = Some r" by (simp add: map_of_put)
    with wf obtain g where g: "hop_objs c r = Some g" "\<not> hop_dead g" "k = rxid g \<or> k = txid g"
      "map_of (transit_hops c) (rxid g) = Some r" "map_of (transit_hops c) (txid g) = Some r"
      by (rule ctx_wf_lookup)
    moreover from g free have "rxid g \<notin> {rxid h, txid h}" "txid g \<notin> {rxid h, txid h}"
      by (auto simp: has_transit_hop_obj_def has_transit_hop_def)
    moreover from g ctx_wf_fresh [OF wf] have "r \<noteq> next_hop_ref c" by auto
    ultimately show ?thesis
      using free by (intro entry_wfI [of _ _ g]) (auto simp: map_of_put hop_objs_put)
  qed
next
  fix r
  assume "hop_objs (put_transit_hop h c) r \<noteq> None"
  with wf show "r < next_hop_ref (put_transit_hop h c)"
    by (auto simp: ctx_wf_def put_transit_hop_def Let_def less_Suc_eq split: if_splits)
qed

lemma map_of_filter_distinct:
  "distinct (map fst m) \<Longrightarrow>
     map_of (filter P m) k = (case map_of m k of None \<Rightarrow> None | Some v \<Rightarrow> if P (k, v) then Some v else None)"
proof (induction m)
  case (Cons e m)
  obtain k' v where e: "e = (k', v)" by force
  show ?case
  proof (cases "k' = k")
    case True
    with Cons.prems e have "map_of m k = None" by (simp add: map_of_eq_None_iff)
    with True Cons e show ?thesis by simp
  next
    case False
    with Cons e show ?thesis by (auto split: option.split)
  qed
qed simp

lemma expire_hops_fields:
  "transit_hops (expire_hops now c) = filter (keeps now c) (transit_hops c)"
  "next_hop_ref (expire_hops now c) = next_hop_ref c"
  "hop_objs (expire_hops now c) =
     hop_objs (fold kill_hop (map snd (filter (\<lambda>e. \<not> keeps now c e) (transit_hops c))) c)"
  by (simp_all add: expire_hops_def expire_hops_loop_eq)

lemma expire_keeps_obj:
  assumes "keeps now c (k, r)"
  shows "hop_objs (expire_hops now c) r = hop_objs c r"
  using assms by (auto simp: expire_hops_fields hop_objs_fold_kill keeps_def split: option.splits)

lemma ctx_wf_expire:
  assumes wf: "ctx_wf c"
  shows "ctx_wf (expire_hops now c)"
proof (rule ctx_wfI)
  have d: "distinct (map fst (transit_hops c))" using wf by (simp add: ctx_wf_def)
  then show "distinct (map fst (transit_hops (expire_hops now c)))"
    by (simp add: expire_hops_fields distinct_map_filter)
  fix k r
  assume "map_of (transit_hops (expire_hops now c)) k = Some r"
  with d have look: "map_of (transit_hops c) k = Some r" and keep: "keeps now c (k, r)"
    by (auto simp: expire_hops_fields map_of_filter_distinct split: option.splits if_splits)
  from keep have keep': "keeps now c (k', r)" for k' by (simp add: keeps_def)
  from wf look obtain h where "hop_objs c r = Some h" "\<not> hop_dead h" "k = rxid h \<or> k = txid h"
    "map_of (transit_hops c) (rxid h) = Some r" "map_of (transit_hops c) (txid h) = Some r"
    by (rule ctx_wf_lookup)
  with d keep' show "entry_wf (expire_hops now c) k r"
    by (intro entry_wfI [of _ _ h])
      (simp_all add: expire_keeps_obj [OF keep] expire_hops_fields(1) map_of_filter_distinct)
next
  fix r
  assume "hop_objs (expire_hops now c) r \<noteq> None"
  with wf show "r < next_hop_ref (expire_hops now c)"
    by (auto simp: ctx_wf_def expire_hops_fields hop_objs_fold_kill split: if_splits)
qed

section \<open>The table as a map\<close>

text \<open>
  The abstract contract: the context is a partial map from hop ids to live hops.  Storing a hop adds
  it under both ids, expiry removes exactly the expired hops, dropping removes both ids.
\<close>

lemma get_put:
  assumes "ctx_wf c" and "\<not> has_transit_hop_obj h c"
  shows "get_transit_hop (put_transit_hop h c) = (get_transit_hop c)(rxid h \<mapsto> h, txid h \<mapsto> h)"
proof
  fix k
  have "hop_objs c r = hop_objs (put_transit_hop h c) r" if "map_of (transit_hops c) k = Some r" for r
    using that assms(1) ctx_wf_fresh [OF assms(1)] by (auto simp: hop_objs_put elim: ctx_wf_lookup)
  then show "get_transit_hop (put_transit_hop h c) k = ((get_transit_hop c)(rxid h \<mapsto> h, txid h \<mapsto> h)) k"
    using assms(2)
    by (cases "map_of (transit_hops c) k") (auto simp: get_transit_hop_def map_of_put hop_objs_put)
qed

lemma get_expire:
  assumes wf: "ctx_wf c"
  shows "get_transit_hop (expire_hops now c) k =
     (case get_transit_hop c k of None \<Rightarrow> None | Some h \<Rightarrow> if hop_is_expired h now then None else Some h)"
proof (cases "map_of (transit_hops c) k")
  case None
  then show ?thesis
    using wf by (simp add: get_transit_hop_def expire_hops_fields(1) map_of_filter_distinct ctx_wf_def)
next
  case (Some r)
  with wf obtain h where h: "hop_objs c r = Some h" by (rule ctx_wf_lookup)
  show ?thesis
  proof (cases "hop_is_expired h now")
    case True
    with Some h wf show ?thesis
      by (simp add: get_transit_hop_def expire_hops_fields(1) map_of_filter_distinct ctx_wf_def keeps_def)
  next
    case False
    with h have "keeps now c (k, r)" by (simp add: keeps_def)
    with Some h wf False show ?thesis
      by (simp add: get_transit_hop_def expire_hops_fields(1) map_of_filter_distinct ctx_wf_def
          expire_keeps_obj)
  qed
qed

text \<open>Whoever still holds an expired hop sees that it is dead.\<close>

lemma expire_marks_dead:
  assumes "map_of (transit_hops c) k = Some r" and "hop_objs c r = Some h" and "hop_is_expired h now"
  shows "hop_objs (expire_hops now c) r = Some (h\<lparr>hop_dead := True\<rparr>)"
proof -
  have "(k, r) \<in> set (filter (\<lambda>e. \<not> keeps now c e) (transit_hops c))"
    using assms by (auto simp: keeps_def dest: map_of_SomeD)
  then have "r \<in> set (map snd (filter (\<lambda>e. \<not> keeps now c e) (transit_hops c)))" by force
  with assms show ?thesis by (simp only: expire_hops_fields hop_objs_fold_kill if_True option.map)
qed

text \<open>Dropping a stored hop.\<close>

lemma drop_hop_fields:
  assumes wf: "ctx_wf c" and look: "map_of (transit_hops c) (rxid h) = Some r" and obj: "hop_objs c r = Some h"
  shows "map_of (transit_hops (drop_hop h c)) = (map_of (transit_hops c))(rxid h := None, txid h := None)"
    "hop_objs (drop_hop h c) = (hop_objs c)(r \<mapsto> h\<lparr>hop_dead := True\<rparr>)"
    "next_hop_ref (drop_hop h c) = next_hop_ref c"
    "distinct (map fst (transit_hops (drop_hop h c)))"
proof -
  have tx: "map_of (transit_hops c) (txid h) = Some r" by (rule ctx_wf_pair(2) [OF assms])
  have d: "distinct (map fst (transit_hops c))" using wf by (simp add: ctx_wf_def)
  show "map_of (transit_hops (drop_hop h c)) = (map_of (transit_hops c))(rxid h := None, txid h := None)"
    using tx look by (auto simp: drop_hop_def drop_hop_id_def AList.delete_conv' fun_eq_iff split: option.splits)
  show "hop_objs (drop_hop h c) = (hop_objs c)(r \<mapsto> h\<lparr>hop_dead := True\<rparr>)"
    using tx look obj
    by (auto simp: drop_hop_def drop_hop_id_def AList.delete_conv' kill_hop_def fun_eq_iff split: option.splits if_splits)
  show "next_hop_ref (drop_hop h c) = next_hop_ref c"
    by (simp add: drop_hop_def drop_hop_id_def split: option.split)
  show "distinct (map fst (transit_hops (drop_hop h c)))"
    using d by (auto simp: drop_hop_def drop_hop_id_def intro!: AList.distinct_delete split: option.split)
qed

lemma ctx_wf_drop:
  assumes wf: "ctx_wf c" and look: "map_of (transit_hops c) (rxid h) = Some r" and obj: "hop_objs c r = Some h"
  shows "ctx_wf (drop_hop h c)"
proof (rule ctx_wfI)
  note f = drop_hop_fields [OF assms]
  show "distinct (map fst (transit_hops (drop_hop h c)))" by (rule f)
  fix k r'
  assume "map_of (transit_hops (drop_hop h c)) k = Some r'"
  then have k: "k \<noteq> rxid h" "k \<noteq> txid h" and look': "map_of (transit_hops c) k = Some r'"
    by (auto simp: f split: if_splits)
  from wf look' obtain g where g: "hop_objs c r' = Some g" "\<not> hop_dead g" "k = rxid g \<or> k = txid g"
    "map_of (transit_hops c) (rxid g) = Some r'" "map_of (transit_hops c) (txid g) = Some r'"
    by (rule ctx_wf_lookup)
  from g obj k have "r' \<noteq> r" by auto
  moreover from this g look have "rxid g \<noteq> rxid h" "txid g \<noteq> rxid h" by auto
  moreover have "rxid g \<noteq> txid h" "txid g \<noteq> txid h" using g \<open>r' \<noteq> r\<close> ctx_wf_pair(2) [OF assms] by auto
  ultimately show "entry_wf (drop_hop h c) k r'"
    using g by (intro entry_wfI [of _ _ g]) (auto simp: f)
next
  fix r'
  assume "hop_objs (drop_hop h c) r' \<noteq> None"
  with wf obj show "r' < next_hop_ref (drop_hop h c)"
    by (auto simp: drop_hop_fields [OF assms] ctx_wf_def split: if_splits)
qed

section \<open>The interface of the relay handlers\<close>

text \<open>
  What the message handlers of a relay rely on: the table answers lookups like a map in which a
  newly stored hop is found under both ids and every other hop stays where it was.
\<close>

locale hop_table =
  fixes get :: "'s \<Rightarrow> hop_id \<Rightarrow> transit_hop option"
    and put :: "transit_hop \<Rightarrow> 's \<Rightarrow> 's"
    and expire :: "ms \<Rightarrow> 's \<Rightarrow> 's"
    and wf :: "'s \<Rightarrow> bool"
  assumes put_get: "wf s \<Longrightarrow> get s (rxid h) = None \<Longrightarrow> get s (txid h) = None \<Longrightarrow>
      get (put h s) = (get s)(rxid h \<mapsto> h, txid h \<mapsto> h)"
    and put_wf: "wf s \<Longrightarrow> get s (rxid h) = None \<Longrightarrow> get s (txid h) = None \<Longrightarrow> \<not> hop_dead h \<Longrightarrow> wf (put h s)"
    and expire_get: "wf s \<Longrightarrow> get (expire now s) k =
      (case get s k of None \<Rightarrow> None | Some h \<Rightarrow> if hop_is_expired h now then None else Some h)"
    and expire_wf: "wf s \<Longrightarrow> wf (expire now s)"
begin

text \<open>A hop stays reachable under both ids until the first expiry run at or after its expiry time.\<close>

lemma put_then_expire:
  assumes "wf s" and "get s (rxid h) = None" and "get s (txid h) = None" and "\<not> hop_dead h"
  shows "get (expire now (put h s)) (rxid h) = (if expiry h \<le> now then None else Some h)"
    and "get (expire now (put h s)) (txid h) = (if expiry h \<le> now then None else Some h)"
  using assms put_wf [OF assms] by (simp_all add: expire_get put_get hop_is_expired_def)

lemma expire_runs:
  assumes "wf s" and "get s k = Some h" and "\<forall>t \<in> set ts. t < expiry h"
  shows "wf (fold expire ts s) \<and> get (fold expire ts s) k = Some h"
  using assms
  by (induction ts arbitrary: s) (auto simp: expire_get expire_wf hop_is_expired_def)

text \<open>Once found, a hop is not displaced by storing others that were free at the time.\<close>

lemma put_keeps:
  assumes "wf s" and "get s k = Some h" and "get s (rxid g) = None" and "get s (txid g) = None"
  shows "get (put g s) k = Some h"
  using assms by (auto simp: put_get)

end

lemma get_None_iff:
  assumes "ctx_wf c"
  shows "get_transit_hop c k = None \<longleftrightarrow> \<not> has_transit_hop k c"
proof (cases "map_of (transit_hops c) k")
  case (Some r)
  with assms obtain h where "hop_objs c r = Some h" by (rule ctx_wf_lookup)
  with Some show ?thesis by (simp add: get_transit_hop_def has_transit_hop_def)
qed (simp add: get_transit_hop_def has_transit_hop_def)

interpretation ctx: hop_table get_transit_hop put_transit_hop expire_hops ctx_wf
proof
  fix s now k and h :: transit_hop
  assume wf: "ctx_wf s"
  show "get_transit_hop (expire_hops now s) k =
      (case get_transit_hop s k of None \<Rightarrow> None | Some h \<Rightarrow> if hop_is_expired h now then None else Some h)"
    by (rule get_expire [OF wf])
  show "ctx_wf (expire_hops now s)" by (rule ctx_wf_expire [OF wf])
  assume "get_transit_hop s (rxid h) = None" "get_transit_hop s (txid h) = None"
  then have free: "\<not> has_transit_hop_obj h s"
    by (simp add: get_None_iff [OF wf] has_transit_hop_obj_def)
  show "get_transit_hop (put_transit_hop h s) = (get_transit_hop s)(rxid h \<mapsto> h, txid h \<mapsto> h)"
    by (rule get_put [OF wf free])
  show "ctx_wf (put_transit_hop h s)" if "\<not> hop_dead h"
    by (rule ctx_wf_put [OF wf free that])
qed

section \<open>Runs of the context\<close>

text \<open>The operations a router performs on its context, with the guards of their callers.\<close>

inductive ctx_step :: "path_context \<Rightarrow> path_context \<Rightarrow> bool" where
  "\<not> has_transit_hop_obj h c \<Longrightarrow> \<not> hop_dead h \<Longrightarrow> ctx_step c (put_transit_hop h c)"
| "ctx_step c (expire_hops now c)"
| "map_of (transit_hops c) (rxid h) = Some r \<Longrightarrow> hop_objs c r = Some h \<Longrightarrow> ctx_step c (drop_hop h c)"
| "ctx_step c (allow_transit c)"
| "ctx_step c (add_path pr c)"
| "ctx_step c (drop_path_ctx p c)"

inductive_cases ctx_stepE: "ctx_step c c'"

lemma ctx_wf_other:
  "transit_hops c' = transit_hops c \<Longrightarrow> hop_objs c' = hop_objs c \<Longrightarrow> next_hop_ref c' = next_hop_ref c \<Longrightarrow>
     ctx_wf c \<Longrightarrow> ctx_wf c'"
proof -
  assume eq: "transit_hops c' = transit_hops c" "hop_objs c' = hop_objs c" "next_hop_ref c' = next_hop_ref c"
    and wf: "ctx_wf c"
  from eq have "entry_wf c' = entry_wf c" by (intro ext) (simp add: entry_wf_def split: option.split)
  with eq wf show "ctx_wf c'" by (simp add: ctx_wf_def)
qed

interpretation ctx_run: invariant_system "\<lambda>c. c = path_context_new" ctx_step ctx_wf
proof
  fix c c'
  assume "ctx_wf c" "ctx_step c c'"
  then show "ctx_wf c'"
    by (auto elim!: ctx_stepE intro: ctx_wf_put ctx_wf_expire ctx_wf_drop)
      (auto simp: allow_transit_def add_path_def drop_path_ctx_def kill_path_def
        elim!: ctx_wf_other [rotated 3] split: option.split)
qed simp

end
