(* ===== verification/Nodedb.thy ===== *)
theory Nodedb
  imports Path_Context "HOL-Library.Multiset"
begin

text \<open>
  The node database (\<^verbatim>\<open>nodedb.hpp\<close>, \<^verbatim>\<open>nodedb.cpp\<close>): the relay contacts a router knows, the
  128 bucket hashes by which two routers compare their contacts, the registered relays, the relay
  ids a client accepted by majority, random sampling of contacts and the 0-RTT tickets.  Hash maps
  are association lists in iteration order.  Work handed to the disk thread is recorded in a queue.
\<close>

section \<open>Bucket hashes\<close>

type_synonym rc_hash = bytes

definition RCHASH_SIZE :: nat where "RCHASH_SIZE = 8"

text \<open>
  The positions \<^verbatim>\<open>bucket_hash\<close> finds with the bt-consumer in a serialised contact (whose keys
  \<^verbatim>\<open>t\<close>, \<^verbatim>\<open>v\<close> and \<^verbatim>\<open>~\<close> the contact's constructor has required): of the key
  \<^verbatim>\<open>t\<close>, of the key that follows the timestamp with its name, and of the signature key.
\<close>

record rc_layout =
  time_key_at :: "bytes \<Rightarrow> nat"
  after_time :: "bytes \<Rightarrow> nat \<times> string"
  sig_key_at :: "bytes \<Rightarrow> nat"

definition bucket_hash :: "sodium \<Rightarrow> rc_layout \<Rightarrow> bytes \<Rightarrow> rc_hash" where
  "bucket_hash S L serialized_rc =
     (let to_hash = time_key_at L serialized_rc;
          (at, key) = after_time L serialized_rc;
          after = (if key \<noteq> ''~'' then subspan at (sig_key_at L serialized_rc - at) serialized_rc else [])
      in generichash_blake2b S RCHASH_SIZE [] [] (take to_hash serialized_rc @ after))"

definition bucket_of :: "router_id \<Rightarrow> nat" where
  "bucket_of rid = unat (and (rid ! 16) 0x7f)"

section \<open>State\<close>

datatype disk_op = DiskWriteRc relay_contact | DiskRemoveRcs "router_id list"

type_synonym ticket = "bytes \<times> int" \<comment> \<open>data, expiry in seconds\<close>

record nodedb =
  known_rids :: "router_id list"
  known_rcs :: "(router_id \<times> relay_contact) list"
  rc_hashes :: "nat \<Rightarrow> (router_id \<times> rc_hash) list"
  rc_bucket_hashes :: "nat \<Rightarrow> rc_hash"
  registered_relays :: "router_id list"
  bootstraps :: "relay_contact list"
  bootstrap_running :: bool
  bootstrap_fails :: nat
  last_rc_fetch :: ms
  pending_rc_lookups :: "(router_id \<times> nat) list" \<comment> \<open>callbacks waiting for the first fetch, by number\<close>
  zrtt_tickets :: "(router_id \<times> ticket list) list"
  zrtt_dirty :: "router_id list"
  disk_ops :: "disk_op list"

definition nodedb_new :: "relay_contact list \<Rightarrow> nodedb" where
  "nodedb_new bs =
     \<lparr>known_rids = [], known_rcs = [], rc_hashes = (\<lambda>_. []), rc_bucket_hashes = (\<lambda>_. buf_zero RCHASH_SIZE),
      registered_relays = [], bootstraps = bs, bootstrap_running = False, bootstrap_fails = 0,
      last_rc_fetch = 0, pending_rc_lookups = [], zrtt_tickets = [], zrtt_dirty = [], disk_ops = []\<rparr>"

definition MIN_ACTIVE_RCS :: nat where "MIN_ACTIVE_RCS = 6"
definition RID_SOURCE_COUNT :: nat where "RID_SOURCE_COUNT = 5"
definition BOOTSTRAP_COOLDOWN :: ms where "BOOTSTRAP_COOLDOWN = 3000"
definition BOOTSTRAP_COOLDOWN_MAX :: ms where "BOOTSTRAP_COOLDOWN_MAX = 60000"
definition MAX_0RTT_TICKETS :: nat where "MAX_0RTT_TICKETS = 2"

section \<open>Relay contacts\<close>

definition update_rc_buckets :: "sodium \<Rightarrow> rc_layout \<Rightarrow> relay_contact \<Rightarrow> bool \<Rightarrow> nodedb \<Rightarrow> nodedb" where
  "update_rc_buckets S L rc added db =
     (let rid = rc_router_id rc;
          bucket = bucket_of rid;
          hashes = rc_hashes db bucket;
          recorded = (case map_of hashes rid of None \<Rightarrow> buf_zero RCHASH_SIZE | Some h \<Rightarrow> h);
          taken_out = buf_xor (rc_bucket_hashes db bucket) recorded
      in if added
         then (let h = bucket_hash S L (rc_payload rc)
               in db\<lparr>rc_hashes := (rc_hashes db)(bucket := AList.update rid h hashes),
                    rc_bucket_hashes := (rc_bucket_hashes db)(bucket := buf_xor taken_out h)\<rparr>)
         else db\<lparr>rc_hashes := (rc_hashes db)(bucket := AList.delete rid hashes),
                rc_bucket_hashes := (rc_bucket_hashes db)(bucket := taken_out)\<rparr>)"

definition get_rc :: "nodedb \<Rightarrow> router_id \<Rightarrow> relay_contact option" where
  "get_rc db pk = map_of (known_rcs db) pk"

text \<open>
  \<^verbatim>\<open>put_rc\<close>: whether the contact was stored, whether to gossip it, and the database afterwards.
  \<open>self\<close> is the router's own id.
\<close>

definition put_rc ::
  "sodium \<Rightarrow> rc_layout \<Rightarrow> router_id \<Rightarrow> bool \<Rightarrow> relay_contact \<Rightarrow> nodedb \<Rightarrow> (bool \<times> bool) \<times> nodedb" where
  "put_rc S L self service_node rc db =
     (let rid = rc_router_id rc;
          finish = (\<lambda>should_gossip significant_change db1.
            let db2 = (if significant_change then update_rc_buckets S L rc True db1 else db1)
            in ((True, should_gossip \<and> service_node), db2\<lparr>disk_ops := disk_ops db2 @ [DiskWriteRc rc]\<rparr>))
      in case map_of (known_rcs db) rid of
           None \<Rightarrow> finish True True (db\<lparr>known_rcs := (rid, rc) # known_rcs db\<rparr>)
         | Some stored \<Rightarrow>
             if \<not> newer_than rc stored MIN_GOSSIP_RC_AGE then ((False, False), db)
             else
               (let significant_change =
                      (bucket_hash S L (rc_payload rc) \<noteq> bucket_hash S L (rc_payload stored));
                    should_gossip =
                      (rid = self \<or> newer_than rc stored (OUTDATED_AGE div 1000) \<or> significant_change)
                in finish should_gossip significant_change
                     (db\<lparr>known_rcs := AList.update rid rc (known_rcs db)\<rparr>)))"

definition is_registered :: "nodedb \<Rightarrow> router_id \<Rightarrow> bool" where
  "is_registered db relay \<longleftrightarrow> relay \<in> set (registered_relays db)"

definition verify_store_gossip_rc ::
  "sodium \<Rightarrow> rc_layout \<Rightarrow> router_id \<Rightarrow> bool \<Rightarrow> relay_contact \<Rightarrow> nodedb \<Rightarrow> (bool \<times> bool) \<times> nodedb" where
  "verify_store_gossip_rc S L self service_node rc db =
     (if \<not> is_registered db (rc_router_id rc) \<or> rc_router_id rc = self then ((False, False), db)
      else put_rc S L self service_node rc db)"

definition num_rcs :: "bool \<Rightarrow> bool \<Rightarrow> router_id \<Rightarrow> nodedb \<Rightarrow> nat" where
  "num_rcs include_self service_node self db =
     (let total = length (known_rcs db)
      in if \<not> include_self \<and> service_node \<and> map_of (known_rcs db) self \<noteq> None then total - 1 else total)"

definition num_rids :: "bool \<Rightarrow> nodedb \<Rightarrow> nat" where
  "num_rids service_node db =
     (if service_node then length (registered_relays db) else length (known_rids db))"

text \<open>The erasing loop of \<^verbatim>\<open>remove_rcs_if\<close> over the remaining entries.\<close>

fun remove_loop ::
  "sodium \<Rightarrow> rc_layout \<Rightarrow> (relay_contact \<Rightarrow> bool) \<Rightarrow> (router_id \<times> relay_contact) list \<Rightarrow> nodedb \<Rightarrow>
     router_id list \<times> (router_id \<times> relay_contact) list \<times> nodedb" where
  "remove_loop S L rem [] db = ([], [], db)"
| "remove_loop S L rem ((rid, rc) # m) db =
     (if rem rc
      then (let (removed, kept, db') = remove_loop S L rem m (update_rc_buckets S L rc False db)
            in (rid # removed, kept, db'))
      else (let (removed, kept, db') = remove_loop S L rem m db in (removed, (rid, rc) # kept, db')))"

definition remove_rcs_if :: "sodium \<Rightarrow> rc_layout \<Rightarrow> (relay_contact \<Rightarrow> bool) \<Rightarrow> nodedb \<Rightarrow> nodedb" where
  "remove_rcs_if S L rem db =
     (let (removed, kept, db') = remove_loop S L rem (known_rcs db) db;
          db'' = db'\<lparr>known_rcs := kept\<rparr>
      in if removed = [] then db'' else db''\<lparr>disk_ops := disk_ops db'' @ [DiskRemoveRcs removed]\<rparr>)"

definition has_registered_relays :: "nodedb \<Rightarrow> bool" where
  "has_registered_relays db \<longleftrightarrow> registered_relays db \<noteq> []"

text \<open>The predicate of \<^verbatim>\<open>purge_rcs\<close>; \<open>public\<close> is \<^verbatim>\<open>quic::Address::is_public\<close>.\<close>

definition purge_pred :: "(packed_addr \<Rightarrow> bool) \<Rightarrow> bool \<Rightarrow> nodedb \<Rightarrow> ms \<Rightarrow> relay_contact \<Rightarrow> bool" where
  "purge_pred public service_node db now rc =
     (if \<not> public (rc_addr rc) then True
      else if rc_is_expired rc now then True
      else if service_node then
        (if \<not> has_registered_relays db then False
         else \<not> is_registered db (rc_router_id rc))
      else False)"

text \<open>\<^verbatim>\<open>purge_rcs\<close>: whether a bootstrap is started, and the database.\<close>

definition purge_rcs ::
  "sodium \<Rightarrow> rc_layout \<Rightarrow> (packed_addr \<Rightarrow> bool) \<Rightarrow> bool \<Rightarrow> bool \<Rightarrow> ms \<Rightarrow> nodedb \<Rightarrow> bool \<times> nodedb" where
  "purge_rcs S L public running service_node now db =
     (if \<not> running then (False, db)
      else (let db1 = remove_rcs_if S L (purge_pred public service_node db now) db
            in if length (known_rcs db1) < MIN_ACTIVE_RCS \<and> bootstraps db1 \<noteq> [] \<and> \<not> bootstrap_running db1
               then (True, db1\<lparr>bootstrap_fails := 0, bootstrap_running := True\<rparr>)
               else (False, db1)))"

text \<open>
  \<^verbatim>\<open>load_from_disk\<close> for the contact files: \<open>files\<close> are the id in the file name and the outcome
  of parsing each; expired, unreadable and misnamed ones are purged.
\<close>

fun load_rc_files ::
  "bool \<Rightarrow> ms \<Rightarrow> (router_id \<times> relay_contact option) list \<Rightarrow> nodedb \<Rightarrow> router_id list \<times> nodedb" where
  "load_rc_files service_node now [] db = ([], db)"
| "load_rc_files service_node now ((filename_rid, rc) # fs) db =
     (case rc of
        None \<Rightarrow> (let (purge, db') = load_rc_files service_node now fs db in (filename_rid # purge, db'))
      | Some rc \<Rightarrow>
          if rc_is_expired rc now \<or> rc_router_id rc \<noteq> filename_rid
          then (let (purge, db') = load_rc_files service_node now fs db in (filename_rid # purge, db'))
          else load_rc_files service_node now fs
                 (db\<lparr>known_rids := (if service_node then known_rids db else List.insert (rc_router_id rc) (known_rids db)),
                    known_rcs := emplace (rc_router_id rc) rc (known_rcs db)\<rparr>))"

definition load_from_disk ::
  "sodium \<Rightarrow> rc_layout \<Rightarrow> bool \<Rightarrow> ms \<Rightarrow> (router_id \<times> relay_contact option) list \<Rightarrow> nodedb \<Rightarrow> router_id list \<times> nodedb" where
  "load_from_disk S L service_node now files db =
     (let (purge, db1) = load_rc_files service_node now files db
      in (purge, fold (\<lambda>(rid, rc). update_rc_buckets S L rc True) (known_rcs db1) db1))"

section \<open>Registered relays and accepted relay ids\<close>

definition set_registered_relays :: "router_id list \<Rightarrow> nodedb \<Rightarrow> nodedb" where
  "set_registered_relays relays db = (if relays = [] then db else db\<lparr>registered_relays := relays\<rparr>)"

definition load_registered_relays_fallback :: "ms \<Rightarrow> nodedb \<Rightarrow> nodedb" where
  "load_registered_relays_fallback now db =
     (if registered_relays db \<noteq> [] then db
      else db\<lparr>registered_relays :=
               map fst (filter (\<lambda>(rid, rc). \<not> rc_is_expired rc now) (known_rcs db))\<rparr>)"

text \<open>
  \<^verbatim>\<open>get_random_registered_relay\<close>: the index is drawn from \<open>0\<close> to the number of relays
  \<^emph>\<open>inclusive\<close>; the last draw dereferences the end iterator (\<open>None\<close> inside \<open>Some\<close>).
\<close>

definition get_random_registered_relay :: "nat \<Rightarrow> nodedb \<Rightarrow> router_id option option" where
  "get_random_registered_relay draw db =
     (if registered_relays db = [] then None
      else Some (if draw < length (registered_relays db) then Some (registered_relays db ! draw) else None))"

text \<open>
  \<^verbatim>\<open>handle_fetched_router_ids\<close>: \<open>results\<close> maps each source asked to the ids it affirmed.
  Returns whether the round was conclusive (then contacts are fetched next).
\<close>

definition agree :: "(router_id \<times> router_id list) list \<Rightarrow> router_id \<Rightarrow> nat" where
  "agree results rid = length (filter (\<lambda>(src, rids). rid \<in> set rids) results)"

definition inbound_agrees :: "(router_id \<times> router_id list) list \<Rightarrow> router_id list \<Rightarrow> router_id \<Rightarrow> bool" where
  "inbound_agrees results inbound_sources rid \<longleftrightarrow>
     (\<exists>(other, rids) \<in> set results. rid \<in> set rids \<and> other \<in> set inbound_sources)"

fun accept_rids ::
  "(router_id \<times> router_id list) list \<Rightarrow> router_id list \<Rightarrow> nat \<Rightarrow> router_id list \<Rightarrow> router_id list \<Rightarrow> router_id list" where
  "accept_rids results inbound needed [] accepted = accepted"
| "accept_rids results inbound needed (rid # rids) accepted =
     accept_rids results inbound needed rids
       (if rid \<in> set accepted then accepted
        else if agree results rid < needed then accepted
        else if \<not> inbound_agrees results inbound rid then accepted
        else rid # accepted)"

definition handle_fetched_router_ids ::
  "(router_id \<times> router_id list) list \<Rightarrow> router_id list \<Rightarrow> nodedb \<Rightarrow> bool \<times> nodedb" where
  "handle_fetched_router_ids results inbound_sources db =
     (let needed = length results div 2 + 1;
          accepted = accept_rids results inbound_sources needed (concat (map snd results)) []
      in if accepted = [] then (False, db) else (True, db\<lparr>known_rids := accepted\<rparr>))"

text \<open>
  \<^verbatim>\<open>on_bootstrap_done\<close>: the delay after which the next bootstrap runs, if one is scheduled.
\<close>

definition on_bootstrap_done :: "bool \<Rightarrow> nodedb \<Rightarrow> ms option \<times> nodedb" where
  "on_bootstrap_done success db =
     (let db1 = db\<lparr>bootstrap_running := False,
                   bootstrap_fails := (if success then 0 else bootstrap_fails db + 1)\<rparr>
      in if MIN_ACTIVE_RCS \<le> length (known_rcs db1) then (None, db1)
         else (Some (min (BOOTSTRAP_COOLDOWN * (if success then 1 else int (bootstrap_fails db1)))
                      BOOTSTRAP_COOLDOWN_MAX), db1))"

text \<open>
  The loop of \<^verbatim>\<open>handle_bootstrap_result\<close>: contacts are stored until the first that does
  not parse (\<open>None\<close>), which fails the whole result but keeps what was stored.
\<close>

fun store_bootstrap_rcs ::
  "sodium \<Rightarrow> rc_layout \<Rightarrow> router_id \<Rightarrow> bool \<Rightarrow> relay_contact option list \<Rightarrow> nodedb \<Rightarrow> bool \<times> nodedb" where
  "store_bootstrap_rcs S L self service_node [] db = (True, db)"
| "store_bootstrap_rcs S L self service_node (None # rcs) db = (False, db)"
| "store_bootstrap_rcs S L self service_node (Some rc # rcs) db =
     store_bootstrap_rcs S L self service_node rcs
       (snd (put_rc S L self service_node rc (db\<lparr>known_rids := List.insert (rc_router_id rc) (known_rids db)\<rparr>)))"

section \<open>Closest relays\<close>

text \<open>The four 64-bit chunks of a 32-byte buffer, xored; chunks are read little-endian.\<close>

definition u64_le :: "bytes \<Rightarrow> u64" where
  "u64_le bs = foldr (\<lambda>b acc. acc * 256 + ucast b) bs 0"

definition xor_condense :: "bytes \<Rightarrow> u64" where
  "xor_condense x =
     xor (xor (xor (u64_le (subspan 0 8 x)) (u64_le (subspan 8 8 x))) (u64_le (subspan 16 8 x))) (u64_le (subspan 24 8 x))"

definition publish_metric :: "bytes \<Rightarrow> router_id \<Rightarrow> nat \<times> nat list" where
  "publish_metric blinded_pk rid =
     (unat (xor (xor_condense rid) (xor_condense blinded_pk)), map unat rid)"

text \<open>\<^verbatim>\<open>PublishLocationMetric\<close>: by the xored value, ties by the ids themselves.\<close>

definition closer :: "bytes \<Rightarrow> router_id \<Rightarrow> router_id \<Rightarrow> bool" where
  "closer blinded_pk l r \<longleftrightarrow>
     (let a = publish_metric blinded_pk l; b = publish_metric blinded_pk r
      in fst a < fst b \<or> fst a = fst b \<and> snd a \<le> snd b)"

fun insort_closest :: "bytes \<Rightarrow> router_id \<Rightarrow> router_id list \<Rightarrow> router_id list" where
  "insort_closest pk x [] = [x]"
| "insort_closest pk x (y # ys) = (if closer pk x y then x # y # ys else y # insort_closest pk x ys)"

text \<open>\<^verbatim>\<open>partial_sort\<close> puts the smallest elements in order at the front; the rest is cut off.\<close>

definition find_many_closest_to :: "nodedb \<Rightarrow> bytes \<Rightarrow> int \<Rightarrow> router_id list" where
  "find_many_closest_to db blinded_pk num_routers =
     (if num_routers \<le> 0 then []
      else take (nat num_routers) (foldr (insort_closest blinded_pk) (registered_relays db) []))"

section \<open>0-RTT tickets\<close>

definition zrtt_wake :: "router_id \<Rightarrow> nodedb \<Rightarrow> nodedb" where
  "zrtt_wake rid db = db\<lparr>zrtt_dirty := List.insert rid (zrtt_dirty db)\<rparr>"

definition tickets_of :: "nodedb \<Rightarrow> router_id \<Rightarrow> ticket list" where
  "tickets_of db rid = (case map_of (zrtt_tickets db) rid of None \<Rightarrow> [] | Some ts \<Rightarrow> ts)"

definition store_0rtt :: "router_id \<Rightarrow> bytes \<Rightarrow> int \<Rightarrow> nodedb \<Rightarrow> nodedb" where
  "store_0rtt rid data exp db =
     (let tickets = tickets_of db rid;
          trimmed = drop (length tickets - (MAX_0RTT_TICKETS - 1)) tickets
      in zrtt_wake rid (db\<lparr>zrtt_tickets := AList.update rid (trimmed @ [(data, exp)]) (zrtt_tickets db)\<rparr>))"

text \<open>Tickets expire in seconds, the clock is read in milliseconds.\<close>

definition ticket_expired :: "ms \<Rightarrow> ticket \<Rightarrow> bool" where
  "ticket_expired now t \<longleftrightarrow> snd t * 1000 < now"

definition extract_0rtt :: "ms \<Rightarrow> router_id \<Rightarrow> nodedb \<Rightarrow> bytes option \<times> nodedb" where
  "extract_0rtt now rid db =
     (case map_of (zrtt_tickets db) rid of
        None \<Rightarrow> (None, db)
      | Some ts \<Rightarrow>
          (case dropWhile (ticket_expired now) ts of
             [] \<Rightarrow> (None, zrtt_wake rid (db\<lparr>zrtt_tickets := AList.update rid [] (zrtt_tickets db)\<rparr>))
           | t # ts' \<Rightarrow> (Some (fst t), zrtt_wake rid (db\<lparr>zrtt_tickets := AList.update rid ts' (zrtt_tickets db)\<rparr>))))"

text \<open>
  \<^verbatim>\<open>_0rtt_save\<close>: for every dirty id its file is rewritten with the tickets left after leading
  expired ones are dropped, or erased when none is left.  Returns the files rewritten and erased.
\<close>

fun zrtt_save_loop ::
  "ms \<Rightarrow> router_id list \<Rightarrow> nodedb \<Rightarrow> (router_id \<times> ticket list) list \<times> router_id list \<times> nodedb" where
  "zrtt_save_loop now [] db = ([], [], db)"
| "zrtt_save_loop now (rid # rids) db =
     (case map_of (zrtt_tickets db) rid of
        None \<Rightarrow> (let (rw, er, db') = zrtt_save_loop now rids db in (rw, rid # er, db'))
      | Some ts \<Rightarrow>
          (let ts' = dropWhile (ticket_expired now) ts
           in if ts' \<noteq> []
              then (let (rw, er, db') = zrtt_save_loop now rids
                          (db\<lparr>zrtt_tickets := AList.update rid ts' (zrtt_tickets db)\<rparr>)
                    in ((rid, ts') # rw, er, db'))
              else (let (rw, er, db') = zrtt_save_loop now rids
                          (db\<lparr>zrtt_tickets := AList.delete rid (zrtt_tickets db)\<rparr>)
                    in (rw, rid # er, db'))))"

definition zrtt_save :: "ms \<Rightarrow> nodedb \<Rightarrow> (router_id \<times> ticket list) list \<times> router_id list \<times> nodedb" where
  "zrtt_save now db =
     (let (rw, er, db') = zrtt_save_loop now (zrtt_dirty db) db in (rw, er, db'\<lparr>zrtt_dirty := []\<rparr>))"

section \<open>The invariant of the contact table\<close>

definition xor_all :: "(router_id \<times> rc_hash) list \<Rightarrow> rc_hash" where
  "xor_all m = foldr (\<lambda>(_, h). buf_xor h) m (buf_zero RCHASH_SIZE)"

definition hashes_ok :: "(router_id \<times> rc_hash) list \<Rightarrow> bool" where
  "hashes_ok m \<longleftrightarrow> distinct (map fst m) \<and> (\<forall>(_, h) \<in> set m. length h = RCHASH_SIZE)"

definition recorded_hash :: "(router_id \<times> rc_hash) list \<Rightarrow> router_id \<Rightarrow> rc_hash" where
  "recorded_hash m rid = (case map_of m rid of None \<Rightarrow> buf_zero RCHASH_SIZE | Some h \<Rightarrow> h)"

lemma buf_xor_zero: "length a = n \<Longrightarrow> buf_xor a (buf_zero n) = a"
  by (auto simp: buf_xor_def buf_zero_def map_zip_map2 intro!: nth_equalityI)

lemma buf_xor_self: "buf_xor a a = buf_zero (length a)"
  by (auto simp: buf_xor_def buf_zero_def intro!: nth_equalityI)

lemma buf_xor_left_commute:
  "length a = length b \<Longrightarrow> length b = length c \<Longrightarrow> buf_xor a (buf_xor b c) = buf_xor b (buf_xor a c)"
  by (metis buf_xor_assoc buf_xor_commute)

lemma length_xor_all: "\<forall>(_, h) \<in> set m. length h = RCHASH_SIZE \<Longrightarrow> length (xor_all m) = RCHASH_SIZE"
  by (induction m) (auto simp: xor_all_def)

lemma xor_all_Cons [simp]: "xor_all ((k, h) # m) = buf_xor h (xor_all m)"
  by (simp add: xor_all_def)

lemma xor_all_Nil [simp]: "xor_all [] = buf_zero RCHASH_SIZE"
  by (simp add: xor_all_def)

lemmas xor_ac = buf_xor_assoc buf_xor_commute buf_xor_left_commute

text \<open>Replacing or removing one recorded hash changes the xor by the old and the new hash.\<close>

lemma xor_all_update:
  assumes "hashes_ok m" and "length h = RCHASH_SIZE"
  shows "xor_all (AList.update k h m) = buf_xor (buf_xor (xor_all m) (recorded_hash m k)) h"
  using assms
proof (induction m)
  case Nil
  then show ?case by (simp add: recorded_hash_def buf_xor_self buf_xor_commute)
next
  case (Cons p m)
  obtain k' h' where p: "p = (k', h')" by (cases p)
  have len: "length (xor_all m) = RCHASH_SIZE" "length h' = RCHASH_SIZE"
    using Cons.prems p by (auto simp: hashes_ok_def intro: length_xor_all)
  have rec: "length (recorded_hash m k) = RCHASH_SIZE"
    using Cons.prems(1) by (auto simp: recorded_hash_def hashes_ok_def p split: option.split dest: map_of_SomeD)
  show ?case
  proof (cases "k = k'")
    case True
    have "buf_xor (buf_xor h' (xor_all m)) h' = xor_all m"
      using len by (metis buf_xor_cancel buf_xor_commute)
    with True show ?thesis
      using len Cons.prems by (simp add: p recorded_hash_def buf_xor_commute)
  next
    case False
    with Cons show ?thesis
      using len rec by (simp add: p recorded_hash_def hashes_ok_def buf_xor_assoc)
  qed
qed

lemma xor_all_delete:
  assumes "hashes_ok m"
  shows "xor_all (AList.delete k m) = buf_xor (xor_all m) (recorded_hash m k)"
  using assms
proof (induction m)
  case Nil
  then show ?case by (simp add: recorded_hash_def buf_xor_self)
next
  case (Cons p m)
  obtain k' h' where p: "p = (k', h')" by (cases p)
  have len: "length (xor_all m) = RCHASH_SIZE" "length h' = RCHASH_SIZE"
    using Cons.prems p by (auto simp: hashes_ok_def intro: length_xor_all)
  have rec: "length (recorded_hash m k) = RCHASH_SIZE"
    using Cons.prems(1) by (auto simp: recorded_hash_def hashes_ok_def p split: option.split dest: map_of_SomeD)
  show ?case
  proof (cases "k = k'")
    case True
    then have "k \<notin> fst ` set m"
      using Cons.prems by (simp add: p hashes_ok_def)
    then have "AList.delete k m = m"
      by (simp add: AList.delete_id)
    moreover have "buf_xor (buf_xor h' (xor_all m)) h' = xor_all m"
      using len by (metis buf_xor_cancel buf_xor_commute)
    ultimately show ?thesis
      using True by (simp add: p recorded_hash_def)
  next
    case False
    with Cons show ?thesis
      using len rec by (simp add: p recorded_hash_def hashes_ok_def buf_xor_assoc)
  qed
qed

lemma set_alist_update: "p \<in> set (AList.update k v m) \<Longrightarrow> p = (k, v) \<or> p \<in> set m"
  by (induction m) (auto split: if_splits)

lemma set_alist_delete: "p \<in> set (AList.delete k m) \<Longrightarrow> p \<in> set m"
  by (simp add: AList.delete_eq)

lemma hashes_ok_update: "hashes_ok m \<Longrightarrow> length h = RCHASH_SIZE \<Longrightarrow> hashes_ok (AList.update k h m)"
  by (auto simp: hashes_ok_def AList.distinct_update dest!: set_alist_update)

lemma hashes_ok_delete: "hashes_ok m \<Longrightarrow> hashes_ok (AList.delete k m)"
  by (auto simp: hashes_ok_def AList.distinct_delete dest!: set_alist_delete)

text \<open>
  The recorded hashes are those of the map \<open>T\<close>, each in the bucket of its id, and each bucket
  hash is the xor of the recorded hashes of the bucket.
\<close>

definition buckets_describe :: "nodedb \<Rightarrow> (router_id \<Rightarrow> rc_hash option) \<Rightarrow> bool" where
  "buckets_describe db T \<longleftrightarrow>
     (\<forall>b. hashes_ok (rc_hashes db b) \<and> rc_bucket_hashes db b = xor_all (rc_hashes db b) \<and>
        (\<forall>rid. map_of (rc_hashes db b) rid = (if bucket_of rid = b then T rid else None)))"

definition rcs_ok :: "(router_id \<times> relay_contact) list \<Rightarrow> bool" where
  "rcs_ok m \<longleftrightarrow> distinct (map fst m) \<and> (\<forall>(rid, rc) \<in> set m. rc_router_id rc = rid)"

definition rc_hash_map :: "sodium \<Rightarrow> rc_layout \<Rightarrow> (router_id \<times> relay_contact) list \<Rightarrow> router_id \<Rightarrow> rc_hash option" where
  "rc_hash_map S L m rid = map_option (\<lambda>rc. bucket_hash S L (rc_payload rc)) (map_of m rid)"

definition db_wf :: "sodium \<Rightarrow> rc_layout \<Rightarrow> nodedb \<Rightarrow> bool" where
  "db_wf S L db \<longleftrightarrow> rcs_ok (known_rcs db) \<and> buckets_describe db (rc_hash_map S L (known_rcs db))"

lemma length_bucket_hash: "hash_laws S \<Longrightarrow> length (bucket_hash S L d) = RCHASH_SIZE"
  by (simp add: bucket_hash_def hash_laws_def split_beta)

lemma update_rc_buckets_recorded:
  "update_rc_buckets S L rc added db =
     (let rid = rc_router_id rc; b = bucket_of rid; m = rc_hashes db b;
          out = buf_xor (rc_bucket_hashes db b) (recorded_hash m rid); h = bucket_hash S L (rc_payload rc)
      in if added then db\<lparr>rc_hashes := (rc_hashes db)(b := AList.update rid h m),
                         rc_bucket_hashes := (rc_bucket_hashes db)(b := buf_xor out h)\<rparr>
         else db\<lparr>rc_hashes := (rc_hashes db)(b := AList.delete rid m),
                rc_bucket_hashes := (rc_bucket_hashes db)(b := out)\<rparr>)"
  by (simp add: update_rc_buckets_def recorded_hash_def Let_def)

lemma describe_add:
  assumes "hash_laws S" and "buckets_describe db T"
  shows "buckets_describe (update_rc_buckets S L rc True db)
           (T(rc_router_id rc \<mapsto> bucket_hash S L (rc_payload rc)))"
  using assms
  by (auto simp: buckets_describe_def update_rc_buckets_recorded Let_def hashes_ok_update
      length_bucket_hash xor_all_update AList.update_conv')

lemma describe_remove:
  assumes "buckets_describe db T"
  shows "buckets_describe (update_rc_buckets S L rc False db) (T(rc_router_id rc := None))"
  using assms
  by (auto simp: buckets_describe_def update_rc_buckets_recorded Let_def hashes_ok_delete
      xor_all_delete AList.delete_conv')

lemma update_rc_buckets_known [simp]: "known_rcs (update_rc_buckets S L rc a db) = known_rcs db"
  by (simp add: update_rc_buckets_recorded Let_def)

lemma describe_frame [simp]:
  "buckets_describe (db\<lparr>known_rcs := m\<rparr>) T \<longleftrightarrow> buckets_describe db T"
  "buckets_describe (db\<lparr>disk_ops := ops\<rparr>) T \<longleftrightarrow> buckets_describe db T"
  "buckets_describe (db\<lparr>known_rids := rids\<rparr>) T \<longleftrightarrow> buckets_describe db T"
  "buckets_describe (db\<lparr>registered_relays := rids\<rparr>) T \<longleftrightarrow> buckets_describe db T"
  by (simp_all add: buckets_describe_def)

lemma rcs_ok_insert: "rcs_ok m \<Longrightarrow> map_of m (rc_router_id rc) = None \<Longrightarrow> rcs_ok ((rc_router_id rc, rc) # m)"
  by (auto simp: rcs_ok_def map_of_eq_None_iff)

lemma rcs_ok_update: "rcs_ok m \<Longrightarrow> rcs_ok (AList.update (rc_router_id rc) rc m)"
  by (auto simp: rcs_ok_def AList.distinct_update dest!: set_alist_update)

lemma rc_hash_map_insert:
  "rc_hash_map S L ((rid, rc) # m) = (rc_hash_map S L m)(rid \<mapsto> bucket_hash S L (rc_payload rc))"
  by (simp add: rc_hash_map_def fun_eq_iff)

lemma rc_hash_map_update:
  "rc_hash_map S L (AList.update rid rc m) = (rc_hash_map S L m)(rid \<mapsto> bucket_hash S L (rc_payload rc))"
  by (simp add: rc_hash_map_def fun_eq_iff AList.update_conv')

lemma put_rc_wf:
  assumes "hash_laws S" and "db_wf S L db"
  shows "db_wf S L (snd (put_rc S L self sn rc db))"
proof (cases "map_of (known_rcs db) (rc_router_id rc)")
  case None
  with assms show ?thesis
    by (auto simp: put_rc_def db_wf_def Let_def rcs_ok_insert rc_hash_map_insert intro!: describe_add)
next
  case (Some stored)
  let ?m = "AList.update (rc_router_id rc) rc (known_rcs db)"
  have T: "rc_hash_map S L ?m = (rc_hash_map S L (known_rcs db))(rc_router_id rc \<mapsto> bucket_hash S L (rc_payload rc))"
    by (rule rc_hash_map_update)
  have same: "rc_hash_map S L ?m = rc_hash_map S L (known_rcs db)"
    if "bucket_hash S L (rc_payload rc) = bucket_hash S L (rc_payload stored)"
    using that Some by (auto simp: T fun_eq_iff rc_hash_map_def)
  have d: "buckets_describe (db\<lparr>known_rcs := ?m\<rparr>) (rc_hash_map S L (known_rcs db))"
    using assms by (simp add: db_wf_def)
  show ?thesis
    using assms Some d describe_add [OF assms(1) d, of L rc] same
    by (auto simp: put_rc_def db_wf_def Let_def rcs_ok_update T)
qed

text \<open>The erasing loop keeps exactly the contacts the predicate spares and unrecords the others.\<close>

lemma remove_loop_spec:
  assumes "remove_loop S L rem m db = (removed, kept, db')" and "buckets_describe db T"
    and "\<forall>(rid, rc) \<in> set m. rc_router_id rc = rid"
  shows "removed = map fst (filter (\<lambda>(rid, rc). rem rc) m) \<and> kept = filter (\<lambda>(rid, rc). \<not> rem rc) m \<and>
    known_rcs db' = known_rcs db \<and>
    buckets_describe db' (\<lambda>rid. if rid \<in> set removed then None else T rid)"
  using assms
proof (induction m arbitrary: db T removed kept db')
  case Nil
  then show ?case by auto
next
  case (Cons p m)
  obtain rid rc where p: "p = (rid, rc)" by (cases p)
  show ?case
  proof (cases "rem rc")
    case True
    obtain r1 k1 d1 where step: "remove_loop S L rem m (update_rc_buckets S L rc False db) = (r1, k1, d1)"
      by (metis prod_cases3)
    have d: "buckets_describe (update_rc_buckets S L rc False db) (T(rid := None))"
      using describe_remove [OF Cons.prems(2), of S L rc] Cons.prems(3) by (simp add: p)
    have "(\<lambda>r. if r \<in> set (rid # r1) then None else T r) = (\<lambda>r. if r \<in> set r1 then None else (T(rid := None)) r)"
      by auto
    with Cons.IH [OF step d] show ?thesis
      using Cons.prems(1,3) True step by (auto simp: p)
  next
    case False
    obtain r1 k1 d1 where step: "remove_loop S L rem m db = (r1, k1, d1)"
      by (metis prod_cases3)
    from Cons.IH [OF step Cons.prems(2)] show ?thesis
      using Cons.prems(1,3) False step by (auto simp: p)
  qed
qed

lemma rc_hash_map_filter:
  assumes "rcs_ok m"
  shows "rc_hash_map S L (filter (\<lambda>(rid, rc). \<not> rem rc) m) =
    (\<lambda>rid. if rid \<in> set (map fst (filter (\<lambda>(rid, rc). rem rc) m)) then None else rc_hash_map S L m rid)"
proof
  fix rid
  have "map_of (filter (\<lambda>(rid, rc). \<not> rem rc) m) rid =
      (if rid \<in> fst ` set (filter (\<lambda>(rid, rc). rem rc) m) then None else map_of m rid)"
    using assms unfolding rcs_ok_def
    by (induction m) (auto simp: map_of_eq_None_iff image_iff split: if_splits)
  then show "rc_hash_map S L (filter (\<lambda>(rid, rc). \<not> rem rc) m) rid =
    (if rid \<in> set (map fst (filter (\<lambda>(rid, rc). rem rc) m)) then None else rc_hash_map S L m rid)"
    by (simp add: rc_hash_map_def)
qed

lemma rcs_ok_filter: "rcs_ok m \<Longrightarrow> rcs_ok (filter P m)"
  by (auto simp: rcs_ok_def distinct_map_filter)

lemma remove_rcs_if_known:
  assumes "db_wf S L db"
  shows "known_rcs (remove_rcs_if S L rem db) = filter (\<lambda>(rid, rc). \<not> rem rc) (known_rcs db)"
proof -
  obtain r k d where step: "remove_loop S L rem (known_rcs db) db = (r, k, d)"
    by (metis prod_cases3)
  then show ?thesis
    using remove_loop_spec [OF step] assms
    by (auto simp: remove_rcs_if_def db_wf_def rcs_ok_def Let_def)
qed

lemma remove_rcs_if_wf:
  assumes "db_wf S L db"
  shows "db_wf S L (remove_rcs_if S L rem db)"
proof -
  obtain r k d where step: "remove_loop S L rem (known_rcs db) db = (r, k, d)"
    by (metis prod_cases3)
  from assms have ok: "rcs_ok (known_rcs db)" and
    b: "buckets_describe db (rc_hash_map S L (known_rcs db))"
    by (auto simp: db_wf_def)
  from remove_loop_spec [OF step b] ok show ?thesis
    by (auto simp: remove_rcs_if_def db_wf_def step Let_def rcs_ok_filter rc_hash_map_filter rcs_ok_def [of "known_rcs db"]
        simp del: set_map)
qed

lemma load_rc_files_ok:
  assumes "rcs_ok (known_rcs db)" "load_rc_files sn now fs db = (purge, db')"
  shows "rcs_ok (known_rcs db') \<and> rc_hashes db' = rc_hashes db \<and> rc_bucket_hashes db' = rc_bucket_hashes db"
  using assms
proof (induction sn now fs db arbitrary: purge rule: load_rc_files.induct)
  case (2 sn now f rc fs db)
  then show ?case
    by (auto simp: emplace_def rcs_ok_insert split: option.splits if_splits prod.splits)
qed simp

lemma describe_load:
  assumes "hash_laws S" "buckets_describe db T" "\<forall>(rid, rc) \<in> set m. rc_router_id rc = rid" "distinct (map fst m)"
  shows "buckets_describe (fold (\<lambda>(rid, rc). update_rc_buckets S L rc True) m db) (T ++ rc_hash_map S L m)"
  using assms(2-)
proof (induction m arbitrary: db T)
  case (Cons p m)
  obtain rid rc where p: "p = (rid, rc)" by (cases p)
  have "buckets_describe (update_rc_buckets S L rc True db) (T(rid \<mapsto> bucket_hash S L (rc_payload rc)))"
    using describe_add [OF assms(1) Cons.prems(1), of L rc] Cons.prems(2) by (simp add: p)
  then have "buckets_describe (fold (\<lambda>(rid, rc). update_rc_buckets S L rc True) m (update_rc_buckets S L rc True db))
      (T(rid \<mapsto> bucket_hash S L (rc_payload rc)) ++ rc_hash_map S L m)"
    by (rule Cons.IH) (use Cons.prems(2,3) in auto)
  moreover have "T(rid \<mapsto> bucket_hash S L (rc_payload rc)) ++ rc_hash_map S L m = T ++ rc_hash_map S L (p # m)"
  proof -
    have "map_of m rid = None"
      using Cons.prems(3) by (simp add: p map_of_eq_None_iff)
    then show ?thesis
      by (auto simp: p rc_hash_map_def map_add_def fun_eq_iff split: option.split)
  qed
  ultimately show ?case by (simp add: p)
qed (simp add: rc_hash_map_def map_add_def)

lemma known_rcs_fold [simp]:
  "known_rcs (fold (\<lambda>(rid, rc). update_rc_buckets S L rc True) m db) = known_rcs db"
  by (induction m arbitrary: db) (auto split: prod.split)

lemma nodedb_new_describe: "buckets_describe (nodedb_new bs) (\<lambda>_. None)"
  by (simp add: buckets_describe_def nodedb_new_def hashes_ok_def)

lemma load_from_disk_wf:
  assumes "hash_laws S"
  shows "db_wf S L (snd (load_from_disk S L sn now files (nodedb_new bs)))"
proof -
  obtain purge db1 where l: "load_rc_files sn now files (nodedb_new bs) = (purge, db1)"
    by (metis surj_pair)
  have "rcs_ok (known_rcs (nodedb_new bs))"
    by (simp add: nodedb_new_def rcs_ok_def)
  from load_rc_files_ok [OF this l]
  have ok: "rcs_ok (known_rcs db1)" and d: "buckets_describe db1 (\<lambda>_. None)"
    using nodedb_new_describe [of bs] by (simp_all add: buckets_describe_def)
  have "buckets_describe (fold (\<lambda>(rid, rc). update_rc_buckets S L rc True) (known_rcs db1) db1)
      ((\<lambda>_. None) ++ rc_hash_map S L (known_rcs db1))"
    by (rule describe_load) (use assms ok d in \<open>auto simp: rcs_ok_def\<close>)
  then show ?thesis
    using ok by (simp add: load_from_disk_def l db_wf_def)
qed

section \<open>Reachable databases\<close>

text \<open>The operations that change the database, in any order and with any arguments.\<close>

inductive db_step :: "sodium \<Rightarrow> rc_layout \<Rightarrow> router_id \<Rightarrow> bool \<Rightarrow> nodedb \<Rightarrow> nodedb \<Rightarrow> bool"
  for S L self sn where
  step_put: "db_step S L self sn db (snd (put_rc S L self sn rc db))"
| step_gossip: "db_step S L self sn db (snd (verify_store_gossip_rc S L self sn rc db))"
| step_purge: "db_step S L self sn db (snd (purge_rcs S L public running sn now db))"
| step_registered: "db_step S L self sn db (set_registered_relays relays db)"
| step_fallback: "db_step S L self sn db (load_registered_relays_fallback now db)"
| step_rids: "db_step S L self sn db (snd (handle_fetched_router_ids results inbound db))"
| step_bootstrap: "db_step S L self sn db (snd (store_bootstrap_rcs S L self sn rcs db))"
| step_bootstrap_done: "db_step S L self sn db (snd (on_bootstrap_done success db))"
| step_store_0rtt: "db_step S L self sn db (store_0rtt rid data exp db)"
| step_extract_0rtt: "db_step S L self sn db (snd (extract_0rtt now rid db))"
| step_zrtt_save: "db_step S L self sn db (snd (snd (zrtt_save now db)))"

lemma db_wf_frame [simp]:
  "db_wf S L (db\<lparr>disk_ops := ops\<rparr>) \<longleftrightarrow> db_wf S L db"
  "db_wf S L (db\<lparr>known_rids := rids\<rparr>) \<longleftrightarrow> db_wf S L db"
  "db_wf S L (db\<lparr>registered_relays := rids\<rparr>) \<longleftrightarrow> db_wf S L db"
  "db_wf S L (db\<lparr>bootstrap_running := r\<rparr>) \<longleftrightarrow> db_wf S L db"
  "db_wf S L (db\<lparr>bootstrap_fails := n\<rparr>) \<longleftrightarrow> db_wf S L db"
  "db_wf S L (db\<lparr>last_rc_fetch := t'\<rparr>) \<longleftrightarrow> db_wf S L db"
  "db_wf S L (db\<lparr>pending_rc_lookups := ps\<rparr>) \<longleftrightarrow> db_wf S L db"
  "db_wf S L (db\<lparr>zrtt_tickets := t\<rparr>) \<longleftrightarrow> db_wf S L db"
  "db_wf S L (db\<lparr>zrtt_dirty := rids\<rparr>) \<longleftrightarrow> db_wf S L db"
  by (simp_all add: db_wf_def buckets_describe_def)

lemma bootstrap_result_wf:
  "hash_laws S \<Longrightarrow> db_wf S L db \<Longrightarrow> db_wf S L (snd (store_bootstrap_rcs S L self sn rcs db))"
  by (induction S L self sn rcs db rule: store_bootstrap_rcs.induct) (simp_all add: put_rc_wf)

lemma zrtt_save_loop_wf: "db_wf S L db \<Longrightarrow> db_wf S L (snd (snd (zrtt_save_loop now rids db)))"
  by (induction now rids db rule: zrtt_save_loop.induct)
    (auto simp: Let_def split_beta split: option.split)

lemma db_step_wf:
  assumes "hash_laws S" and "db_step S L self sn db db'" and "db_wf S L db"
  shows "db_wf S L db'"
  using assms(2,3)
proof cases
  case (step_purge public running now)
  then show ?thesis
    using assms(3) by (auto simp: purge_rcs_def Let_def remove_rcs_if_wf)
qed (use assms in \<open>auto simp: put_rc_wf verify_store_gossip_rc_def set_registered_relays_def
      load_registered_relays_fallback_def handle_fetched_router_ids_def Let_def bootstrap_result_wf
      on_bootstrap_done_def store_0rtt_def extract_0rtt_def zrtt_wake_def zrtt_save_def split_beta zrtt_save_loop_wf
      split: option.split list.split\<close>)

definition db_init :: "sodium \<Rightarrow> rc_layout \<Rightarrow> bool \<Rightarrow> nodedb \<Rightarrow> bool" where
  "db_init S L sn db \<longleftrightarrow> hash_laws S \<and> (\<exists>now files bs. db = snd (load_from_disk S L sn now files (nodedb_new bs)))"

definition db_inv :: "sodium \<Rightarrow> rc_layout \<Rightarrow> nodedb \<Rightarrow> bool" where
  "db_inv S L db \<longleftrightarrow> hash_laws S \<and> db_wf S L db"

interpretation db_run: invariant_system "db_init S L sn" "db_step S L self sn" "db_inv S L" for S L self sn
  by unfold_locales (auto simp: db_init_def db_inv_def load_from_disk_wf db_step_wf)

section \<open>Bucket hashes as a digest of the contacts\<close>

lemma xor_all_remove:
  assumes "\<forall>(_, h) \<in> set (xs @ p # ys). length h = RCHASH_SIZE"
  shows "xor_all (xs @ p # ys) = xor_all (p # xs @ ys)"
  using assms
proof (induction xs)
  case (Cons q xs)
  obtain k h k' h' where pq: "p = (k, h)" "q = (k', h')" by (cases p, cases q)
  have "length (xor_all (xs @ ys)) = RCHASH_SIZE"
    by (rule length_xor_all) (use Cons.prems in auto)
  then show ?case
    using Cons by (simp add: pq buf_xor_left_commute)
qed simp

lemma xor_all_mset:
  assumes "mset m = mset m'" and "\<forall>(_, h) \<in> set m. length h = RCHASH_SIZE"
  shows "xor_all m = xor_all m'"
  using assms
proof (induction m arbitrary: m')
  case (Cons p m)
  then have "p \<in> set m'"
    by (metis list.set_intros(1) set_mset_mset)
  then obtain xs ys where m': "m' = xs @ p # ys"
    by (meson split_list)
  with Cons.prems have "mset m = mset (xs @ ys)"
    by simp
  with Cons have "xor_all m = xor_all (xs @ ys)"
    by simp
  moreover have "xor_all m' = xor_all (p # xs @ ys)"
    unfolding m' using Cons.prems by (intro xor_all_remove) (metis m' set_mset_mset)
  ultimately show ?case
    by (cases p) simp
qed simp

text \<open>The hashes of the known contacts of one bucket.\<close>

definition bucket_contents :: "sodium \<Rightarrow> rc_layout \<Rightarrow> (router_id \<times> relay_contact) list \<Rightarrow> nat \<Rightarrow> (router_id \<times> rc_hash) list" where
  "bucket_contents S L m b =
     map (\<lambda>(rid, rc). (rid, bucket_hash S L (rc_payload rc))) (filter (\<lambda>(rid, rc). bucket_of rid = b) m)"

lemma map_of_bucket_contents:
  "map_of (bucket_contents S L m b) rid = (if bucket_of rid = b then rc_hash_map S L m rid else None)"
  by (induction m) (auto simp: bucket_contents_def rc_hash_map_def)

lemma fst_bucket_contents: "map fst (bucket_contents S L m b) = map fst (filter (\<lambda>(rid, rc). bucket_of rid = b) m)"
  by (induction m) (auto simp: bucket_contents_def)

lemma distinct_bucket_contents: "distinct (map fst m) \<Longrightarrow> distinct (map fst (bucket_contents S L m b))"
  by (simp add: fst_bucket_contents distinct_map_filter)

lemma alist_mset_eq:
  assumes "distinct (map fst a)" "distinct (map fst b)" "map_of a = map_of b"
  shows "mset a = mset b"
proof -
  have "set a = set b"
    using assms by (metis map_of_inject_set)
  then show ?thesis
    using assms by (metis distinct_map set_eq_iff_mset_eq_distinct)
qed

lemma bucket_hash_contents:
  assumes "db_wf S L db"
  shows "rc_bucket_hashes db b = xor_all (bucket_contents S L (known_rcs db) b)"
proof -
  have "mset (rc_hashes db b) = mset (bucket_contents S L (known_rcs db) b)"
    using assms
    by (intro alist_mset_eq)
      (auto simp: db_wf_def buckets_describe_def hashes_ok_def rcs_ok_def distinct_bucket_contents
        map_of_bucket_contents fun_eq_iff)
  then show ?thesis
    using assms xor_all_mset [of "rc_hashes db b"]
    by (simp add: db_wf_def buckets_describe_def hashes_ok_def)
qed

section \<open>Behaviour of the operations\<close>

lemma put_rc_get:
  "get_rc (snd (put_rc S L self sn rc db)) rid =
     (if fst (fst (put_rc S L self sn rc db)) \<and> rid = rc_router_id rc then Some rc else get_rc db rid)"
  by (auto simp: put_rc_def get_rc_def Let_def AList.update_conv' split: option.split)

lemma put_rc_stored:
  "fst (fst (put_rc S L self sn rc db)) \<longleftrightarrow>
     (case get_rc db (rc_router_id rc) of None \<Rightarrow> True
      | Some old \<Rightarrow> rc_timestamp old + MIN_GOSSIP_RC_AGE \<le> rc_timestamp rc)"
  by (auto simp: put_rc_def get_rc_def Let_def newer_than_def split: option.split)

lemma put_rc_gossip:
  "snd (fst (put_rc S L self sn rc db)) \<longleftrightarrow> fst (fst (put_rc S L self sn rc db)) \<and> sn \<and>
     (case get_rc db (rc_router_id rc) of None \<Rightarrow> True
      | Some old \<Rightarrow> rc_router_id rc = self \<or> rc_timestamp old + OUTDATED_AGE div 1000 \<le> rc_timestamp rc \<or>
          bucket_hash S L (rc_payload rc) \<noteq> bucket_hash S L (rc_payload old))"
  by (auto simp: put_rc_def get_rc_def Let_def newer_than_def split: option.split)

lemma set_accept_rids:
  "set (accept_rids results inbound needed rids accepted) =
     set accepted \<union> {rid \<in> set rids. needed \<le> agree results rid \<and> inbound_agrees results inbound rid}"
  by (induction results inbound needed rids accepted rule: accept_rids.induct) auto

lemma accept_rids_Nil_iff:
  "accept_rids results inbound needed rids [] = [] \<longleftrightarrow>
     {rid \<in> set rids. needed \<le> agree results rid \<and> inbound_agrees results inbound rid} = {}"
  by (simp add: set_accept_rids flip: set_empty)

text \<open>An id with a positive count is among the ids listed.\<close>

lemma agree_listed: "0 < agree results rid \<Longrightarrow> rid \<in> set (concat (map snd results))"
  by (induction results) (auto simp: agree_def split: if_splits)

lemma agree_le: "agree results rid \<le> length results"
  by (simp add: agree_def)

text \<open>Two groups of sources that together outnumber all sources have a source in common.\<close>

lemma majority_overlap:
  assumes "length results < agree results rid + length (filter P results)"
  shows "\<exists>(src, rids) \<in> set results. rid \<in> set rids \<and> P (src, rids)"
proof (rule ccontr)
  assume "\<not> ?thesis"
  then have "\<forall>r \<in> set results. \<not> ((\<lambda>(src, rids). rid \<in> set rids) r \<and> P r)"
    by auto
  then have "length (filter (\<lambda>(src, rids). rid \<in> set rids) results) + length (filter P results) \<le> length results"
    by (induction results) auto
  with assms show False
    by (simp add: agree_def)
qed

lemma agree_all:
  assumes "\<forall>(src, rids) \<in> set results. P (src, rids) \<longrightarrow> rid \<in> set rids"
  shows "length (filter P results) \<le> agree results rid"
  using assms by (induction results) (auto simp: agree_def)

section \<open>Closest relays\<close>

lemma closer_refl [simp]: "closer pk a a"
  by (simp add: closer_def Let_def)

lemma closer_total: "closer pk a b \<or> closer pk b a"
  by (auto simp: closer_def Let_def)

lemma closer_trans: "closer pk a b \<Longrightarrow> closer pk b c \<Longrightarrow> closer pk a c"
  by (auto simp: closer_def Let_def)

lemma map_unat_inject: "map unat (a :: bytes) = map unat b \<longleftrightarrow> a = b"
  by (rule inj_map_eq_map) (simp add: inj_def word_unat_eq_iff)

lemma closer_antisym: "closer pk a b \<Longrightarrow> closer pk b a \<Longrightarrow> a = b"
  by (auto simp: closer_def Let_def publish_metric_def map_unat_inject)

abbreviation sort_closest :: "bytes \<Rightarrow> router_id list \<Rightarrow> router_id list" where
  "sort_closest pk rids \<equiv> foldr (insort_closest pk) rids []"

lemma mset_insort_closest [simp]: "mset (insort_closest pk x ys) = add_mset x (mset ys)"
  by (induction pk x ys rule: insort_closest.induct) auto

lemma set_insort_closest [simp]: "set (insort_closest pk x ys) = insert x (set ys)"
  by (simp flip: set_mset_mset)

lemma sorted_insort_closest:
  "sorted_wrt (closer pk) ys \<Longrightarrow> sorted_wrt (closer pk) (insort_closest pk x ys)"
proof (induction pk x ys rule: insort_closest.induct)
  case (2 pk x y ys)
  then show ?case
    using closer_total [of pk x y] by (auto intro: closer_trans)
qed simp

lemma mset_sort_closest [simp]: "mset (sort_closest pk rids) = mset rids"
  by (induction rids) simp_all

lemma set_sort_closest [simp]: "set (sort_closest pk rids) = set rids"
  by (simp flip: set_mset_mset)

lemma length_sort_closest [simp]: "length (sort_closest pk rids) = length rids"
  by (simp flip: size_mset)

lemma sorted_sort_closest: "sorted_wrt (closer pk) (sort_closest pk rids)"
  by (induction rids) (simp_all add: sorted_insort_closest)

text \<open>The order is total on ids, so a sorted list is determined by its elements.\<close>

lemma sorted_closest_unique:
  assumes "sorted_wrt (closer pk) xs" "sorted_wrt (closer pk) ys" "mset xs = mset ys"
  shows "xs = ys"
  using assms
proof (induction xs arbitrary: ys)
  case (Cons x xs)
  then obtain y ys' where ys: "ys = y # ys'"
    by (cases ys) auto
  have "x \<in> set ys" "y \<in> set (x # xs)"
    using Cons.prems(3) ys by (metis list.set_intros(1) set_mset_mset)+
  then have "closer pk x y" "closer pk y x"
    using Cons.prems(1,2) ys by auto
  then have "x = y"
    by (rule closer_antisym)
  with Cons ys show ?case
    by auto
qed simp

lemma sort_closest_set_eq:
  "distinct xs \<Longrightarrow> distinct ys \<Longrightarrow> set xs = set ys \<Longrightarrow> sort_closest pk xs = sort_closest pk ys"
  by (intro sorted_closest_unique [of pk] sorted_sort_closest) (simp_all add: set_eq_iff_mset_eq_distinct)

section \<open>0-RTT tickets\<close>

definition tickets_ok :: "nodedb \<Rightarrow> bool" where
  "tickets_ok db \<longleftrightarrow> (\<forall>rid. length (tickets_of db rid) \<le> MAX_0RTT_TICKETS)"

lemma tickets_of_update:
  "tickets_of (db\<lparr>zrtt_tickets := AList.update rid ts (zrtt_tickets db)\<rparr>) r = (if r = rid then ts else tickets_of db r)"
  by (simp add: tickets_of_def AList.update_conv')

lemma tickets_of_wake [simp]: "tickets_of (zrtt_wake rid db) r = tickets_of db r"
  by (simp add: zrtt_wake_def tickets_of_def)

lemma tickets_of_store:
  "tickets_of (store_0rtt rid data exp db) r =
     (if r = rid then drop (length (tickets_of db rid) - 1) (tickets_of db rid) @ [(data, exp)] else tickets_of db r)"
  by (simp add: store_0rtt_def Let_def tickets_of_update MAX_0RTT_TICKETS_def)

lemma extract_0rtt_Some:
  assumes "extract_0rtt now rid db = (Some d, db')"
  shows "\<exists>exp pre. tickets_of db rid = pre @ (d, exp) # tickets_of db' rid \<and> now \<le> exp * 1000 \<and>
    (\<forall>t \<in> set pre. ticket_expired now t)"
proof -
  from assms obtain ts t ts' where ts: "map_of (zrtt_tickets db) rid = Some ts" "dropWhile (ticket_expired now) ts = t # ts'"
    "d = fst t" "tickets_of db' rid = ts'"
    by (auto simp: extract_0rtt_def tickets_of_update split: option.splits list.splits)
  have "ts = takeWhile (ticket_expired now) ts @ t # ts'"
    using ts(2) by (metis takeWhile_dropWhile_id)
  moreover have "\<not> ticket_expired now t"
    using ts(2) by (metis hd_dropWhile list.discI list.sel(1))
  moreover have "\<forall>t \<in> set (takeWhile (ticket_expired now) ts). ticket_expired now t"
    by (auto dest: set_takeWhileD)
  moreover have "tickets_of db rid = ts"
    using ts(1) by (simp add: tickets_of_def)
  ultimately show ?thesis
    using ts(3,4)
    by (intro exI [of _ "snd t"] exI [of _ "takeWhile (ticket_expired now) ts"]) (simp add: ticket_expired_def)
qed

section \<open>Properties\<close>

lemma fetched_rids_consensus_facts:
  assumes r: "handle_fetched_router_ids results inbound db = (conclusive, db')"
  shows "conclusive \<longleftrightarrow>
      (\<exists>rid. length results < 2 * agree results rid \<and> inbound_agrees results inbound rid)"
    and "conclusive \<Longrightarrow> set (known_rids db') =
      {rid. length results < 2 * agree results rid \<and> inbound_agrees results inbound rid}"
    and "\<not> conclusive \<Longrightarrow> db' = db"
    and "conclusive \<Longrightarrow> length results < 2 * length (filter P results) \<Longrightarrow> rid \<in> set (known_rids db') \<Longrightarrow>
      \<exists>(src, rids) \<in> set results. rid \<in> set rids \<and> P (src, rids)"
proof -
  let ?acc = "accept_rids results inbound (length results div 2 + 1) (concat (map snd results)) []"
  have maj: "length results div 2 + 1 \<le> agree results rid \<longleftrightarrow> length results < 2 * agree results rid" for rid
    by linarith
  have acc: "set ?acc = {rid. length results < 2 * agree results rid \<and> inbound_agrees results inbound rid}"
    unfolding set_accept_rids maj using agree_listed [of results] by fastforce
  have out: "(conclusive, db') = (if ?acc = [] then (False, db) else (True, db\<lparr>known_rids := ?acc\<rparr>))"
    unfolding r [symmetric] handle_fetched_router_ids_def Let_def ..
  show "\<not> conclusive \<Longrightarrow> db' = db"
    using out by (auto split: if_splits)
  have "conclusive \<longleftrightarrow> set ?acc \<noteq> {}"
    using out by (auto split: if_splits)
  then show "conclusive \<longleftrightarrow> (\<exists>rid. length results < 2 * agree results rid \<and> inbound_agrees results inbound rid)"
    unfolding acc by blast
  show c: "conclusive \<Longrightarrow> set (known_rids db') =
      {rid. length results < 2 * agree results rid \<and> inbound_agrees results inbound rid}"
    using out acc by (auto split: if_splits)
  show "\<exists>(src, rids) \<in> set results. rid \<in> set rids \<and> P (src, rids)"
    if "conclusive" "length results < 2 * length (filter P results)" "rid \<in> set (known_rids db')"
    by (rule majority_overlap) (use c that in auto)
qed

text \<open>
  C5: A conclusive round of id fetches accepts exactly the ids that a strict majority of the sources
  affirmed and an inbound source affirmed; so with a strict majority \<open>P\<close> of honest sources, every
  accepted id was affirmed by an honest source.  Without any such id the accepted list stays as it was.
\<close>

theorem fetched_rids_consensus:
  assumes "handle_fetched_router_ids results inbound db = (conclusive, db')"
  shows "(conclusive \<longleftrightarrow> (\<exists>rid. length results < 2 * agree results rid \<and> inbound_agrees results inbound rid)) \<and>
    (if conclusive
     then set (known_rids db') = {rid. length results < 2 * agree results rid \<and> inbound_agrees results inbound rid}
     else db' = db) \<and>
    (conclusive \<and> length results < 2 * length (filter P results) \<longrightarrow>
       (\<forall>rid \<in> set (known_rids db'). \<exists>(src, rids) \<in> set results. rid \<in> set rids \<and> P (src, rids)))"
  using fetched_rids_consensus_facts [OF assms] by auto

theorem fetched_rids_consensus_witness:
  "let results = [([1], [[7], [8]]), ([2], [[7]]), ([3], [[9]])]; out = handle_fetched_router_ids results [[1]] (nodedb_new [])
   in fst out \<and> set (known_rids (snd out)) = {rid. length results < 2 * agree results rid \<and> inbound_agrees results [[1]] rid}
      \<and> [7] \<in> set (known_rids (snd out))"
proof -
  let ?results = "[([1], [[7], [8]]), ([2], [[7]]), ([3], [[9]])] :: (router_id \<times> router_id list) list"
  let ?out = "handle_fetched_router_ids ?results [[1]] (nodedb_new [])"
  have r: "?out = (fst ?out, snd ?out)" by simp
  have "length ?results < 2 * agree ?results [7] \<and> inbound_agrees ?results [[1]] [7]"
    by (simp add: agree_def inbound_agrees_def)
  moreover from this fetched_rids_consensus [OF r] have "fst ?out"
    by blast
  moreover from this fetched_rids_consensus [OF r] have "set (known_rids (snd ?out)) =
      {rid. length ?results < 2 * agree ?results rid \<and> inbound_agrees ?results [[1]] rid}"
    by presburger
  ultimately show ?thesis
    unfolding Let_def by blast
qed

lemma closest_relays_agree_facts:
  assumes "distinct (registered_relays db)" and "distinct (registered_relays db')"
    and "set (registered_relays db) = set (registered_relays db')"
  shows "find_many_closest_to db pk n = find_many_closest_to db' pk n"
    and "distinct (find_many_closest_to db pk n)"
    and "length (find_many_closest_to db pk n) = min (nat n) (length (registered_relays db))"
    and "sorted_wrt (closer pk) (find_many_closest_to db pk n)"
    and "rid \<in> set (find_many_closest_to db pk n) \<Longrightarrow> other \<in> set (registered_relays db) \<Longrightarrow>
      other \<notin> set (find_many_closest_to db pk n) \<Longrightarrow> closer pk rid other"
proof -
  let ?s = "sort_closest pk (registered_relays db)"
  have f: "find_many_closest_to db pk n = take (nat n) ?s"
    by (simp add: find_many_closest_to_def)
  show "find_many_closest_to db pk n = find_many_closest_to db' pk n"
    using sort_closest_set_eq [OF assms] by (simp add: find_many_closest_to_def)
  have "distinct ?s"
    using assms(1) by (metis mset_sort_closest distinct_count_atmost_1 set_sort_closest)
  then show "distinct (find_many_closest_to db pk n)"
    by (simp add: f)
  show "length (find_many_closest_to db pk n) = min (nat n) (length (registered_relays db))"
    by (simp add: f min.commute)
  have s: "sorted_wrt (closer pk) (take (nat n) ?s @ drop (nat n) ?s)"
    by (simp add: sorted_sort_closest)
  then show "sorted_wrt (closer pk) (find_many_closest_to db pk n)"
    unfolding f sorted_wrt_append by blast
  show "closer pk rid other" if "rid \<in> set (find_many_closest_to db pk n)" "other \<in> set (registered_relays db)"
    "other \<notin> set (find_many_closest_to db pk n)"
  proof -
    have "other \<in> set (drop (nat n) ?s)"
      using that(2,3) unfolding f by (metis append_take_drop_id Un_iff set_append set_sort_closest)
    then show ?thesis
      using s that(1) unfolding f sorted_wrt_append by blast
  qed
qed

text \<open>
  C6: Relays that know the same registered relays compute the same storage locations for a blinded
  key, whatever the order of their tables: the locations are distinct registered relays, sorted by
  distance, and no relay left out is closer than one listed.
\<close>

theorem closest_relays_agree:
  assumes "distinct (registered_relays db)" and "distinct (registered_relays db')"
    and "set (registered_relays db) = set (registered_relays db')"
  shows "find_many_closest_to db pk n = find_many_closest_to db' pk n \<and>
    distinct (find_many_closest_to db pk n) \<and>
    length (find_many_closest_to db pk n) = min (nat n) (length (registered_relays db)) \<and>
    sorted_wrt (closer pk) (find_many_closest_to db pk n) \<and>
    (\<forall>rid \<in> set (find_many_closest_to db pk n).
       \<forall>other \<in> set (registered_relays db) - set (find_many_closest_to db pk n). closer pk rid other)"
  using closest_relays_agree_facts [OF assms] by auto

theorem closest_relays_agree_witness:
  "find_many_closest_to (nodedb_new []\<lparr>registered_relays := [replicate 32 1, replicate 32 2]\<rparr>) (replicate 32 3) 1 =
   find_many_closest_to (nodedb_new []\<lparr>registered_relays := [replicate 32 2, replicate 32 1]\<rparr>) (replicate 32 3) 1"
  by (rule closest_relays_agree [THEN conjunct1]) auto

text \<open>
  C7: After \<^verbatim>\<open>put_rc\<close> the database holds a contact of that relay that is at most a minute older
  than the offered one; no stored contact is replaced by an older one, and contacts of other relays
  are untouched.  A contact is gossiped only by a relay that stored it.
\<close>

theorem put_rc_fresh:
  "(\<exists>r. get_rc (snd (put_rc S L self sn rc db)) (rc_router_id rc) = Some r \<and>
      rc_timestamp rc < rc_timestamp r + MIN_GOSSIP_RC_AGE) \<and>
   (\<forall>rid old. get_rc db rid = Some old \<longrightarrow>
      (\<exists>r. get_rc (snd (put_rc S L self sn rc db)) rid = Some r \<and> rc_timestamp old \<le> rc_timestamp r)) \<and>
   (\<forall>rid. rid \<noteq> rc_router_id rc \<longrightarrow> get_rc (snd (put_rc S L self sn rc db)) rid = get_rc db rid) \<and>
   (snd (fst (put_rc S L self sn rc db)) \<longrightarrow> fst (fst (put_rc S L self sn rc db)) \<and> sn)"
  using put_rc_stored [of S L self sn rc db]
  by (auto simp: put_rc_get put_rc_gossip MIN_GOSSIP_RC_AGE_def split: option.splits)

theorem put_rc_fresh_witness:
  "let rc = (\<lambda>t. \<lparr>rc_router_id = [1], rc_addr = [], rc_addr6 = None, rc_timestamp = t, rc_netid = 0, rc_version = [],
              rc_payload = []\<rparr>);
       db = nodedb_new []\<lparr>known_rcs := [([1], rc 100)]\<rparr>
   in \<forall>S L t. \<exists>r. get_rc (snd (put_rc S L [2] True (rc t) db)) [1] = Some r \<and> 100 \<le> rc_timestamp r"
proof -
  let ?rc = "\<lambda>t. \<lparr>rc_router_id = [1], rc_addr = [], rc_addr6 = None, rc_timestamp = t, rc_netid = 0, rc_version = [],
              rc_payload = []\<rparr> :: relay_contact"
  have "get_rc (nodedb_new []\<lparr>known_rcs := [([1], ?rc 100)]\<rparr>) [1] = Some (?rc 100)"
    by (simp add: get_rc_def)
  from put_rc_fresh [THEN conjunct2, THEN conjunct1, rule_format, OF this] show ?thesis
    by simp
qed

lemma ticket_single_use_facts:
  assumes "tickets_ok db"
  shows "extract_0rtt now rid db = (Some d, db') \<Longrightarrow>
      (\<exists>exp pre. tickets_of db rid = pre @ (d, exp) # tickets_of db' rid \<and> now \<le> exp * 1000 \<and>
        (\<forall>t \<in> set pre. ticket_expired now t))"
    and "tickets_ok (store_0rtt rid data exp db)"
    and "last (tickets_of (store_0rtt rid data exp db) rid) = (data, exp)"
  using assms extract_0rtt_Some
  by (auto simp: tickets_ok_def tickets_of_store MAX_0RTT_TICKETS_def)

text \<open>
  C8: Session tickets are used at most once and never after they expired: an extracted ticket was
  stored, has not expired, and is no longer stored (together with the expired ones before it); at
  most two tickets per relay are kept.
\<close>

theorem ticket_single_use:
  assumes "tickets_ok db"
  shows "(\<forall>d db'. extract_0rtt now rid db = (Some d, db') \<longrightarrow>
      (\<exists>exp pre. tickets_of db rid = pre @ (d, exp) # tickets_of db' rid \<and> now \<le> exp * 1000 \<and>
        (\<forall>t \<in> set pre. ticket_expired now t))) \<and>
    tickets_ok (store_0rtt rid data exp db) \<and> last (tickets_of (store_0rtt rid data exp db) rid) = (data, exp)"
  using ticket_single_use_facts [OF assms] by simp

theorem ticket_single_use_witness:
  "let db = store_0rtt [1] [10] 50 (store_0rtt [1] [9] 20 (nodedb_new [])); out = extract_0rtt 30000 [1] db
   in fst out = Some [10] \<and> (\<exists>exp pre. tickets_of db [1] = pre @ ([10], exp) # tickets_of (snd out) [1] \<and> 30000 \<le> exp * 1000)"
proof -
  let ?db = "store_0rtt [1] [10] 50 (store_0rtt [1] [9] 20 (nodedb_new []))"
  have "tickets_ok (nodedb_new [])"
    by (simp add: tickets_ok_def tickets_of_def nodedb_new_def)
  then have ok: "tickets_ok ?db"
    by (intro ticket_single_use_facts(2))
  have ex: "extract_0rtt 30000 [1] ?db = (Some [10], snd (extract_0rtt 30000 [1] ?db))"
    by (simp add: extract_0rtt_def store_0rtt_def tickets_of_def zrtt_wake_def nodedb_new_def MAX_0RTT_TICKETS_def
        ticket_expired_def Let_def)
  with ticket_single_use [OF ok, of 30000 "[1]"]
  have "\<exists>exp pre. tickets_of ?db [1] = pre @ ([10], exp) # tickets_of (snd (extract_0rtt 30000 [1] ?db)) [1] \<and> 30000 \<le> exp * 1000"
    by blast
  moreover have "fst (extract_0rtt 30000 [1] ?db) = Some [10]"
    by (subst ex) simp
  ultimately show ?thesis
    unfolding Let_def by blast
qed

end
