(* ===== verification/Path_Build.thy ===== *)
theory Path_Build
  imports Path
begin

text \<open>
  The path build message (\<^verbatim>\<open>path/path_handler.cpp\<close>, lines 463 to 795): the two frame formats,
  the onion of eight frames a client sends and the decoding of one frame at a relay.  The
  random draws of the encoder are the record \<open>frame_rand\<close>.
\<close>

section \<open>Keys of a router\<close>

text \<open>\<^verbatim>\<open>Router::id()\<close>, \<^verbatim>\<open>secret_key()\<close> and \<^verbatim>\<open>x25519_keys()\<close>.\<close>

record router_keys =
  rk_id :: router_id
  rk_secret :: bytes
  rk_x25519 :: x25519_keypair

definition router_keys_of :: "sodium \<Rightarrow> bytes \<Rightarrow> router_keys" where
  "router_keys_of S seed =
     (let sk = ed25519_generate S seed
      in \<lparr>rk_id = ed25519_to_pubkey sk, rk_secret = sk, rk_x25519 = x25519_keypair_of_ed S sk\<rparr>)"

section \<open>Encoding\<close>

datatype build_error = AlreadyBuilt | DhFailed | BadHopKey | FrameSizeMismatch | UnsupportedV0
  | FrameOutOfRange

record frame_rand =
  fr_dh_nonce :: symm_nonce \<comment> \<open>\<^verbatim>\<open>SymmNonce::make_random()\<close>\<close>
  fr_eph_seed :: bytes \<comment> \<open>seed of \<^verbatim>\<open>Ed25519SecretKey::generate()\<close>\<close>
  fr_eph_x :: bytes \<comment> \<open>secret of \<^verbatim>\<open>X25519KeyPair::generate()\<close>\<close>
  fr_pad :: bytes \<comment> \<open>\<^verbatim>\<open>random_fill\<close> behind the record\<close>

text \<open>The v0 record, a dictionary; its fields have fixed sizes, so the frame has one too.\<close>

definition frame_payload_v0 :: "oxenc \<Rightarrow> transit_hop \<Rightarrow> u32 \<Rightarrow> bytes" where
  "frame_payload_v0 X hop lifetime =
     bt_dict X [(''l'', BStr (little32 X lifetime)), (''r'', BStr (rxid hop)),
                (''t'', BStr (txid hop)), (''u'', BStr (upstream hop))]"

definition encode_frame_v0 ::
  "sodium \<Rightarrow> oxenc \<Rightarrow> frame_rand \<Rightarrow> transit_hop \<Rightarrow> nat \<Rightarrow> u32 \<Rightarrow>
     build_error + (transit_hop \<times> bytes \<times> symm_nonce)" where
  "encode_frame_v0 S X R hop frame_size lifetime =
     (let hop_payload = frame_payload_v0 X hop lifetime;
          dh_nonce = fr_dh_nonce R;
          eph_key = ed25519_generate S (fr_eph_seed R)
      in case dh_client S (router_id hop) eph_key dh_nonce of
           None \<Rightarrow> Inl DhFailed
         | Some secret \<Rightarrow>
             (let xn = xor_nonce_of S secret;
                  encoded = bt_dict X
                    [(''k'', BStr (ed25519_to_pubkey eph_key)), (''n'', BStr dh_nonce),
                     (''x'', BStr (xchacha20 S hop_payload secret dh_nonce))]
              in if length encoded \<noteq> frame_size then Inl FrameSizeMismatch
                 else Inr (hop\<lparr>shared_secret := secret, xor_nonce := xn\<rparr>, encoded, buf_xor dh_nonce xn)))"

definition FRAME_V1_VERSION :: byte where "FRAME_V1_VERSION = 1"
definition PUBKEY_OFFSET :: nat where "PUBKEY_OFFSET = 1"
definition RECORD_OFFSET :: nat where "RECORD_OFFSET = PUBKEY_OFFSET + PUBKEY_SIZE"
definition RXID_OFFSET :: nat where "RXID_OFFSET = 2"
definition TXID_OFFSET :: nat where "TXID_OFFSET = RXID_OFFSET + HOPID_SIZE"
definition UPSTREAM_OFFSET :: nat where "UPSTREAM_OFFSET = TXID_OFFSET + HOPID_SIZE"
definition RECORD_SIZE :: nat where "RECORD_SIZE = UPSTREAM_OFFSET + PUBKEY_SIZE"

lemmas frame_v1_defs = FRAME_V1_VERSION_def PUBKEY_OFFSET_def RECORD_OFFSET_def RXID_OFFSET_def
  TXID_OFFSET_def UPSTREAM_OFFSET_def RECORD_SIZE_def

text \<open>The static assertions of the source on the frame sizes.\<close>

lemma frame_size_v1: "BUILD_FRAME_SIZE_V1 = RECORD_OFFSET + RECORD_SIZE + TAG_SIZE"
  by (simp add: build_consts frame_v1_defs size_defs)

lemma frame_size_v0:
  "BUILD_FRAME_SIZE_V0 =
     2 + bt_pair_bytes PUBKEY_SIZE 1 + bt_pair_bytes SYMM_NONCE_SIZE 1 +
     bt_pair_bytes (2 + bt_pair_bytes 4 1 + bt_pair_bytes HOPID_SIZE 1 + bt_pair_bytes HOPID_SIZE 1 +
       bt_pair_bytes PUBKEY_SIZE 1) 1"
  by (simp add: build_consts bt_pair_bytes_def size_defs)

definition encode_frame_v1 ::
  "sodium \<Rightarrow> oxenc \<Rightarrow> frame_rand \<Rightarrow> transit_hop \<Rightarrow> nat \<Rightarrow> u32 \<Rightarrow>
     build_error + (transit_hop \<times> bytes \<times> symm_nonce)" where
  "encode_frame_v1 S X R hop frame_size lifetime =
     (let eph = x25519_generate S (fr_eph_x R)
      in case x25519_pubkey_of_ed S (router_id hop) of
           None \<Rightarrow> Inl BadHopKey
         | Some B \<Rightarrow>
             (case path_build_secret S eph B True of
                None \<Rightarrow> Inl DhFailed
              | Some secret \<Rightarrow>
                  (let xn = xor_nonce_of S secret;
                       recrd = little16 X (ucast lifetime) @ rxid hop @ txid hop @ upstream hop
                               @ replicate TAG_SIZE 0
                   in case xchacha20_poly1305_encrypt_inplace S recrd secret (buf_zero SYMM_NONCE_SIZE)
                             [FRAME_V1_VERSION] of
                        None \<Rightarrow> Inl FrameSizeMismatch
                      | Some sealed \<Rightarrow>
                          Inr (hop\<lparr>shared_secret := secret, xor_nonce := xn\<rparr>,
                               FRAME_V1_VERSION # xpub eph @ sealed
                                 @ take (frame_size - BUILD_FRAME_SIZE_V1) (fr_pad R),
                               xn))))"

definition encode_frame ::
  "sodium \<Rightarrow> oxenc \<Rightarrow> frame_rand \<Rightarrow> transit_hop \<Rightarrow> nat \<Rightarrow> u32 \<Rightarrow>
     build_error + (transit_hop \<times> bytes \<times> symm_nonce)" where
  "encode_frame S X R hop frame_size lifetime =
     (if version hop = 0 \<and> frame_size \<noteq> BUILD_FRAME_SIZE_V0 then Inl UnsupportedV0
      else if version hop = 0 then encode_frame_v0 S X R hop frame_size lifetime
      else encode_frame_v1 S X R hop frame_size lifetime)"

section \<open>The onion\<close>

text \<open>\<^verbatim>\<open>std::chrono::round<seconds>\<close> of a millisecond duration: to nearest, ties to even.\<close>

definition round_seconds :: "ms \<Rightarrow> int" where
  "round_seconds d =
     (let t0 = d div 1000; diff0 = d - t0 * 1000; diff1 = (t0 + 1) * 1000 - d
      in if diff0 = diff1 then (if t0 mod 2 = 1 then t0 + 1 else t0)
         else if diff0 < diff1 then t0 else t0 + 1)"

text \<open>
  The loop of \<^verbatim>\<open>path_build_onion\<close> over the hops \<open>i - 1\<close> down to \<open>0\<close>: write the
  frame of the hop into the buffer, then encrypt the real frames behind it.
\<close>

fun onion_loop ::
  "sodium \<Rightarrow> oxenc \<Rightarrow> (nat \<Rightarrow> frame_rand) \<Rightarrow> u32 \<Rightarrow> nat \<Rightarrow> transit_hop list \<times> bytes \<Rightarrow>
     build_error + (transit_hop list \<times> bytes)" where
  "onion_loop S X R lifetime 0 st = Inr st"
| "onion_loop S X R lifetime (Suc i) (hs, buf) =
     (case encode_frame S X (R i) (hs ! i) BUILD_FRAME_SIZE lifetime of
        Inl e \<Rightarrow> Inl e
      | Inr (hop, frame, onion_nonce) \<Rightarrow>
          (let buf1 = write_span (i * BUILD_FRAME_SIZE) frame buf;
               following_frames = length hs - 1 - i;
               off = (i + 1) * BUILD_FRAME_SIZE;
               buf2 = (if 0 < following_frames
                       then write_span off
                              (xchacha20 S (subspan off (following_frames * BUILD_FRAME_SIZE) buf1)
                                 (shared_secret hop) onion_nonce) buf1
                       else buf1)
           in onion_loop S X R lifetime i (hs[i := hop], buf2)))"

text \<open>
  \<^verbatim>\<open>path_build_onion\<close>; \<open>junk\<close> is the random filling behind the real frames.  More hops than
  frames would write outside the buffer (\<open>FrameOutOfRange\<close>).  The counter
  \<^verbatim>\<open>path_builds.attempts\<close> is incremented by the caller in the model of the path handler.
\<close>

definition path_build_onion ::
  "sodium \<Rightarrow> oxenc \<Rightarrow> (nat \<Rightarrow> frame_rand) \<Rightarrow> bytes \<Rightarrow> ms \<Rightarrow> path \<Rightarrow> build_error + (path \<times> bytes)" where
  "path_build_onion S X R junk now p =
     (let (fresh, p1) = set_built p
      in if \<not> fresh then Inl AlreadyBuilt
         else if BUILD_LENGTH < length (hops p) then Inl FrameOutOfRange
         else (let n_hops = length (hops p);
                   lifetime = word_of_int (round_seconds (expires_in p now));
                   buf = buf_zero (n_hops * BUILD_FRAME_SIZE)
                         @ take ((BUILD_LENGTH - n_hops) * BUILD_FRAME_SIZE) junk
               in case onion_loop S X R lifetime n_hops (hops p, buf) of
                    Inl e \<Rightarrow> Inl e
                  | Inr (hs, result) \<Rightarrow> Inr (p1\<lparr>hops := hs\<rparr>, result)))"

section \<open>Decoding\<close>

definition decode_frame_v0 ::
  "sodium \<Rightarrow> oxenc \<Rightarrow> router_keys \<Rightarrow> transit_hop \<Rightarrow> bytes \<Rightarrow> ms \<Rightarrow>
     transit_hop_error + (transit_hop \<times> symm_nonce)" where
  "decode_frame_v0 S X r hop frame now =
     (if length frame \<noteq> BUILD_FRAME_SIZE_V0 then Inl INVALID_DATA
      else case bt_open X frame of None \<Rightarrow> Inl INVALID_DATA | Some c \<Rightarrow>
      (case bt_require_span X PUBKEY_SIZE ''k'' c of None \<Rightarrow> Inl INVALID_DATA | Some (eph_pubkey, c) \<Rightarrow>
      (case bt_require_span X SYMM_NONCE_SIZE ''n'' c of None \<Rightarrow> Inl INVALID_DATA | Some (dh_nonce, c) \<Rightarrow>
      (case bt_require_str X ''x'' c of None \<Rightarrow> Inl INVALID_DATA | Some (payload, c) \<Rightarrow>
      if \<not> bt_finish X c then Inl INVALID_DATA
      else
      (case dh_server S eph_pubkey (rk_secret r) dh_nonce of None \<Rightarrow> Inl DH_PUBKEY | Some secret \<Rightarrow>
      (let xn = xor_nonce_of S secret in
      case bt_open X (xchacha20 S payload secret dh_nonce) of None \<Rightarrow> Inl INVALID_PAYLOAD | Some c \<Rightarrow>
      (case bt_require_span X 4 ''l'' c of None \<Rightarrow> Inl INVALID_PAYLOAD | Some (l, c) \<Rightarrow>
      (case bt_require_span X HOPID_SIZE ''r'' c of None \<Rightarrow> Inl INVALID_PAYLOAD | Some (rx, c) \<Rightarrow>
      (case bt_require_span X HOPID_SIZE ''t'' c of None \<Rightarrow> Inl INVALID_PAYLOAD | Some (tx, c) \<Rightarrow>
      (case bt_require_span X PUBKEY_SIZE ''u'' c of None \<Rightarrow> Inl INVALID_PAYLOAD | Some (up, c) \<Rightarrow>
        Inr (hop\<lparr>shared_secret := secret, xor_nonce := xn,
                  expiry := now + 1000 * uint (load_little32 X l),
                  rxid := rx, txid := tx, upstream := up\<rparr>,
             buf_xor dh_nonce xn)))))))))))"

definition decode_frame_v1 ::
  "sodium \<Rightarrow> oxenc \<Rightarrow> router_keys \<Rightarrow> transit_hop \<Rightarrow> bytes \<Rightarrow> ms \<Rightarrow>
     transit_hop_error + (transit_hop \<times> symm_nonce)" where
  "decode_frame_v1 S X r hop frame now =
     (if length frame < BUILD_FRAME_SIZE_V1 then Inl INVALID_DATA
      else let eph_pubkey = subspan PUBKEY_OFFSET PUBKEY_SIZE frame in
      case path_build_secret S (rk_x25519 r) eph_pubkey False of None \<Rightarrow> Inl DH_PUBKEY | Some secret \<Rightarrow>
      (case xchacha20_poly1305_decrypt_inplace S (subspan RECORD_OFFSET (RECORD_SIZE + TAG_SIZE) frame)
              secret (buf_zero SYMM_NONCE_SIZE) (take 1 frame) of
         None \<Rightarrow> Inl INVALID_PAYLOAD
       | Some rec \<Rightarrow>
           (let xn = xor_nonce_of S secret
            in Inr (hop\<lparr>shared_secret := secret,
                         expiry := now + 1000 * uint (load_little16 X (take 2 rec)),
                         rxid := subspan RXID_OFFSET HOPID_SIZE rec,
                         txid := subspan TXID_OFFSET HOPID_SIZE rec,
                         upstream := subspan UPSTREAM_OFFSET PUBKEY_SIZE rec,
                         xor_nonce := xn, version := 1\<rparr>, xn))))"

text \<open>The dispatch on the first byte.\<close>

definition decode_frame ::
  "sodium \<Rightarrow> oxenc \<Rightarrow> router_keys \<Rightarrow> transit_hop \<Rightarrow> bytes \<Rightarrow> ms \<Rightarrow> transit_hop_error + (transit_hop \<times> symm_nonce)" where
  "decode_frame S X r hop frame now =
     (if hd frame = of_char (CHR ''d'') then decode_frame_v0 S X r hop frame now
      else if hd frame = FRAME_V1_VERSION then decode_frame_v1 S X r hop frame now
      else Inl INVALID_DATA)"

text \<open>\<^verbatim>\<open>decrypt_build_frame\<close>: decode the frame, then check the hop ids.\<close>

definition decrypt_build_frame ::
  "sodium \<Rightarrow> oxenc \<Rightarrow> bytes \<Rightarrow> router_keys \<Rightarrow> peer \<Rightarrow> ms \<Rightarrow>
     transit_hop_error + (transit_hop \<times> symm_nonce)" where
  "decrypt_build_frame S X frame r src now =
     (let hop = transit_hop_default\<lparr>downstream := src\<rparr> in
      if frame = [] then Inl INVALID_DATA
      else case decode_frame S X r hop frame now of
             Inl e \<Rightarrow> Inl e
           | Inr (hop, onion_nonce) \<Rightarrow>
               (let terminal = (upstream hop = rk_id r);
                    terminal_mismatch = (terminal \<noteq> (txid hop = rxid hop))
                in if is_zero (txid hop) \<or> is_zero (rxid hop) \<or> terminal_mismatch
                   then Inl INVALID_HOP_ID
                   else Inr (hop\<lparr>terminal_hop := terminal\<rparr>, onion_nonce)))"

section \<open>The frame formats as codecs\<close>

text \<open>
  What both formats promise to the path build: whenever the parameters are admissible, encoding
  succeeds with a frame of full size that carries the format's marker and only sets the
  secrets of the hop, and a relay that holds the keys decodes from the frame the ids, the
  secrets, the expiry and the nonce for the frames behind it.
\<close>

definition decoded_hop :: "transit_hop \<Rightarrow> transit_hop \<Rightarrow> u32 \<Rightarrow> ms \<Rightarrow> transit_hop" where
  "decoded_hop g h lifetime now =
     g\<lparr>shared_secret := shared_secret h, xor_nonce := xor_nonce h, rxid := rxid h, txid := txid h,
       upstream := upstream h, expiry := now + 1000 * uint lifetime, version := version h\<rparr>"

locale frame_codec =
  fixes encode :: "'r \<Rightarrow> transit_hop \<Rightarrow> u32 \<Rightarrow> build_error + (transit_hop \<times> bytes \<times> symm_nonce)"
    and decode :: "'k \<Rightarrow> transit_hop \<Rightarrow> bytes \<Rightarrow> ms \<Rightarrow> transit_hop_error + (transit_hop \<times> symm_nonce)"
    and marker :: byte
    and frame_ok :: "'r \<Rightarrow> 'k \<Rightarrow> transit_hop \<Rightarrow> u32 \<Rightarrow> bool"
  assumes encode_ok: "frame_ok r k h l \<Longrightarrow> \<exists>sec xn f n.
      encode r h l = Inr (h\<lparr>shared_secret := sec, xor_nonce := xn\<rparr>, f, n) \<and>
      length xn = SYMM_NONCE_SIZE \<and> length f = BUILD_FRAME_SIZE \<and> hd f = marker"
    and decode_encode: "frame_ok r k h l \<Longrightarrow> encode r h l = Inr (h', f, n) \<Longrightarrow> version g = 0 \<Longrightarrow>
      decode k g f now = Inr (decoded_hop g h' l now, n)"
begin

text \<open>The relay recovers its frame from the head of a longer message.\<close>

lemma decode_head:
  assumes "frame_ok r k h l" and "encode r h l = Inr (h', f, n)" and "version g = 0"
  shows "decode k g (take BUILD_FRAME_SIZE (f @ rest)) now = Inr (decoded_hop g h' l now, n)"
  using decode_encode [OF assms] encode_ok [OF assms(1)] assms(2) by auto

lemma encode_keeps:
  assumes "frame_ok r k h l" and "encode r h l = Inr (h', f, n)"
  shows "rxid h' = rxid h" "txid h' = txid h" "upstream h' = upstream h" "router_id h' = router_id h"
    "terminal_hop h' = terminal_hop h" "version h' = version h" "downstream h' = downstream h"
    "length (xor_nonce h') = SYMM_NONCE_SIZE" "length f = BUILD_FRAME_SIZE" "hd f = marker"
  using encode_ok [OF assms(1)] assms(2) by auto

end

text \<open>When a frame is admissible: sizes of the ids, the relay's keys, and the range of the lifetime.\<close>

definition hop_sizes :: "transit_hop \<Rightarrow> bool" where
  "hop_sizes h \<longleftrightarrow> length (rxid h) = HOPID_SIZE \<and> length (txid h) = HOPID_SIZE \<and>
     length (upstream h) = PUBKEY_SIZE"

definition frame_ok_common :: "sodium \<Rightarrow> oxenc \<Rightarrow> frame_rand \<Rightarrow> router_keys \<Rightarrow> transit_hop \<Rightarrow> bool" where
  "frame_ok_common S X R k h \<longleftrightarrow> sodium_laws S \<and> oxenc_laws X \<and> hop_sizes h \<and>
     (\<exists>seed. k = router_keys_of S seed) \<and> router_id h = rk_id k"

definition frame_ok_v0 :: "sodium \<Rightarrow> oxenc \<Rightarrow> frame_rand \<Rightarrow> router_keys \<Rightarrow> transit_hop \<Rightarrow> u32 \<Rightarrow> bool" where
  "frame_ok_v0 S X R k h l \<longleftrightarrow> frame_ok_common S X R k h \<and> version h = 0 \<and>
     length (fr_dh_nonce R) = SYMM_NONCE_SIZE"

definition frame_ok_v1 :: "sodium \<Rightarrow> oxenc \<Rightarrow> frame_rand \<Rightarrow> router_keys \<Rightarrow> transit_hop \<Rightarrow> u32 \<Rightarrow> bool" where
  "frame_ok_v1 S X R k h l \<longleftrightarrow> frame_ok_common S X R k h \<and> version h = 1 \<and>
     uint l < 2 ^ 16 \<and> length (fr_pad R) = BUILD_FRAME_SIZE - BUILD_FRAME_SIZE_V1"

subsection \<open>Version 0\<close>

lemma bt_size_str:
  assumes "bt_size_law X" and "\<forall>(k, v) \<in> set kvs. length k \<le> 9 \<and> length v \<le> 999"
  shows "length (bt_dict X (map (\<lambda>(k, v). (k, BStr v)) kvs)) =
          2 + sum_list (map (\<lambda>(k, v). bt_pair_bytes (length v) (length k)) kvs)"
    and "hd (bt_dict X (map (\<lambda>(k, v). (k, BStr v)) kvs)) = 100"
  using assms unfolding bt_size_law_def by blast+

lemma length_frame_payload_v0:
  assumes "oxenc_laws X" and "hop_sizes h"
  shows "length (frame_payload_v0 X h l) = 93"
proof -
  from assms have "bt_size_law X" "length (little32 X l) = 4"
    by (auto simp: oxenc_laws_def endian_laws_def)
  with bt_size_str(1) [of X "[(''l'', little32 X l), (''r'', rxid h), (''t'', txid h), (''u'', upstream h)]"] assms
  show ?thesis by (simp add: frame_payload_v0_def hop_sizes_def size_defs bt_pair_bytes_def)
qed

lemma length_frame_v0:
  assumes "bt_size_law X" and "length k = 32" and "length n = 24" and "length x = 93"
  shows "length (bt_dict X [(''k'', BStr k), (''n'', BStr n), (''x'', BStr x)]) = BUILD_FRAME_SIZE"
    and "hd (bt_dict X [(''k'', BStr k), (''n'', BStr n), (''x'', BStr x)]) = 100"
  using bt_size_str [OF assms(1), of "[(''k'', k), (''n'', n), (''x'', x)]"] assms
  by (simp_all add: build_consts bt_pair_bytes_def)

lemma read_frame_v0:
  assumes "oxenc_laws X" and "length k = PUBKEY_SIZE" and "length n = SYMM_NONCE_SIZE"
  obtains c0 c1 c2 c3 where
    "bt_open X (bt_dict X [(''k'', BStr k), (''n'', BStr n), (''x'', BStr x)]) = Some c0"
    "bt_require_span X PUBKEY_SIZE ''k'' c0 = Some (k, c1)"
    "bt_require_span X SYMM_NONCE_SIZE ''n'' c1 = Some (n, c2)"
    "bt_require_str X ''x'' c2 = Some (x, c3)" "bt_finish X c3"
proof -
  from assms have "bt_reader_law X" by (simp add: oxenc_laws_def)
  then show thesis
    using assms that
    by - (rule bt_read3 [of X "''k''" "''n''" "''x''" k n x], auto simp: bt_require_span_def)
qed

lemma read_payload_v0:
  assumes "oxenc_laws X" and "hop_sizes h"
  obtains c0 c1 c2 c3 c4 where
    "bt_open X (frame_payload_v0 X h l) = Some c0"
    "bt_require_span X 4 ''l'' c0 = Some (little32 X l, c1)"
    "bt_require_span X HOPID_SIZE ''r'' c1 = Some (rxid h, c2)"
    "bt_require_span X HOPID_SIZE ''t'' c2 = Some (txid h, c3)"
    "bt_require_span X PUBKEY_SIZE ''u'' c3 = Some (upstream h, c4)"
proof -
  from assms have "bt_reader_law X" "length (little32 X l) = 4"
    by (auto simp: oxenc_laws_def endian_laws_def)
  then show thesis
    using assms that unfolding frame_payload_v0_def
    by - (rule bt_read4 [of X "''l''" "''r''" "''t''" "''u''" "little32 X l" "rxid h" "txid h" "upstream h"],
        auto simp: bt_require_span_def hop_sizes_def)
qed

text \<open>The keys of a router: public parts, and agreement with the client's side.\<close>

lemma router_keys_dh:
  assumes "sodium_laws S" and "k = router_keys_of S seed"
  obtains sec where "dh_client S (rk_id k) (ed25519_generate S e) n = Some sec"
    and "dh_server S (ed25519_to_pubkey (ed25519_generate S e)) (rk_secret k) n = Some sec"
proof -
  have "rk_id k = fst (sign_seed_keypair S seed)" "rk_secret k = snd (sign_seed_keypair S seed)"
    using assms
    by (auto simp: router_keys_of_def ed25519_generate_def ed25519_to_pubkey_def ed25519_laws_def
        sodium_laws_def Let_def)
  with dh_client_server [of S seed e n] assms that show thesis
    by (auto simp: sodium_laws_def)
qed

lemma length_ed25519_pubkey: "sodium_laws S \<Longrightarrow> length (ed25519_to_pubkey (ed25519_generate S e)) = PUBKEY_SIZE"
  by (simp add: sodium_laws_def ed25519_laws_def ed25519_to_pubkey_def ed25519_generate_def)

lemma frame_v0_codec:
  assumes "frame_ok_v0 S X R k h l"
  obtains sec f n where
    "encode_frame_v0 S X R h BUILD_FRAME_SIZE l =
       Inr (h\<lparr>shared_secret := sec, xor_nonce := xor_nonce_of S sec\<rparr>, f, n)"
    "length f = BUILD_FRAME_SIZE" "hd f = 100"
    "\<And>g now. version g = 0 \<Longrightarrow> decode_frame_v0 S X k g f now =
        Inr (decoded_hop g (h\<lparr>shared_secret := sec, xor_nonce := xor_nonce_of S sec\<rparr>) l now, n)"
proof -
  from assms obtain seed where laws: "sodium_laws S" "oxenc_laws X" "hop_sizes h"
    and k: "k = router_keys_of S seed" "router_id h = rk_id k" and ver: "version h = 0"
    and nl: "length (fr_dh_nonce R) = SYMM_NONCE_SIZE"
    by (auto simp: frame_ok_v0_def frame_ok_common_def)
  let ?e = "fr_eph_seed R" and ?n = "fr_dh_nonce R"
  let ?pk = "ed25519_to_pubkey (ed25519_generate S ?e)"
  from router_keys_dh [OF laws(1) k(1)] obtain sec where
    sec: "dh_client S (rk_id k) (ed25519_generate S ?e) ?n = Some sec" "dh_server S ?pk (rk_secret k) ?n = Some sec"
    by metis
  have xl: "xchacha20_laws S" using laws by (simp add: sodium_lawsD)
  let ?x = "xchacha20 S (frame_payload_v0 X h l) sec ?n"
  let ?f = "bt_dict X [(''k'', BStr ?pk), (''n'', BStr ?n), (''x'', BStr ?x)]"
  have size: "length ?f = BUILD_FRAME_SIZE" "hd ?f = 100"
    using length_frame_v0 [of X ?pk ?n ?x] laws nl xl length_ed25519_pubkey [OF laws(1), of ?e]
      length_frame_payload_v0 [OF laws(2,3)]
    by (simp_all add: oxenc_laws_def size_defs)
  obtain c0 c1 c2 c3 where rd: "bt_open X ?f = Some c0"
    "bt_require_span X PUBKEY_SIZE ''k'' c0 = Some (?pk, c1)"
    "bt_require_span X SYMM_NONCE_SIZE ''n'' c1 = Some (?n, c2)"
    "bt_require_str X ''x'' c2 = Some (?x, c3)" "bt_finish X c3"
    using read_frame_v0 [OF laws(2) length_ed25519_pubkey [OF laws(1)] nl] by metis
  obtain d0 d1 d2 d3 d4 where rp: "bt_open X (frame_payload_v0 X h l) = Some d0"
    "bt_require_span X 4 ''l'' d0 = Some (little32 X l, d1)"
    "bt_require_span X HOPID_SIZE ''r'' d1 = Some (rxid h, d2)"
    "bt_require_span X HOPID_SIZE ''t'' d2 = Some (txid h, d3)"
    "bt_require_span X PUBKEY_SIZE ''u'' d3 = Some (upstream h, d4)"
    using read_payload_v0 [OF laws(2,3)] by metis
  have "load_little32 X (little32 X l) = l" using laws by (simp add: oxenc_laws_def endian_laws_def)
  then show thesis
    using that [of sec ?f "buf_xor ?n (xor_nonce_of S sec)"] sec size rd rp k ver xl
    by (simp add: encode_frame_v0_def decode_frame_v0_def decoded_hop_def Let_def build_consts)
qed

interpretation v0: frame_codec
  "\<lambda>R h l. encode_frame_v0 S X R h BUILD_FRAME_SIZE l" "decode_frame_v0 S X" 100 "frame_ok_v0 S X" for S X
proof
  fix R k h l
  assume ok: "frame_ok_v0 S X R k h l"
  then have hl: "hash_laws S" by (simp add: frame_ok_v0_def frame_ok_common_def sodium_laws_def)
  show "\<exists>sec xn f n. encode_frame_v0 S X R h BUILD_FRAME_SIZE l =
      Inr (h\<lparr>shared_secret := sec, xor_nonce := xn\<rparr>, f, n) \<and>
      length xn = SYMM_NONCE_SIZE \<and> length f = BUILD_FRAME_SIZE \<and> hd f = 100"
    using frame_v0_codec [OF ok] length_xor_nonce_of [OF hl] by metis
next
  fix R k h l h' f n now and g :: transit_hop
  assume "frame_ok_v0 S X R k h l" "encode_frame_v0 S X R h BUILD_FRAME_SIZE l = Inr (h', f, n)" "version g = 0"
  then show "decode_frame_v0 S X k g f now = Inr (decoded_hop g h' l now, n)"
    by (auto elim: frame_v0_codec)
qed

subsection \<open>Version 1\<close>

lemma router_keys_path_secret:
  assumes "sodium_laws S" and "k = router_keys_of S seed"
  obtains B sec where "x25519_pubkey_of_ed S (rk_id k) = Some B"
    and "path_build_secret S (x25519_generate S a) B True = Some sec"
    and "path_build_secret S (rk_x25519 k) (xpub (x25519_generate S a)) False = Some sec"
proof -
  let ?s = "sign_ed25519_sk_to_curve25519 S (snd (sign_seed_keypair S seed))"
  have x: "x25519_laws S" using assms by (simp add: sodium_lawsD)
  have "rk_id k = fst (sign_seed_keypair S seed)"
    "rk_x25519 k = \<lparr>xpub = scalarmult_curve25519_base S ?s, xsec = ?s\<rparr>"
    using assms
    by (auto simp: router_keys_of_def ed25519_generate_def ed25519_to_pubkey_def ed25519_laws_def
        x25519_keypair_of_ed_def x25519_to_pubkey_def sodium_laws_def Let_def)
  moreover have "xpub (x25519_generate S a) = scalarmult_curve25519_base S a"
    by (simp add: x25519_generate_def)
  moreover have "x25519_pubkey_of_ed S (fst (sign_seed_keypair S seed)) = Some (scalarmult_curve25519_base S ?s)"
    using x by (simp add: x25519_laws_def x25519_pubkey_of_ed_def)
  ultimately show thesis
    using that path_build_secret_agree [OF x, of a ?s] by (metis option.exhaust)
qed

lemma record_v1_fields:
  assumes "length l2 = 2" and "length rx = HOPID_SIZE" and "length tx = HOPID_SIZE" and "length up = PUBKEY_SIZE"
  shows "take 2 (l2 @ rx @ tx @ up) = l2" "subspan RXID_OFFSET HOPID_SIZE (l2 @ rx @ tx @ up) = rx"
    "subspan TXID_OFFSET HOPID_SIZE (l2 @ rx @ tx @ up) = tx"
    "subspan UPSTREAM_OFFSET PUBKEY_SIZE (l2 @ rx @ tx @ up) = up"
  using assms by (simp_all add: subspan_def frame_v1_defs size_defs)

lemma frame_v1_fields:
  assumes "length pk = PUBKEY_SIZE" and "length sealed = RECORD_SIZE + TAG_SIZE"
    and "length pad = BUILD_FRAME_SIZE - BUILD_FRAME_SIZE_V1"
  shows "length (v # pk @ sealed @ pad) = BUILD_FRAME_SIZE"
    "subspan PUBKEY_OFFSET PUBKEY_SIZE (v # pk @ sealed @ pad) = pk"
    "subspan RECORD_OFFSET (RECORD_SIZE + TAG_SIZE) (v # pk @ sealed @ pad) = sealed"
  using assms by (simp_all add: subspan_def frame_v1_defs size_defs build_consts)

lemma aead_inplace_seal:
  assumes "sodium_laws S"
  obtains c where "xchacha20_poly1305_encrypt_inplace S (p @ replicate TAG_SIZE 0) k n ad = Some c"
    and "length c = length p + TAG_SIZE" and "xchacha20_poly1305_decrypt_inplace S c k n ad = Some p"
  using aead_inplace_roundtrip [of S "replicate TAG_SIZE 0" p k n ad] assms sodium_lawsD(2) by fastforce

lemma little16_ucast:
  fixes l :: u32
  assumes "oxenc_laws X" and "uint l < 2 ^ 16"
  shows "length (little16 X (ucast l)) = 2" "uint (load_little16 X (little16 X (ucast l))) = uint l"
  using assms by (simp_all add: oxenc_laws_def endian_laws_def uint_up_ucast unsigned_ucast_eq take_bit_int_eq_self)

lemma frame_v1_codec:
  assumes "frame_ok_v1 S X R k h l"
  obtains sec f n where
    "encode_frame_v1 S X R h BUILD_FRAME_SIZE l =
       Inr (h\<lparr>shared_secret := sec, xor_nonce := xor_nonce_of S sec\<rparr>, f, n)"
    "length f = BUILD_FRAME_SIZE" "hd f = FRAME_V1_VERSION"
    "\<And>g now. decode_frame_v1 S X k g f now =
        Inr (decoded_hop g (h\<lparr>shared_secret := sec, xor_nonce := xor_nonce_of S sec\<rparr>) l now, n)"
proof -
  from assms obtain seed where laws: "sodium_laws S" "oxenc_laws X" and sz: "hop_sizes h"
    and k: "k = router_keys_of S seed" "router_id h = rk_id k" and ver: "version h = 1"
    and l: "uint l < 2 ^ 16" and pl: "length (fr_pad R) = BUILD_FRAME_SIZE - BUILD_FRAME_SIZE_V1"
    by (auto simp: frame_ok_v1_def frame_ok_common_def)
  let ?eph = "x25519_generate S (fr_eph_x R)"
  from router_keys_path_secret [OF laws(1) k(1)] obtain B sec where
    sec: "x25519_pubkey_of_ed S (rk_id k) = Some B" "path_build_secret S ?eph B True = Some sec"
    "path_build_secret S (rk_x25519 k) (xpub ?eph) False = Some sec"
    by metis
  let ?rec = "little16 X (ucast l) @ rxid h @ txid h @ upstream h"
  let ?z = "buf_zero SYMM_NONCE_SIZE"
  obtain c where c: "xchacha20_poly1305_encrypt_inplace S (?rec @ replicate TAG_SIZE 0) sec ?z [FRAME_V1_VERSION] = Some c"
    "length c = length ?rec + TAG_SIZE" "xchacha20_poly1305_decrypt_inplace S c sec ?z [FRAME_V1_VERSION] = Some ?rec"
    using aead_inplace_seal [OF laws(1)] by metis
  have lc: "length c = RECORD_SIZE + TAG_SIZE"
    using c(2) sz little16_ucast(1) [OF laws(2) l] by (simp add: frame_v1_defs hop_sizes_def size_defs)
  have lp: "length (xpub ?eph) = PUBKEY_SIZE"
    using laws by (simp add: x25519_generate_def x25519_laws_def sodium_laws_def)
  let ?f = "FRAME_V1_VERSION # xpub ?eph @ c @ fr_pad R"
  note fields = frame_v1_fields [OF lp lc pl, of FRAME_V1_VERSION]
    record_v1_fields [OF little16_ucast(1) [OF laws(2) l]] little16_ucast(2) [OF laws(2) l]
  have "\<not> length ?f < BUILD_FRAME_SIZE_V1" using fields(1) by (simp add: build_consts)
  then show thesis
    using that [of sec ?f "xor_nonce_of S sec"] fields sec c k ver pl sz
    by (simp add: encode_frame_v1_def decode_frame_v1_def decoded_hop_def Let_def hop_sizes_def)
qed

interpretation v1: frame_codec
  "\<lambda>R h l. encode_frame_v1 S X R h BUILD_FRAME_SIZE l" "decode_frame_v1 S X" FRAME_V1_VERSION "frame_ok_v1 S X" for S X
proof
  fix R k h l
  assume ok: "frame_ok_v1 S X R k h l"
  then have hl: "hash_laws S" by (simp add: frame_ok_v1_def frame_ok_common_def sodium_laws_def)
  show "\<exists>sec xn f n. encode_frame_v1 S X R h BUILD_FRAME_SIZE l =
      Inr (h\<lparr>shared_secret := sec, xor_nonce := xn\<rparr>, f, n) \<and>
      length xn = SYMM_NONCE_SIZE \<and> length f = BUILD_FRAME_SIZE \<and> hd f = FRAME_V1_VERSION"
    using frame_v1_codec [OF ok] length_xor_nonce_of [OF hl] by metis
next
  fix R k h l h' f n now and g :: transit_hop
  assume "frame_ok_v1 S X R k h l" "encode_frame_v1 S X R h BUILD_FRAME_SIZE l = Inr (h', f, n)" "version g = 0"
  then show "decode_frame_v1 S X k g f now = Inr (decoded_hop g h' l now, n)"
    by (auto elim: frame_v1_codec)
qed

subsection \<open>Both versions\<close>

definition frame_ok :: "sodium \<Rightarrow> oxenc \<Rightarrow> frame_rand \<Rightarrow> router_keys \<Rightarrow> transit_hop \<Rightarrow> u32 \<Rightarrow> bool" where
  "frame_ok S X R k h l \<longleftrightarrow> frame_ok_v0 S X R k h l \<or> frame_ok_v1 S X R k h l"

lemma encode_frame_version:
  "frame_ok_v0 S X R k h l \<Longrightarrow> encode_frame S X R h BUILD_FRAME_SIZE l = encode_frame_v0 S X R h BUILD_FRAME_SIZE l"
  "frame_ok_v1 S X R k h l \<Longrightarrow> encode_frame S X R h BUILD_FRAME_SIZE l = encode_frame_v1 S X R h BUILD_FRAME_SIZE l"
  by (auto simp: encode_frame_def frame_ok_v0_def frame_ok_v1_def build_consts)

text \<open>Encoding sets the secrets of a hop and nothing else.\<close>

definition secrets_set :: "transit_hop \<Rightarrow> transit_hop \<Rightarrow> bool" where
  "secrets_set h h' \<longleftrightarrow> (\<exists>sec xn. h' = h\<lparr>shared_secret := sec, xor_nonce := xn\<rparr> \<and> length xn = SYMM_NONCE_SIZE)"

text \<open>The frame \<open>e\<close> carries the client's hop \<open>h\<close> to the relay with keys \<open>k\<close>.\<close>

definition frame_carries ::
  "sodium \<Rightarrow> oxenc \<Rightarrow> u32 \<Rightarrow> router_keys \<Rightarrow> transit_hop \<Rightarrow> bytes \<times> symm_key \<times> symm_nonce \<Rightarrow> bool" where
  "frame_carries S X l k h e \<longleftrightarrow>
     length (fst e) = BUILD_FRAME_SIZE \<and> fst (snd e) = shared_secret h \<and>
     (\<forall>g now. version g = 0 \<longrightarrow> decode_frame S X k g (fst e) now = Inr (decoded_hop g h l now, snd (snd e)))"

lemma encode_frame_ok:
  assumes "frame_ok S X R k h l"
  obtains h' f n where "encode_frame S X R h BUILD_FRAME_SIZE l = Inr (h', f, n)"
    and "secrets_set h h'" and "frame_carries S X l k h' (f, shared_secret h', n)"
  using assms unfolding frame_ok_def
proof
  assume ok: "frame_ok_v0 S X R k h l"
  then obtain h' f n where e: "encode_frame_v0 S X R h BUILD_FRAME_SIZE l = Inr (h', f, n)" and s: "secrets_set h h'"
    using v0.encode_ok [OF ok] unfolding secrets_set_def by blast
  with v0.encode_keeps [OF ok e] v0.decode_encode [OF ok e] show thesis
    by (intro that [of h' f n]) (simp_all add: encode_frame_version(1) [OF ok] decode_frame_def frame_carries_def)
next
  assume ok: "frame_ok_v1 S X R k h l"
  then obtain h' f n where e: "encode_frame_v1 S X R h BUILD_FRAME_SIZE l = Inr (h', f, n)" and s: "secrets_set h h'"
    using v1.encode_ok [OF ok] unfolding secrets_set_def by blast
  with v1.encode_keeps [OF ok e] v1.decode_encode [OF ok e] show thesis
    by (intro that [of h' f n])
      (simp_all add: encode_frame_version(2) [OF ok] decode_frame_def frame_carries_def FRAME_V1_VERSION_def)
qed

section \<open>The onion as nested layers\<close>

text \<open>
  What the loop computes: each frame is followed by the encryption, under the secret and nonce of
  its hop, of everything that follows.
\<close>

definition onion_layer :: "sodium \<Rightarrow> bytes \<times> symm_key \<times> symm_nonce \<Rightarrow> bytes \<Rightarrow> bytes" where
  "onion_layer S e inner = (case e of (f, k, n) \<Rightarrow> f @ xchacha20 S inner k n)"

definition onion_spec :: "sodium \<Rightarrow> (bytes \<times> symm_key \<times> symm_nonce) list \<Rightarrow> bytes" where
  "onion_spec S es = foldr (onion_layer S) es []"

lemma onion_spec_simps [simp]:
  "onion_spec S [] = []"
  "onion_spec S ((f, k, n) # es) = f @ xchacha20 S (onion_spec S es) k n"
  by (simp_all add: onion_spec_def onion_layer_def)

lemma length_onion_spec:
  "xchacha20_laws S \<Longrightarrow> \<forall>e \<in> set es. length (fst e) = m \<Longrightarrow> length (onion_spec S es) = length es * m"
  by (induction es) (auto simp: onion_spec_def onion_layer_def split: prod.splits)

text \<open>One iteration of the loop on a buffer whose tail holds the frames built so far.\<close>

lemma onion_loop_step:
  assumes xl: "xchacha20_laws S" and enc: "encode_frame S X (R i) (hs ! i) BUILD_FRAME_SIZE l = Inr (h, f, n)"
    and f: "length f = BUILD_FRAME_SIZE" and i: "i < length hs"
    and A: "length A = i * BUILD_FRAME_SIZE" and Z: "length Z = BUILD_FRAME_SIZE"
    and T: "length T = (length hs - Suc i) * BUILD_FRAME_SIZE"
  shows "onion_loop S X R l (Suc i) (hs, A @ Z @ T @ J) =
     onion_loop S X R l i (hs[i := h], A @ onion_layer S (f, shared_secret h, n) T @ J)"
proof -
  let ?off = "Suc i * BUILD_FRAME_SIZE"
  have w: "write_span (i * BUILD_FRAME_SIZE) f (A @ Z @ T @ J) = A @ f @ T @ J"
    using A Z f by (simp add: write_span_append)
  have off: "length (A @ f) = ?off" using A f by simp
  have s: "subspan ?off ((length hs - Suc i) * BUILD_FRAME_SIZE) (A @ f @ T @ J) = T"
    using subspan_append_mid [OF off, of T _ J] T by simp
  have w': "write_span ?off (xchacha20 S T (shared_secret h) n) (A @ f @ T @ J) =
      A @ f @ xchacha20 S T (shared_secret h) n @ J"
    using write_span_append [OF off, of T "xchacha20 S T (shared_secret h) n" J] xl by simp
  have empty: "xchacha20 S T (shared_secret h) n = T" if "length hs - 1 - i = 0"
    using that T i xl by simp
  show ?thesis
    using enc empty by (simp add: w s w' onion_layer_def Let_def del: mult_Suc)
qed

lemma onion_loop_frames:
  assumes "xchacha20_laws S"
    and "\<forall>j < i. encode_frame S X (R j) (hs ! j) BUILD_FRAME_SIZE l = Inr (h j, f j, n j) \<and> length (f j) = BUILD_FRAME_SIZE"
    and "i \<le> length hs" and "length A = i * BUILD_FRAME_SIZE" and "length T = (length hs - i) * BUILD_FRAME_SIZE"
  shows "onion_loop S X R l i (hs, A @ T @ J) =
     Inr (map h [0..<i] @ drop i hs, foldr (\<lambda>j. onion_layer S (f j, shared_secret (h j), n j)) [0..<i] T @ J)"
  using assms
proof (induction i arbitrary: hs A T)
  case (Suc i)
  let ?A = "take (i * BUILD_FRAME_SIZE) A" and ?Z = "drop (i * BUILD_FRAME_SIZE) A"
  let ?T = "onion_layer S (f i, shared_secret (h i), n i) T"
  have len: "length ?A = i * BUILD_FRAME_SIZE" "length ?Z = BUILD_FRAME_SIZE" using Suc.prems by simp_all
  have T: "length ?T = (length (hs[i := h i]) - i) * BUILD_FRAME_SIZE"
  proof -
    have "length hs - i = Suc (length hs - Suc i)" using Suc.prems(3) by simp
    then show ?thesis using Suc.prems by (simp add: onion_layer_def)
  qed
  have "onion_loop S X R l (Suc i) (hs, A @ T @ J) = onion_loop S X R l (Suc i) (hs, ?A @ ?Z @ T @ J)"
    by (metis append.assoc append_take_drop_id)
  also have "\<dots> = onion_loop S X R l i (hs[i := h i], ?A @ ?T @ J)"
    using Suc.prems len by (intro onion_loop_step) simp_all
  also have "\<dots> = Inr (map h [0..<i] @ drop i (hs[i := h i]),
      foldr (\<lambda>j. onion_layer S (f j, shared_secret (h j), n j)) [0..<i] ?T @ J)"
    using Suc.prems len T by (intro Suc.IH) auto
  finally show ?case
    using Suc.prems by (simp add: Cons_nth_drop_Suc [symmetric])
qed simp

end
