(* ===== verification/Path_Relay.thy ===== *)
theory Path_Relay
  imports Path_Build Path_Context
begin

text \<open>
  The path handlers of the link manager (\<^verbatim>\<open>link/link_manager.cpp\<close>, lines 666 to 1410):
  path builds, path control requests and their responses, and session messages, at relays and
  at clients.  A handler is a function of the router's state and the message; what it sends,
  and the continuation it leaves with a sent command, are the values of its outcome type.
  Dereferencing an empty optional or leaving a buffer is the outcome \<open>Undefined\<close>.
\<close>

section \<open>Status responses (\<^verbatim>\<open>messages/common.cpp\<close>)\<close>

definition serialize_status_response :: "oxenc \<Rightarrow> string \<Rightarrow> bytes" where
  "serialize_status_response X value = bt_dict X [(''!'', BStr (string_bytes value))]"

definition OK_RESPONSE :: "oxenc \<Rightarrow> bytes" where
  "OK_RESPONSE X = serialize_status_response X ''OK''"
definition TIMEOUT_RESPONSE :: "oxenc \<Rightarrow> bytes" where
  "TIMEOUT_RESPONSE X = serialize_status_response X ''TIMEOUT''"
definition ERROR_RESPONSE :: "oxenc \<Rightarrow> bytes" where
  "ERROR_RESPONSE X = serialize_status_response X ''ERROR''"
definition NOT_FOUND_RESPONSE :: "oxenc \<Rightarrow> bytes" where
  "NOT_FOUND_RESPONSE X = serialize_status_response X ''NOT FOUND''"
definition EXPIRED_RESPONSE :: "oxenc \<Rightarrow> bytes" where
  "EXPIRED_RESPONSE X = serialize_status_response X ''SLOW CLOCK''"
definition FUTURE_RESPONSE :: "oxenc \<Rightarrow> bytes" where
  "FUTURE_RESPONSE X = serialize_status_response X ''FAST CLOCK''"

fun error_code :: "transit_hop_error \<Rightarrow> string" where
  "error_code INVALID_DATA = ''INVALID DATA''"
| "error_code DH_PUBKEY = ''INVALID DH PUBKEY''"
| "error_code INVALID_PAYLOAD = ''INVALID TRANSIT HOP PAYLOAD''"
| "error_code INVALID_HOP_ID = ''INVALID TRANSIT HOP IDS''"
| "error_code HOP_ID_UNAVAILABLE = ''TRANSIT HOP ID ALREADY IN USE''"
| "error_code INVALID_LIFETIME = ''INVALID PATH LIFETIME''"
| "error_code UPSTREAM_UNREACHABLE = ''UPSTREAM UNREACHABLE''"

section \<open>State\<close>

text \<open>
  The part of a router the path handlers use.  \<open>known_rc\<close> is \<^verbatim>\<open>node_db().get_rc\<close> being
  non-null and \<open>unreachable\<close> is \<^verbatim>\<open>endpoint.relay_unreachable\<close>.
\<close>

record router_state =
  keys :: router_keys
  is_service_node :: bool
  path_ctx :: path_context
  known_rc :: "router_id \<Rightarrow> bool"
  unreachable :: "router_id \<Rightarrow> bool"

section \<open>Path builds\<close>

datatype build_outcome =
    BuildRespond bytes bool \<comment> \<open>body, is error\<close>
  | BuildForward router_id bytes transit_hop
      \<comment> \<open>\<^verbatim>\<open>send_command(upstream, "path_build", frames)\<close>, the hop kept in the continuation\<close>

text \<open>
  The message carries \<^const>\<open>BUILD_LENGTH\<close> frames of one size.  The first is ours; the others
  move up one place, a frame of fresh random bytes (\<open>junk\<close>) takes the last place, and the
  moved ones are decrypted.
\<close>

definition build_frame_size :: "bytes \<Rightarrow> nat" where
  "build_frame_size frames_in = length frames_in div BUILD_LENGTH"

definition valid_build_length :: "bytes \<Rightarrow> bool" where
  "valid_build_length frames_in \<longleftrightarrow>
     length frames_in mod BUILD_LENGTH = 0 \<and> BUILD_FRAME_SIZE_MIN \<le> build_frame_size frames_in \<and>
     build_frame_size frames_in \<le> BUILD_FRAME_SIZE_MAX"

definition rotate_frames :: "sodium \<Rightarrow> bytes \<Rightarrow> bytes \<Rightarrow> symm_key \<Rightarrow> symm_nonce \<Rightarrow> bytes" where
  "rotate_frames S frames_in junk secret nonce =
     (let fs = build_frame_size frames_in
      in xchacha20 S (drop fs frames_in) secret nonce @ take fs junk)"

definition handle_path_build ::
  "sodium \<Rightarrow> oxenc \<Rightarrow> router_state \<Rightarrow> bytes \<Rightarrow> peer \<Rightarrow> ms \<Rightarrow> bytes \<Rightarrow> router_state \<times> build_outcome" where
  "handle_path_build S X r frames_in from now junk =
     (if \<not> is_service_node r then (r, BuildRespond (ERROR_RESPONSE X) True)
      else if \<not> valid_build_length frames_in
      then (r, BuildRespond (serialize_status_response X ''BAD FRAMES'') True)
      else
        let fs = build_frame_size frames_in;
            fail = (\<lambda>e. (r, BuildRespond (serialize_status_response X (error_code e)) True))
        in case decrypt_build_frame S X (take fs frames_in) (keys r) from now of
             Inl e \<Rightarrow> fail e
           | Inr (hop, onion_nonce) \<Rightarrow>
               if now + MAX_LIFETIME_ACCEPTED < expiry hop \<or> expiry hop \<le> now then fail INVALID_LIFETIME
               else if has_transit_hop (rxid hop) (path_ctx r) \<or> has_transit_hop (txid hop) (path_ctx r)
               then fail HOP_ID_UNAVAILABLE
               else if terminal_hop hop
               then (r\<lparr>path_ctx := put_transit_hop hop (path_ctx r)\<rparr>, BuildRespond (OK_RESPONSE X) False)
               else let frames = rotate_frames S frames_in junk (shared_secret hop) onion_nonce
                    in if \<not> known_rc r (upstream hop) \<or> unreachable r (upstream hop)
                       then fail UPSTREAM_UNREACHABLE
                       else (r, BuildForward (upstream hop) frames hop))"

text \<open>
  The continuation of a forwarded build: only a successful upstream response stores the hop.  A
  timeout is left unanswered (\<open>None\<close>).
\<close>

definition path_build_response ::
  "oxenc \<Rightarrow> router_state \<Rightarrow> transit_hop \<Rightarrow> response \<Rightarrow> router_state \<times> (bytes \<times> bool) option" where
  "path_build_response X r hop m =
     (case m of
        RespOk _ \<Rightarrow> (r\<lparr>path_ctx := put_transit_hop hop (path_ctx r)\<rparr>, Some (OK_RESPONSE X, False))
      | RespError b \<Rightarrow> (r, Some (b, True))
      | RespTimeout \<Rightarrow> (r, None))"

section \<open>Path requests at the terminus\<close>

datatype path_request =
    Invoke string bytes \<comment> \<open>the registered handler and the request body\<close>
  | RequestRespond bytes
  | RequestIgnored

definition path_requests :: "string list" where
  "path_requests = [''publish_cc'', ''find_cc'', ''fetch_rcs'', ''fetch_rids'', ''resolve_sns'', ''path_ping'']"

definition handle_path_request :: "oxenc \<Rightarrow> bytes \<Rightarrow> path_request" where
  "handle_path_request X payload =
     (let bad = RequestRespond (serialize_status_response X ''ERROR'')
      in case bt_open X payload of None \<Rightarrow> bad | Some c \<Rightarrow>
         (case bt_require_str X ''e'' c of None \<Rightarrow> bad | Some (e, c) \<Rightarrow>
         (case bt_require_str X ''p'' c of None \<Rightarrow> bad | Some (b, c) \<Rightarrow>
          (case find (\<lambda>n. string_bytes n = e) path_requests of
             Some n \<Rightarrow> Invoke n b
           | None \<Rightarrow> RequestIgnored))))"

definition handle_path_ping :: "oxenc \<Rightarrow> bytes \<Rightarrow> bytes" where
  "handle_path_ping X _ = OK_RESPONSE X"

section \<open>Path control messages\<close>

datatype control_outcome =
    ControlError \<comment> \<open>\<^verbatim>\<open>m.respond(ERROR_RESPONSE, true)\<close>\<close>
  | ControlUndefined
  | ControlRequest path_request transit_hop byte
      \<comment> \<open>a request for us, with the hop and type byte its responder captured\<close>
  | ControlForward peer bytes transit_hop byte
      \<comment> \<open>\<^verbatim>\<open>send_command(target, "path_control", payload)\<close> and what its continuation captured\<close>

definition handle_path_control :: "sodium \<Rightarrow> oxenc \<Rightarrow> router_state \<Rightarrow> bytes \<Rightarrow> control_outcome" where
  "handle_path_control S X r body =
     (if length body \<le> ENCRYPT_PATH_MESSAGE_OVERHEAD_MAC then ControlError
      else case split_span_tail [SYMM_NONCE_SIZE, HOPID_SIZE, 1] body of
        Some (inner_payload, [bnonce, bhop, msgtype]) \<Rightarrow>
          (let type = hd msgtype in
           if type \<noteq> 1 then ControlError
           else case get_transit_hop (path_ctx r) bhop of
             None \<Rightarrow> ControlError
           | Some hop \<Rightarrow>
               (let nonce = buf_xor bnonce (xor_nonce hop) in
                if terminal_hop hop
                then (case xchacha20_poly1305_decrypt_inplace S inner_payload (shared_secret hop) nonce [] of
                        None \<Rightarrow> ControlUndefined
                      | Some payload \<Rightarrow> ControlRequest (handle_path_request X payload) hop type)
                else (let inner = xchacha20 S inner_payload (shared_secret hop) nonce;
                          (next_target, next_hopid) = next_id hop bhop
                      in ControlForward next_target (inner @ nonce @ next_hopid @ msgtype) hop type)))
      | _ \<Rightarrow> ControlUndefined)"

text \<open>
  The responder of a terminal request; \<open>hop\<close> is the locked weak pointer.  Nothing is sent when
  the hop is gone.
\<close>

definition control_responder ::
  "sodium \<Rightarrow> transit_hop option \<Rightarrow> byte \<Rightarrow> symm_nonce \<Rightarrow> bytes \<Rightarrow> bytes option" where
  "control_responder S hop type nonce response =
     (case hop of
        None \<Rightarrow> None
      | Some hop \<Rightarrow>
          (case xchacha20_poly1305_encrypt_inplace S (response @ replicate TAG_SIZE 0) (shared_secret hop) nonce [] of
             None \<Rightarrow> None
           | Some enc \<Rightarrow> Some (enc @ buf_xor nonce (xor_nonce hop) @ rxid hop @ [type])))"

text \<open>
  The continuation of a forwarded request: the list of responses it sends to the previous hop, body
  and error flag each.
\<close>

definition control_response_relay ::
  "sodium \<Rightarrow> oxenc \<Rightarrow> transit_hop option \<Rightarrow> byte \<Rightarrow> response \<Rightarrow> (bytes \<times> bool) list" where
  "control_response_relay S X hop type response =
     (case hop of
        None \<Rightarrow> []
      | Some hop \<Rightarrow>
          if response = RespTimeout then []
          else
            (let relayed_error = (case response of RespError b \<Rightarrow> [(b, True)] | _ \<Rightarrow> []);
                 body = response_body response;
                 err = (ERROR_RESPONSE X, True)
             in relayed_error @
                (if length body \<le> ENCRYPT_PATH_MESSAGE_OVERHEAD then [err]
                 else case split_span_tail [SYMM_NONCE_SIZE, HOPID_SIZE, 1] body of
                   Some (inner_payload, [nonce, recv_hopid, msgtype]) \<Rightarrow>
                     if hd msgtype \<noteq> type then [err]
                     else if recv_hopid \<noteq> txid hop then [err]
                     else [(xchacha20 S inner_payload (shared_secret hop) nonce
                              @ buf_xor nonce (xor_nonce hop) @ rxid hop @ msgtype, False)]
                 | _ \<Rightarrow> [])))"

section \<open>Session messages\<close>

type_synonym session_tag = u32

definition MIN_PATH_DATA_MESSAGE_SIZE :: nat where
  "MIN_PATH_DATA_MESSAGE_SIZE = 0 + 1 + HOPID_SIZE + ENCRYPT_PATH_MESSAGE_OVERHEAD"

definition extract_path_message_metadata :: "bytes \<Rightarrow> (hop_id \<times> symm_nonce \<times> byte \<times> bytes) option" where
  "extract_path_message_metadata message =
     (if length message < MIN_PATH_DATA_MESSAGE_SIZE then None
      else let msgtype = last message;
               m1 = butlast message;
               hopid = drop (length m1 - HOPID_SIZE) m1;
               m2 = take (length m1 - HOPID_SIZE) m1;
               nonce = drop (length m2 - SYMM_NONCE_SIZE) m2;
               m3 = take (length m2 - SYMM_NONCE_SIZE) m2
           in Some (hopid, nonce, msgtype, m3))"

definition unknown_message_type :: "byte \<Rightarrow> bool \<Rightarrow> bool" where
  "unknown_message_type msgtype control \<longleftrightarrow>
     (if control then msgtype < MSG_CONTROL_MIN \<or> MSG_CONTROL_MAX < msgtype else msgtype \<noteq> MSG_DATA)"

text \<open>Where a message for a session came from: the transit hop or the path it arrived on.\<close>

datatype msg_source = FromHop hop_id | FromPath hop_id

datatype session_outcome =
    SessionDrop
  | SessionUndefined
  | SessionHandshake bytes session_tag symm_nonce msg_source
  | SessionInit bytes msg_source
  | SessionControl bytes session_tag symm_nonce msg_source
  | SessionData bytes session_tag symm_nonce
  | SessionSend link_send

text \<open>What the session layer of the target gets.\<close>

definition session_deliver ::
  "byte \<Rightarrow> bool \<Rightarrow> bytes \<Rightarrow> session_tag \<Rightarrow> symm_nonce \<Rightarrow> msg_source \<Rightarrow> session_outcome" where
  "session_deliver msgtype control payload tag nonce source =
     (if msgtype = MSG_SESSION_HANDSHAKE then SessionHandshake payload tag nonce source
      else if control \<and> tag = 0 then SessionInit payload source
      else if control then SessionControl payload tag nonce source
      else SessionData payload tag nonce)"

definition session_forward :: "bool \<Rightarrow> peer \<Rightarrow> bytes \<Rightarrow> session_outcome" where
  "session_forward control target message =
     SessionSend (if control then SendCommand target ''session_control'' message else SendDatagram target message)"

text \<open>Case 1: the client at the end of the path undoes the layers from the edge to the terminus.\<close>

fun client_layers :: "sodium \<Rightarrow> transit_hop list \<Rightarrow> bytes \<Rightarrow> symm_nonce \<Rightarrow> bytes \<times> symm_nonce" where
  "client_layers S [] message nonce = (message, nonce)"
| "client_layers S (hop # hs) message nonce =
     client_layers S hs (xchacha20 S message (shared_secret hop) nonce) (buf_xor nonce (xor_nonce hop))"

definition session_message_client ::
  "sodium \<Rightarrow> oxenc \<Rightarrow> router_state \<Rightarrow> bool \<Rightarrow> hop_id \<Rightarrow> symm_nonce \<Rightarrow> byte \<Rightarrow> bytes \<Rightarrow> session_outcome" where
  "session_message_client S X r control hopid nonce msgtype message =
     (case get_path (path_ctx r) hopid of
        None \<Rightarrow> SessionDrop
      | Some path \<Rightarrow>
          if length message < 4 then SessionDrop
          else if unknown_message_type msgtype control then SessionDrop
          else (let (message, nonce) = client_layers S (hops path) message nonce;
                    tag = load_big32 X (drop (length message - 4) message)
                in session_deliver msgtype control (take (length message - 4) message) tag nonce (FromPath hopid)))"

text \<open>Cases 2 and 3: the terminus either consumes the message or pivots it onto another path.\<close>

definition session_message_terminal ::
  "sodium \<Rightarrow> oxenc \<Rightarrow> router_state \<Rightarrow> bool \<Rightarrow> hop_id \<Rightarrow> symm_nonce \<Rightarrow> byte \<Rightarrow> bytes \<Rightarrow> session_outcome" where
  "session_message_terminal S X r control hopid nonce msgtype message =
     (case split_span_tail [4, HOPID_SIZE] message of
        Some (payload, [bsession_tag, pivot_id]) \<Rightarrow>
          if pivot_id = hopid
          then (if unknown_message_type msgtype control then SessionDrop
                else session_deliver msgtype control payload (load_big32 X bsession_tag) nonce (FromHop hopid))
          else (case get_transit_hop (path_ctx r) pivot_id of
                  None \<Rightarrow> SessionDrop
                | Some trans_hop \<Rightarrow>
                    (let nonce = buf_xor nonce (xor_nonce trans_hop);
                         session_payload = xchacha20 S (payload @ bsession_tag) (shared_secret trans_hop) nonce
                     in session_forward control (downstream trans_hop)
                          (session_payload @ nonce @ pivot_id @ [msgtype])))
      | _ \<Rightarrow> SessionUndefined)"

definition handle_session_message :: "sodium \<Rightarrow> oxenc \<Rightarrow> router_state \<Rightarrow> bytes \<Rightarrow> bool \<Rightarrow> session_outcome" where
  "handle_session_message S X r message control =
     (case extract_path_message_metadata message of
        None \<Rightarrow> SessionDrop
      | Some (hopid, nonce, msgtype, message) \<Rightarrow>
          if \<not> is_service_node r then session_message_client S X r control hopid nonce msgtype message
          else (case get_transit_hop (path_ctx r) hopid of
                  None \<Rightarrow> SessionDrop
                | Some hop \<Rightarrow>
                    (let nonce = buf_xor nonce (xor_nonce hop);
                         message = xchacha20 S message (shared_secret hop) nonce
                     in if terminal_hop hop
                        then session_message_terminal S X r control hopid nonce msgtype message
                        else (let (next_target, next_hopid) = next_id hop hopid
                              in session_forward control next_target
                                   (message @ nonce @ next_hopid @ [msgtype])))))"

text \<open>\<^verbatim>\<open>handle_path_session_control\<close>: the command handler checks the size first.\<close>

definition handle_path_session_control :: "sodium \<Rightarrow> oxenc \<Rightarrow> router_state \<Rightarrow> bytes \<Rightarrow> session_outcome" where
  "handle_path_session_control S X r body =
     (if length body \<le> ENCRYPT_PATH_MESSAGE_OVERHEAD_MAC then SessionDrop
      else handle_session_message S X r body True)"

end
