(* ===== verification/Rc_Exchange.thy ===== *)
theory Rc_Exchange
  imports Nodedb Path_Relay
begin

text \<open>
  How routers learn of each other's contacts: gossip between relays and the contact and bootstrap
  fetches (\<^verbatim>\<open>link/link_manager.cpp\<close>), with the requesting side, the relay id fetches, queued lookups and the
  loading of bootstrap contacts (\<^verbatim>\<open>nodedb.cpp\<close>).  The zstd library is a parameter.
\<close>

text \<open>What the handlers read of the router: its libraries, network id, own id and kind.\<close>

record router_cfg =
  cfg_sodium :: sodium
  cfg_oxenc :: oxenc
  cfg_rc_env :: rc_env
  cfg_layout :: rc_layout
  cfg_block_bogons :: bool
  cfg_netid :: int
  cfg_id :: router_id
  cfg_service_node :: bool

definition parse_rc :: "router_cfg \<Rightarrow> bool \<Rightarrow> ms \<Rightarrow> bytes \<Rightarrow> rc_error + relay_contact" where
  "parse_rc C accept_expired now data =
     rc_parse (cfg_oxenc C) (cfg_rc_env C) (cfg_block_bogons C) data (cfg_netid C) accept_expired now"

definition store_rc :: "router_cfg \<Rightarrow> relay_contact \<Rightarrow> nodedb \<Rightarrow> (bool \<times> bool) \<times> nodedb" where
  "store_rc C rc db = put_rc (cfg_sodium C) (cfg_layout C) (cfg_id C) (cfg_service_node C) rc db"

section \<open>Gossip\<close>

text \<open>The connections to relays: peer and connection reference id.\<close>

type_synonym relay_conns = "(router_id \<times> nat) list"

definition for_each_relay_conn :: "bool \<Rightarrow> relay_conns \<Rightarrow> relay_conns" where
  "for_each_relay_conn is_stopping conns = (if is_stopping then [] else conns)"

text \<open>\<^verbatim>\<open>gossip_rc\<close>: the commands sent, by peer; the count returned is their number.\<close>

definition gossip_rc :: "bool \<Rightarrow> relay_conns \<Rightarrow> relay_contact \<Rightarrow> nat option \<Rightarrow> (router_id \<times> bytes) list" where
  "gossip_rc is_stopping conns rc sender =
     map (\<lambda>(rid, _). (rid, rc_payload rc))
       (filter (\<lambda>(rid, conn). \<not> (rid = rc_router_id rc \<or> sender = Some conn)) (for_each_relay_conn is_stopping conns))"

definition handle_gossip_rc ::
  "router_cfg \<Rightarrow> ms \<Rightarrow> bool \<Rightarrow> relay_conns \<Rightarrow> nat \<Rightarrow> bytes \<Rightarrow> nodedb \<Rightarrow> (router_id \<times> bytes) list \<times> nodedb" where
  "handle_gossip_rc C now is_stopping conns sender body db =
     (case parse_rc C False now body of
        Inl _ \<Rightarrow> ([], db)
      | Inr rc \<Rightarrow>
          (let ((stored, gossip), db') =
                 verify_store_gossip_rc (cfg_sodium C) (cfg_layout C) (cfg_id C) (cfg_service_node C) rc db
           in (if gossip then gossip_rc is_stopping conns rc (Some sender) else [], db')))"

section \<open>Fetching contacts\<close>

definition fetch_rcs_request :: "oxenc \<Rightarrow> nodedb \<Rightarrow> bytes" where
  "fetch_rcs_request X db = bt_dict X [(''b'', BList (map (\<lambda>i. BStr (rc_bucket_hashes db i)) [0..<128]))]"

text \<open>The contacts recorded in one bucket; a recorded id without contact is only logged.\<close>

definition bucket_views :: "nodedb \<Rightarrow> nat \<Rightarrow> bytes list" where
  "bucket_views db i = List.map_filter (\<lambda>(rid, _). map_option rc_payload (get_rc db rid)) (rc_hashes db i)"

fun fetch_rcs_loop :: "nodedb \<Rightarrow> nat list \<Rightarrow> bt_value list \<Rightarrow> bytes list option" where
  "fetch_rcs_loop db [] args = (if args = [] then Some [] else None)"
| "fetch_rcs_loop db (i # is) (BStr h # args) =
     (if length h \<noteq> RCHASH_SIZE then None
      else map_option (\<lambda>views. (if rc_bucket_hashes db i \<noteq> h then bucket_views db i else []) @ views)
             (fetch_rcs_loop db is args))"
| "fetch_rcs_loop db (i # is) _ = None"

definition handle_fetch_rcs :: "oxenc \<Rightarrow> nodedb \<Rightarrow> bytes \<Rightarrow> bytes" where
  "handle_fetch_rcs X db body =
     (case bt_open X body of
        None \<Rightarrow> ERROR_RESPONSE X
      | Some c \<Rightarrow>
          (case bt_require X ''b'' c of
             Some (BList args, _) \<Rightarrow>
               (case fetch_rcs_loop db [0..<128] args of
                  None \<Rightarrow> ERROR_RESPONSE X
                | Some views \<Rightarrow> bt_dict X [(''r'', BList (map BStr views))])
           | _ \<Rightarrow> ERROR_RESPONSE X))"

text \<open>
  The requesting side.  An exception carries its message; one raised for a status is the status
  received, which may be empty, and an empty message is later taken for success.
\<close>

datatype fetch_result = Fetched | FetchThrew bytes

definition read_failed :: fetch_result where
  "read_failed = FetchThrew (string_bytes ''read error'')"

fun store_fetched :: "router_cfg \<Rightarrow> ms \<Rightarrow> bt_value list \<Rightarrow> nodedb \<Rightarrow> fetch_result \<times> nodedb" where
  "store_fetched C now [] db = (Fetched, db)"
| "store_fetched C now (BStr v # vs) db =
     (case parse_rc C False now v of
        Inl _ \<Rightarrow> (read_failed, db)
      | Inr rc \<Rightarrow>
          if rc_router_id rc \<notin> set (known_rids db) then store_fetched C now vs db
          else store_fetched C now vs (snd (store_rc C rc db)))"
| "store_fetched C now (_ # vs) db = (read_failed, db)"

definition read_fetched :: "router_cfg \<Rightarrow> ms \<Rightarrow> bytes \<Rightarrow> nodedb \<Rightarrow> fetch_result \<times> nodedb" where
  "read_fetched C now body db =
     (let X = cfg_oxenc C in
      case bt_open X body of
        None \<Rightarrow> (read_failed, db)
      | Some c \<Rightarrow>
          (let (status, c) = bt_optional X ''!'' c;
               rest = (case bt_require X ''r'' c of
                         Some (BList vs, _) \<Rightarrow> store_fetched C now vs db
                       | _ \<Rightarrow> (read_failed, db))
           in case status of
                None \<Rightarrow> rest
              | Some (BStr s) \<Rightarrow> if s \<noteq> string_bytes ''OK'' then (FetchThrew s, db) else rest
              | Some _ \<Rightarrow> (read_failed, db)))"

text \<open>
  The response callback of \<^verbatim>\<open>fetch_rcs\<close>: the value given to \<^verbatim>\<open>on_done\<close>, the lookup
  callbacks run with their argument, and the database.  \<open>now'\<close> is the clock when the contacts are stored.
\<close>

type_synonym lookup_answer = "nat \<times> relay_contact option"

definition fetch_rcs_response ::
  "router_cfg \<Rightarrow> ms \<Rightarrow> ms \<Rightarrow> path_control_response \<Rightarrow> nodedb \<Rightarrow> bool \<times> lookup_answer list \<times> nodedb" where
  "fetch_rcs_response C now now' resp db =
     (let (result, db1) = (if ok resp then read_fetched C now (pcr_body resp) db else (read_failed, db))
      in case result of
           Fetched \<Rightarrow>
             (let db2 = db1\<lparr>last_rc_fetch := now'\<rparr>
              in (True, map (\<lambda>(rid, func). (func, get_rc db2 rid)) (pending_rc_lookups db2),
                  db2\<lparr>pending_rc_lookups := []\<rparr>))
         | FetchThrew error \<Rightarrow>
             if error \<noteq> []
             then (False, map (\<lambda>(rid, func). (func, None)) (pending_rc_lookups db1), db1\<lparr>pending_rc_lookups := []\<rparr>)
             else (True, [], db1))"

text \<open>\<^verbatim>\<open>fetch_rcs\<close>: the path used and the request, or nothing without an active path.\<close>

definition fetch_rcs :: "oxenc \<Rightarrow> path_ref option \<Rightarrow> nodedb \<Rightarrow> (path_ref \<times> bytes) option" where
  "fetch_rcs X selected_path db = map_option (\<lambda>p. (p, fetch_rcs_request X db)) selected_path"

definition lookup_rc :: "router_id \<Rightarrow> nat \<Rightarrow> nodedb \<Rightarrow> lookup_answer list \<times> nodedb" where
  "lookup_rc rid func db =
     (case get_rc db rid of
        Some rc \<Rightarrow> ([(func, Some rc)], db)
      | None \<Rightarrow>
          if last_rc_fetch db = 0 then ([], db\<lparr>pending_rc_lookups := pending_rc_lookups db @ [(rid, func)]\<rparr>)
          else ([(func, None)], db))"

section \<open>Fetching relay ids\<close>

definition FETCH_INTERVAL :: ms where "FETCH_INTERVAL = 5 * 60 * 1000"
definition FETCH_RETRY_INTERVAL :: ms where "FETCH_RETRY_INTERVAL = 30 * 1000"

definition handle_path_fetch_router_ids :: "oxenc \<Rightarrow> nodedb \<Rightarrow> bytes" where
  "handle_path_fetch_router_ids X db = bt_dict X [(''r'', BList (map BStr (registered_relays db)))]"

text \<open>One round: the ids each source affirmed so far, the number of responses, the inbound sources.\<close>

record rid_fetch =
  rf_results :: "(router_id \<times> router_id list) list"
  rf_count :: nat
  rf_inbound :: "router_id list"

fun pick_sources :: "(router_id \<times> path_ref) list \<Rightarrow> (router_id \<times> path_ref) list \<Rightarrow> (router_id \<times> path_ref) list" where
  "pick_sources [] selected = selected"
| "pick_sources ((terminal, p) # ps) selected =
     (if RID_SOURCE_COUNT \<le> length selected then selected
      else pick_sources ps (if terminal \<in> fst ` set selected then selected else selected @ [(terminal, p)]))"

datatype rid_fetch_start = RidsStopped | RidsRetryIn ms | RidsAsk "(router_id \<times> path_ref) list" rid_fetch

text \<open>
  \<^verbatim>\<open>fetch_rids\<close>: \<open>active\<close> are our own active paths with their terminals, \<open>extra\<close> the shuffled
  paths of outbound sessions.
\<close>

definition fetch_rids ::
  "bool \<Rightarrow> (router_id \<times> path_ref) list \<Rightarrow> (router_id \<times> path_ref) list \<Rightarrow> rid_fetch_start" where
  "fetch_rids running active extra =
     (if \<not> running then RidsStopped
      else
        (let inbound = pick_sources active []
         in if inbound = [] then RidsRetryIn 100
            else (let selected = (if length inbound < RID_SOURCE_COUNT then pick_sources extra inbound else inbound)
                  in RidsAsk selected
                       \<lparr>rf_results = map (\<lambda>(src, _). (src, [])) selected, rf_count = 0, rf_inbound = map fst inbound\<rparr>)))"

fun read_rids :: "bt_value list \<Rightarrow> router_id list option" where
  "read_rids [] = Some []"
| "read_rids (BStr r # vs) = (if length r = 32 then map_option (List.insert r) (read_rids vs) else None)"
| "read_rids (_ # vs) = None"

definition rids_of_response :: "oxenc \<Rightarrow> path_control_response \<Rightarrow> router_id list option" where
  "rids_of_response X resp =
     (case bt_open X (pcr_body resp) of
        None \<Rightarrow> None
      | Some c \<Rightarrow> (case bt_require X ''r'' c of Some (BList vs, _) \<Rightarrow> read_rids vs | _ \<Rightarrow> None))"

text \<open>
  The response callback: with the last response the results are applied; the outcome is then the
  delay to the next round and whether contacts are fetched.
\<close>

definition rid_response ::
  "oxenc \<Rightarrow> router_id \<Rightarrow> path_control_response \<Rightarrow> rid_fetch \<times> nodedb \<Rightarrow> (ms \<times> bool) option \<times> rid_fetch \<times> nodedb" where
  "rid_response X source resp st =
     (let (f, db) = st;
          results = (if \<not> ok resp then rf_results f
                     else AList.update source (case rids_of_response X resp of None \<Rightarrow> [] | Some rids \<Rightarrow> rids) (rf_results f));
          f' = f\<lparr>rf_results := results, rf_count := rf_count f + 1\<rparr>
      in if rf_count f' = length results
         then (let (conclusive, db') = handle_fetched_router_ids results (rf_inbound f) db
               in (Some (if conclusive then FETCH_INTERVAL else FETCH_RETRY_INTERVAL, conclusive), f', db'))
         else (None, f', db))"

section \<open>Bootstrap\<close>

record zstd_lib =
  zstd_compress :: "bytes \<Rightarrow> bytes option"
  zstd_decompress :: "bytes \<Rightarrow> bytes option"

definition compress_piecewise :: "zstd_lib \<Rightarrow> bytes list \<Rightarrow> bytes \<Rightarrow> bytes option" where
  "compress_piecewise Z buffers prefix = map_option (\<lambda>z. prefix @ z) (zstd_compress Z (concat buffers))"

definition decompress :: "zstd_lib \<Rightarrow> bytes \<Rightarrow> nat \<Rightarrow> bytes option" where
  "decompress Z compressed max_size =
     (case zstd_decompress Z compressed of
        None \<Rightarrow> None
      | Some d \<Rightarrow> if 0 < max_size \<and> max_size < length d then None else Some d)"

definition compress_prefix :: bytes where "compress_prefix = string_bytes ''d1:z999999999:''"

text \<open>
  The response to a bootstrap request.  The final prefix is written over the end of the
  placeholder; if it were longer than the placeholder the subtraction for \<^verbatim>\<open>skip\<close> would wrap
  (\<open>None\<close>: undefined).
\<close>

definition handle_fetch_bootstrap_rcs :: "zstd_lib \<Rightarrow> ms \<Rightarrow> nodedb \<Rightarrow> response option" where
  "handle_fetch_bootstrap_rcs Z now db =
     (let rcs = [[108]] @ map rc_payload (filter (\<lambda>rc. \<not> rc_is_expired rc now) (map snd (known_rcs db))) @ [[101]]
      in if length rcs = 2 then Some (RespError (string_bytes ''No RCs''))
         else case compress_piecewise Z rcs compress_prefix of
           None \<Rightarrow> Some (RespError (string_bytes ''Compress failed''))
         | Some response_raw \<Rightarrow>
             (let comp_size = length response_raw - length compress_prefix;
                  actual = string_bytes ''d1:Z'' @ dec comp_size @ string_bytes '':''
              in if length compress_prefix < length actual then None
                 else (let skip = length compress_prefix - length actual;
                           rewritten = write_span skip actual response_raw @ [101]
                       in Some (RespOk (subspan skip (length rewritten - skip) rewritten)))))"

text \<open>Reading the list of contacts; the fuel is the number of bytes, and each element takes at least one.\<close>

fun read_rc_list ::
  "router_cfg \<Rightarrow> bool \<Rightarrow> ms \<Rightarrow> nat \<Rightarrow> bytes \<Rightarrow> relay_contact option list" where
  "read_rc_list C accept_expired now 0 c = [None]"
| "read_rc_list C accept_expired now (Suc n) c =
     (if bt_list_finish (cfg_oxenc C) c then []
      else case bt_consume_dict (cfg_oxenc C) c of
        None \<Rightarrow> [None]
      | Some (data, c') \<Rightarrow>
          (case parse_rc C accept_expired now data of
             Inl _ \<Rightarrow> [None]
           | Inr rc \<Rightarrow> Some rc # read_rc_list C accept_expired now n c'))"

definition handle_bootstrap_result ::
  "router_cfg \<Rightarrow> zstd_lib \<Rightarrow> ms \<Rightarrow> bytes \<Rightarrow> nodedb \<Rightarrow> bool \<times> nodedb" where
  "handle_bootstrap_result C Z now body db =
     (let X = cfg_oxenc C in
      case bt_open X body of
        None \<Rightarrow> (False, db)
      | Some c \<Rightarrow>
     (case bt_require_str X ''Z'' c of
        None \<Rightarrow> (False, db)
      | Some (compressed_rcs, c) \<Rightarrow>
          if \<not> bt_finish X c then (False, db)
          else
     (case decompress Z compressed_rcs 20000000 of
        None \<Rightarrow> (False, db)
      | Some rcs_data \<Rightarrow>
     (case bt_list_open X rcs_data of
        None \<Rightarrow> (False, db)
      | Some c \<Rightarrow>
          store_bootstrap_rcs (cfg_sodium C) (cfg_layout C) (cfg_id C) (cfg_service_node C)
            (read_rc_list C False now (length rcs_data) c) db))))"

text \<open>
  The chain of attempts of \<^verbatim>\<open>bootstrap\<close> over the remaining bootstrap contacts: \<open>stopping\<close> tells
  whether the router is stopping before the attempt, \<open>answer\<close> is what the asked relay replies.
  The result is the delay to the next run if one is scheduled; \<open>None\<close> when aborted.
\<close>

fun try_next ::
  "router_cfg \<Rightarrow> zstd_lib \<Rightarrow> ms \<Rightarrow> (nat \<Rightarrow> bool) \<Rightarrow> (relay_contact \<Rightarrow> response) \<Rightarrow> nat \<Rightarrow> relay_contact list \<Rightarrow> nodedb \<Rightarrow>
     ms option option \<times> nodedb" where
  "try_next C Z now stopping answer i [] db =
     (if stopping i then (None, db) else (let (delay, db') = on_bootstrap_done False db in (Some delay, db')))"
| "try_next C Z now stopping answer i (rc # rcs) db =
     (if stopping i then (None, db)
      else case answer rc of
        RespOk body \<Rightarrow>
          (let (success, db1) = handle_bootstrap_result C Z now body db
           in if success then (let (delay, db') = on_bootstrap_done True db1 in (Some delay, db'))
              else try_next C Z now stopping answer (Suc i) rcs db1)
      | _ \<Rightarrow> try_next C Z now stopping answer (Suc i) rcs db)"

definition bootstrap ::
  "router_cfg \<Rightarrow> zstd_lib \<Rightarrow> ms \<Rightarrow> (nat \<Rightarrow> bool) \<Rightarrow> (relay_contact \<Rightarrow> response) \<Rightarrow> nodedb \<Rightarrow> ms option option \<times> nodedb" where
  "bootstrap C Z now stopping answer db =
     try_next C Z now stopping answer 0 (bootstraps db) (db\<lparr>bootstrap_running := True\<rparr>)"

text \<open>
  Bootstrap data: a list of contacts or a single one.  Contacts read before an error stay loaded.
\<close>

definition load_bootstrap :: "router_cfg \<Rightarrow> ms \<Rightarrow> bytes \<Rightarrow> relay_contact list \<Rightarrow> bool \<times> relay_contact list" where
  "load_bootstrap C now data bs =
     (let rcs = (if hd data = 108
                 then (case bt_list_open (cfg_oxenc C) data of
                         None \<Rightarrow> [None] | Some c \<Rightarrow> read_rc_list C True now (length data) c)
                 else [case parse_rc C True now data of Inl _ \<Rightarrow> None | Inr rc \<Rightarrow> Some rc])
      in (None \<notin> set rcs, bs @ map the (takeWhile (\<lambda>r. r \<noteq> None) rcs)))"

text \<open>Configured files that do not exist (\<open>None\<close>), are empty or do not parse are fatal.\<close>

fun load_bootstrap_files :: "router_cfg \<Rightarrow> ms \<Rightarrow> bytes option list \<Rightarrow> relay_contact list \<Rightarrow> relay_contact list option" where
  "load_bootstrap_files C now [] bs = Some bs"
| "load_bootstrap_files C now (f # fs) bs =
     (case f of
        None \<Rightarrow> None
      | Some content \<Rightarrow>
          if content = [] then None
          else case load_bootstrap C now content bs of
            (False, _) \<Rightarrow> None
          | (True, bs') \<Rightarrow> load_bootstrap_files C now fs bs')"

text \<open>
  \<^verbatim>\<open>load_bootstraps\<close>: the contents of the configured files and of the default file (if it exists), the
  obsolete ids, the built-in fallback of our network, and the final shuffle.  \<open>None\<close> is a fatal error.
\<close>

definition load_bootstraps ::
  "router_cfg \<Rightarrow> ms \<Rightarrow> bytes option list \<Rightarrow> bytes option \<Rightarrow> (router_id \<Rightarrow> bool) \<Rightarrow> bytes option \<Rightarrow>
     (relay_contact list \<Rightarrow> relay_contact list) \<Rightarrow> relay_contact list option" where
  "load_bootstraps C now files def_file obsolete fallback shuffle =
     (case load_bootstrap_files C now files [] of
        None \<Rightarrow> None
      | Some bs0 \<Rightarrow>
          (let bs1 = (case def_file of
                        Some d \<Rightarrow> if files = [] \<and> d \<noteq> [] then snd (load_bootstrap C now d bs0) else bs0
                      | None \<Rightarrow> bs0);
               bs2 = filter (\<lambda>rc. \<not> obsolete (rc_router_id rc)) bs1;
               bs3 = filter (\<lambda>rc. rc_router_id rc \<noteq> cfg_id C) bs2;
               removed = length bs2 - length bs3
           in if bs3 = [] \<and> (0 < removed \<or> files = [])
              then (case fallback of
                      None \<Rightarrow> Some (shuffle bs3)
                    | Some blob \<Rightarrow>
                        (case load_bootstrap C now blob bs3 of
                           (False, _) \<Rightarrow> None
                         | (True, bs4) \<Rightarrow> Some (shuffle bs4)))
              else Some (shuffle bs3)))"


section \<open>Floods of one contact\<close>

text \<open>
  A network of relays: each has a configuration, links with connection ids and a database; messages
  in flight have a sender, a receiver and a body.  Delivering one runs the handler of the receiver.
\<close>

type_synonym gossip_state = "(router_id \<Rightarrow> nodedb) \<times> (router_id \<times> router_id \<times> bytes) multiset"

definition gossip_sends :: "router_id \<Rightarrow> (router_id \<times> bytes) list \<Rightarrow> (router_id \<times> router_id \<times> bytes) multiset" where
  "gossip_sends src sends = mset (map (\<lambda>(dst, body). (src, dst, body)) sends)"

inductive gossip_step ::
  "(router_id \<Rightarrow> router_cfg) \<Rightarrow> ms \<Rightarrow> (router_id \<Rightarrow> relay_conns) \<Rightarrow> gossip_state \<Rightarrow> gossip_state \<Rightarrow> bool"
  for C now links where
  gossip_deliver:
    "map_of (links dst) src = Some conn \<Longrightarrow>
     handle_gossip_rc (C dst) now False (links dst) conn body (dbs dst) = (sends, db') \<Longrightarrow>
     gossip_step C now links (dbs, add_mset (src, dst, body) msgs) (dbs(dst := db'), msgs + gossip_sends dst sends)"

text \<open>The contact is settled at a relay that has one of the same relay at most a minute older.\<close>

definition settled :: "relay_contact \<Rightarrow> nodedb \<Rightarrow> bool" where
  "settled rc db \<longleftrightarrow>
     (case get_rc db (rc_router_id rc) of
        None \<Rightarrow> False | Some old \<Rightarrow> rc_timestamp rc < rc_timestamp old + MIN_GOSSIP_RC_AGE)"

text \<open>A relay for which the contact is news that it stores and passes on.\<close>

definition news_to :: "router_cfg \<Rightarrow> relay_contact \<Rightarrow> nodedb \<Rightarrow> bool" where
  "news_to C rc db \<longleftrightarrow>
     cfg_service_node C \<and> rc_router_id rc \<noteq> cfg_id C \<and> is_registered db (rc_router_id rc) \<and>
     (case get_rc db (rc_router_id rc) of
        None \<Rightarrow> True
      | Some old \<Rightarrow>
          rc_timestamp old + OUTDATED_AGE div 1000 \<le> rc_timestamp rc \<or>
          rc_timestamp old + MIN_GOSSIP_RC_AGE \<le> rc_timestamp rc \<and>
          bucket_hash (cfg_sodium C) (cfg_layout C) (rc_payload rc) \<noteq>
          bucket_hash (cfg_sodium C) (cfg_layout C) (rc_payload old))"

lemma length_gossip_rc: "length (gossip_rc stopping conns rc sender) \<le> length conns"
  by (simp add: gossip_rc_def for_each_relay_conn_def)

lemma gossip_rc_mem:
  "(d, b) \<in> set (gossip_rc False conns rc sender) \<longleftrightarrow>
     b = rc_payload rc \<and> d \<noteq> rc_router_id rc \<and> (\<exists>conn. (d, conn) \<in> set conns \<and> sender \<noteq> Some conn)"
  by (auto simp: gossip_rc_def for_each_relay_conn_def)

lemma size_gossip_sends [simp]: "size (gossip_sends src sends) = length sends"
  by (simp add: gossip_sends_def)

lemma gossip_sends_mem [simp]: "(s, d, b) \<in># gossip_sends src sends \<longleftrightarrow> s = src \<and> (d, b) \<in> set sends"
  by (force simp: gossip_sends_def)

lemma MIN_GOSSIP_RC_AGE_pos: "0 < MIN_GOSSIP_RC_AGE" "MIN_GOSSIP_RC_AGE \<le> OUTDATED_AGE div 1000"
  by (simp_all add: MIN_GOSSIP_RC_AGE_def OUTDATED_AGE_def)

text \<open>What the handler does with a contact that parses: pass it on only when it was not settled and then is.\<close>

lemma handle_gossip_parsed:
  assumes "parse_rc C False now body = Inr rc"
    and "handle_gossip_rc C now False conns sender body db = (sends, db')"
  shows "sends \<noteq> [] \<longrightarrow> \<not> settled rc db \<and> settled rc db'"
    and "settled rc db \<longrightarrow> db' = db \<and> sends = []"
    and "settled rc db \<longrightarrow> settled rc db'"
    and "length sends \<le> length conns"
    and "news_to C rc db \<longrightarrow> get_rc db' (rc_router_id rc) = Some rc \<and> sends = gossip_rc False conns rc (Some sender)"
    and "rid \<noteq> rc_router_id rc \<longrightarrow> get_rc db' rid = get_rc db rid"
proof -
  let ?S = "cfg_sodium C" and ?L = "cfg_layout C" and ?me = "cfg_id C" and ?sn = "cfg_service_node C"
  have gos: "snd (fst (put_rc ?S ?L ?me ?sn rc db)) \<Longrightarrow> fst (fst (put_rc ?S ?L ?me ?sn rc db))"
    using put_rc_gossip by blast
  have unset: "fst (fst (put_rc ?S ?L ?me ?sn rc db)) \<longleftrightarrow> \<not> settled rc db"
    by (auto simp: put_rc_stored settled_def split: option.splits)
  have same: "snd (put_rc ?S ?L ?me ?sn rc db) = db" if "settled rc db"
    using that by (auto simp: put_rc_def settled_def get_rc_def newer_than_def Let_def split: option.splits)
  have set: "settled rc (snd (put_rc ?S ?L ?me ?sn rc db))"
    using unset MIN_GOSSIP_RC_AGE_pos(1) by (cases "settled rc db") (simp_all add: same, simp add: settled_def put_rc_get)
  have out: "(sends, db') =
      (if \<not> is_registered db (rc_router_id rc) \<or> rc_router_id rc = ?me then ([], db)
       else (if snd (fst (put_rc ?S ?L ?me ?sn rc db)) then gossip_rc False conns rc (Some sender) else [],
             snd (put_rc ?S ?L ?me ?sn rc db)))"
    using assms by (cases "\<not> is_registered db (rc_router_id rc) \<or> rc_router_id rc = ?me")
      (auto simp: handle_gossip_rc_def verify_store_gossip_rc_def split_beta)
  then show "sends \<noteq> [] \<longrightarrow> \<not> settled rc db \<and> settled rc db'"
    using gos unset set by (auto split: if_splits)
  from out show "settled rc db \<longrightarrow> db' = db \<and> sends = []" and "settled rc db \<longrightarrow> settled rc db'"
    using gos unset set same by (auto split: if_splits)
  from out show "length sends \<le> length conns"
    by (auto simp: length_gossip_rc split: if_splits)
  from out show "news_to C rc db \<longrightarrow> get_rc db' (rc_router_id rc) = Some rc \<and> sends = gossip_rc False conns rc (Some sender)"
    using MIN_GOSSIP_RC_AGE_pos(2)
    by (auto simp: news_to_def put_rc_gossip put_rc_get put_rc_stored split: option.splits if_splits)
  from out show "rid \<noteq> rc_router_id rc \<longrightarrow> get_rc db' rid = get_rc db rid"
    by (auto simp: put_rc_get split: if_splits)
qed

subsection \<open>Floods end\<close>

text \<open>All messages in flight carry the contact, and every relay reads it the same way.\<close>

definition flood :: "(router_id \<Rightarrow> router_cfg) \<Rightarrow> ms \<Rightarrow> relay_contact \<Rightarrow> gossip_state \<Rightarrow> bool" where
  "flood C now rc st \<longleftrightarrow>
     (\<forall>r. parse_rc (C r) False now (rc_payload rc) = Inr rc) \<and>
     (\<forall>s d b. (s, d, b) \<in># snd st \<longrightarrow> b = rc_payload rc)"

text \<open>The messages still possible: those in flight and those of the relays not yet settled.\<close>

definition flood_budget :: "(router_id \<Rightarrow> relay_conns) \<Rightarrow> router_id set \<Rightarrow> relay_contact \<Rightarrow> gossip_state \<Rightarrow> nat" where
  "flood_budget links relays rc st =
     size (snd st) + (\<Sum>r \<in> relays. if settled rc (fst st r) then 0 else length (links r))"

lemma handle_gossip_sends_body:
  assumes "parse_rc C False now body = Inr rc"
    and "handle_gossip_rc C now False conns sender body db = (sends, db')" and "(d, b) \<in> set sends"
  shows "b = rc_payload rc"
  using assms by (auto simp: handle_gossip_rc_def Let_def split_beta gossip_rc_mem split: if_splits)

lemma flood_step:
  assumes "flood C now rc st" and "gossip_step C now links st st'"
  shows "flood C now rc st'"
  using assms(2,1)
proof cases
  case (gossip_deliver dst src conn body dbs sends db' msgs)
  then have "body = rc_payload rc" and p: "parse_rc (C dst) False now body = Inr rc"
    using assms(1) by (auto simp: flood_def)
  with handle_gossip_sends_body [OF p gossip_deliver(4)] show ?thesis
    using assms(1) gossip_deliver by (auto simp: flood_def)
qed

lemma flood_budget_step:
  assumes "flood C now rc st" and "gossip_step C now links st st'" and "finite relays" and "\<forall>r. links r \<noteq> [] \<longrightarrow> r \<in> relays"
  shows "flood_budget links relays rc st' < flood_budget links relays rc st"
  using assms(2)
proof cases
  case (gossip_deliver dst src conn body dbs sends db' msgs)
  have p: "parse_rc (C dst) False now body = Inr rc"
    using assms(1) gossip_deliver by (auto simp: flood_def)
  note h = handle_gossip_parsed [OF p gossip_deliver(4)]
  have dst: "dst \<in> relays"
    using gossip_deliver(3) assms(4) by (cases "links dst") auto
  let ?w = "\<lambda>dbs r. if settled rc (dbs r) then 0 else length (links r)"
  have split: "(\<Sum>r \<in> relays. ?w f r) = ?w f dst + (\<Sum>r \<in> relays - {dst}. ?w f r)" for f
    using sum.remove [OF assms(3) dst, of "?w f"] .
  have rest: "(\<Sum>r \<in> relays - {dst}. ?w (dbs(dst := db')) r) = (\<Sum>r \<in> relays - {dst}. ?w dbs r)"
    by (rule sum.cong) auto
  have "length sends + ?w (dbs(dst := db')) dst \<le> ?w dbs dst"
  proof (cases "sends = []")
    case True
    then show ?thesis using h(3) by auto
  next
    case False
    then have "\<not> settled rc (dbs dst)" "settled rc db'"
      using h(1) by auto
    then show ?thesis using h(4) by simp
  qed
  then show ?thesis
    by (simp add: flood_budget_def gossip_deliver split [of dbs] split [of "dbs(dst := db')"] rest del: fun_upd_apply)
qed

lemma flood_run_bound:
  assumes "finite relays" and "\<forall>r. links r \<noteq> [] \<longrightarrow> r \<in> relays"
  shows "(gossip_step C now links ^^ n) st st' \<Longrightarrow> flood C now rc st \<Longrightarrow>
    flood C now rc st' \<and> n + flood_budget links relays rc st' \<le> flood_budget links relays rc st"
proof (induction n arbitrary: st')
  case (Suc n)
  then obtain t where t: "(gossip_step C now links ^^ n) st t" "gossip_step C now links t st'"
    by auto
  then have "flood C now rc t" "n + flood_budget links relays rc t \<le> flood_budget links relays rc st"
    using Suc by auto
  then show ?case
    using flood_step [OF _ t(2)] flood_budget_step [OF _ t(2) assms] by fastforce
qed simp

subsection \<open>Floods reach every connected relay\<close>

text \<open>
  A flood of the contact of relay \<open>orig\<close>, news to every relay at first.  A relay has either not yet
  heard of it or has stored it and sent it to each neighbour from which it did not get it.
\<close>

definition linked :: "(router_id \<Rightarrow> relay_conns) \<Rightarrow> router_id \<Rightarrow> router_id \<Rightarrow> bool" where
  "linked links r d \<longleftrightarrow> d \<in> fst ` set (links r)"

definition heard :: "relay_contact \<Rightarrow> (router_id \<Rightarrow> nodedb) \<Rightarrow> router_id \<Rightarrow> bool" where
  "heard rc dbs r \<longleftrightarrow> r = rc_router_id rc \<or> get_rc (dbs r) (rc_router_id rc) = Some rc"

definition links_ok :: "(router_id \<Rightarrow> relay_conns) \<Rightarrow> bool" where
  "links_ok links \<longleftrightarrow>
     (\<forall>r. distinct (map snd (links r)) \<and> distinct (map fst (links r))) \<and>
     (\<forall>r d. linked links r d \<longrightarrow> linked links d r)"

definition flood_inv ::
  "(router_id \<Rightarrow> router_cfg) \<Rightarrow> ms \<Rightarrow> (router_id \<Rightarrow> relay_conns) \<Rightarrow> relay_contact \<Rightarrow> gossip_state \<Rightarrow> bool" where
  "flood_inv C now links rc st \<longleftrightarrow>
     flood C now rc st \<and> links_ok links \<and>
     (\<forall>r. heard rc (fst st) r \<or> news_to (C r) rc (fst st r)) \<and>
     (\<forall>s d b. (s, d, b) \<in># snd st \<longrightarrow> heard rc (fst st) s \<and> d \<noteq> rc_router_id rc) \<and>
     (\<forall>r d. heard rc (fst st) r \<longrightarrow> linked links r d \<longrightarrow> heard rc (fst st) d \<or> (r, d, rc_payload rc) \<in># snd st)"

lemma flood_invD:
  assumes "flood_inv C now links rc (dbs, msgs)"
  shows "flood C now rc (dbs, msgs)" and "links_ok links"
    and "heard rc dbs r \<or> news_to (C r) rc (dbs r)"
    and "(s, d, b) \<in># msgs \<Longrightarrow> heard rc dbs s" and "(s, d, b) \<in># msgs \<Longrightarrow> d \<noteq> rc_router_id rc"
    and "heard rc dbs r \<Longrightarrow> linked links r d \<Longrightarrow> heard rc dbs d \<or> (r, d, rc_payload rc) \<in># msgs"
  using assms by (auto simp: flood_inv_def)

lemma settled_stored: "get_rc db (rc_router_id rc) = Some rc \<Longrightarrow> settled rc db"
  using MIN_GOSSIP_RC_AGE_pos(1) by (simp add: settled_def)

lemma conn_peer: "distinct (map snd m) \<Longrightarrow> (d, c) \<in> set m \<Longrightarrow> (s, c) \<in> set m \<Longrightarrow> d = s"
  by (induction m) force+

text \<open>A relay that gets the contact from \<open>src\<close> sends it to every other neighbour but its origin.\<close>

lemma gossip_rc_covers:
  assumes "links_ok links" and "map_of (links dst) src = Some conn" and "linked links dst d"
  shows "(d, rc_payload rc) \<in> set (gossip_rc False (links dst) rc (Some conn)) \<or> d = src \<or> d = rc_router_id rc"
proof -
  obtain c where c: "(d, c) \<in> set (links dst)"
    using assms(3) by (auto simp: linked_def)
  have "c = conn \<longrightarrow> d = src"
    using conn_peer [of "links dst" d c src] c map_of_SomeD [OF assms(2)] assms(1) by (auto simp: links_ok_def)
  with c show ?thesis
    by (auto simp: gossip_rc_mem)
qed

lemma flood_inv_step:
  assumes inv: "flood_inv C now links rc st" and step: "gossip_step C now links st st'"
  shows "flood_inv C now links rc st'"
  using step
proof cases
  case (gossip_deliver dst src conn body dbs sends db' msgs)
  note I = flood_invD [OF inv [unfolded gossip_deliver(1)]]
  have body: "body = rc_payload rc" and p: "parse_rc (C dst) False now body = Inr rc"
    using I(1) by (auto simp: flood_def)
  have src: "heard rc dbs src" and dst: "dst \<noteq> rc_router_id rc"
    using I(4,5) [of src dst body] by auto
  note h = handle_gossip_parsed [OF p gossip_deliver(4)]
  have fl: "flood C now rc st'"
    using I(1) step unfolding gossip_deliver(1) by (rule flood_step)
  show ?thesis
  proof (cases "heard rc dbs dst")
    case True
    then have same: "db' = dbs dst" "sends = []"
      using h(2) settled_stored dst by (auto simp: heard_def)
    then have st': "st' = (dbs, msgs)"
      by (simp add: gossip_deliver gossip_sends_def)
    have "heard rc dbs d \<or> (r, d, rc_payload rc) \<in># msgs" if "heard rc dbs r" "linked links r d" for r d
      using I(6) [OF that] True by auto
    moreover have "heard rc dbs s \<and> d \<noteq> rc_router_id rc" if "(s, d, b) \<in># msgs" for s d b
      using that I(4,5) [of s d b] by simp
    ultimately show ?thesis
      using fl I(2,3) unfolding flood_inv_def st' by auto
  next
    case False
    then have "news_to (C dst) rc (dbs dst)"
      using I(3) by blast
    then have got: "get_rc db' (rc_router_id rc) = Some rc" and sends: "sends = gossip_rc False (links dst) rc (Some conn)"
      using h(5) by auto
    have heard': "heard rc (dbs(dst := db')) r \<longleftrightarrow> r = dst \<or> heard rc dbs r" for r
      using got by (auto simp: heard_def)
    have cover: "heard rc (dbs(dst := db')) d \<or> (r, d, rc_payload rc) \<in># msgs + gossip_sends dst sends"
      if hd: "heard rc (dbs(dst := db')) r" and l: "linked links r d" for r d
    proof (cases "r = dst")
      case True
      then show ?thesis
        using gossip_rc_covers [OF I(2) gossip_deliver(3), of d rc] l src
        by (auto simp: heard' sends) (simp add: heard_def)
    next
      case False
      then have "heard rc dbs r" using hd heard' by auto
      from I(6) [OF this l] show ?thesis
        using False by (auto simp: heard' body)
    qed
    have "heard rc (dbs(dst := db')) s \<and> d \<noteq> rc_router_id rc" if "(s, d, b) \<in># msgs + gossip_sends dst sends" for s d b
      using that I(4,5) [of s d b] by (auto simp: heard' sends gossip_rc_mem)
    moreover have "heard rc (dbs(dst := db')) r \<or> news_to (C r) rc ((dbs(dst := db')) r)" for r
      using I(3) [of r] by (auto simp: heard')
    ultimately show ?thesis
      using fl I(2) cover unfolding flood_inv_def gossip_deliver(2) by auto
  qed
qed

text \<open>The start of a flood: the relay gossips its own contact to all it is connected to.\<close>

definition flood_init ::
  "(router_id \<Rightarrow> router_cfg) \<Rightarrow> ms \<Rightarrow> (router_id \<Rightarrow> relay_conns) \<Rightarrow> relay_contact \<Rightarrow> gossip_state \<Rightarrow> bool" where
  "flood_init C now links rc st \<longleftrightarrow>
     (\<forall>r. parse_rc (C r) False now (rc_payload rc) = Inr rc) \<and> links_ok links \<and>
     (\<forall>r. r \<noteq> rc_router_id rc \<longrightarrow> news_to (C r) rc (fst st r)) \<and>
     snd st = gossip_sends (rc_router_id rc) (gossip_rc False (links (rc_router_id rc)) rc None)"

lemma news_not_stored: "news_to C rc db \<Longrightarrow> get_rc db (rc_router_id rc) \<noteq> Some rc"
  using MIN_GOSSIP_RC_AGE_pos by (auto simp: news_to_def)

lemma flood_inv_init:
  assumes "flood_init C now links rc st"
  shows "flood_inv C now links rc st"
proof -
  have only: "heard rc (fst st) r \<longleftrightarrow> r = rc_router_id rc" for r
    using assms news_not_stored by (auto simp: flood_init_def heard_def)
  have "(rc_router_id rc, d, rc_payload rc) \<in># snd st" if "linked links (rc_router_id rc) d" "d \<noteq> rc_router_id rc" for d
    using that assms by (force simp: flood_init_def gossip_rc_mem linked_def)
  then show ?thesis
    using assms by (auto simp: flood_inv_def only flood_init_def flood_def gossip_rc_mem)
qed

interpretation flood_run: invariant_system "flood_init C now links rc" "gossip_step C now links" "flood_inv C now links rc"
  for C now links rc
  by unfold_locales (auto intro: flood_inv_init flood_inv_step)

lemma flood_end_heard:
  assumes "flood_inv C now links rc (dbs, {#})" and "(linked links)\<^sup>*\<^sup>* (rc_router_id rc) r"
  shows "heard rc dbs r"
  using assms(2)
proof (induction rule: rtranclp_induct)
  case (step r d)
  then show ?case
    using flood_invD(6) [OF assms(1)] by auto
qed (simp add: heard_def)

section \<open>Contact fetches\<close>

lemma length_bucket_hash_field: "db_wf S L db \<Longrightarrow> length (rc_bucket_hashes db i) = RCHASH_SIZE"
  by (simp add: db_wf_def buckets_describe_def hashes_ok_def length_xor_all)

lemma fetch_rcs_loop_args:
  assumes "\<And>i. length (h i) = RCHASH_SIZE"
  shows "fetch_rcs_loop db is (map (\<lambda>i. BStr (h i)) is) =
    Some (concat (map (\<lambda>i. if rc_bucket_hashes db i \<noteq> h i then bucket_views db i else []) is))"
  using assms by (induction "is") auto

lemma bucket_views_set:
  assumes "db_wf S L db"
  shows "set (bucket_views db i) = {rc_payload rc |rc rid. get_rc db rid = Some rc \<and> bucket_of rid = i}"
proof -
  have recd: "map_of (rc_hashes db i) rid = (if bucket_of rid = i then rc_hash_map S L (known_rcs db) rid else None)" for rid
    using assms by (simp add: db_wf_def buckets_describe_def)
  have "rid \<in> fst ` set (rc_hashes db i) \<longleftrightarrow> bucket_of rid = i \<and> get_rc db rid \<noteq> None" for rid
    using recd [of rid] map_of_eq_None_iff [of "rc_hashes db i" rid]
    by (auto simp: rc_hash_map_def get_rc_def split: if_splits)
  then have ids: "fst ` set (rc_hashes db i) = {rid. bucket_of rid = i \<and> get_rc db rid \<noteq> None}"
    by blast
  have "set (bucket_views db i) = {v. \<exists>rid \<in> fst ` set (rc_hashes db i). map_option rc_payload (get_rc db rid) = Some v}"
    by (force simp: bucket_views_def map_filter_def)
  then show ?thesis
    unfolding ids by auto
qed

text \<open>What a relay with a well-formed table answers to a client's request.\<close>

definition views_for :: "nodedb \<Rightarrow> nodedb \<Rightarrow> bytes list" where
  "views_for db client =
     concat (map (\<lambda>i. if rc_bucket_hashes db i \<noteq> rc_bucket_hashes client i then bucket_views db i else []) [0..<128])"

lemma handle_fetch_rcs_request:
  assumes "bt_reader_law X" and "db_wf S L client"
  shows "handle_fetch_rcs X db (fetch_rcs_request X client) = bt_dict X [(''r'', BList (map BStr (views_for db client)))]"
proof -
  let ?kvs = "[(''b'', BList (map (\<lambda>i. BStr (rc_bucket_hashes client i)) [0..<128]))]"
  have "dict_wf ?kvs"
    by (simp add: list_all_iff del: upt_rec_numeral)
  from bt_reader(1,2) [OF assms(1) this] show ?thesis
    using fetch_rcs_loop_args [of "rc_bucket_hashes client" db "[0..<128]"] length_bucket_hash_field [OF assms(2)]
    by (simp add: handle_fetch_rcs_def fetch_rcs_request_def views_for_def del: upt_rec_numeral)
qed

lemma bucket_of_lt: "bucket_of rid < 128"
proof -
  have "unat (and (rid ! 16) (0x7f :: byte)) \<le> unat (0x7f :: byte)"
    by (metis word_and_le1 word_le_nat_alt)
  then show ?thesis by (simp add: bucket_of_def)
qed

lemma views_for_set:
  assumes "db_wf S L db"
  shows "set (views_for db client) =
    {rc_payload rc |rc rid. get_rc db rid = Some rc \<and> rc_bucket_hashes db (bucket_of rid) \<noteq> rc_bucket_hashes client (bucket_of rid)}"
proof -
  have "set (views_for db client) =
      (\<Union>i \<in> {i. i < 128 \<and> rc_bucket_hashes db i \<noteq> rc_bucket_hashes client i}. set (bucket_views db i))"
    by (auto simp: views_for_def simp del: upt_rec_numeral split: if_splits)
  then show ?thesis
    unfolding bucket_views_set [OF assms] using bucket_of_lt by blast
qed

lemma put_rc_frame [simp]:
  "known_rids (snd (put_rc S L self sn rc db)) = known_rids db"
  "pending_rc_lookups (snd (put_rc S L self sn rc db)) = pending_rc_lookups db"
  "last_rc_fetch (snd (put_rc S L self sn rc db)) = last_rc_fetch db"
  by (auto simp: put_rc_def Let_def update_rc_buckets_recorded split: option.split)

lemma store_fetched_frame [simp]:
  "pending_rc_lookups (snd (store_fetched C now vs db)) = pending_rc_lookups db"
  "last_rc_fetch (snd (store_fetched C now vs db)) = last_rc_fetch db"
  by (induction C now vs db rule: store_fetched.induct) (auto simp: store_rc_def split: sum.split)

lemma read_fetched_frame [simp]:
  "pending_rc_lookups (snd (read_fetched C now body db)) = pending_rc_lookups db"
  "last_rc_fetch (snd (read_fetched C now body db)) = last_rc_fetch db"
  by (auto simp: read_fetched_def Let_def split_beta split: option.split bt_value.split)

lemma settled_store: "settled rc db \<Longrightarrow> settled rc (snd (put_rc S L self sn rc' db))"
  using MIN_GOSSIP_RC_AGE_pos(1)
  by (auto simp: settled_def put_rc_get put_rc_stored split: option.splits)

lemma settled_put: "settled rc (snd (put_rc S L self sn rc db))"
  using MIN_GOSSIP_RC_AGE_pos(1)
  by (auto simp: settled_def put_rc_get put_rc_stored split: option.splits)

text \<open>Storing a list of contacts that all parse.\<close>

lemma store_fetched_views:
  assumes "\<forall>v \<in> set views. \<exists>rc. parse_rc C False now v = Inr rc"
  shows "\<exists>db'. store_fetched C now (map BStr views) db = (Fetched, db') \<and> known_rids db' = known_rids db \<and>
    pending_rc_lookups db' = pending_rc_lookups db \<and>
    (\<forall>rc. settled rc db \<longrightarrow> settled rc db') \<and>
    (\<forall>v \<in> set views. \<forall>rc. parse_rc C False now v = Inr rc \<longrightarrow> rc_router_id rc \<in> set (known_rids db) \<longrightarrow> settled rc db') \<and>
    (\<forall>rid. get_rc db' rid = get_rc db rid \<or>
       (\<exists>v \<in> set views. \<exists>rc. parse_rc C False now v = Inr rc \<and> rc_router_id rc = rid \<and> rid \<in> set (known_rids db) \<and>
          get_rc db' rid = Some rc))"
  using assms
proof (induction views arbitrary: db)
  case (Cons v views)
  obtain rc where rc: "parse_rc C False now v = Inr rc"
    using Cons.prems by auto
  define db1 where "db1 = (if rc_router_id rc \<notin> set (known_rids db) then db else snd (store_rc C rc db))"
  have step: "store_fetched C now (map BStr (v # views)) db = store_fetched C now (map BStr views) db1"
    by (simp add: rc db1_def)
  have same: "known_rids db1 = known_rids db" "pending_rc_lookups db1 = pending_rc_lookups db"
    by (auto simp: db1_def store_rc_def)
  have keep: "settled rc' db \<longrightarrow> settled rc' db1" for rc'
    by (auto simp: db1_def store_rc_def settled_store)
  have new: "rc_router_id rc \<in> set (known_rids db) \<longrightarrow> settled rc db1"
    by (auto simp: db1_def store_rc_def settled_put)
  have get: "get_rc db1 rid = get_rc db rid \<or>
      (rc_router_id rc = rid \<and> rid \<in> set (known_rids db) \<and> get_rc db1 rid = Some rc)" for rid
    by (auto simp: db1_def store_rc_def put_rc_get)
  obtain db' where db': "store_fetched C now (map BStr views) db1 = (Fetched, db')"
      "known_rids db' = known_rids db1" "pending_rc_lookups db' = pending_rc_lookups db1"
      "\<forall>rc. settled rc db1 \<longrightarrow> settled rc db'"
      "\<forall>v \<in> set views. \<forall>rc. parse_rc C False now v = Inr rc \<longrightarrow> rc_router_id rc \<in> set (known_rids db1) \<longrightarrow> settled rc db'"
      "\<forall>rid. get_rc db' rid = get_rc db1 rid \<or>
       (\<exists>v \<in> set views. \<exists>rc. parse_rc C False now v = Inr rc \<and> rc_router_id rc = rid \<and> rid \<in> set (known_rids db1) \<and>
          get_rc db' rid = Some rc)"
    using Cons.IH [of db1] Cons.prems by auto
  have "get_rc db' rid = get_rc db rid \<or>
       (\<exists>v' \<in> set (v # views). \<exists>rc. parse_rc C False now v' = Inr rc \<and> rc_router_id rc = rid \<and> rid \<in> set (known_rids db) \<and>
          get_rc db' rid = Some rc)" for rid
    using db'(6) get [of rid] rc same(1) by (metis list.set_intros)
  moreover have "\<forall>v' \<in> set (v # views). \<forall>rc. parse_rc C False now v' = Inr rc \<longrightarrow>
      rc_router_id rc \<in> set (known_rids db) \<longrightarrow> settled rc db'"
    using db'(4,5) new rc same(1) by auto
  ultimately show ?case
    using step db'(1-4) same keep by (intro exI [of _ db']) simp
qed simp

lemma read_fetched_views:
  assumes "bt_reader_law (cfg_oxenc C)"
  shows "read_fetched C now (bt_dict (cfg_oxenc C) [(''r'', BList (map BStr views))]) db =
    store_fetched C now (map BStr views) db"
proof -
  let ?kvs = "[(''r'', BList (map BStr views))]"
  have wf: "dict_wf ?kvs"
    by (simp add: list_all_iff)
  have "pairs_after ''!'' ?kvs = ?kvs"
    by (simp add: pairs_after_def less_eq_char_def)
  then show ?thesis
    using bt_reader(1-3) [OF assms wf] by (simp add: read_fetched_def)
qed


text \<open>The whole exchange between a client and the relay at the end of its path.\<close>

lemma fetch_rcs_exchange:
  assumes X: "bt_reader_law (cfg_oxenc C)" and wf: "db_wf S L client" "db_wf S' L' relay"
    and ok: "ok resp" "pcr_body resp = handle_fetch_rcs (cfg_oxenc C) relay (fetch_rcs_request (cfg_oxenc C) client)"
    and parse: "\<forall>rid rc. get_rc relay rid = Some rc \<longrightarrow> parse_rc C False now (rc_payload rc) = Inr rc"
    and out: "fetch_rcs_response C now now' resp client = (success, answers, client')"
  defines "differs \<equiv> \<lambda>rid. rc_bucket_hashes relay (bucket_of rid) \<noteq> rc_bucket_hashes client (bucket_of rid)"
  shows "success" and "last_rc_fetch client' = now'" and "pending_rc_lookups client' = []"
    and "answers = map (\<lambda>(rid, func). (func, get_rc client' rid)) (pending_rc_lookups client)"
    and "get_rc relay rid = Some rc \<Longrightarrow> rid \<in> set (known_rids client) \<Longrightarrow> differs rid \<Longrightarrow> settled rc client'"
    and "get_rc client' rid = get_rc client rid \<or>
      differs rid \<and> rid \<in> set (known_rids client) \<and> get_rc client' rid = get_rc relay rid"
proof -
  let ?X = "cfg_oxenc C" and ?views = "views_for relay client"
  have rel: "rc_router_id rc = rid" if "get_rc relay rid = Some rc" for rid rc
    using wf(2) that by (auto simp: db_wf_def rcs_ok_def get_rc_def dest: map_of_SomeD)
  have views: "v \<in> set ?views \<longleftrightarrow> (\<exists>rid rc. v = rc_payload rc \<and> get_rc relay rid = Some rc \<and> differs rid)" for v
    unfolding views_for_set [OF wf(2)] differs_def by blast
  have "\<forall>v \<in> set ?views. \<exists>rc. parse_rc C False now v = Inr rc"
    using parse views by metis
  from store_fetched_views [OF this, of client] obtain db' where db': "store_fetched C now (map BStr ?views) client = (Fetched, db')"
    "pending_rc_lookups db' = pending_rc_lookups client"
    "\<forall>v \<in> set ?views. \<forall>rc. parse_rc C False now v = Inr rc \<longrightarrow> rc_router_id rc \<in> set (known_rids client) \<longrightarrow> settled rc db'"
    "\<forall>rid. get_rc db' rid = get_rc client rid \<or>
       (\<exists>v \<in> set ?views. \<exists>rc. parse_rc C False now v = Inr rc \<and> rc_router_id rc = rid \<and> rid \<in> set (known_rids client) \<and>
          get_rc db' rid = Some rc)"
    by (elim exE conjE) (rule that, assumption+)
  have "read_fetched C now (pcr_body resp) client = (Fetched, db')"
    using db'(1) by (simp add: ok(2) handle_fetch_rcs_request [OF X wf(1)] read_fetched_views [OF X])
  then have res: "success" "answers = map (\<lambda>(rid, func). (func, get_rc db' rid)) (pending_rc_lookups client)"
    "client' = db'\<lparr>last_rc_fetch := now', pending_rc_lookups := []\<rparr>"
    using out ok(1) db'(2) by (auto simp: fetch_rcs_response_def get_rc_def)
  have get: "get_rc client' r = get_rc db' r" for r
    by (simp add: res get_rc_def)
  show "success" "last_rc_fetch client' = now'" "pending_rc_lookups client' = []"
    "answers = map (\<lambda>(rid, func). (func, get_rc client' rid)) (pending_rc_lookups client)"
    using res get by simp_all
  show "settled rc client'" if "get_rc relay rid = Some rc" "rid \<in> set (known_rids client)" "differs rid"
  proof -
    have "rc_payload rc \<in> set ?views"
      using that views by blast
    moreover have "parse_rc C False now (rc_payload rc) = Inr rc" "rc_router_id rc = rid"
      using that(1) parse rel by auto
    ultimately have "settled rc db'"
      using db'(3) that(2) by blast
    then show ?thesis
      by (simp add: settled_def get)
  qed
  show "get_rc client' rid = get_rc client rid \<or>
      differs rid \<and> rid \<in> set (known_rids client) \<and> get_rc client' rid = get_rc relay rid"
  proof (cases "get_rc db' rid = get_rc client rid")
    case False
    then obtain v rc where v: "v \<in> set ?views" "parse_rc C False now v = Inr rc" "rc_router_id rc = rid"
        "rid \<in> set (known_rids client)" "get_rc db' rid = Some rc"
      using db'(4) by blast
    then obtain rid' rc' where "v = rc_payload rc'" "get_rc relay rid' = Some rc'" "differs rid'"
      using views by blast
    then have "rc' = rc" "rid' = rid" "get_rc relay rid = Some rc" "differs rid"
      using parse rel v by auto
    then show ?thesis
      using v get by simp
  qed (simp add: get)
qed

section \<open>Relay id fetches\<close>

lemma pick_sources_props:
  assumes "distinct (map fst sel)" and "length sel \<le> RID_SOURCE_COUNT"
  shows "distinct (map fst (pick_sources ps sel)) \<and> length (pick_sources ps sel) \<le> RID_SOURCE_COUNT \<and>
    set sel \<subseteq> set (pick_sources ps sel) \<and> set (pick_sources ps sel) \<subseteq> set sel \<union> set ps"
  using assms
proof (induction ps sel rule: pick_sources.induct)
  case (2 terminal p ps sel)
  show ?case
  proof (cases "RID_SOURCE_COUNT \<le> length sel")
    case False
    let ?sel = "if terminal \<in> fst ` set sel then sel else sel @ [(terminal, p)]"
    have "distinct (map fst ?sel)" "length ?sel \<le> RID_SOURCE_COUNT"
      using "2.prems" False by auto
    from "2.IH" [OF False this] show ?thesis
      using False by (auto split: if_splits)
  qed (use 2 in auto)
qed simp

text \<open>The responses of a round in the order of arrival; the outcome of each.\<close>

fun rid_responses ::
  "oxenc \<Rightarrow> (router_id \<times> path_control_response) list \<Rightarrow> rid_fetch \<times> nodedb \<Rightarrow> (ms \<times> bool) option list \<times> rid_fetch \<times> nodedb" where
  "rid_responses X [] st = ([], st)"
| "rid_responses X ((source, resp) # rs) st =
     (let (out, st') = rid_response X source resp st; (outs, st'') = rid_responses X rs st' in (out # outs, st''))"

definition affirmed :: "oxenc \<Rightarrow> path_control_response \<Rightarrow> router_id list \<Rightarrow> router_id list" where
  "affirmed X resp old =
     (if \<not> ok resp then old else case rids_of_response X resp of None \<Rightarrow> [] | Some rids \<Rightarrow> rids)"

definition round_results ::
  "oxenc \<Rightarrow> (router_id \<times> path_control_response) list \<Rightarrow> (router_id \<times> router_id list) list \<Rightarrow> (router_id \<times> router_id list) list" where
  "round_results X rs results =
     map (\<lambda>(src, old). (src, case map_of rs src of None \<Rightarrow> old | Some resp \<Rightarrow> affirmed X resp old)) results"

lemma update_as_map:
  "distinct (map fst m) \<Longrightarrow> k \<in> fst ` set m \<Longrightarrow> AList.update k v m = map (\<lambda>(k', v'). (k', if k' = k then v else v')) m"
proof (induction m)
  case (Cons a m)
  obtain k' v' where a: "a = (k', v')" by (cases a)
  have "map (\<lambda>(k', v'). (k', if k' = k then v else v')) m = m" if "k \<notin> fst ` set m"
    using that by (intro map_idI) (auto simp: image_iff)
  then show ?case
    using Cons by (auto simp: a)
qed simp

lemma length_round_results [simp]: "length (round_results X rs results) = length results"
  by (simp add: round_results_def)

lemma fst_round_results [simp]: "map fst (round_results X rs results) = map fst results"
  by (simp add: round_results_def comp_def split_beta)

lemma round_results_Nil [simp]: "round_results X [] results = results"
  by (simp add: round_results_def split_beta map_idI)

lemma rid_response_step:
  assumes "distinct (map fst (rf_results f))" and "source \<in> fst ` set (rf_results f)"
  shows "rid_response X source resp (f, db) =
    (let results = round_results X [(source, resp)] (rf_results f); f' = f\<lparr>rf_results := results, rf_count := rf_count f + 1\<rparr>
     in if rf_count f + 1 = length results
        then (let (conclusive, db') = handle_fetched_router_ids results (rf_inbound f) db
              in (Some (if conclusive then FETCH_INTERVAL else FETCH_RETRY_INTERVAL, conclusive), f', db'))
        else (None, f', db))"
proof -
  have "(if \<not> ok resp then rf_results f
         else AList.update source (case rids_of_response X resp of None \<Rightarrow> [] | Some rids \<Rightarrow> rids) (rf_results f)) =
      round_results X [(source, resp)] (rf_results f)"
    using update_as_map [OF assms]
    by (cases "ok resp")
      (auto simp: round_results_def affirmed_def intro!: map_idI [symmetric] map_cong split: option.split)
  then show ?thesis
    by (simp add: rid_response_def)
qed

lemma round_results_Cons:
  assumes "source \<notin> fst ` set rs"
  shows "round_results X rs (round_results X [(source, resp)] results) = round_results X ((source, resp) # rs) results"
proof -
  have "map_of rs source = None"
    using assms by (simp add: map_of_eq_None_iff)
  then show ?thesis
    by (auto simp: round_results_def split: option.split)
qed

text \<open>Once every source has responded the round ends, and it ends only then.\<close>

lemma rid_responses_round:
  assumes "distinct (map fst rs)" and "fst ` set rs \<subseteq> fst ` set (rf_results f)" and "distinct (map fst (rf_results f))"
    and "rf_count f + length rs = length (rf_results f)" and "rs \<noteq> []"
  shows "rid_responses X rs (f, db) =
    (let results = round_results X rs (rf_results f); (conclusive, db') = handle_fetched_router_ids results (rf_inbound f) db
     in (replicate (length rs - 1) None @ [Some (if conclusive then FETCH_INTERVAL else FETCH_RETRY_INTERVAL, conclusive)],
         f\<lparr>rf_results := results, rf_count := length results\<rparr>, db'))"
  using assms
proof (induction rs arbitrary: f)
  case (Cons r rs)
  obtain source resp where r: "r = (source, resp)" by (cases r)
  have src: "source \<in> fst ` set (rf_results f)"
    using Cons.prems(2) by (auto simp: r)
  let ?res = "round_results X [(source, resp)] (rf_results f)"
  let ?f = "f\<lparr>rf_results := ?res, rf_count := rf_count f + 1\<rparr>"
  note step = rid_response_step [OF Cons.prems(3) src, of X resp db]
  show ?case
  proof (cases "rs = []")
    case True
    then show ?thesis
      using step Cons.prems(4) by (simp add: r split_beta Let_def)
  next
    case False
    have fin: "rf_count f + 1 \<noteq> length ?res"
      using Cons.prems(4) False by (cases rs) auto
    have keys: "fst ` set ?res = fst ` set (rf_results f)"
      by (metis fst_round_results list.set_map)
    have "rid_responses X rs (?f, db) =
      (let results = round_results X rs (rf_results ?f); (conclusive, db') = handle_fetched_router_ids results (rf_inbound ?f) db
       in (replicate (length rs - 1) None @ [Some (if conclusive then FETCH_INTERVAL else FETCH_RETRY_INTERVAL, conclusive)],
           ?f\<lparr>rf_results := results, rf_count := length results\<rparr>, db'))"
      using Cons.prems False keys by (intro Cons.IH) (auto simp: r)
    moreover have "round_results X rs ?res = round_results X (r # rs) (rf_results f)"
      using Cons.prems(1) by (simp add: r round_results_Cons)
    moreover have "rid_response X source resp (f, db) = (None, ?f, db)"
      using step fin by (simp add: Let_def)
    moreover have "replicate (length (r # rs) - 1) (None :: (ms \<times> bool) option) = None # replicate (length rs - 1) None"
      using False by (cases rs) auto
    ultimately show ?thesis
      by (simp add: r Let_def split_beta)
  qed
qed simp


text \<open>A relay's answer read back.\<close>

lemma read_rids_all:
  "\<forall>r \<in> set rids. length r = 32 \<Longrightarrow> \<exists>out. read_rids (map BStr rids) = Some out \<and> set out = set rids"
  by (induction rids) auto

lemma rids_of_honest:
  assumes "bt_reader_law X" and "\<forall>r \<in> set (registered_relays db). length r = 32"
    and "pcr_body resp = handle_path_fetch_router_ids X db"
  shows "\<exists>out. rids_of_response X resp = Some out \<and> set out = set (registered_relays db)"
proof -
  have "dict_wf [(''r'', BList (map BStr (registered_relays db)))]"
    by (simp add: list_all_iff)
  from bt_reader(1,2) [OF assms(1) this] show ?thesis
    using read_rids_all [OF assms(2)] by (simp add: rids_of_response_def assms(3) handle_path_fetch_router_ids_def)
qed

text \<open>
  A round whose sources are in majority honest relays with the same registered relays ends with
  exactly those.
\<close>

lemma honest_results_accepted:
  assumes res: "handle_fetched_router_ids results inbound db = (conclusive, db')"
    and maj: "length results < 2 * length (filter (\<lambda>(src, _). honest src) results)"
    and hon: "\<forall>(src, rids) \<in> set results. honest src \<longrightarrow> set rids = R" and "R \<noteq> {}"
    and inb: "src \<in> set inbound" "honest src" "src \<in> fst ` set results"
  shows "conclusive \<and> set (known_rids db') = R"
proof -
  have in_R: "length results < 2 * agree results rid \<and> inbound_agrees results inbound rid" if "rid \<in> R" for rid
  proof -
    have "length (filter (\<lambda>(src, _). honest src) results) \<le> agree results rid"
      by (rule agree_all) (use hon that in auto)
    moreover have "inbound_agrees results inbound rid"
      using inb hon that unfolding inbound_agrees_def by fastforce
    ultimately show ?thesis using maj by linarith
  qed
  have out_R: "rid \<in> R" if "length results < 2 * agree results rid" for rid
  proof -
    have "\<exists>(src, rids) \<in> set results. rid \<in> set rids \<and> (\<lambda>(src, _). honest src) (src, rids)"
      by (rule majority_overlap) (use maj that in linarith)
    then show ?thesis using hon by fastforce
  qed
  note facts = fetched_rids_consensus_facts [OF res]
  have "conclusive"
    using facts(1) in_R \<open>R \<noteq> {}\<close> by blast
  moreover have "{rid. length results < 2 * agree results rid \<and> inbound_agrees results inbound rid} = R"
    using in_R out_R by blast
  ultimately show ?thesis
    using facts(2) by simp
qed

lemma fetch_rids_RidsAsk:
  assumes "fetch_rids running active extra = RidsAsk sel f"
  shows "map fst (rf_results f) = map fst sel" and "rf_count f = 0" and "distinct (map fst sel)"
    and "set (rf_inbound f) \<subseteq> fst ` set sel" and "set (rf_inbound f) \<subseteq> fst ` set active" and "rf_inbound f \<noteq> []"
    and "sel \<noteq> []" and "length sel \<le> RID_SOURCE_COUNT"
proof -
  let ?in = "pick_sources active []"
  have p: "distinct (map fst ?in)" "length ?in \<le> RID_SOURCE_COUNT" "set ?in \<subseteq> set active"
    using pick_sources_props [of "[]" active] by auto
  note q = pick_sources_props [OF p(1,2), of extra]
  have sel: "sel = (if length ?in < RID_SOURCE_COUNT then pick_sources extra ?in else ?in)" "?in \<noteq> []"
    "f = \<lparr>rf_results = map (\<lambda>(src, _). (src, [])) sel, rf_count = 0, rf_inbound = map fst ?in\<rparr>"
    using assms by (auto simp: fetch_rids_def Let_def split: if_splits)
  then have sub: "set ?in \<subseteq> set sel"
    using q by auto
  then show "set (rf_inbound f) \<subseteq> fst ` set sel" "sel \<noteq> []"
    using sel(2,3) image_mono [OF sub, of fst] by auto
  show "map fst (rf_results f) = map fst sel" "rf_count f = 0" "rf_inbound f \<noteq> []"
    using sel by (simp_all add: comp_def split_beta)
  show "distinct (map fst sel)" "length sel \<le> RID_SOURCE_COUNT"
    using sel(1) p q by auto
  show "set (rf_inbound f) \<subseteq> fst ` set active"
    using sel(3) p(3) by auto
qed

lemma fetch_rids_honest_round:
  assumes X: "bt_reader_law X" and ask: "fetch_rids True active extra = RidsAsk sel f"
    and rs: "distinct (map fst rs)" "fst ` set rs = fst ` set sel"
    and maj: "length sel < 2 * length (filter (\<lambda>(src, _). honest src) sel)"
    and hon: "\<forall>(src, resp) \<in> set rs. honest src \<longrightarrow> ok resp \<and> pcr_body resp = handle_path_fetch_router_ids X (dbs src) \<and>
        set (registered_relays (dbs src)) = R"
    and R: "R \<noteq> {}" "\<forall>r \<in> R. length r = 32" and inb: "\<exists>src \<in> set (rf_inbound f). honest src"
  shows "\<exists>f' db'. rid_responses X rs (f, db) = (replicate (length rs - 1) None @ [Some (FETCH_INTERVAL, True)], f', db') \<and>
    set (known_rids db') = R"
proof -
  note a = fetch_rids_RidsAsk [OF ask]
  have keys: "fst ` set (rf_results f) = fst ` set sel"
    using a(1) by (metis list.set_map)
  have len: "length rs = length (rf_results f)"
    using rs a(1,3) by (metis distinct_card length_map list.set_map)
  have ne: "rs \<noteq> []"
    using a(7) rs(2) by auto
  let ?res = "round_results X rs (rf_results f)"
  obtain concl db' where fin: "handle_fetched_router_ids ?res (rf_inbound f) db = (concl, db')"
    by fastforce
  have fsts: "map fst ?res = map fst sel"
    using a(1) by simp
  have cnt: "length (filter (\<lambda>(src, _). honest src) m) = length (filter honest (map fst m))" for m :: "(router_id \<times> 'b) list"
    by (induction m) auto
  have m1: "length ?res < 2 * length (filter (\<lambda>(src, _). honest src) ?res)"
    using maj fsts by (metis cnt length_map)
  have h1: "\<forall>(src, rids) \<in> set ?res. honest src \<longrightarrow> set rids = R"
  proof (clarify)
    fix src rids assume mem: "(src, rids) \<in> set ?res" and h: "honest src"
    then obtain old where old: "(src, old) \<in> set (rf_results f)"
        "rids = (case map_of rs src of None \<Rightarrow> old | Some resp \<Rightarrow> affirmed X resp old)"
      by (auto simp: round_results_def)
    then have "src \<in> fst ` set rs"
      using keys rs(2) by force
    then obtain resp where resp: "map_of rs src = Some resp"
      by (cases "map_of rs src") (auto simp: map_of_eq_None_iff)
    then have "ok resp \<and> pcr_body resp = handle_path_fetch_router_ids X (dbs src) \<and> set (registered_relays (dbs src)) = R"
      using hon h map_of_SomeD [OF resp] by auto
    then show "set rids = R"
      using rids_of_honest [OF X, of "dbs src" resp] R(2) old(2) resp by (auto simp: affirmed_def)
  qed
  obtain src where src: "src \<in> set (rf_inbound f)" "honest src" using inb by blast
  have "fst ` set ?res = fst ` set sel"
    using arg_cong [OF fsts, of set] by (simp only: list.set_map)
  then have "src \<in> fst ` set ?res"
    using src(1) a(4) by auto
  then have "concl \<and> set (known_rids db') = R"
    using honest_results_accepted [OF fin m1 h1 R(1) src] by blast
  moreover have "rid_responses X rs (f, db) =
      (let (conclusive, db') = handle_fetched_router_ids ?res (rf_inbound f) db
     in (replicate (length rs - 1) None @ [Some (if conclusive then FETCH_INTERVAL else FETCH_RETRY_INTERVAL, conclusive)],
         f\<lparr>rf_results := ?res, rf_count := length ?res\<rparr>, db'))"
    using rid_responses_round [of rs f X db] rs keys a(1-3) len ne by (simp add: Let_def)
  ultimately show ?thesis
    using fin by simp
qed

section \<open>Bootstrap\<close>

text \<open>The hand-written response is the encoding of a dictionary with the compressed list under \<^verbatim>\<open>Z\<close>.\<close>

lemma length_compress_prefix [simp]: "length compress_prefix = 14"
  by (simp add: compress_prefix_def string_bytes_def)

lemma bootstrap_response_format:
  assumes "bt_text_law X" and "length z < 10 ^ 9"
    and "zstd_compress Z (concat rcs) = Some z"
    and "rcs = [[108]] @ map rc_payload (filter (\<lambda>rc. \<not> rc_is_expired rc now) (map snd (known_rcs db))) @ [[101]]"
    and "length rcs \<noteq> 2"
  shows "handle_fetch_bootstrap_rcs Z now db = Some (RespOk (bt_dict X [(''Z'', BStr z)]))"
proof -
  define pre where "pre = string_bytes ''d1:Z'' @ dec (length z) @ string_bytes '':''"
  have len: "length pre \<le> 14"
    using length_dec_le [of 9 "length z"] assms(2) by (simp add: string_bytes_def pre_def)
  let ?skip = "14 - length pre" and ?old = "take (14 - length pre) compress_prefix"
  have raw: "compress_piecewise Z rcs compress_prefix = Some (compress_prefix @ z)"
    using assms(3) by (simp add: compress_piecewise_def)
  have written: "write_span ?skip pre (compress_prefix @ z) @ [101] = ?old @ pre @ z @ [101]"
    using len by (simp add: write_span_def)
  have "handle_fetch_bootstrap_rcs Z now db =
      (let rewritten = write_span ?skip pre (compress_prefix @ z) @ [101]
       in Some (RespOk (subspan ?skip (length rewritten - ?skip) rewritten)))"
    using raw assms(5) len len [unfolded pre_def, simplified]
    by (simp add: handle_fetch_bootstrap_rcs_def Let_def flip: assms(4) [simplified] pre_def)
  moreover have "subspan ?skip (length (?old @ pre @ z @ [101]) - ?skip) (?old @ pre @ z @ [101]) = pre @ z @ [101]"
    using len by (simp add: subspan_def)
  moreover have "bt_dict X [(''Z'', BStr z)] = pre @ z @ [101]"
    using assms(1) by (simp add: bt_text_law_def pre_def string_bytes_def dec.simps [of "Suc 0"] digit_byte_def)
  ultimately show ?thesis
    by (simp add: written Let_def)
qed

lemma read_rc_list_payloads:
  assumes "bt_list_law (cfg_oxenc C)"
    and "\<forall>rc \<in> set rcs. parse_rc C ae now (rc_payload rc) = Inr rc \<and> (\<exists>d. dict_wf d \<and> rc_payload rc = bt_dict (cfg_oxenc C) d)"
    and "length rcs < n"
  shows "read_rc_list C ae now n (concat (map rc_payload rcs) @ [101]) = map Some rcs"
  using assms(2,3)
proof (induction rcs arbitrary: n)
  case Nil
  then show ?case
    using assms(1) by (cases n) (auto simp: bt_list_law_def)
next
  case (Cons rc rcs)
  obtain m where n: "n = Suc m" using Cons.prems(2) by (cases n) auto
  obtain d where d: "dict_wf d" "rc_payload rc = bt_dict (cfg_oxenc C) d"
    using Cons.prems(1) by auto
  have "\<not> bt_list_finish (cfg_oxenc C) (rc_payload rc @ r) \<and> bt_consume_dict (cfg_oxenc C) (rc_payload rc @ r) = Some (rc_payload rc, r)" for r
    using assms(1) d by (simp add: bt_list_law_def)
  then show ?case
    using Cons by (simp add: n)
qed

lemma store_bootstrap_rcs_all:
  "\<exists>db'. store_bootstrap_rcs S L self sn (map Some rcs) db = (True, db') \<and>
     set (known_rids db) \<subseteq> set (known_rids db') \<and>
     (\<forall>rc. settled rc db \<longrightarrow> settled rc db') \<and> bootstraps db' = bootstraps db \<and>
     (\<forall>rc \<in> set rcs. rc_router_id rc \<in> set (known_rids db') \<and> settled rc db')"
proof (induction rcs arbitrary: db)
  case (Cons rc rcs)
  let ?db = "db\<lparr>known_rids := List.insert (rc_router_id rc) (known_rids db)\<rparr>"
  let ?db1 = "snd (put_rc S L self sn rc ?db)"
  obtain db' where db': "store_bootstrap_rcs S L self sn (map Some rcs) ?db1 = (True, db')"
      "set (known_rids ?db1) \<subseteq> set (known_rids db')" "\<forall>rc. settled rc ?db1 \<longrightarrow> settled rc db'"
      "bootstraps db' = bootstraps ?db1"
      "\<forall>rc \<in> set rcs. rc_router_id rc \<in> set (known_rids db') \<and> settled rc db'"
    using Cons.IH [of ?db1] by blast
  have "settled rc' ?db1" if "settled rc' db" for rc'
    using that by (intro settled_store) (simp add: settled_def get_rc_def)
  moreover have "bootstraps ?db1 = bootstraps db"
    by (auto simp: put_rc_def Let_def update_rc_buckets_recorded split: option.split)
  ultimately show ?case
    using db' settled_put [of rc S L self sn ?db] by (intro exI [of _ db']) auto
qed simp

text \<open>What a client gets from a seed relay.\<close>

definition unexpired_rcs :: "ms \<Rightarrow> nodedb \<Rightarrow> relay_contact list" where
  "unexpired_rcs now db = filter (\<lambda>rc. \<not> rc_is_expired rc now) (map snd (known_rcs db))"

definition rc_list :: "relay_contact list \<Rightarrow> bytes" where
  "rc_list rcs = [108] @ concat (map rc_payload rcs) @ [101]"

definition seed_usable :: "router_cfg \<Rightarrow> zstd_lib \<Rightarrow> ms \<Rightarrow> ms \<Rightarrow> nodedb \<Rightarrow> bool" where
  "seed_usable C Z seed_now now seed \<longleftrightarrow>
     unexpired_rcs seed_now seed \<noteq> [] \<and> length (rc_list (unexpired_rcs seed_now seed)) \<le> 20000000 \<and>
     (\<exists>z. zstd_compress Z (rc_list (unexpired_rcs seed_now seed)) = Some z \<and> length z < 10 ^ 9) \<and>
     (\<forall>rc \<in> set (unexpired_rcs seed_now seed). parse_rc C False now (rc_payload rc) = Inr rc \<and>
        (\<exists>d. dict_wf d \<and> rc_payload rc = bt_dict (cfg_oxenc C) d))"

definition zstd_law :: "zstd_lib \<Rightarrow> bool" where
  "zstd_law Z \<longleftrightarrow> (\<forall>d z. zstd_compress Z d = Some z \<longrightarrow> zstd_decompress Z z = Some d)"

lemma length_payloads: "\<forall>p \<in> set ps. p \<noteq> [] \<Longrightarrow> length ps \<le> length (concat ps)"
proof (induction ps)
  case (Cons p ps)
  then have "1 \<le> length p" by (simp add: Suc_le_eq)
  then show ?case using Cons by simp
qed simp

lemma bootstrap_exchange:
  assumes X: "bt_reader_law (cfg_oxenc C)" "bt_list_law (cfg_oxenc C)" "bt_text_law (cfg_oxenc C)" "bt_size_law (cfg_oxenc C)"
    and Z: "zstd_law Z" and seed: "seed_usable C Z seed_now now seed"
  shows "\<exists>body. handle_fetch_bootstrap_rcs Z seed_now seed = Some (RespOk body) \<and>
    handle_bootstrap_result C Z now body db =
      store_bootstrap_rcs (cfg_sodium C) (cfg_layout C) (cfg_id C) (cfg_service_node C)
        (map Some (unexpired_rcs seed_now seed)) db"
proof -
  let ?rcs = "unexpired_rcs seed_now seed" and ?X = "cfg_oxenc C"
  obtain z where z: "zstd_compress Z (rc_list ?rcs) = Some z" "length z < 10 ^ 9"
    using seed by (auto simp: seed_usable_def)
  have cat: "concat ([[108]] @ map rc_payload ?rcs @ [[101]]) = rc_list ?rcs"
    by (simp add: rc_list_def)
  have resp: "handle_fetch_bootstrap_rcs Z seed_now seed = Some (RespOk (bt_dict ?X [(''Z'', BStr z)]))"
  proof (rule bootstrap_response_format [OF X(3) z(2)])
    show "zstd_compress Z (concat ([[108]] @ map rc_payload ?rcs @ [[101]])) = Some z"
      unfolding cat by (rule z(1))
    show "length ([[108]] @ map rc_payload ?rcs @ [[101]]) \<noteq> 2"
      using seed by (simp add: seed_usable_def)
  qed (simp add: unexpired_rcs_def)
  have "dict_wf [(''Z'', BStr z)]" by simp
  note rd = bt_reader [OF X(1) this]
  have fin: "bt_finish ?X (bt_at ?X [])"
    using bt_reader(4) [OF X(1), of "[]"] by simp
  have dec: "decompress Z z 20000000 = Some (rc_list ?rcs)"
    using Z z seed by (simp add: decompress_def zstd_law_def seed_usable_def)
  have "\<forall>p \<in> set (map rc_payload ?rcs). p \<noteq> []"
    using seed X(4) by (auto simp: seed_usable_def bt_size_law_def)
  then have "length ?rcs < length (rc_list ?rcs)"
    using length_payloads [of "map rc_payload ?rcs"] by (simp add: rc_list_def)
  then have "read_rc_list C False now (length (rc_list ?rcs)) (concat (map rc_payload ?rcs) @ [101]) = map Some ?rcs"
    using seed by (intro read_rc_list_payloads [OF X(2)]) (auto simp: seed_usable_def)
  then have "handle_bootstrap_result C Z now (bt_dict ?X [(''Z'', BStr z)]) db =
      store_bootstrap_rcs (cfg_sodium C) (cfg_layout C) (cfg_id C) (cfg_service_node C) (map Some ?rcs) db"
    using rd(1) rd(2) [of "''Z''"] fin dec X(2)
    by (simp add: handle_bootstrap_result_def bt_require_str_def rc_list_def bt_list_law_def)
  then show ?thesis
    using resp by blast
qed


text \<open>Attempts that fail are skipped; the database may have gained contacts from them.\<close>

definition answer_fails :: "router_cfg \<Rightarrow> zstd_lib \<Rightarrow> ms \<Rightarrow> response \<Rightarrow> bool" where
  "answer_fails C Z now resp \<longleftrightarrow>
     (case resp of RespOk body \<Rightarrow> (\<forall>db. \<not> fst (handle_bootstrap_result C Z now body db)) | _ \<Rightarrow> True)"

lemma try_next_skip:
  assumes "\<forall>i. \<not> stopping i" and "\<forall>rc \<in> set rcs. answer_fails C Z now (answer rc)"
  shows "\<exists>db'. try_next C Z now stopping answer i (rcs @ rest) db = try_next C Z now stopping answer (i + length rcs) rest db'"
  using assms(2)
proof (induction rcs arbitrary: i db)
  case (Cons rc rcs)
  have "\<exists>db1. try_next C Z now stopping answer i ((rc # rcs) @ rest) db = try_next C Z now stopping answer (Suc i) (rcs @ rest) db1"
  proof (cases "answer rc")
    case (RespOk body)
    then have "\<not> fst (handle_bootstrap_result C Z now body db)"
      using Cons.prems by (simp add: answer_fails_def)
    then show ?thesis
      using RespOk assms(1) by (auto simp: split_beta Let_def)
  qed (use assms(1) in auto)
  then obtain db1 where "try_next C Z now stopping answer i ((rc # rcs) @ rest) db = try_next C Z now stopping answer (Suc i) (rcs @ rest) db1"
    by blast
  with Cons.IH [of "Suc i" db1] Cons.prems show ?case
    by auto
qed auto

lemma bootstrap_from_seed:
  assumes X: "bt_reader_law (cfg_oxenc C)" "bt_list_law (cfg_oxenc C)" "bt_text_law (cfg_oxenc C)" "bt_size_law (cfg_oxenc C)"
    and Z: "zstd_law Z" and seed: "seed_usable C Z seed_now now seed"
    and list: "bootstraps db = before @ rc # after" "\<forall>i. \<not> stopping i" "\<forall>rc \<in> set before. answer_fails C Z now (answer rc)"
    and ans: "handle_fetch_bootstrap_rcs Z seed_now seed = Some (answer rc)"
  shows "\<exists>db'. bootstrap C Z now stopping answer db =
      (Some (if MIN_ACTIVE_RCS \<le> length (known_rcs db') then None else Some BOOTSTRAP_COOLDOWN), db') \<and>
    \<not> bootstrap_running db' \<and> bootstrap_fails db' = 0 \<and>
    (\<forall>rc \<in> set (unexpired_rcs seed_now seed). rc_router_id rc \<in> set (known_rids db') \<and> settled rc db')"
proof -
  let ?db = "db\<lparr>bootstrap_running := True\<rparr>"
  obtain db1 where skip: "bootstrap C Z now stopping answer db = try_next C Z now stopping answer (length before) (rc # after) db1"
    using try_next_skip [OF list(2,3), of 0 "rc # after" ?db] list(1) by (auto simp: bootstrap_def)
  obtain body where body: "answer rc = RespOk body"
      "handle_bootstrap_result C Z now body db1 =
        store_bootstrap_rcs (cfg_sodium C) (cfg_layout C) (cfg_id C) (cfg_service_node C) (map Some (unexpired_rcs seed_now seed)) db1"
    using bootstrap_exchange [OF X Z seed, of db1] ans by auto
  obtain db2 where db2: "store_bootstrap_rcs (cfg_sodium C) (cfg_layout C) (cfg_id C) (cfg_service_node C)
        (map Some (unexpired_rcs seed_now seed)) db1 = (True, db2)"
      "\<forall>rc \<in> set (unexpired_rcs seed_now seed). rc_router_id rc \<in> set (known_rids db2) \<and> settled rc db2"
    using store_bootstrap_rcs_all by blast
  let ?db' = "snd (on_bootstrap_done True db2)"
  have "BOOTSTRAP_COOLDOWN \<le> BOOTSTRAP_COOLDOWN_MAX"
    by (simp add: BOOTSTRAP_COOLDOWN_def BOOTSTRAP_COOLDOWN_MAX_def)
  then have finished: "on_bootstrap_done True db2 =
      (if MIN_ACTIVE_RCS \<le> length (known_rcs db2) then None else Some BOOTSTRAP_COOLDOWN, db2\<lparr>bootstrap_running := False, bootstrap_fails := 0\<rparr>)"
    by (simp add: on_bootstrap_done_def Let_def)
  have "bootstrap C Z now stopping answer db = (Some (fst (on_bootstrap_done True db2)), snd (on_bootstrap_done True db2))"
    using skip list(2) body db2(1) by (simp add: split_beta)
  then show ?thesis
    using db2(2) unfolding finished by (intro exI [of _ "db2\<lparr>bootstrap_running := False, bootstrap_fails := 0\<rparr>"])
      (simp add: settled_def get_rc_def)
qed

text \<open>A run that is not aborted leaves the flag clear, and retries while contacts are few.\<close>

lemma try_next_retries:
  assumes "try_next C Z now stopping answer i rcs db = (Some delay, db')"
  shows "\<not> bootstrap_running db' \<and>
    (if MIN_ACTIVE_RCS \<le> length (known_rcs db') then delay = None
     else (\<exists>d. delay = Some d \<and> BOOTSTRAP_COOLDOWN \<le> d \<and> d \<le> BOOTSTRAP_COOLDOWN_MAX))"
proof -
  have fin: "\<not> bootstrap_running (snd (on_bootstrap_done success db)) \<and>
      (if MIN_ACTIVE_RCS \<le> length (known_rcs (snd (on_bootstrap_done success db))) then fst (on_bootstrap_done success db) = None
       else (\<exists>d. fst (on_bootstrap_done success db) = Some d \<and> BOOTSTRAP_COOLDOWN \<le> d \<and> d \<le> BOOTSTRAP_COOLDOWN_MAX))" for success db
    by (auto simp: on_bootstrap_done_def Let_def BOOTSTRAP_COOLDOWN_def BOOTSTRAP_COOLDOWN_MAX_def)
  show ?thesis
    using assms
  proof (induction C Z now stopping answer i rcs db arbitrary: delay rule: try_next.induct)
    case (1 C Z now stopping answer i db)
    then show ?case
      using fin [of False db] by (auto simp: split_beta split: if_splits)
  next
    case (2 C Z now stopping answer i rc rcs db)
    have ns: "\<not> stopping i"
      using "2.prems" by (auto split: if_splits)
    show ?case
    proof (cases "answer rc")
      case (RespOk body)
      let ?r = "handle_bootstrap_result C Z now body db"
      show ?thesis
      proof (cases "fst ?r")
        case True
        then have "delay = fst (on_bootstrap_done True (snd ?r))" "db' = snd (on_bootstrap_done True (snd ?r))"
          using "2.prems" ns RespOk by (auto simp: split_beta)
        then show ?thesis
          using fin [of True "snd ?r"] by simp
      next
        case False
        moreover from this have "try_next C Z now stopping answer (Suc i) rcs (snd ?r) = (Some delay, db')"
          using "2.prems" ns RespOk by (simp add: split_beta)
        ultimately show ?thesis
          using "2.IH"(1) [OF ns RespOk refl prod.collapse] by blast
      qed
    qed (use 2 ns in auto)
  qed
qed

end
