(* ===== verification/Net_Build.thy ===== *)
theory Net_Build
  imports Path_Relay
begin

text \<open>
  Path builds across a network: the composition of the client's onion with the build handlers of
  the relays on the path, and the state it leaves at every relay.  The network is a function
  from router ids to router states; a command to a relay is answered by that relay's handler.
\<close>

section \<open>The composition\<close>

type_synonym network = "router_id \<Rightarrow> router_state"

definition to_response :: "(bytes \<times> bool) option \<Rightarrow> response" where
  "to_response out = (case out of None \<Rightarrow> RespTimeout | Some (b, e) \<Rightarrow> if e then RespError b else RespOk b)"

text \<open>
  Delivery of a \<^verbatim>\<open>path_build\<close> command to \<open>target\<close>: its handler runs, a forwarded build is
  delivered in turn, and the continuation runs on the response.  The first argument bounds
  the number of relays visited; a build that exceeds it is never answered.
\<close>

fun build_along ::
  "sodium \<Rightarrow> oxenc \<Rightarrow> ms \<Rightarrow> (nat \<Rightarrow> bytes) \<Rightarrow> nat \<Rightarrow> network \<Rightarrow> router_id \<Rightarrow> bytes \<Rightarrow> peer \<Rightarrow>
     network \<times> response" where
  "build_along S X now junk 0 net target frames from = (net, RespTimeout)"
| "build_along S X now junk (Suc n) net target frames from =
     (case handle_path_build S X (net target) frames from now (junk n) of
        (r, BuildRespond b e) \<Rightarrow> (net(target := r), to_response (Some (b, e)))
      | (r, BuildForward next frames' hop) \<Rightarrow>
          (let (net1, resp) = build_along S X now junk n (net(target := r)) next frames' (PeerRelay target);
               (r', out) = path_build_response X (net1 target) hop resp
           in (net1(target := r'), to_response out)))"

section \<open>What a successful build stores\<close>

text \<open>The hop a relay decodes from the frame of the client's hop \<open>h\<close>.\<close>

definition relay_hop :: "u32 \<Rightarrow> ms \<Rightarrow> peer \<Rightarrow> transit_hop \<Rightarrow> transit_hop" where
  "relay_hop l now from h =
     (decoded_hop (transit_hop_default\<lparr>downstream := from\<rparr>) h l now)\<lparr>terminal_hop := terminal_hop h\<rparr>"

definition store_hop :: "transit_hop \<Rightarrow> router_state \<Rightarrow> router_state" where
  "store_hop g r = r\<lparr>path_ctx := put_transit_hop g (path_ctx r)\<rparr>"

fun store_hops :: "u32 \<Rightarrow> ms \<Rightarrow> peer \<Rightarrow> transit_hop list \<Rightarrow> network \<Rightarrow> network" where
  "store_hops l now from [] net = net"
| "store_hops l now from (h # hs) net =
     (let net1 = store_hops l now (PeerRelay (router_id h)) hs net
      in net1(router_id h := store_hop (relay_hop l now from h) (net1 (router_id h))))"

text \<open>A client hop and the relay's record of it agree.\<close>

definition hop_agrees :: "transit_hop \<Rightarrow> transit_hop \<Rightarrow> bool" where
  "hop_agrees h g \<longleftrightarrow> rxid g = rxid h \<and> txid g = txid h \<and> upstream g = upstream h \<and>
     shared_secret g = shared_secret h \<and> xor_nonce g = xor_nonce h \<and> terminal_hop g = terminal_hop h"

lemma relay_hop_simps [simp]:
  "rxid (relay_hop l now from h) = rxid h" "txid (relay_hop l now from h) = txid h"
  "upstream (relay_hop l now from h) = upstream h" "terminal_hop (relay_hop l now from h) = terminal_hop h"
  "downstream (relay_hop l now from h) = from" "expiry (relay_hop l now from h) = now + 1000 * uint l"
  "shared_secret (relay_hop l now from h) = shared_secret h" "\<not> hop_dead (relay_hop l now from h)"
  "xor_nonce (relay_hop l now from h) = xor_nonce h" "hop_agrees h (relay_hop l now from h)"
  by (simp_all add: relay_hop_def decoded_hop_def transit_hop_default_def hop_agrees_def)

text \<open>Every relay on the path can be asked for its hop under both ids.\<close>

definition hop_installed :: "network \<Rightarrow> peer \<Rightarrow> transit_hop \<Rightarrow> bool" where
  "hop_installed net from h \<longleftrightarrow>
     is_service_node (net (router_id h)) \<and>
     (\<exists>g. get_transit_hop (path_ctx (net (router_id h))) (rxid h) = Some g \<and>
          get_transit_hop (path_ctx (net (router_id h))) (txid h) = Some g \<and>
          hop_agrees h g \<and> downstream g = from)"

fun installed :: "network \<Rightarrow> peer \<Rightarrow> transit_hop list \<Rightarrow> bool" where
  "installed net from [] = True"
| "installed net from (h # hs) \<longleftrightarrow>
     hop_installed net from h \<and> installed net (PeerRelay (router_id h)) hs"

section \<open>Decoding at one relay\<close>

lemma decrypt_build_frame_carries:
  assumes "frame_carries S X l k h e" and "\<not> is_zero (txid h)" and "\<not> is_zero (rxid h)"
    and "terminal_hop h \<longleftrightarrow> upstream h = rk_id k" and "terminal_hop h \<longleftrightarrow> txid h = rxid h"
  shows "decrypt_build_frame S X (fst e) k from now = Inr (relay_hop l now from h, snd (snd e))"
proof -
  let ?g = "transit_hop_default\<lparr>downstream := from\<rparr>"
  have "version ?g = 0" by (simp add: transit_hop_default_def)
  with assms have "decode_frame S X k ?g (fst e) now = Inr (decoded_hop ?g h l now, snd (snd e))"
    by (simp add: frame_carries_def)
  moreover have "fst e \<noteq> []" using assms(1) by (auto simp: frame_carries_def build_consts)
  ultimately show ?thesis
    using assms(2-) by (simp add: decrypt_build_frame_def relay_hop_def decoded_hop_def Let_def)
qed

text \<open>A relay ready for a hop: its identity is the hop's router, the ids are free, and the upstream reachable.\<close>

definition relay_ready :: "network \<Rightarrow> transit_hop \<Rightarrow> bool" where
  "relay_ready net h \<longleftrightarrow>
     (let r = net (router_id h) in
        is_service_node r \<and> rk_id (keys r) = router_id h \<and>
        \<not> has_transit_hop_obj h (path_ctx r) \<and> \<not> is_zero (rxid h) \<and> \<not> is_zero (txid h) \<and>
        (terminal_hop h \<longleftrightarrow> upstream h = router_id h) \<and> (terminal_hop h \<longleftrightarrow> txid h = rxid h) \<and>
        (\<not> terminal_hop h \<longrightarrow> known_rc r (upstream h) \<and> \<not> unreachable r (upstream h)))"

definition lifetime_ok :: "u32 \<Rightarrow> bool" where
  "lifetime_ok l \<longleftrightarrow> 0 < uint l \<and> 1000 * uint l \<le> MAX_LIFETIME_ACCEPTED"

definition build_message_size :: nat where "build_message_size = BUILD_LENGTH * BUILD_FRAME_SIZE"

lemma build_message_frames:
  assumes "length frames = build_message_size"
  shows "valid_build_length frames" "build_frame_size frames = BUILD_FRAME_SIZE"
  using assms by (simp_all add: valid_build_length_def build_frame_size_def build_message_size_def build_consts)

lemma handle_path_build_ready:
  assumes carr: "frame_carries S X l (keys (net (router_id h))) h e" and ready: "relay_ready net h"
    and l: "lifetime_ok l" and len: "length (fst e @ rest) = build_message_size"
  shows "handle_path_build S X (net (router_id h)) (fst e @ rest) from now junk =
     (if terminal_hop h
      then (store_hop (relay_hop l now from h) (net (router_id h)), BuildRespond (OK_RESPONSE X) False)
      else (net (router_id h),
            BuildForward (upstream h) (xchacha20 S rest (shared_secret h) (snd (snd e)) @ take BUILD_FRAME_SIZE junk)
              (relay_hop l now from h)))"
proof -
  from ready have r: "decrypt_build_frame S X (fst e) (keys (net (router_id h))) from now =
      Inr (relay_hop l now from h, snd (snd e))"
    by (intro decrypt_build_frame_carries carr) (auto simp: relay_ready_def Let_def)
  have f: "length (fst e) = BUILD_FRAME_SIZE" using carr by (simp add: frame_carries_def)
  note frames = build_message_frames [OF len]
  have "take BUILD_FRAME_SIZE (fst e @ rest) = fst e" "drop BUILD_FRAME_SIZE (fst e @ rest) = rest"
    using f by simp_all
  then show ?thesis
    using ready r frames l
    by (simp add: handle_path_build_def relay_ready_def has_transit_hop_obj_def rotate_frames_def
        store_hop_def lifetime_ok_def Let_def)
qed

section \<open>The build along the path\<close>

lemma deonion:
  assumes "xchacha20_laws S"
  obtains J' where "xchacha20 S (xchacha20 S M k n @ J) k n = M @ J'" and "length J' = length J"
  using xchacha20_append_prefix [OF assms, of "xchacha20 S M k n" J k n] assms by auto

lemma build_along_step:
  assumes xl: "xchacha20_laws S" and l: "lifetime_ok l" and ready: "relay_ready net h" and nt: "\<not> terminal_hop h"
    and carr: "frame_carries S X l (keys (net (router_id h))) h e"
    and len: "length (onion_spec S (e # es) @ J) = build_message_size"
    and junk: "\<forall>n. length (junk n) = BUILD_FRAME_SIZE"
  obtains J' where "length (onion_spec S es @ J') = build_message_size"
    and "build_along S X now junk (Suc n) net (router_id h) (onion_spec S (e # es) @ J) from =
      (let (net1, resp) = build_along S X now junk n net (upstream h) (onion_spec S es @ J') (PeerRelay (router_id h));
           (r', out) = path_build_response X (net1 (router_id h)) (relay_hop l now from h) resp
       in (net1(router_id h := r'), to_response out))"
proof -
  obtain f k nn where e: "e = (f, k, nn)" by (cases e) auto
  have f: "length f = BUILD_FRAME_SIZE" and k: "k = shared_secret h" using carr e by (auto simp: frame_carries_def)
  obtain J1 where J1: "xchacha20 S (xchacha20 S (onion_spec S es) k nn @ J) k nn = onion_spec S es @ J1"
    "length J1 = length J"
    using deonion [OF xl] by metis
  have len': "length (fst e @ xchacha20 S (onion_spec S es) k nn @ J) = build_message_size"
    using len e by simp
  have "handle_path_build S X (net (router_id h)) (onion_spec S (e # es) @ J) from now (junk n) =
      (net (router_id h), BuildForward (upstream h) (onion_spec S es @ J1 @ junk n) (relay_hop l now from h))"
    using handle_path_build_ready [OF carr ready l len', of "from" now "junk n"] nt e k J1 junk by simp
  moreover have "length (onion_spec S es @ J1 @ junk n) = build_message_size"
    using len' e f J1 junk xl by simp
  ultimately show thesis
    using that [of "J1 @ junk n"] by (simp add: fun_upd_triv)
qed

lemma build_along_ok:
  assumes xl: "xchacha20_laws S" and l: "lifetime_ok l" and junk: "\<forall>n. length (junk n) = BUILD_FRAME_SIZE"
    and "hops_linked prev rx hs" and "\<forall>h \<in> set hs. relay_ready net h"
    and "list_all2 (\<lambda>h e. frame_carries S X l (keys (net (router_id h))) h e) hs es"
    and "length (onion_spec S es @ J) = build_message_size"
  shows "build_along S X now junk (length hs) net (router_id (hd hs)) (onion_spec S es @ J) from =
     (store_hops l now from hs net, RespOk (OK_RESPONSE X))"
  using assms(4-)
proof (induction prev rx hs arbitrary: es J "from" rule: hops_linked.induct)
  case (2 prev rx h)
  then obtain e where es: "es = [e]" and carr: "frame_carries S X l (keys (net (router_id h))) h e"
    by (auto simp: list_all2_Cons1)
  have "onion_spec S es = fst e" using xl es by (cases e) simp
  with 2 handle_path_build_ready [of S X l net h e J "from" now "junk 0"] carr l show ?case
    by (simp add: to_response_def fun_eq_iff)
next
  case (3 prev rx h h' hs)
  then obtain e es' where es: "es = e # es'" and carr: "frame_carries S X l (keys (net (router_id h))) h e"
    and rest: "list_all2 (\<lambda>h e. frame_carries S X l (keys (net (router_id h))) h e) (h' # hs) es'"
    by (auto simp: list_all2_Cons1)
  from 3 have linked: "hops_linked (PeerRelay (router_id h)) (txid h) (h' # hs)" "upstream h = router_id h'"
    "\<not> terminal_hop h" and ready: "relay_ready net h" "\<forall>h \<in> set (h' # hs). relay_ready net h"
    by auto
  have len: "length (onion_spec S (e # es') @ J) = build_message_size" using 3(5) es by simp
  obtain J' where J': "length (onion_spec S es' @ J') = build_message_size"
    and step: "build_along S X now junk (Suc (length (h' # hs))) net (router_id h) (onion_spec S (e # es') @ J) from =
      (let (net1, resp) = build_along S X now junk (length (h' # hs)) net (upstream h) (onion_spec S es' @ J')
             (PeerRelay (router_id h));
           (r', out) = path_build_response X (net1 (router_id h)) (relay_hop l now from h) resp
       in (net1(router_id h := r'), to_response out))"
    by (rule build_along_step [OF xl l ready(1) linked(3) carr len junk])
  define net1 where "net1 = store_hops l now (PeerRelay (router_id h)) (h' # hs) net"
  have "build_along S X now junk (length (h' # hs)) net (upstream h) (onion_spec S es' @ J') (PeerRelay (router_id h)) =
      (net1, RespOk (OK_RESPONSE X))"
    using 3(1) [OF linked(1) ready(2) rest J', of "PeerRelay (router_id h)"] linked(2) by (simp add: net1_def)
  moreover have "store_hops l now from (h # h' # hs) net =
      net1(router_id h := store_hop (relay_hop l now from h) (net1 (router_id h)))"
    unfolding net1_def by (subst store_hops.simps(2)) (simp only: Let_def)
  ultimately show ?case
    using step es by (simp add: path_build_response_def to_response_def store_hop_def fun_eq_iff del: build_along.simps store_hops.simps)
qed simp

section \<open>The stored hops\<close>

lemma store_hops_keeps [simp]:
  "keys (store_hops l now from hs net r) = keys (net r)"
  "is_service_node (store_hops l now from hs net r) = is_service_node (net r)"
  by (induction hs arbitrary: "from") (auto simp: store_hop_def Let_def)

text \<open>The ids under which a list of hops is stored at a relay.\<close>

definition stored_at :: "transit_hop list \<Rightarrow> router_id \<Rightarrow> hop_id \<Rightarrow> bool" where
  "stored_at hs r k \<longleftrightarrow> (\<exists>h \<in> set hs. router_id h = r \<and> (k = rxid h \<or> k = txid h))"

lemma stored_at_Cons:
  "stored_at (h # hs) r k \<longleftrightarrow> router_id h = r \<and> (k = rxid h \<or> k = txid h) \<or> stored_at hs r k"
  by (auto simp: stored_at_def)

lemma linked_hd: "hops_linked prev rx hs \<Longrightarrow> hs \<noteq> [] \<and> rxid (hd hs) = rx"
  by (cases "(prev, rx, hs)" rule: hops_linked.cases) auto

lemma linked_txids:
  assumes "hops_linked prev rx hs" and "h \<in> set hs"
  shows "txid h = rxid h \<or> txid h \<in> rxid ` set (tl hs)"
  using assms
proof (induction prev rx hs rule: hops_linked.induct)
  case (3 prev rx a b hs)
  then have l: "hops_linked (PeerRelay (router_id a)) (txid a) (b # hs)" by simp
  show ?case
  proof (cases "h = a")
    case True
    with linked_hd [OF l] show ?thesis by auto
  next
    case False
    with 3(1) [OF l] 3(3) show ?thesis by auto
  qed
qed auto

text \<open>
  On a linked path with distinct ids and no two consecutive hops at the same relay, the ids of
  a hop are not yet taken when the hops behind it have been stored.
\<close>

lemma linked_stored_fresh:
  assumes "hops_linked prev rx (h # hs)" and "distinct (map rxid (h # hs))" and "distinct_adj (map router_id (h # hs))"
  shows "\<not> stored_at hs (router_id h) (rxid h)" and "\<not> stored_at hs (router_id h) (txid h)"
proof -
  have "rxid h \<notin> rxid ` set hs" using assms(2) by auto
  moreover have tx: "txid g = rxid g \<or> txid g \<in> rxid ` set (tl hs)" if "g \<in> set hs" for g
  proof -
    from assms(1) that have "hops_linked (PeerRelay (router_id h)) (txid h) hs" by (cases hs) auto
    with that show ?thesis by (intro linked_txids)
  qed
  ultimately show "\<not> stored_at hs (router_id h) (rxid h)"
    unfolding stored_at_def by (cases hs) (force dest: tx)+
  show "\<not> stored_at hs (router_id h) (txid h)"
  proof (cases hs)
    case (Cons b bs)
    with assms have b: "txid h = rxid b" "router_id h \<noteq> router_id b" "rxid b \<notin> rxid ` set bs"
      using linked_hd [of "PeerRelay (router_id h)" "txid h" hs] by auto
    have "g = b" if "g \<in> set hs" "txid h = rxid g \<or> txid h = txid g" for g
      using that tx [of g] b Cons by auto
    with b show ?thesis by (auto simp: stored_at_def)
  qed (simp add: stored_at_def)
qed

definition ctx_at :: "network \<Rightarrow> router_id \<Rightarrow> path_context" where
  "ctx_at net r = path_ctx (net r)"

lemma linked_tl: "hops_linked prev rx (h # hs) \<Longrightarrow> hs = [] \<or> hops_linked (PeerRelay (router_id h)) (txid h) hs"
  by (cases hs) auto

text \<open>One more stored hop.\<close>

lemma store_hop_get:
  assumes "ctx_wf (path_ctx r)" and "\<not> has_transit_hop_obj h (path_ctx r)"
  shows "ctx_wf (path_ctx (store_hop (relay_hop l now from h) r))"
    and "get_transit_hop (path_ctx (store_hop (relay_hop l now from h) r)) =
      (get_transit_hop (path_ctx r))(rxid h \<mapsto> relay_hop l now from h, txid h \<mapsto> relay_hop l now from h)"
  using assms ctx_wf_put [of "path_ctx r" "relay_hop l now from h"] get_put [of "path_ctx r" "relay_hop l now from h"]
  by (simp_all add: store_hop_def has_transit_hop_obj_def)

lemma installed_mono:
  assumes "installed net from hs"
    and "\<And>r k g. get_transit_hop (path_ctx (net r)) k = Some g \<Longrightarrow> get_transit_hop (path_ctx (net' r)) k = Some g"
    and "\<And>r. is_service_node (net' r) = is_service_node (net r)"
  shows "installed net' from hs"
  using assms by (induction net "from" hs rule: installed.induct) (fastforce simp: hop_installed_def)+

lemma store_hops_lookup:
  assumes "hs = [] \<or> hops_linked prev rx hs" and "distinct (map rxid hs)" and "distinct_adj (map router_id hs)"
    and "\<forall>h \<in> set hs. relay_ready net h" and "\<forall>r. ctx_wf (path_ctx (net r))"
  shows "(\<forall>r. ctx_wf (path_ctx (store_hops l now from hs net r))) \<and>
     (\<forall>r k. \<not> stored_at hs r k \<longrightarrow>
        get_transit_hop (path_ctx (store_hops l now from hs net r)) k = get_transit_hop (path_ctx (net r)) k) \<and>
     installed (store_hops l now from hs net) from hs"
  using assms
proof (induction hs arbitrary: prev rx "from")
  case (Cons h hs)
  let ?R = "router_id h"
  let ?net1 = "store_hops l now (PeerRelay ?R) hs net"
  let ?net2 = "store_hops l now from (h # hs) net"
  from Cons.prems have lk: "hops_linked prev rx (h # hs)" by simp
  have ih: "\<forall>r. ctx_wf (path_ctx (?net1 r))"
    "\<And>r k. \<not> stored_at hs r k \<Longrightarrow> get_transit_hop (path_ctx (?net1 r)) k = get_transit_hop (path_ctx (net r)) k"
    "installed ?net1 (PeerRelay ?R) hs"
    using Cons.IH [OF linked_tl [OF lk], of "PeerRelay ?R"] Cons.prems by (auto dest: distinct_adj_ConsD)
  have ready: "relay_ready net h" "\<not> has_transit_hop_obj h (path_ctx (net ?R))"
    using Cons.prems by (auto simp: relay_ready_def Let_def)
  have fresh: "\<not> has_transit_hop_obj h (path_ctx (?net1 ?R))"
    using linked_stored_fresh [OF lk] Cons.prems ready ih(1,2)
    by (simp add: has_transit_hop_obj_def flip: get_None_iff)
  have net2: "?net2 = ?net1(?R := store_hop (relay_hop l now from h) (?net1 ?R))"
    by (simp add: Let_def)
  note put = store_hop_get [OF spec [OF ih(1)] fresh, of l now "from"]
  have mono: "get_transit_hop (path_ctx (?net2 r)) k = Some g" if "get_transit_hop (path_ctx (?net1 r)) k = Some g" for r k g
    using that fresh ih(1) unfolding net2 by (auto simp: put has_transit_hop_obj_def simp flip: get_None_iff)
  have "hop_installed ?net2 from h"
    using ready unfolding net2 hop_installed_def relay_ready_def by (simp add: put(2) Let_def) (simp add: store_hop_def)
  moreover have "installed ?net2 (PeerRelay ?R) hs"
    using ih(3) mono by (rule installed_mono) (simp_all only: store_hops_keeps)
  moreover have "get_transit_hop (path_ctx (?net2 r)) k = get_transit_hop (path_ctx (net r)) k"
    if "\<not> stored_at (h # hs) r k" for r k
    using that ih(2) unfolding net2 by (auto simp: put stored_at_Cons)
  moreover have "ctx_wf (path_ctx (?net2 r))" for r
    using ih(1) put unfolding net2 by simp
  ultimately show ?case by simp
qed simp

section \<open>The client's side\<close>

definition hop_id_ok :: "hop_id \<Rightarrow> bool" where
  "hop_id_ok b \<longleftrightarrow> length b = HOPID_SIZE \<and> \<not> is_zero b"

text \<open>The hops of a freshly constructed path are what the relays insist on.\<close>

definition hop_good :: "transit_hop \<Rightarrow> bool" where
  "hop_good h \<longleftrightarrow> hop_sizes h \<and> \<not> is_zero (rxid h) \<and> \<not> is_zero (txid h) \<and> version h \<le> 1 \<and>
     (terminal_hop h \<longleftrightarrow> upstream h = router_id h) \<and> (terminal_hop h \<longleftrightarrow> txid h = rxid h)"

lemma path_hops_good:
  assumes "rx \<notin> rnd ` {k..<k + length rcs - 1}" and "inj_on rnd {k..<k + length rcs - 1}"
    and "hop_id_ok rx" and "\<forall>i \<in> {k..<k + length rcs - 1}. hop_id_ok (rnd i)"
    and "distinct_adj (map rc_router_id rcs)" and "\<forall>rc \<in> set rcs. length (rc_router_id rc) = PUBKEY_SIZE"
  shows "\<forall>h \<in> set (path_hops rnd k prev rx rcs). hop_good h \<and>
     {rxid h, txid h} \<subseteq> insert rx (rnd ` {k..<k + length rcs - 1}) \<and> upstream h \<in> rc_router_id ` set rcs"
  using assms
proof (induction rnd k prev rx rcs rule: path_hops.induct)
  case (2 rnd k prev rx rc)
  then show ?case
    by (auto simp: hop_good_def hop_sizes_def hop_id_ok_def frame_version_of_def transit_hop_default_def)
next
  case (3 rnd k prev rx rc rc' rcs)
  let ?I = "{k..<k + length (rc # rc' # rcs) - 1}" and ?J = "{Suc k..<Suc k + length (rc' # rcs) - 1}"
  have I: "?I = insert k ?J" by auto
  have k: "rnd k \<notin> rnd ` ?J" "inj_on rnd ?J" using 3(3) unfolding I by (auto simp: inj_on_insert)
  have "\<forall>h \<in> set (path_hops rnd (Suc k) (rc_router_id rc) (rnd k) (rc' # rcs)). hop_good h \<and>
     {rxid h, txid h} \<subseteq> insert (rnd k) (rnd ` ?J) \<and> upstream h \<in> rc_router_id ` set (rc' # rcs)"
    by (rule "3.IH") (use 3(2-) k I in auto)
  then show ?case
    using 3(2-) unfolding I
    by (auto simp: hop_good_def hop_sizes_def hop_id_ok_def frame_version_of_def transit_hop_default_def)
qed simp

text \<open>The random draws have the sizes the code asks for.\<close>

definition frame_rand_ok :: "frame_rand \<Rightarrow> bool" where
  "frame_rand_ok R \<longleftrightarrow> length (fr_dh_nonce R) = SYMM_NONCE_SIZE \<and>
     length (fr_pad R) = BUILD_FRAME_SIZE - BUILD_FRAME_SIZE_V1"

lemma frame_okI:
  assumes "sodium_laws S" and "oxenc_laws X" and "hop_good h" and "frame_rand_ok R" and "lifetime_ok l"
    and "k = router_keys_of S seed" and "rk_id k = router_id h"
  shows "frame_ok S X R k h l"
proof -
  have "uint l < 2 ^ 16" using assms(5) by (simp add: lifetime_ok_def lifetime_consts)
  moreover have "version h = 0 \<or> version h = 1" using assms(3) by (auto simp: hop_good_def)
  ultimately show ?thesis
    using assms
    by (auto simp: frame_ok_def frame_ok_v0_def frame_ok_v1_def frame_ok_common_def frame_rand_ok_def hop_good_def)
qed

text \<open>Building the onion over admissible frames.\<close>

lemma onion_entries:
  assumes "\<forall>i < length hs. frame_ok S X (R i) (K (hs ! i)) (hs ! i) l"
  obtains h f n where
    "\<forall>i < length hs. encode_frame S X (R i) (hs ! i) BUILD_FRAME_SIZE l = Inr (h i, f i, n i) \<and> length (f i) = BUILD_FRAME_SIZE"
    "\<forall>i < length hs. secrets_set (hs ! i) (h i)"
    "\<forall>i < length hs. frame_carries S X l (K (hs ! i)) (h i) (f i, shared_secret (h i), n i)"
proof -
  have "\<exists>h f n. encode_frame S X (R i) (hs ! i) BUILD_FRAME_SIZE l = Inr (h, f, n) \<and> length f = BUILD_FRAME_SIZE \<and>
      secrets_set (hs ! i) h \<and> frame_carries S X l (K (hs ! i)) h (f, shared_secret h, n)" if "i < length hs" for i
    using that assms encode_frame_ok by (metis frame_carries_def fst_conv)
  then show thesis using that by metis
qed

lemma path_build_onion_ok:
  assumes xl: "xchacha20_laws S" and nb: "\<not> is_built p" and len: "length (hops p) \<le> BUILD_LENGTH"
    and l: "l = word_of_int (round_seconds (expires_in p now))"
    and ok: "\<forall>i < length (hops p). frame_ok S X (R i) (K (hops p ! i)) (hops p ! i) l"
    and junk: "length junk = (BUILD_LENGTH - length (hops p)) * BUILD_FRAME_SIZE"
  obtains hs es where "path_build_onion S X R junk now p = Inr (p\<lparr>is_built := True, hops := hs\<rparr>, onion_spec S es @ junk)"
    and "list_all2 secrets_set (hops p) hs"
    and "\<forall>i < length hs. frame_carries S X l (K (hops p ! i)) (hs ! i) (es ! i)" and "length es = length hs"
    and "length (onion_spec S es @ junk) = build_message_size"
proof -
  let ?n = "length (hops p)"
  from ok obtain h f n where
    enc: "\<forall>i < ?n. encode_frame S X (R i) (hops p ! i) BUILD_FRAME_SIZE l = Inr (h i, f i, n i) \<and> length (f i) = BUILD_FRAME_SIZE"
    and sec: "\<forall>i < ?n. secrets_set (hops p ! i) (h i)"
    and carr: "\<forall>i < ?n. frame_carries S X l (K (hops p ! i)) (h i) (f i, shared_secret (h i), n i)"
    by (rule onion_entries)
  let ?hs = "map h [0..<?n]" and ?es = "map (\<lambda>j. (f j, shared_secret (h j), n j)) [0..<?n]"
  have foldr: "foldr (\<lambda>j. onion_layer S (f j, shared_secret (h j), n j)) [0..<?n] [] = onion_spec S ?es"
    by (simp add: onion_spec_def foldr_map comp_def)
  have "onion_loop S X R l ?n (hops p, buf_zero (?n * BUILD_FRAME_SIZE) @ [] @ junk) =
      Inr (?hs @ drop ?n (hops p), foldr (\<lambda>j. onion_layer S (f j, shared_secret (h j), n j)) [0..<?n] [] @ junk)"
    by (rule onion_loop_frames) (use xl enc in auto)
  then have "path_build_onion S X R junk now p = Inr (p\<lparr>is_built := True, hops := ?hs\<rparr>, onion_spec S ?es @ junk)"
    using nb len l junk by (simp add: path_build_onion_def set_built_def foldr Let_def)
  moreover have "length (onion_spec S ?es) = ?n * BUILD_FRAME_SIZE"
    using length_onion_spec [OF xl, of ?es BUILD_FRAME_SIZE] enc by simp
  ultimately show thesis
    using that [of ?hs ?es] sec carr junk len
    by (simp add: list_all2_conv_all_nth build_message_size_def flip: add_mult_distrib)
qed

section \<open>End to end\<close>

lemma secrets_set_keeps:
  assumes "secrets_set h h'"
  shows "rxid h' = rxid h" "txid h' = txid h" "upstream h' = upstream h" "router_id h' = router_id h"
    "terminal_hop h' = terminal_hop h" "downstream h' = downstream h" "length (xor_nonce h') = SYMM_NONCE_SIZE"
  using assms by (auto simp: secrets_set_def)

lemma secrets_set_maps:
  assumes "list_all2 secrets_set hs hs'"
  shows "map rxid hs' = map rxid hs" "map router_id hs' = map router_id hs" "nonces_wf hs'"
  using assms by (induction rule: list_all2_induct) (simp_all add: secrets_set_keeps)

lemma secrets_set_linked:
  "list_all2 secrets_set hs hs' \<Longrightarrow> hops_linked prev rx hs \<Longrightarrow> hops_linked prev rx hs'"
proof (induction prev rx hs arbitrary: hs' rule: hops_linked.induct)
  case (2 prev rx h)
  then obtain h' where "hs' = [h']" and "secrets_set h h'" by (auto simp: list_all2_Cons1)
  with 2 show ?case by (simp add: secrets_set_keeps)
next
  case (3 prev rx h g hs)
  then obtain h' g' hs'' where eq: "hs' = h' # g' # hs''" and s: "secrets_set h h'" "secrets_set g g'"
    and r: "list_all2 secrets_set (g # hs) (g' # hs'')"
    by (auto simp: list_all2_Cons1)
  from 3 have "hops_linked (PeerRelay (router_id h)) (txid h) (g # hs)" by simp
  with "3.IH" [OF r] 3(3) show ?case by (simp add: eq secrets_set_keeps [OF s(1)] secrets_set_keeps [OF s(2)])
qed simp

text \<open>A relay that can serve on a path with the ids drawn by \<open>rnd\<close> through the relays \<open>rids\<close>.\<close>

definition relay_serves :: "sodium \<Rightarrow> network \<Rightarrow> hop_id set \<Rightarrow> router_id set \<Rightarrow> router_id \<Rightarrow> bool" where
  "relay_serves S net ids rids rid \<longleftrightarrow>
     (let r = net rid in
        is_service_node r \<and> (\<exists>seed. keys r = router_keys_of S seed) \<and> rk_id (keys r) = rid \<and>
        (\<forall>k \<in> ids. \<not> has_transit_hop k (path_ctx r)) \<and> (\<forall>u \<in> rids. known_rc r u \<and> \<not> unreachable r u))"

definition path_draws_ok :: "(nat \<Rightarrow> hop_id) \<Rightarrow> nat \<Rightarrow> bool" where
  "path_draws_ok rnd n \<longleftrightarrow> inj_on rnd {0..<n} \<and> (\<forall>i \<in> {0..<n}. hop_id_ok (rnd i))"

lemma path_new_hops:
  assumes "rcs \<noteq> []" and draws: "path_draws_ok rnd (length rcs)" and "distinct_adj (map rc_router_id rcs)"
    and "\<forall>rc \<in> set rcs. length (rc_router_id rc) = PUBKEY_SIZE"
  shows "\<forall>h \<in> set (hops (path_new self rnd rcs t)). hop_good h \<and>
     {rxid h, txid h} \<subseteq> rnd ` {0..<length rcs} \<and> upstream h \<in> rc_router_id ` set rcs"
    and "distinct (map rxid (hops (path_new self rnd rcs t)))"
proof -
  let ?n = "length rcs"
  have I: "{0..<?n} = insert 0 {1..<1 + ?n - 1}" using assms(1) by (cases rcs) auto
  have d: "rnd 0 \<notin> rnd ` {1..<1 + ?n - 1}" "inj_on rnd {1..<1 + ?n - 1}" "hop_id_ok (rnd 0)"
    "\<forall>i \<in> {1..<1 + ?n - 1}. hop_id_ok (rnd i)"
    using draws unfolding path_draws_ok_def I by (auto simp: inj_on_insert)
  show "\<forall>h \<in> set (hops (path_new self rnd rcs t)). hop_good h \<and>
     {rxid h, txid h} \<subseteq> rnd ` {0..<?n} \<and> upstream h \<in> rc_router_id ` set rcs"
    using path_hops_good [OF d assms(3,4), of self] unfolding I by (simp add: path_new_def)
  show "distinct (map rxid (hops (path_new self rnd rcs t)))"
    using d by (simp add: path_new_def path_hops_rxids [OF assms(1)] distinct_map)
qed

lemma relay_ready_serves:
  assumes "relay_serves S net ids rids (router_id h)" and "hop_good h" and "{rxid h, txid h} \<subseteq> ids" and "upstream h \<in> rids"
  shows "relay_ready net h"
  using assms by (auto simp: relay_serves_def relay_ready_def hop_good_def has_transit_hop_obj_def Let_def)

lemma relay_ready_secrets:
  "secrets_set h h' \<Longrightarrow> relay_ready net h' = relay_ready net h"
  "secrets_set h h' \<Longrightarrow> hop_good h' = hop_good h"
  by (auto simp: relay_ready_def has_transit_hop_obj_def hop_good_def hop_sizes_def secrets_set_def)

lemma relay_serves_keys:
  assumes "sodium_laws S" and "relay_serves S net ids rids rid"
  obtains seed where "keys (net rid) = router_keys_of S seed" and "length rid = PUBKEY_SIZE"
  using assms length_ed25519_pubkey [OF assms(1)]
  by (auto simp: relay_serves_def router_keys_of_def Let_def)

text \<open>The conditions under which a client and the relays of a path can build it.\<close>

definition buildable ::
  "sodium \<Rightarrow> oxenc \<Rightarrow> network \<Rightarrow> (nat \<Rightarrow> hop_id) \<Rightarrow> relay_contact list \<Rightarrow> u32 \<Rightarrow> bool" where
  "buildable S X net rnd rcs l \<longleftrightarrow>
     sodium_laws S \<and> oxenc_laws X \<and> rcs \<noteq> [] \<and> length rcs \<le> BUILD_LENGTH \<and> lifetime_ok l \<and>
     path_draws_ok rnd (length rcs) \<and> distinct_adj (map rc_router_id rcs) \<and>
     (\<forall>rc \<in> set rcs. relay_serves S net (rnd ` {0..<length rcs}) (rc_router_id ` set rcs) (rc_router_id rc)) \<and>
     (\<forall>r. ctx_wf (path_ctx (net r)))"

lemma buildable_rid_length:
  assumes "buildable S X net rnd rcs l"
  shows "\<forall>rc \<in> set rcs. length (rc_router_id rc) = PUBKEY_SIZE"
  using assms unfolding buildable_def by (metis relay_serves_keys)

lemma path_new_frames_ok:
  assumes b: "buildable S X net rnd rcs l" and R: "\<forall>i. frame_rand_ok (R i)"
  shows "\<forall>i < length (hops (path_new self rnd rcs t)). frame_ok S X (R i)
      (keys (net (router_id (hops (path_new self rnd rcs t) ! i)))) (hops (path_new self rnd rcs t) ! i) l"
    and "\<forall>h \<in> set (hops (path_new self rnd rcs t)). relay_ready net h \<and> hop_good h"
proof -
  let ?p = "path_new self rnd rcs t"
  have serves: "relay_serves S net (rnd ` {0..<length rcs}) (rc_router_id ` set rcs) (router_id h)"
    if "h \<in> set (hops ?p)" for h
  proof -
    have "set (map router_id (hops ?p)) = set (map rc_router_id rcs)"
      by (simp add: path_new_def path_hops_router_ids del: set_map)
    with that have "router_id h \<in> rc_router_id ` set rcs" by auto
    with b show ?thesis by (auto simp: buildable_def)
  qed
  have good: "\<forall>h \<in> set (hops ?p). hop_good h \<and>
     {rxid h, txid h} \<subseteq> rnd ` {0..<length rcs} \<and> upstream h \<in> rc_router_id ` set rcs"
    by (rule path_new_hops) (use b buildable_rid_length [OF b] in \<open>auto simp: buildable_def\<close>)
  show "\<forall>h \<in> set (hops ?p). relay_ready net h \<and> hop_good h"
    using serves good by (intro ballI conjI relay_ready_serves [where S = S]) auto
  show "\<forall>i < length (hops ?p). frame_ok S X (R i) (keys (net (router_id (hops ?p ! i)))) (hops ?p ! i) l"
  proof (intro allI impI)
    fix i assume "i < length (hops ?p)"
    then have i: "hops ?p ! i \<in> set (hops ?p)" by simp
    obtain seed where "keys (net (router_id (hops ?p ! i))) = router_keys_of S seed"
      using serves [OF i] by (auto simp: relay_serves_def Let_def)
    moreover have "sodium_laws S" "oxenc_laws X" "lifetime_ok l" using b by (simp_all add: buildable_def)
    moreover have "hop_good (hops ?p ! i)" using good i by blast
    moreover have "rk_id (keys (net (router_id (hops ?p ! i)))) = router_id (hops ?p ! i)"
      using serves [OF i] by (simp add: relay_serves_def Let_def)
    ultimately show "frame_ok S X (R i) (keys (net (router_id (hops ?p ! i)))) (hops ?p ! i) l"
      using R by (intro frame_okI) simp_all
  qed
qed

lemma path_build_runs:
  assumes b: "buildable S X net rnd rcs (word_of_int (round_seconds (t - now)))"
    and R: "\<forall>i. frame_rand_ok (R i)" and pad: "length pad = (BUILD_LENGTH - length rcs) * BUILD_FRAME_SIZE"
    and junk: "\<forall>n. length (junk n) = BUILD_FRAME_SIZE"
  obtains p frames net' where
    "path_build_onion S X R pad now (path_new self rnd rcs t) = Inr (p, frames)"
    "map router_id (hops p) = map rc_router_id rcs" "hops_linked (PeerRelay self) (rnd 0) (hops p)" "nonces_wf (hops p)"
    "build_along S X now' junk (length rcs) net (router_id (edge p)) frames from = (net', RespOk (OK_RESPONSE X))"
    "installed net' from (hops p)" "\<forall>r. ctx_wf (path_ctx (net' r))" "\<forall>h \<in> set (hops p). hop_good h"
    "distinct (map rxid (hops p))"
proof -
  let ?p = "path_new self rnd rcs t" and ?l = "word_of_int (round_seconds (t - now)) :: u32"
  let ?K = "\<lambda>h :: transit_hop. keys (net (router_id h))"
  have xl: "xchacha20_laws S" and ne: "rcs \<noteq> []" and l: "lifetime_ok ?l"
    using b by (auto simp: buildable_def sodium_lawsD)
  note ok = path_new_frames_ok [OF b R, of self t]
  have simps: "length (hops ?p) = length rcs" "\<not> is_built ?p" "expires_in ?p now = t - now"
    by (simp_all add: path_new_def expires_in_def)
  obtain hs es where
    onion: "path_build_onion S X R pad now ?p = Inr (?p\<lparr>is_built := True, hops := hs\<rparr>, onion_spec S es @ pad)"
    and sec: "list_all2 secrets_set (hops ?p) hs" and les: "length es = length hs"
    and carr: "\<forall>i < length hs. frame_carries S X ?l (?K (hops ?p ! i)) (hs ! i) (es ! i)"
    and len: "length (onion_spec S es @ pad) = build_message_size"
    by (rule path_build_onion_ok [where S = S and p = ?p and now = now and X = X and R = R and junk = pad
          and K = ?K and l = ?l])
      (use b pad ok(1) simps xl in \<open>auto simp: buildable_def\<close>)
  have linked: "hops_linked (PeerRelay self) (rnd 0) hs"
    using secrets_set_linked [OF sec] path_hops_linked [OF ne] by (simp add: path_new_def)
  have ids: "map rxid hs = map rxid (hops ?p)" "map router_id hs = map rc_router_id rcs" "nonces_wf hs"
    using secrets_set_maps [OF sec] by (simp_all add: path_new_def path_hops_router_ids)
  have nth: "secrets_set (hops ?p ! i) (hs ! i)" if "i < length hs" for i
    using sec that by (auto simp: list_all2_conv_all_nth)
  have ready: "\<forall>h \<in> set hs. relay_ready net h \<and> hop_good h"
  proof
    fix h assume "h \<in> set hs"
    then obtain i where i: "i < length hs" "h = hs ! i" by (auto simp: in_set_conv_nth)
    with list_all2_lengthD [OF sec] have "relay_ready net (hops ?p ! i) \<and> hop_good (hops ?p ! i)"
      by (intro bspec [OF ok(2)]) simp
    with i show "relay_ready net h \<and> hop_good h" by (simp add: relay_ready_secrets [OF nth])
  qed
  have carr': "list_all2 (\<lambda>h e. frame_carries S X ?l (keys (net (router_id h))) h e) hs es"
    using carr les by (simp add: list_all2_conv_all_nth secrets_set_keeps [OF nth])
  note run = build_along_ok [OF xl l junk linked _ carr' len, of now' "from"] ready
  have dist: "distinct (map rxid hs)" "distinct_adj (map router_id hs)"
    using path_new_hops(2) [OF ne _ _ buildable_rid_length [OF b], of rnd self t] b ids
    by (simp_all add: buildable_def)
  have "(\<forall>r. ctx_wf (path_ctx (store_hops ?l now' from hs net r))) \<and> installed (store_hops ?l now' from hs net) from hs"
    using store_hops_lookup [OF disjI2 [OF linked] dist, of net ?l now' "from"] b ready by (simp add: buildable_def)
  moreover have "length hs = length rcs" "edge (?p\<lparr>is_built := True, hops := hs\<rparr>) = hd hs"
    using ids(2) by (auto simp: edge_def dest: map_eq_imp_length_eq)
  ultimately show thesis
    using that [of "?p\<lparr>is_built := True, hops := hs\<rparr>" "onion_spec S es @ pad"] onion ids linked run dist by simp
qed

end
