(* ===== verification/Net_Control.thy ===== *)
theory Net_Control
  imports Net_Build
begin

text \<open>
  Path control requests across a network with an installed path: the client's request is peeled
  hop by hop, answered at the terminus, and the answer is wrapped hop by hop on its way back
  until the client opens it.
\<close>

section \<open>The composition\<close>

text \<open>
  Delivery of a \<^verbatim>\<open>path_control\<close> command.  \<open>answer\<close> is what the invoked request handler at the
  terminus responds, if it does; \<open>rn\<close> is the responder's random nonce.  The number bounds
  the relays visited.
\<close>

fun control_along ::
  "sodium \<Rightarrow> oxenc \<Rightarrow> (path_request \<Rightarrow> bytes option) \<Rightarrow> symm_nonce \<Rightarrow> nat \<Rightarrow> network \<Rightarrow> router_id \<Rightarrow> bytes \<Rightarrow> response" where
  "control_along S X answer rn 0 net target msg = RespTimeout"
| "control_along S X answer rn (Suc n) net target msg =
     (case handle_path_control S X (net target) msg of
        ControlError \<Rightarrow> RespError (ERROR_RESPONSE X)
      | ControlUndefined \<Rightarrow> RespTimeout
      | ControlRequest req hop type \<Rightarrow>
          (case answer req of
             None \<Rightarrow> RespTimeout
           | Some b \<Rightarrow> to_response (map_option (\<lambda>m. (m, False)) (control_responder S (Some hop) type rn b)))
      | ControlForward (PeerConn c) payload hop type \<Rightarrow> RespTimeout
      | ControlForward (PeerRelay next) payload hop type \<Rightarrow>
          (case control_response_relay S X (Some hop) type (control_along S X answer rn n net next payload) of
             [] \<Rightarrow> RespTimeout
           | out # _ \<Rightarrow> to_response (Some out)))"

section \<open>One relay\<close>

text \<open>The wire format of a control message.\<close>

definition path_message :: "bytes \<times> symm_nonce \<Rightarrow> hop_id \<Rightarrow> byte \<Rightarrow> bytes" where
  "path_message m hopid type = fst m @ snd m @ hopid @ [type]"

lemma split_path_message [buf_simps]:
  "length (snd m) = SYMM_NONCE_SIZE \<Longrightarrow> length hopid = HOPID_SIZE \<Longrightarrow>
     split_span_tail [SYMM_NONCE_SIZE, HOPID_SIZE, 1] (path_message m hopid type) = Some (fst m, [snd m, hopid, [type]])"
  by (simp add: path_message_def split_span_tail_append)

lemma length_path_message [buf_simps]:
  "length (snd m) = SYMM_NONCE_SIZE \<Longrightarrow> length hopid = HOPID_SIZE \<Longrightarrow>
     length (path_message m hopid type) = length (fst m) + ENCRYPT_PATH_MESSAGE_OVERHEAD"
  by (simp add: path_message_def overhead_defs)

lemmas path_message_simps = split_path_message split_path_message [simplified] length_path_message

lemma control_forward:
  assumes inst: "hop_installed net from h" and "\<not> terminal_hop h" and "length (rxid h) = HOPID_SIZE"
    and "length (snd m) = SYMM_NONCE_SIZE" and "TAG_SIZE < length (fst m)"
  obtains g where "hop_agrees h g"
    "handle_path_control S X (net (router_id h)) (path_message m (rxid h) 1) =
       ControlForward (PeerRelay (upstream h)) (path_message (peel_layer S h m) (txid h) 1) g 1"
proof -
  from inst obtain g where g: "get_transit_hop (path_ctx (net (router_id h))) (rxid h) = Some g" "hop_agrees h g"
    by (auto simp: hop_installed_def)
  have "handle_path_control S X (net (router_id h)) (path_message m (rxid h) 1) =
      ControlForward (PeerRelay (upstream h)) (path_message (peel_layer S h m) (txid h) 1) g 1"
    using assms g
    by (simp add: handle_path_control_def path_message_simps ENCRYPT_PATH_MESSAGE_OVERHEAD_MAC_def hop_agrees_def
        next_id_def Let_def) (simp add: peel_layer_def path_message_def Let_def)
  with g that show thesis by simp
qed

lemma control_terminal:
  assumes inst: "hop_installed net from h" and "terminal_hop h" and "length (rxid h) = HOPID_SIZE"
    and "length (snd m) = SYMM_NONCE_SIZE" and "TAG_SIZE < length (fst m)"
    and "xchacha20_poly1305_decrypt_inplace S (fst m) (shared_secret h) (buf_xor (snd m) (xor_nonce h)) [] = Some payload"
  obtains g where "hop_agrees h g"
    "handle_path_control S X (net (router_id h)) (path_message m (rxid h) 1) =
       ControlRequest (handle_path_request X payload) g 1"
proof -
  from inst obtain g where g: "get_transit_hop (path_ctx (net (router_id h))) (rxid h) = Some g" "hop_agrees h g"
    by (auto simp: hop_installed_def)
  with assms that [of g] show thesis
    by (simp add: handle_path_control_def path_message_simps ENCRYPT_PATH_MESSAGE_OVERHEAD_MAC_def hop_agrees_def Let_def)
qed

lemma control_back:
  assumes "hop_agrees h g" and "length (txid h) = HOPID_SIZE" and "length (snd m) = SYMM_NONCE_SIZE" and "fst m \<noteq> []"
  shows "control_response_relay S X (Some g) 1 (RespOk (path_message m (txid h) 1)) =
     [(path_message (wrap_layer S h m) (rxid h) 1, False)]"
  using assms
  by (simp add: control_response_relay_def path_message_simps hop_agrees_def Let_def)
    (simp add: path_message_def wrap_layer_def)

section \<open>The whole path\<close>

text \<open>The sealed form of a message for the terminus, under all layers of the path.\<close>

definition sealed :: "sodium \<Rightarrow> transit_hop list \<Rightarrow> bytes \<Rightarrow> symm_nonce \<Rightarrow> bytes \<times> symm_nonce" where
  "sealed S hs c n = fold (wrap_layer S) (rev (butlast hs)) (c, buf_xor n (xor_nonce (last hs)))"

lemma sealed_Cons: "hs \<noteq> [] \<Longrightarrow> sealed S (h # hs) c n = wrap_layer S h (sealed S hs c n)"
  by (simp add: sealed_def)

lemma sealed_single: "sealed S [h] c n = (c, buf_xor n (xor_nonce h))"
  by (simp add: sealed_def)

lemma nonces_wf_butlast: "nonces_wf hs \<Longrightarrow> nonces_wf (butlast hs)"
  by (auto simp: nonces_wf_def dest: in_set_butlastD)

lemma nonces_wf_last: "nonces_wf hs \<Longrightarrow> hs \<noteq> [] \<Longrightarrow> length (xor_nonce (last hs)) = SYMM_NONCE_SIZE"
  by (simp add: nonces_wf_def)

lemma length_sealed [simp]:
  assumes "xchacha20_laws S" and "nonces_wf hs" and "hs \<noteq> []" and "length n = SYMM_NONCE_SIZE"
  shows "length (fst (sealed S hs c n)) = length c" "length (snd (sealed S hs c n)) = SYMM_NONCE_SIZE"
  using assms by (simp_all add: sealed_def nonces_wf_butlast nonces_wf_last)

definition aead_seal :: "sodium \<Rightarrow> bytes \<Rightarrow> symm_key \<Rightarrow> symm_nonce \<Rightarrow> bytes" where
  "aead_seal S p k n = aead_xchacha20poly1305_encrypt S p [] n k"

lemma aead_seal_facts:
  assumes "aead_laws S"
  shows "xchacha20_poly1305_encrypt_inplace S (p @ replicate TAG_SIZE 0) k n [] = Some (aead_seal S p k n)"
    "xchacha20_poly1305_decrypt_inplace S (aead_seal S p k n) k n [] = Some p"
    "length (aead_seal S p k n) = length p + TAG_SIZE"
  using assms
  by (simp_all add: aead_seal_def aead_laws_def xchacha20_poly1305_encrypt_inplace_def
      xchacha20_poly1305_decrypt_inplace_def)

definition ids_sized :: "transit_hop list \<Rightarrow> bool" where
  "ids_sized hs \<longleftrightarrow> (\<forall>h \<in> set hs. length (rxid h) = HOPID_SIZE \<and> length (txid h) = HOPID_SIZE)"

lemma control_along_ok:
  assumes laws: "xchacha20_laws S" "aead_laws S" and n: "length n = SYMM_NONCE_SIZE" and rn: "length rn = SYMM_NONCE_SIZE"
    and ans: "answer (handle_path_request X P) = Some b" and P: "P \<noteq> []"
    and "hops_linked prev rx hs" and "installed net from hs" and "nonces_wf hs" and "ids_sized hs"
    and "k = shared_secret (last hs)"
  shows "control_along S X answer rn (length hs) net (router_id (hd hs))
       (path_message (sealed S hs (aead_seal S P k n) n) (rxid (hd hs)) 1) =
     RespOk (path_message (sealed S hs (aead_seal S b k rn) rn) (rxid (hd hs)) 1)"
  using assms(7-)
proof (induction prev rx hs arbitrary: "from" rule: hops_linked.induct)
  case (2 prev rx h)
  note seal = aead_seal_facts [OF laws(2)]
  have nn: "length (xor_nonce h) = SYMM_NONCE_SIZE" using 2 by simp
  obtain g where g: "hop_agrees h g"
    "handle_path_control S X (net (router_id h)) (path_message (sealed S [h] (aead_seal S P k n) n) (rxid h) 1) =
       ControlRequest (handle_path_request X P) g 1"
    by (rule control_terminal [of net "from" h "sealed S [h] (aead_seal S P k n) n"])
      (use 2 n nn seal P in \<open>auto simp: sealed_single ids_sized_def buf_xor_cancel\<close>)
  then show ?case
    using 2 ans seal(1)
    by (simp add: control_responder_def to_response_def hop_agrees_def path_message_def sealed_single)
next
  case (3 prev rx h h' hs)
  note seal = aead_seal_facts [OF laws(2)]
  let ?m = "sealed S (h' # hs) (aead_seal S P k n) n" and ?r = "sealed S (h' # hs) (aead_seal S b k rn) rn"
  have wf: "length (xor_nonce h) = SYMM_NONCE_SIZE" "nonces_wf (h' # hs)" "ids_sized (h' # hs)"
    "length (rxid h) = HOPID_SIZE" "length (txid h) = HOPID_SIZE"
    using 3 by (auto simp: ids_sized_def)
  have link: "hops_linked (PeerRelay (router_id h)) (txid h) (h' # hs)" "upstream h = router_id h'" "\<not> terminal_hop h"
    "rxid h' = txid h"
    using 3 linked_hd [of "PeerRelay (router_id h)" "txid h" "h' # hs"] by auto
  have inst: "hop_installed net from h" "installed net (PeerRelay (router_id h)) (h' # hs)" using 3 by simp_all
  have k: "k = shared_secret (last (h' # hs))" using 3 by simp
  note ih = "3.IH" [OF link(1) inst(2) wf(2,3) k, unfolded list.sel link(4)]
  have lm: "length (snd ?m) = SYMM_NONCE_SIZE" "length (snd ?r) = SYMM_NONCE_SIZE" "fst ?r \<noteq> []"
    "TAG_SIZE < length (fst (sealed S (h # h' # hs) (aead_seal S P k n) n))"
    "length (snd (sealed S (h # h' # hs) (aead_seal S P k n) n)) = SYMM_NONCE_SIZE"
    using laws(1) wf n rn P seal(3) length_sealed(1) [of S "h' # hs" rn "aead_seal S b k rn"]
    by (auto simp: size_defs simp flip: length_greater_0_conv)
  obtain g where g: "hop_agrees h g"
    "handle_path_control S X (net (router_id h)) (path_message (sealed S (h # h' # hs) (aead_seal S P k n) n) (rxid h) 1) =
       ControlForward (PeerRelay (upstream h))
         (path_message (peel_layer S h (sealed S (h # h' # hs) (aead_seal S P k n) n)) (txid h) 1) g 1"
    by (rule control_forward [OF inst(1) link(3) wf(4) lm(5,4)])
  have "peel_layer S h (sealed S (h # h' # hs) (aead_seal S P k n) n) = ?m"
    using laws(1) wf lm by (simp add: sealed_Cons)
  with g(2) link(2) have "control_along S X answer rn (length (h # h' # hs)) net (router_id h)
      (path_message (sealed S (h # h' # hs) (aead_seal S P k n) n) (rxid h) 1) =
      RespOk (path_message (wrap_layer S h ?r) (rxid h) 1)"
    by (simp add: ih [simplified] control_back [OF g(1) wf(5) lm(2,3)] to_response_def)
  then show ?case by (simp add: sealed_Cons)
qed simp

section \<open>The client's ends\<close>

lemma encrypt_path_message_sealed:
  assumes "aead_laws S" and "hops p \<noteq> []"
  shows "encrypt_path_message S p data n type True =
     Some (path_message (sealed S (hops p) (aead_seal S data (shared_secret (terminus p)) n) n) (rxid (edge p)) type)"
proof -
  have "rev (hops p) = last (hops p) # rev (butlast (hops p))"
    using assms(2) by (metis append_butlast_last_id rev_eq_Cons_iff rev_rev_ident)
  then have "encrypt_layers S True (rev (hops p)) (data @ replicate TAG_SIZE 0) n =
      Some (sealed S (hops p) (aead_seal S data (shared_secret (terminus p)) n) n)"
    by (simp only: encrypt_layers_mac aead_seal_facts(1) [OF assms(1)] sealed_def terminus_def option.map)
  then show ?thesis
    by (simp add: encrypt_path_message_def path_message_def split: prod.split)
qed

lemma decrypt_path_message_sealed:
  assumes laws: "xchacha20_laws S" "aead_laws S" and ne: "hops p \<noteq> []" and wf: "nonces_wf (hops p)"
    and n: "length n = SYMM_NONCE_SIZE" and h: "length hopid = HOPID_SIZE"
  shows "decrypt_path_message S p
     (path_message (sealed S (hops p) (aead_seal S b (shared_secret (terminus p)) n) n) hopid type) = b"
proof -
  let ?c = "aead_seal S b (shared_secret (terminus p)) n"
  let ?m = "sealed S (hops p) ?c n"
  let ?x = "xor_nonce (last (hops p))"
  note seal = aead_seal_facts [OF laws(2)]
  have len: "length (fst ?m) = length b + TAG_SIZE" "length (snd ?m) = SYMM_NONCE_SIZE" "length ?x = SYMM_NONCE_SIZE"
    using laws ne wf n seal(3) by (simp_all add: nonces_wf_last)
  have "fold (peel_layer S) (butlast (hops p)) ?m = (?c, buf_xor n ?x)"
    unfolding sealed_def using laws wf n len by (simp add: fold_peel_wrap nonces_wf_butlast)
  then have "decrypt_layers S (butlast (hops p) @ [last (hops p)]) (fst ?m) (snd ?m) = Some b"
    using seal(2) len n by (simp add: decrypt_layers_snoc terminus_def buf_xor_cancel)
  then have "decrypt_layers S (hops p) (fst ?m) (snd ?m) = Some b" using ne by simp
  then show ?thesis
    using len h
    by (simp add: decrypt_path_message_def path_message_simps ENCRYPT_PATH_MESSAGE_OVERHEAD_MAC_def)
qed

lemma handle_path_request_known:
  assumes "oxenc_laws X" and "name \<in> set path_requests"
  shows "handle_path_request X (bt_dict X [(''e'', BStr (string_bytes name)), (''p'', BStr req)]) = Invoke name req"
proof -
  obtain c0 c1 c2 where "bt_open X (bt_dict X [(''e'', BStr (string_bytes name)), (''p'', BStr req)]) = Some c0"
    "bt_require_str X ''e'' c0 = Some (string_bytes name, c1)" "bt_require_str X ''p'' c1 = Some (req, c2)"
    by (rule bt_read2 [of X "''e''" "''p''"]) (use assms(1) in \<open>auto simp: oxenc_laws_def\<close>)
  moreover have "find (\<lambda>n. n = name) path_requests = Some name"
    using assms(2) by (auto simp: path_requests_def)
  ultimately show ?thesis by (simp add: handle_path_request_def)
qed

text \<open>A path in working order: linked hops, sized ids and nonces, and every relay knows its hop.\<close>

definition path_working :: "network \<Rightarrow> peer \<Rightarrow> path \<Rightarrow> bool" where
  "path_working net from p \<longleftrightarrow>
     (\<exists>prev rx. hops_linked prev rx (hops p)) \<and> installed net from (hops p) \<and> nonces_wf (hops p) \<and>
     ids_sized (hops p) \<and> (\<forall>h \<in> set (hops p). terminal_hop h \<longleftrightarrow> txid h = rxid h)"

lemma path_working_ne: "path_working net from p \<Longrightarrow> hops p \<noteq> []"
  by (auto simp: path_working_def)

lemma control_round_trip:
  assumes laws: "sodium_laws S" "oxenc_laws X" and work: "path_working net from p"
    and n: "length n = SYMM_NONCE_SIZE" and rn: "length rn = SYMM_NONCE_SIZE"
    and name: "name \<in> set path_requests" and ans: "answer (Invoke name req) = Some b"
  obtains msg where
    "send_path_control_message S X p (string_bytes name) req n = Some (SendCommand (PeerRelay (router_id (edge p))) ''path_control'' msg)"
    "control_response S (Some p) (control_along S X answer rn (length (hops p)) net (router_id (edge p)) msg) =
       \<lparr>pcr_body = b, pcr_timed_out = False, pcr_error = False\<rparr>"
proof -
  let ?P = "bt_dict X [(''e'', BStr (string_bytes name)), (''p'', BStr req)]"
  let ?k = "shared_secret (terminus p)"
  let ?msg = "path_message (sealed S (hops p) (aead_seal S ?P ?k n) n) (rxid (edge p)) MSG_CONTROL"
  have l: "xchacha20_laws S" "aead_laws S" using laws by (simp_all add: sodium_lawsD)
  have P: "?P \<noteq> []" using laws by (simp add: oxenc_laws_def bt_size_law_def)
  have ne: "hops p \<noteq> []" by (rule path_working_ne [OF work])
  have rx: "length (rxid (edge p)) = HOPID_SIZE"
    using work ne by (simp add: path_working_def ids_sized_def edge_def)
  have "control_along S X answer rn (length (hops p)) net (router_id (edge p)) ?msg =
      RespOk (path_message (sealed S (hops p) (aead_seal S b ?k rn) rn) (rxid (edge p)) 1)"
    using work n rn ans P handle_path_request_known [OF laws(2) name]
    unfolding path_working_def edge_def MSG_CONTROL_def
    by (auto intro!: control_along_ok [OF l] simp: terminus_def)
  then have "control_response S (Some p) (control_along S X answer rn (length (hops p)) net (router_id (edge p)) ?msg) =
       \<lparr>pcr_body = b, pcr_timed_out = False, pcr_error = False\<rparr>"
    using decrypt_path_message_sealed [OF l ne _ rn rx] work by (simp add: control_response_def path_working_def)
  moreover have "send_path_control_message S X p (string_bytes name) req n =
      Some (SendCommand (PeerRelay (router_id (edge p))) ''path_control'' ?msg)"
    using encrypt_path_message_sealed [OF l(2) ne] by (simp add: send_path_control_message_def)
  ultimately show thesis using that by blast
qed

text \<open>A built path is in working order.\<close>

lemma path_build_works:
  assumes "buildable S X net rnd rcs (word_of_int (round_seconds (t - now)))"
    and "\<forall>i. frame_rand_ok (R i)" and "length pad = (BUILD_LENGTH - length rcs) * BUILD_FRAME_SIZE"
    and "\<forall>n. length (junk n) = BUILD_FRAME_SIZE"
  obtains p frames net' where
    "path_build_onion S X R pad now (path_new self rnd rcs t) = Inr (p, frames)"
    "map router_id (hops p) = map rc_router_id rcs"
    "build_along S X now' junk (length rcs) net (router_id (edge p)) frames from = (net', RespOk (OK_RESPONSE X))"
    "path_working net' from p"
proof -
  from assms obtain p frames net' where
    "path_build_onion S X R pad now (path_new self rnd rcs t) = Inr (p, frames)"
    "map router_id (hops p) = map rc_router_id rcs" "hops_linked (PeerRelay self) (rnd 0) (hops p)" "nonces_wf (hops p)"
    "build_along S X now' junk (length rcs) net (router_id (edge p)) frames from = (net', RespOk (OK_RESPONSE X))"
    "installed net' from (hops p)" "\<forall>h \<in> set (hops p). hop_good h"
    by (rule path_build_runs)
  then show thesis
    by (intro that [of p frames net']) (auto simp: path_working_def ids_sized_def hop_good_def hop_sizes_def)
qed

end
