(* ===== verification/Net_Session.thy ===== *)
theory Net_Session
  imports Net_Control
begin

text \<open>
  Session messages across a network: from the sending client up its path to the pivot, and from the
  pivot down the aligned path of the receiving client, who recovers payload, tag and nonce.
\<close>

section \<open>The composition\<close>

text \<open>Where a session message ends up.\<close>

datatype delivery =
    AtRelay router_id session_outcome
  | ToClient nat bytes \<comment> \<open>on the connection of a client\<close>
  | NotDelivered

text \<open>Datagrams and \<^verbatim>\<open>session_control\<close> commands enter by different handlers.\<close>

definition receive_session :: "sodium \<Rightarrow> oxenc \<Rightarrow> bool \<Rightarrow> router_state \<Rightarrow> bytes \<Rightarrow> session_outcome" where
  "receive_session S X control r msg =
     (if control then handle_path_session_control S X r msg else handle_session_message S X r msg False)"

text \<open>
  Delivery to \<open>target\<close>, followed by the sends it causes; the number bounds the relays visited.
\<close>

fun session_along :: "sodium \<Rightarrow> oxenc \<Rightarrow> bool \<Rightarrow> nat \<Rightarrow> network \<Rightarrow> router_id \<Rightarrow> bytes \<Rightarrow> delivery" where
  "session_along S X control 0 net target msg = NotDelivered"
| "session_along S X control (Suc n) net target msg =
     (case receive_session S X control (net target) msg of
        SessionSend (SendDatagram (PeerRelay r) m) \<Rightarrow> session_along S X control n net r m
      | SessionSend (SendCommand (PeerRelay r) _ m) \<Rightarrow> session_along S X control n net r m
      | SessionSend (SendDatagram (PeerConn c) m) \<Rightarrow> ToClient c m
      | SessionSend (SendCommand (PeerConn c) _ m) \<Rightarrow> ToClient c m
      | out \<Rightarrow> AtRelay target out)"

definition session_continue :: "sodium \<Rightarrow> oxenc \<Rightarrow> bool \<Rightarrow> nat \<Rightarrow> network \<Rightarrow> peer \<Rightarrow> bytes \<Rightarrow> delivery" where
  "session_continue S X control n net to m =
     (case to of PeerRelay r \<Rightarrow> session_along S X control n net r m | PeerConn c \<Rightarrow> ToClient c m)"

lemma session_along_forward:
  "receive_session S X control (net target) msg = session_forward control to m \<Longrightarrow>
     session_along S X control (Suc n) net target msg = session_continue S X control n net to m"
  by (cases to) (simp_all add: session_forward_def session_continue_def)

section \<open>One relay\<close>

lemma extract_path_message:
  assumes "length (snd m) = SYMM_NONCE_SIZE" and "length hopid = HOPID_SIZE" and "HOPID_SIZE < length (fst m)"
  shows "extract_path_message_metadata (path_message m hopid type) = Some (hopid, snd m, type, fst m)"
  using assms
  by (simp add: extract_path_message_metadata_def path_message_def MIN_PATH_DATA_MESSAGE_SIZE_def overhead_defs
      butlast_append Let_def)

lemma receive_session_eq:
  assumes "length (snd m) = SYMM_NONCE_SIZE" and "length hopid = HOPID_SIZE" and "HOPID_SIZE < length (fst m)"
  shows "receive_session S X control r (path_message m hopid type) =
     handle_session_message S X r (path_message m hopid type) control"
  using assms
  by (simp add: receive_session_def handle_path_session_control_def length_path_message overhead_defs size_defs)

text \<open>Upwards: the message arrives under the rxid.\<close>

lemma session_up_step:
  assumes "hop_installed net from h" and "\<not> terminal_hop h" and "length (rxid h) = HOPID_SIZE"
    and "length (snd m) = SYMM_NONCE_SIZE" and "HOPID_SIZE < length (fst m)"
  shows "session_along S X control (Suc n) net (router_id h) (path_message m (rxid h) type) =
     session_along S X control n net (upstream h) (path_message (peel_layer S h m) (txid h) type)"
proof -
  from assms obtain g where g: "get_transit_hop (path_ctx (net (router_id h))) (rxid h) = Some g" "hop_agrees h g"
    "is_service_node (net (router_id h))"
    by (auto simp: hop_installed_def)
  have "handle_session_message S X (net (router_id h)) (path_message m (rxid h) type) control =
      session_forward control (PeerRelay (upstream h)) (path_message (peel_layer S h m) (txid h) type)"
    using assms g
    by (simp add: handle_session_message_def extract_path_message hop_agrees_def next_id_def Let_def)
      (simp add: peel_layer_def path_message_def Let_def)
  then show ?thesis
    using assms by (simp add: session_along_forward receive_session_eq session_continue_def del: session_along.simps)
qed

text \<open>At the terminus.\<close>

lemma session_at_terminal:
  assumes "hop_installed net from h" and "terminal_hop h" and "length (rxid h) = HOPID_SIZE"
    and "length (snd m) = SYMM_NONCE_SIZE" and "HOPID_SIZE < length (fst m)"
  shows "receive_session S X control (net (router_id h)) (path_message m (rxid h) type) =
     session_message_terminal S X (net (router_id h)) control (rxid h) (snd (peel_layer S h m)) type (fst (peel_layer S h m))"
proof -
  from assms obtain g where g: "get_transit_hop (path_ctx (net (router_id h))) (rxid h) = Some g" "hop_agrees h g"
    "is_service_node (net (router_id h))"
    by (auto simp: hop_installed_def)
  with assms show ?thesis
    by (simp add: receive_session_eq handle_session_message_def extract_path_message hop_agrees_def Let_def)
      (simp add: peel_layer_def Let_def)
qed

text \<open>Downwards: the message arrives under the txid.\<close>

lemma session_down_step:
  assumes "hop_installed net from h" and "\<not> terminal_hop h" and "txid h \<noteq> rxid h" and "length (txid h) = HOPID_SIZE"
    and "length (snd m) = SYMM_NONCE_SIZE" and "HOPID_SIZE < length (fst m)"
  shows "session_along S X control (Suc n) net (router_id h) (path_message m (txid h) type) =
     session_continue S X control n net from (path_message (peel_layer S h m) (rxid h) type)"
proof -
  from assms obtain g where g: "get_transit_hop (path_ctx (net (router_id h))) (txid h) = Some g" "hop_agrees h g"
    "is_service_node (net (router_id h))" "downstream g = from"
    by (auto simp: hop_installed_def)
  have "handle_session_message S X (net (router_id h)) (path_message m (txid h) type) control =
      session_forward control from (path_message (peel_layer S h m) (rxid h) type)"
    using assms g
    by (simp add: handle_session_message_def extract_path_message hop_agrees_def next_id_def Let_def)
      (simp add: peel_layer_def path_message_def Let_def)
  then show ?thesis
    using assms by (simp add: session_along_forward receive_session_eq del: session_along.simps)
qed

section \<open>Up the path\<close>

lemma session_up:
  assumes xl: "xchacha20_laws S" and n: "length n = SYMM_NONCE_SIZE" and D: "HOPID_SIZE < length D"
    and "hops_linked prev rx hs" and "installed net from hs" and "nonces_wf hs" and "ids_sized hs"
  shows "session_along S X control (length hs + k) net (router_id (hd hs))
       (path_message (fold (wrap_layer S) (rev hs) (D, n)) (rxid (hd hs)) type) =
     session_along S X control (Suc k) net (router_id (last hs))
       (path_message (wrap_layer S (last hs) (D, n)) (rxid (last hs)) type)"
  using assms(4-)
proof (induction prev rx hs arbitrary: "from" rule: hops_linked.induct)
  case (3 prev rx h h' hs)
  let ?m = "fold (wrap_layer S) (rev (h' # hs)) (D, n)"
  have wf: "length (xor_nonce h) = SYMM_NONCE_SIZE" "nonces_wf (h' # hs)" "ids_sized (h' # hs)"
    "length (rxid h) = HOPID_SIZE"
    using 3 by (auto simp: ids_sized_def)
  have link: "hops_linked (PeerRelay (router_id h)) (txid h) (h' # hs)" "upstream h = router_id h'" "\<not> terminal_hop h"
    "rxid h' = txid h"
    using 3 linked_hd [of "PeerRelay (router_id h)" "txid h" "h' # hs"] by auto
  have inst: "hop_installed net from h" "installed net (PeerRelay (router_id h)) (h' # hs)" using 3 by simp_all
  have lm: "length (snd ?m) = SYMM_NONCE_SIZE" "length (fst ?m) = length D"
    using length_fold_wrap [OF xl, of "rev (h' # hs)" "(D, n)"] wf n by simp_all
  have w: "fold (wrap_layer S) (rev (h # h' # hs)) (D, n) = wrap_layer S h ?m" by simp
  have lw: "length (snd (wrap_layer S h ?m)) = SYMM_NONCE_SIZE" "HOPID_SIZE < length (fst (wrap_layer S h ?m))"
    using length_layer [OF xl wf(1) lm(1)] lm(2) D by simp_all
  have "session_along S X control (Suc (length (h' # hs) + k)) net (router_id h) (path_message (wrap_layer S h ?m) (rxid h) type) =
      session_along S X control (length (h' # hs) + k) net (upstream h) (path_message (peel_layer S h (wrap_layer S h ?m)) (txid h) type)"
    by (rule session_up_step [OF inst(1) link(3) wf(4) lw])
  also have "peel_layer S h (wrap_layer S h ?m) = ?m" by (rule peel_wrap [OF xl wf(1) lm(1)])
  finally show ?case
    using "3.IH" [OF link(1) inst(2) wf(2,3)] link(2,4) by (simp add: w del: session_along.simps)
qed (simp_all del: session_along.simps)

section \<open>Down the path\<close>

definition last_peer :: "peer \<Rightarrow> transit_hop list \<Rightarrow> peer" where
  "last_peer from hs = (if hs = [] then from else PeerRelay (router_id (last hs)))"

lemma installed_append:
  "installed net from (hs @ hs') \<longleftrightarrow> installed net from hs \<and> installed net (last_peer from hs) hs'"
  by (induction hs arbitrary: "from") (auto simp: last_peer_def)

text \<open>The inner hops of a path between the receiving id of the edge and that of the terminus.\<close>

fun chained :: "hop_id \<Rightarrow> transit_hop list \<Rightarrow> hop_id \<Rightarrow> bool" where
  "chained rx [] nx \<longleftrightarrow> rx = nx"
| "chained rx (h # hs) nx \<longleftrightarrow> rxid h = rx \<and> \<not> terminal_hop h \<and> txid h \<noteq> rxid h \<and> chained (txid h) hs nx"

lemma chained_snoc:
  "chained rx (hs @ [h]) nx \<longleftrightarrow> chained rx hs (rxid h) \<and> \<not> terminal_hop h \<and> txid h \<noteq> rxid h \<and> txid h = nx"
  by (induction hs arbitrary: rx) auto

lemma linked_chained:
  assumes "hops_linked prev rx hs" and "\<forall>h \<in> set hs. terminal_hop h \<longleftrightarrow> txid h = rxid h"
  shows "chained rx (butlast hs) (rxid (last hs)) \<and> terminal_hop (last hs) \<and> txid (last hs) = rxid (last hs)"
  using assms by (induction prev rx hs rule: hops_linked.induct) auto

lemma session_down:
  assumes xl: "xchacha20_laws S"
    and "chained rx hs nx" and "installed net (PeerConn c) hs" and "nonces_wf hs" and "ids_sized hs"
    and "length (snd m) = SYMM_NONCE_SIZE" and "HOPID_SIZE < length (fst m)"
  shows "session_continue S X control (length hs + k) net (last_peer (PeerConn c) hs) (path_message m nx type) =
     ToClient c (path_message (fold (peel_layer S) (rev hs) m) rx type)"
  using assms(2-)
proof (induction hs arbitrary: nx m rule: rev_induct)
  case Nil
  then show ?case by (simp add: session_continue_def last_peer_def)
next
  case (snoc h hs)
  then have ch: "chained rx hs (rxid h)" "\<not> terminal_hop h" "txid h \<noteq> rxid h" "nx = txid h"
    by (auto simp: chained_snoc)
  have wf: "length (xor_nonce h) = SYMM_NONCE_SIZE" "nonces_wf hs" "ids_sized hs" "length (txid h) = HOPID_SIZE"
    using snoc.prems by (auto simp: ids_sized_def)
  have inst: "installed net (PeerConn c) hs" "hop_installed net (last_peer (PeerConn c) hs) h"
    using snoc.prems by (simp_all add: installed_append)
  note len = length_layer(3,4) [OF xl wf(1) snoc.prems(5)]
  have "session_continue S X control (length (hs @ [h]) + k) net (last_peer (PeerConn c) (hs @ [h])) (path_message m nx type) =
      session_along S X control (Suc (length hs + k)) net (router_id h) (path_message m (txid h) type)"
    by (simp add: session_continue_def last_peer_def ch del: session_along.simps)
  also have "\<dots> = session_continue S X control (length hs + k) net (last_peer (PeerConn c) hs)
      (path_message (peel_layer S h m) (rxid h) type)"
    by (rule session_down_step [OF inst(2) ch(2,3) wf(4) snoc.prems(5,6)])
  also have "\<dots> = ToClient c (path_message (fold (peel_layer S) (rev hs) (peel_layer S h m)) rx type)"
    by (rule snoc.IH [OF ch(1) inst(1) wf(2,3)]) (use len snoc.prems in simp_all)
  finally show ?case by simp
qed

section \<open>The ends\<close>

lemma client_layers_fold: "client_layers S hs m n = fold (wrap_layer S) hs (m, n)"
  by (induction hs arbitrary: m n) (simp_all add: wrap_layer_def)

text \<open>The body of a session message: encrypted payload, session tag, pivot id.\<close>

definition session_body :: "oxenc \<Rightarrow> bytes \<Rightarrow> session_tag \<Rightarrow> hop_id \<Rightarrow> bytes" where
  "session_body X enc tag pivot = enc @ big32 X tag @ pivot"

lemma split_session_body:
  assumes "endian_laws X" and "length pivot = HOPID_SIZE"
  shows "split_span_tail [4, HOPID_SIZE] (session_body X enc tag pivot) = Some (enc, [big32 X tag, pivot])"
  using assms by (simp add: session_body_def endian_laws_def split_span_tail_append2)

text \<open>Case 3 at the pivot.\<close>

lemma session_pivot:
  assumes "endian_laws X" and "hop_installed net from t" and "length (rxid t) = HOPID_SIZE" and "rxid t \<noteq> hopid"
  shows "session_message_terminal S X (net (router_id t)) control hopid n type (session_body X enc tag (rxid t)) =
     session_forward control from (path_message (peel_layer S t (enc @ big32 X tag, n)) (rxid t) type)"
proof -
  from assms(2) obtain g where "get_transit_hop (path_ctx (net (router_id t))) (rxid t) = Some g"
    "hop_agrees t g" "downstream g = from"
    by (auto simp: hop_installed_def)
  with assms show ?thesis
    by (simp add: session_message_terminal_def split_session_body hop_agrees_def Let_def)
      (simp add: peel_layer_def path_message_def Let_def)
qed

text \<open>Case 2 at the terminus.\<close>

lemma session_consumed:
  assumes "endian_laws X" and "length hopid = HOPID_SIZE" and "\<not> unknown_message_type type control"
  shows "session_message_terminal S X r control hopid n type (session_body X enc tag hopid) =
     session_deliver type control enc tag n (FromHop hopid)"
  using assms by (simp add: session_message_terminal_def split_session_body endian_laws_def)

text \<open>Case 1: the receiving client.\<close>

lemma session_client:
  assumes laws: "xchacha20_laws S" "endian_laws X" and c: "\<not> is_service_node r" "get_path (path_ctx r) rx = Some q"
    and rx: "length rx = HOPID_SIZE" and wf: "nonces_wf (hops q)" and n: "length n = SYMM_NONCE_SIZE"
    and enc: "12 < length enc" and ty: "\<not> unknown_message_type type control"
  shows "receive_session S X control r
       (path_message (fold (peel_layer S) (rev (hops q)) (enc @ big32 X tag, n)) rx type) =
     session_deliver type control enc tag n (FromPath rx)"
proof -
  let ?m = "fold (peel_layer S) (rev (hops q)) (enc @ big32 X tag, n)"
  have tag: "length (big32 X tag) = 4" "load_big32 X (big32 X tag) = tag" using laws(2) by (simp_all add: endian_laws_def)
  have len: "length (snd ?m) = SYMM_NONCE_SIZE" "length (fst ?m) = length enc + 4"
    using length_fold_peel [OF laws(1), of "rev (hops q)" "(enc @ big32 X tag, n)"] wf n tag by simp_all
  have "fold (wrap_layer S) (hops q) ?m = (enc @ big32 X tag, n)"
    using fold_wrap_peel [OF laws(1) wf, of "(enc @ big32 X tag, n)"] n by simp
  then have cl: "client_layers S (hops q) (fst ?m) (snd ?m) = (enc @ big32 X tag, n)"
    by (simp add: client_layers_fold)
  have "HOPID_SIZE < length (fst ?m)" using len enc by (simp add: size_defs)
  then show ?thesis
    using len rx c ty tag cl
    by (simp add: receive_session_eq handle_session_message_def extract_path_message session_message_client_def)
qed

section \<open>End to end\<close>

lemma path_working_parts:
  assumes "path_working net from p"
  obtains prev rx where "hops_linked prev rx (hops p)" "chained (rxid (edge p)) (butlast (hops p)) (rxid (terminus p))"
    "terminal_hop (terminus p)" "terminal_hopid p = rxid (terminus p)" "hop_installed net (last_peer from (butlast (hops p))) (terminus p)"
    "installed net from (butlast (hops p))" "nonces_wf (butlast (hops p))" "ids_sized (butlast (hops p))"
    "length (rxid (terminus p)) = HOPID_SIZE" "length (xor_nonce (terminus p)) = SYMM_NONCE_SIZE"
    "length (rxid (edge p)) = HOPID_SIZE" "hops p = butlast (hops p) @ [terminus p]"
proof -
  from assms obtain prev rx where l: "hops_linked prev rx (hops p)" by (auto simp: path_working_def)
  then have ne: "hops p \<noteq> []" and rx: "rxid (edge p) = rx" using linked_hd [OF l] by (simp_all add: edge_def)
  then have eq: "hops p = butlast (hops p) @ [terminus p]" by (simp add: terminus_def)
  have "installed net from (butlast (hops p) @ [terminus p])" using assms eq by (simp add: path_working_def)
  moreover have "chained rx (butlast (hops p)) (rxid (last (hops p))) \<and> terminal_hop (last (hops p)) \<and>
      txid (last (hops p)) = rxid (last (hops p))"
    by (rule linked_chained [OF l]) (use assms in \<open>simp add: path_working_def\<close>)
  moreover have "nonces_wf (butlast (hops p) @ [terminus p])" using assms eq by (simp add: path_working_def)
  moreover have "ids_sized (butlast (hops p))" "length (rxid (terminus p)) = HOPID_SIZE" "length (rxid (edge p)) = HOPID_SIZE"
    using assms ne by (auto simp: path_working_def ids_sized_def terminus_def edge_def dest: in_set_butlastD)
  ultimately show thesis
    using that [OF l] rx eq by (simp add: installed_append terminal_hopid_def terminus_def)
qed

text \<open>What a client sends reaches the terminus of its path as sent, with the original nonce.\<close>

lemma session_reaches_terminus:
  assumes xl: "xchacha20_laws S" and work: "path_working net from p" and n: "length n = SYMM_NONCE_SIZE"
    and D: "HOPID_SIZE < length D" and msg: "encrypt_path_message S p D n type False = Some msg"
  shows "session_along S X control (length (hops p) + k) net (router_id (edge p)) msg =
     (case session_message_terminal S X (net (terminal_rid p)) control (rxid (terminus p)) n type D of
        SessionSend (SendDatagram to m) \<Rightarrow> session_continue S X control k net to m
      | SessionSend (SendCommand to _ m) \<Rightarrow> session_continue S X control k net to m
      | out \<Rightarrow> AtRelay (terminal_rid p) out)"
proof -
  from work obtain prev rx where l: "hops_linked prev rx (hops p)" and t: "terminal_hop (terminus p)"
    "hop_installed net (last_peer from (butlast (hops p))) (terminus p)"
    "length (rxid (terminus p)) = HOPID_SIZE" "length (xor_nonce (terminus p)) = SYMM_NONCE_SIZE"
    by (rule path_working_parts)
  have w: "length (snd (wrap_layer S (terminus p) (D, n))) = SYMM_NONCE_SIZE"
    "HOPID_SIZE < length (fst (wrap_layer S (terminus p) (D, n)))"
    using xl t(4) n D by simp_all
  have "msg = path_message (fold (wrap_layer S) (rev (hops p)) (D, n)) (rxid (edge p)) type"
    using msg by (simp add: encrypt_path_message_plain path_message_def Let_def)
  then have "session_along S X control (length (hops p) + k) net (router_id (edge p)) msg =
      session_along S X control (Suc k) net (terminal_rid p) (path_message (wrap_layer S (terminus p) (D, n)) (rxid (terminus p)) type)"
    using session_up [OF xl n D l, of net "from" X control k type] work by (simp add: path_working_def edge_def terminus_def terminal_rid_def del: session_along.simps)
  moreover have "receive_session S X control (net (terminal_rid p)) (path_message (wrap_layer S (terminus p) (D, n)) (rxid (terminus p)) type) =
      session_message_terminal S X (net (terminal_rid p)) control (rxid (terminus p)) n type D"
    using session_at_terminal [OF t(2,1,3) w, of S X control] xl t(4) n by (simp add: terminal_rid_def)
  ultimately show ?thesis
    by (simp add: session_continue_def split: session_outcome.split link_send.split peer.split)
qed

text \<open>What the terminus of a client's path sends down that path reaches the client.\<close>

lemma session_back_down:
  assumes l: "xchacha20_laws S" "endian_laws X" and Q: "path_working net (PeerConn c) q"
    and n: "length n = SYMM_NONCE_SIZE" and enc: "12 < length enc" and ty: "\<not> unknown_message_type type control"
    and recv: "\<not> is_service_node r" "get_path (path_ctx r) (rxid (edge q)) = Some q"
  obtains m where
    "session_continue S X control (length (hops q)) net (last_peer (PeerConn c) (butlast (hops q)))
       (path_message (peel_layer S (terminus q) (enc @ big32 X tag, n)) (rxid (terminus q)) type) = ToClient c m"
    "receive_session S X control r m = session_deliver type control enc tag n (FromPath (rxid (edge q)))"
proof -
  from Q obtain prev rx where q: "chained (rxid (edge q)) (butlast (hops q)) (rxid (terminus q))"
    "terminal_hopid q = rxid (terminus q)" "hop_installed net (last_peer (PeerConn c) (butlast (hops q))) (terminus q)"
    "installed net (PeerConn c) (butlast (hops q))" "nonces_wf (butlast (hops q))" "ids_sized (butlast (hops q))"
    "length (rxid (terminus q)) = HOPID_SIZE" "length (xor_nonce (terminus q)) = SYMM_NONCE_SIZE"
    "length (rxid (edge q)) = HOPID_SIZE" "hops q = butlast (hops q) @ [terminus q]"
    by (rule path_working_parts)
  let ?e = "(enc @ big32 X tag, n)"
  let ?m1 = "peel_layer S (terminus q) ?e"
  have tag: "length (big32 X tag) = 4" using l(2) by (simp add: endian_laws_def)
  have m1: "length (snd ?m1) = SYMM_NONCE_SIZE" "HOPID_SIZE < length (fst ?m1)"
    using l(1) q(8) n enc tag by (simp_all add: size_defs)
  have "session_continue S X control (length (hops q)) net (last_peer (PeerConn c) (butlast (hops q))) (path_message ?m1 (rxid (terminus q)) type) =
      ToClient c (path_message (fold (peel_layer S) (rev (butlast (hops q))) ?m1) (rxid (edge q)) type)"
  proof -
    have "length (hops q) = length (butlast (hops q)) + 1" using q(10) by (metis length_append_singleton Suc_eq_plus1)
    with session_down [OF l(1) q(1,4,5,6) m1, of X control 1 type] show ?thesis by argo
  qed
  also have "fold (peel_layer S) (rev (butlast (hops q))) ?m1 = fold (peel_layer S) (rev (hops q)) ?e"
    by (subst q(10)) simp
  finally show thesis
    by (rule that) (rule session_client [OF l recv q(9) _ n enc ty], use Q in \<open>simp add: path_working_def\<close>)
qed

lemma session_end_to_end:
  assumes laws: "sodium_laws S" "oxenc_laws X" and P: "path_working net from p" and Q: "path_working net (PeerConn c) q"
    and pivot: "terminal_rid q = terminal_rid p" "terminal_hopid q \<noteq> terminal_hopid p"
    and n: "length n = SYMM_NONCE_SIZE" and enc: "12 < length enc" and ty: "\<not> unknown_message_type type control"
    and recv: "\<not> is_service_node r" "get_path (path_ctx r) (rxid (edge q)) = Some q"
    and msg: "encrypt_path_message S p (session_body X enc tag (terminal_hopid q)) n type False = Some msg"
  shows "\<exists>m. session_along S X control (length (hops p) + length (hops q)) net (router_id (edge p)) msg = ToClient c m \<and>
     receive_session S X control r m = session_deliver type control enc tag n (FromPath (rxid (edge q)))"
proof -
  have l: "xchacha20_laws S" "endian_laws X" using laws by (simp_all add: sodium_lawsD oxenc_laws_def)
  obtain tp where tp: "terminal_hopid p = rxid (terminus p)" using path_working_parts [OF P] by metis
  from Q obtain prev rx where q: "terminal_hopid q = rxid (terminus q)"
    "hop_installed net (last_peer (PeerConn c) (butlast (hops q))) (terminus q)" "length (rxid (terminus q)) = HOPID_SIZE"
    by (rule path_working_parts)
  let ?D = "session_body X enc tag (terminal_hopid q)"
  let ?m1 = "peel_layer S (terminus q) (enc @ big32 X tag, n)"
  have D: "HOPID_SIZE < length ?D" using enc l(2) q by (simp add: session_body_def size_defs endian_laws_def)
  have "session_message_terminal S X (net (terminal_rid p)) control (rxid (terminus p)) n type ?D =
      session_forward control (last_peer (PeerConn c) (butlast (hops q))) (path_message ?m1 (rxid (terminus q)) type)"
    using session_pivot [OF l(2) q(2,3)] pivot tp q(1) by (simp add: terminal_rid_def)
  then have "session_along S X control (length (hops p) + length (hops q)) net (router_id (edge p)) msg =
      session_continue S X control (length (hops q)) net (last_peer (PeerConn c) (butlast (hops q))) (path_message ?m1 (rxid (terminus q)) type)"
    using session_reaches_terminus [OF l(1) P n D msg] by (simp add: session_forward_def)
  with session_back_down [OF l Q n enc ty recv] show ?thesis by metis
qed

end
