(* ===== verification/Instances.thy ===== *)
theory Instances
  imports Net_Session
begin

text \<open>
  Concrete functions for the parameters that stand for libsodium and oxenc, with the proof that
  the laws the development assumes of them can hold together.  The serialisation is the real
  bencoding; the cipher, hash and curve functions are small
  stand-ins with the algebraic behaviour the laws describe.
\<close>

section \<open>Stand-ins for the primitives\<close>

definition fit :: "nat \<Rightarrow> bytes \<Rightarrow> bytes" where
  "fit n xs = take n (xs @ replicate n 0)"

definition mix :: "bytes \<Rightarrow> byte" where
  "mix xs = foldr (\<lambda>x a. 3 * a + x + 1) xs 7"

definition demo_stream :: "bytes \<Rightarrow> bytes \<Rightarrow> bytes \<Rightarrow> bytes" where
  "demo_stream d n k = map (\<lambda>b. b XOR mix (n @ k)) d"

definition demo_tag :: "bytes \<Rightarrow> bytes \<Rightarrow> bytes \<Rightarrow> bytes \<Rightarrow> bytes" where
  "demo_tag p ad n k = replicate TAG_SIZE (mix (p @ ad @ n @ k))"

definition demo_encrypt :: "bytes \<Rightarrow> bytes \<Rightarrow> bytes \<Rightarrow> bytes \<Rightarrow> bytes" where
  "demo_encrypt p ad n k = demo_stream p n k @ demo_tag p ad n k"

definition demo_decrypt :: "bytes \<Rightarrow> bytes \<Rightarrow> bytes \<Rightarrow> bytes \<Rightarrow> bytes option" where
  "demo_decrypt c ad n k =
     (let p = demo_stream (take (length c - TAG_SIZE) c) n k
      in if drop (length c - TAG_SIZE) c = demo_tag p ad n k then Some p else None)"

definition demo_mult :: "bytes \<Rightarrow> bytes \<Rightarrow> bytes option" where
  "demo_mult a p = Some (buf_xor (fit 32 a) (fit 32 p))"

definition demo_sodium :: sodium where
  "demo_sodium =
     \<lparr>stream_xchacha20_xor = demo_stream,
      aead_xchacha20poly1305_encrypt = demo_encrypt,
      aead_xchacha20poly1305_decrypt = demo_decrypt,
      generichash_blake2b = (\<lambda>n k p m. replicate n (mix (k @ p @ m))),
      sign_seed_keypair = (\<lambda>s. (fit 32 s, fit 32 s @ fit 32 s)),
      sign_ed25519_sk_to_curve25519 = take 32,
      sign_ed25519_pk_to_curve25519 = Some,
      scalarmult_ed25519 = demo_mult,
      scalarmult_ed25519_noclamp = demo_mult,
      core_ed25519_scalar_reduce = take 32,
      scalarmult_curve25519 = demo_mult,
      scalarmult_curve25519_base = fit 32\<rparr>"

lemma length_fit [simp]: "length (fit n xs) = n"
  by (simp add: fit_def)

lemma fit_fit [simp]: "fit n (fit n xs) = fit n xs"
  by (simp add: fit_def)

lemma take_fit [simp]: "take n (fit n xs) = fit n xs"
  by (simp add: fit_def)

lemma demo_stream_involution [simp]: "demo_stream (demo_stream d n k) n k = d"
  by (simp add: demo_stream_def comp_def xor.assoc)

lemma length_demo_stream [simp]: "length (demo_stream d n k) = length d"
  by (simp add: demo_stream_def)

lemma demo_sodium_laws: "sodium_laws demo_sodium"
proof -
  have "xchacha20_laws demo_sodium"
    by (simp add: xchacha20_laws_def demo_sodium_def) (simp add: demo_stream_def take_map)
  moreover have "aead_laws demo_sodium"
    by (simp add: aead_laws_def demo_sodium_def demo_encrypt_def demo_decrypt_def demo_tag_def Let_def)
  moreover have "hash_laws demo_sodium" by (simp add: hash_laws_def demo_sodium_def)
  moreover have "ed25519_laws demo_sodium"
    by (simp add: ed25519_laws_def demo_sodium_def demo_mult_def PUBKEY_SIZE_def buf_xor_commute)
  moreover have "x25519_laws demo_sodium"
    by (simp add: x25519_laws_def demo_sodium_def demo_mult_def PUBKEY_SIZE_def buf_xor_commute)
  ultimately show ?thesis by (simp add: sodium_laws_def)
qed

section \<open>Bencoding\<close>

subsection \<open>Writing\<close>

definition enc_str :: "bytes \<Rightarrow> bytes" where
  "enc_str s = dec (length s) @ [58] @ s"

definition enc_int :: "int \<Rightarrow> bytes" where
  "enc_int i = [105] @ (if i < 0 then [45] @ dec (nat (- i)) else dec (nat i)) @ [101]"

fun enc_value :: "bt_value \<Rightarrow> bytes" where
  "enc_value (BStr s) = enc_str s"
| "enc_value (BInt i) = enc_int i"
| "enc_value (BList vs) = [108] @ concat (map enc_value vs) @ [101]"
| "enc_value (BDict kvs) =
     [100] @ concat (map (\<lambda>kv. enc_str (string_bytes (fst kv)) @ enc_value (snd kv)) kvs) @ [101]"

definition enc_pair :: "string \<times> bt_value \<Rightarrow> bytes" where
  "enc_pair kv = enc_str (string_bytes (fst kv)) @ enc_value (snd kv)"

definition enc_dict :: "(string \<times> bt_value) list \<Rightarrow> bytes" where
  "enc_dict kvs = [100] @ concat (map enc_pair kvs) @ [101]"

subsection \<open>Reading\<close>

definition read_nat :: "bytes \<Rightarrow> (nat \<times> bytes) option" where
  "read_nat c =
     (let ds = takeWhile is_digit c in if ds = [] then None else Some (undec ds, dropWhile is_digit c))"

definition read_str :: "bytes \<Rightarrow> (bytes \<times> bytes) option" where
  "read_str c =
     (case read_nat c of
        Some (n, b # c') \<Rightarrow> if b = 58 \<and> n \<le> length c' then Some (take n c', drop n c') else None
      | _ \<Rightarrow> None)"

definition read_int :: "bytes \<Rightarrow> (int \<times> bytes) option" where
  "read_int c =
     (case c of
        b # c1 \<Rightarrow>
          if b \<noteq> 105 then None
          else (let neg = (c1 \<noteq> [] \<and> hd c1 = 45)
                in case read_nat (if neg then tl c1 else c1) of
                     Some (n, e # c2) \<Rightarrow>
                       if e = 101 then Some (if neg then - int n else int n, c2) else None
                   | _ \<Rightarrow> None)
      | [] \<Rightarrow> None)"

definition key_chars :: "bytes \<Rightarrow> string" where
  "key_chars k = map (\<lambda>b. char_of (unat b)) k"

text \<open>Values nest; the fuel bounds the number of bytes read.\<close>

fun rd_value :: "nat \<Rightarrow> bytes \<Rightarrow> (bt_value \<times> bytes) option"
and rd_list :: "nat \<Rightarrow> bytes \<Rightarrow> (bt_value list \<times> bytes) option"
and rd_pairs :: "nat \<Rightarrow> bytes \<Rightarrow> ((string \<times> bt_value) list \<times> bytes) option" where
  "rd_value 0 c = None"
| "rd_value (Suc n) c =
     (case c of
        [] \<Rightarrow> None
      | b # c' \<Rightarrow>
          if b = 108 then map_option (\<lambda>(vs, c). (BList vs, c)) (rd_list n c')
          else if b = 100 then map_option (\<lambda>(kvs, c). (BDict kvs, c)) (rd_pairs n c')
          else if b = 105 then map_option (\<lambda>(i, c). (BInt i, c)) (read_int c)
          else map_option (\<lambda>(s, c). (BStr s, c)) (read_str c))"
| "rd_list 0 c = None"
| "rd_list (Suc n) c =
     (case c of
        [] \<Rightarrow> None
      | b # c' \<Rightarrow>
          if b = 101 then Some ([], c')
          else (case rd_value n c of
                  None \<Rightarrow> None
                | Some (v, c1) \<Rightarrow> map_option (\<lambda>(vs, c). (v # vs, c)) (rd_list n c1)))"
| "rd_pairs 0 c = None"
| "rd_pairs (Suc n) c =
     (case c of
        [] \<Rightarrow> None
      | b # c' \<Rightarrow>
          if b = 101 then Some ([], c')
          else (case read_str c of
                  None \<Rightarrow> None
                | Some (k, c1) \<Rightarrow>
                    (case rd_value n c1 of
                       None \<Rightarrow> None
                     | Some (v, c2) \<Rightarrow> map_option (\<lambda>(kvs, c). ((key_chars k, v) # kvs, c)) (rd_pairs n c2))))"

definition read_value :: "bytes \<Rightarrow> (bt_value \<times> bytes) option" where
  "read_value c = rd_value (length c) c"

text \<open>Skip to the key: pairs with smaller keys are passed over, a greater key or the end means it is absent.\<close>

fun read_opt :: "nat \<Rightarrow> string \<Rightarrow> bytes \<Rightarrow> bt_value option \<times> bytes" where
  "read_opt 0 key c = (None, c)"
| "read_opt (Suc fuel) key c =
     (case read_str c of
        None \<Rightarrow> (None, c)
      | Some (k, c1) \<Rightarrow>
          (case read_value c1 of
             None \<Rightarrow> (None, c)
           | Some (v, c2) \<Rightarrow>
               if key_chars k = key then (Some v, c2)
               else if key_chars k < key then read_opt fuel key c2 else (None, c)))"

definition read_key :: "string \<Rightarrow> bytes \<Rightarrow> (bt_value \<times> bytes) option" where
  "read_key key c = (case read_opt (length c) key c of (None, _) \<Rightarrow> None | (Some v, c') \<Rightarrow> Some (v, c'))"

definition load_little :: "bytes \<Rightarrow> 'a :: len word" where
  "load_little bs = foldr (\<lambda>b acc. ucast b OR push_bit 8 acc) bs 0"

definition store_little :: "nat \<Rightarrow> 'a :: len word \<Rightarrow> bytes" where
  "store_little n w = map (\<lambda>i. ucast (drop_bit (8 * i) w)) [0..<n]"

definition demo_oxenc :: oxenc where
  "demo_oxenc =
     \<lparr>bt_dict = enc_dict,
      bt_open = (\<lambda>c. case c of b # c' \<Rightarrow> if b = 100 then Some c' else None | [] \<Rightarrow> None),
      bt_require = read_key,
      bt_optional = (\<lambda>k c. read_opt (length c) k c),
      bt_finish = (\<lambda>c. c = [101]),
      bt_list_open = (\<lambda>c. case c of b # c' \<Rightarrow> if b = 108 then Some c' else None | [] \<Rightarrow> None),
      bt_consume_dict =
        (\<lambda>c. case read_value c of
               Some (BDict kvs, c') \<Rightarrow> Some (take (length c - length c') c, c')
             | _ \<Rightarrow> None),
      bt_list_finish = (\<lambda>c. c = [101]),
      little16 = store_little 2, load_little16 = (\<lambda>bs. load_little (take 2 bs)),
      little32 = store_little 4, load_little32 = (\<lambda>bs. load_little (take 4 bs)),
      big32 = (\<lambda>w. rev (store_little 4 w)), load_big32 = (\<lambda>bs. load_little (rev (take 4 bs)))\<rparr>"

subsection \<open>The laws\<close>

lemma takeWhile_dec: "takeWhile is_digit (dec n @ b # c) = dec n" "dropWhile is_digit (dec n @ b # c) = b # c"
  if "\<not> is_digit b"
  using dec_digits [of n] that by (simp_all add: takeWhile_append dropWhile_append)

lemma read_nat_dec: "\<not> is_digit b \<Longrightarrow> read_nat (dec n @ b # c) = Some (n, b # c)"
  by (simp add: read_nat_def takeWhile_dec)

lemma read_str_enc [simp]: "read_str (enc_str s @ c) = Some (s, c)"
proof -
  have "\<not> is_digit 58" by (simp add: is_digit_def)
  then show ?thesis by (simp add: read_str_def enc_str_def read_nat_dec)
qed

lemma read_str_not_digit: "\<not> is_digit b \<Longrightarrow> read_str (b # c) = None"
  by (simp add: read_str_def read_nat_def)

lemma read_int_enc [simp]: "read_int (enc_int i @ c) = Some (i, c)"
proof -
  have nd: "\<not> is_digit 101" "\<not> is_digit 45" by (simp_all add: is_digit_def)
  have "hd (dec n @ xs) \<noteq> 45" for n xs using hd_dec [of n] nd(2) by (auto simp: hd_append)
  with nd show ?thesis by (simp add: read_int_def enc_int_def read_nat_dec)
qed

lemma char_byte [simp]: "char_of (unat (of_char ch :: byte)) = ch"
proof -
  have "unat (of_nat (of_char ch) :: byte) = (of_char ch :: nat)"
    using nat_of_char_less_256 [of ch] by (simp add: unat_of_nat del: of_nat_of_char)
  then show ?thesis by (simp only: of_nat_of_char) simp
qed

lemma key_chars_bytes [simp]: "key_chars (string_bytes k) = k"
  by (simp add: key_chars_def string_bytes_def comp_def)

lemma enc_str_hd: "\<exists>b bs. enc_str s = b # bs \<and> is_digit b"
  using hd_dec [of "length s"] dec_not_Nil [of "length s"] by (cases "dec (length s)") (auto simp: enc_str_def)

lemma not_digits: "\<not> is_digit 108" "\<not> is_digit 100" "\<not> is_digit 105" "\<not> is_digit 101"
  by (simp_all add: is_digit_def)

lemma enc_value_hd: "\<exists>b bs. enc_value v = b # bs \<and> b \<noteq> 101"
proof (cases v)
  case (BStr s)
  then show ?thesis
    using enc_str_hd [of s] not_digits(4) by auto
qed (auto simp: enc_int_def)

lemma rd_value_str: "rd_value (Suc n) (enc_str s @ c) = Some (BStr s, c)"
proof -
  obtain b bs where b: "enc_str s = b # bs" "is_digit b"
    using enc_str_hd by blast
  then have "b \<noteq> 108" "b \<noteq> 100" "b \<noteq> 105"
    using not_digits by auto
  with b show ?thesis
    using read_str_enc [of s c] by simp
qed

lemma rd_value_int: "rd_value (Suc n) (enc_int i @ c) = Some (BInt i, c)"
  using read_int_enc [of i c] by (simp add: enc_int_def)

lemma rd_list_enc:
  assumes "\<And>v n c. v \<in> set vs \<Longrightarrow> length (enc_value v) \<le> n \<Longrightarrow> rd_value n (enc_value v @ c) = Some (v, c)"
  shows "length (concat (map enc_value vs)) < n \<Longrightarrow> rd_list n (concat (map enc_value vs) @ 101 # c) = Some (vs, c)"
  using assms
proof (induction vs arbitrary: n)
  case Nil
  then show ?case by (cases n) auto
next
  case (Cons v vs)
  obtain m where n: "n = Suc m" using Cons.prems(1) by (cases n) auto
  obtain b bs where b: "enc_value v = b # bs" "b \<noteq> 101" using enc_value_hd by blast
  have "rd_value m (enc_value v @ concat (map enc_value vs) @ 101 # c) = Some (v, concat (map enc_value vs) @ 101 # c)"
    using Cons.prems(1) by (intro Cons.prems(2)) (auto simp: n)
  moreover have "rd_list m (concat (map enc_value vs) @ 101 # c) = Some (vs, c)"
    using Cons.prems b by (intro Cons.IH) (auto simp: n)
  ultimately show ?case
    using b by (simp add: n)
qed

lemma rd_pairs_enc:
  assumes "\<And>kv n c. kv \<in> set kvs \<Longrightarrow> length (enc_value (snd kv)) \<le> n \<Longrightarrow> rd_value n (enc_value (snd kv) @ c) = Some (snd kv, c)"
  shows "length (concat (map enc_pair kvs)) < n \<Longrightarrow> rd_pairs n (concat (map enc_pair kvs) @ 101 # c) = Some (kvs, c)"
  using assms
proof (induction kvs arbitrary: n)
  case Nil
  then show ?case by (cases n) auto
next
  case (Cons kv kvs)
  obtain k v where kv: "kv = (k, v)" by (cases kv)
  obtain m where n: "n = Suc m" using Cons.prems(1) by (cases n) auto
  obtain b bs where b: "enc_str (string_bytes k) = b # bs" "b \<noteq> 101"
    using enc_str_hd [of "string_bytes k"] not_digits(4) by auto
  let ?rest = "concat (map enc_pair kvs) @ 101 # c"
  have "rd_value m (enc_value v @ ?rest) = Some (v, ?rest)"
    using Cons.prems(1) Cons.prems(2) [of kv m ?rest] by (simp add: n kv enc_pair_def)
  moreover have "rd_pairs m ?rest = Some (kvs, c)"
    using Cons.prems b by (intro Cons.IH) (auto simp: n kv enc_pair_def)
  moreover have "read_str (b # bs @ enc_value v @ ?rest) = Some (string_bytes k, enc_value v @ ?rest)"
    using read_str_enc [of "string_bytes k"] b by simp
  moreover have "enc_pair kv = b # bs @ enc_value v"
    using b by (simp add: kv enc_pair_def)
  ultimately show ?case
    using b(2) by (simp add: n kv)
qed

lemma enc_value_dict: "enc_value (BDict kvs) = 100 # concat (map enc_pair kvs) @ [101]"
  by (simp add: enc_pair_def [abs_def])

lemma rd_value_enc: "length (enc_value v) \<le> n \<Longrightarrow> rd_value n (enc_value v @ c) = Some (v, c)"
proof (induction v arbitrary: n c)
  case (BStr s)
  obtain m where "n = Suc m" using BStr enc_str_hd [of s] by (cases n) auto
  then show ?case by (simp add: rd_value_str del: rd_value.simps)
next
  case (BInt i)
  obtain m where "n = Suc m" using BInt by (cases n) (auto simp: enc_int_def)
  then show ?case by (simp add: rd_value_int del: rd_value.simps)
next
  case (BList vs)
  obtain m where n: "n = Suc m" using BList.prems by (cases n) auto
  have "rd_list m (concat (map enc_value vs) @ 101 # c) = Some (vs, c)"
    using BList.prems by (intro rd_list_enc BList.IH) (auto simp: n)
  then show ?case by (simp add: n)
next
  case (BDict kvs)
  obtain m where n: "n = Suc m" using BDict.prems by (cases n) auto
  have "rd_pairs m (concat (map enc_pair kvs) @ 101 # c) = Some (kvs, c)"
  proof (rule rd_pairs_enc)
    show "rd_value n (enc_value (snd kv) @ c) = Some (snd kv, c)"
      if "kv \<in> set kvs" "length (enc_value (snd kv)) \<le> n" for kv n c
      using BDict.IH [OF that(1), of "snd kv" n c] that(2) by (cases kv) simp
    show "length (concat (map enc_pair kvs)) < m"
      using BDict.prems unfolding enc_value_dict n by simp
  qed
  then show ?case
    unfolding enc_value_dict n by simp
qed

lemma read_value_enc [simp]: "read_value (enc_value v @ c) = Some (v, c)"
  by (simp add: read_value_def rd_value_enc)

lemma read_opt_enc:
  assumes "sorted_wrt (<) (map fst kvs)" and "length kvs < n"
  shows "read_opt n key (concat (map enc_pair kvs) @ [101]) =
    (map_of kvs key, concat (map enc_pair (pairs_after key kvs)) @ [101])"
  using assms
proof (induction kvs arbitrary: n)
  case Nil
  then show ?case
    by (cases n) (simp_all add: read_str_not_digit not_digits pairs_after_def)
next
  case (Cons kv kvs)
  obtain k v where kv: "kv = (k, v)" by (cases kv)
  obtain m where n: "n = Suc m" using Cons.prems(2) by (cases n) auto
  have r: "read_str (enc_pair kv @ c) = Some (string_bytes k, enc_value v @ c)" for c
    by (simp add: kv enc_pair_def)
  consider "k = key" | "k < key" | "key < k" by fastforce
  then show ?case
  proof cases
    case 1
    then have "pairs_after key kvs = kvs"
      using Cons.prems(1) by (cases kvs) (auto simp: kv)
    then show ?thesis
      using 1 r by (simp add: n kv)
  next
    case 2
    then have "k \<noteq> key" by auto
    then show ?thesis
      using 2 Cons r by (simp add: n kv)
  next
    case 3
    then have "map_of kvs key = None"
      using Cons.prems(1) by (force simp: kv map_of_eq_None_iff)
    then show ?thesis
      using 3 r by (auto simp: n kv)
  qed
qed

lemma length_enc_pairs_ge: "length kvs \<le> length (concat (map enc_pair kvs))"
proof (induction kvs)
  case (Cons kv kvs)
  have "enc_pair kv \<noteq> []"
    using enc_str_hd [of "string_bytes (fst kv)"] by (auto simp: enc_pair_def)
  then have "1 \<le> length (enc_pair kv)"
    by (simp add: Suc_le_eq)
  then show ?case
    using Cons.IH by simp
qed simp

lemma demo_reader: "bt_reader_law demo_oxenc"
proof -
  have at: "bt_at demo_oxenc kvs = concat (map enc_pair kvs) @ [101]" for kvs
    by (simp add: bt_at_def demo_oxenc_def enc_dict_def)
  have opt: "bt_optional demo_oxenc k (bt_at demo_oxenc kvs) = (map_of kvs k, bt_at demo_oxenc (pairs_after k kvs))"
    if "dict_wf kvs" for kvs k
    unfolding at using that length_enc_pairs_ge [of kvs] read_opt_enc [of kvs "Suc (length (concat (map enc_pair kvs)))" k]
    by (simp add: demo_oxenc_def dict_wf_def del: read_opt.simps)
  have "bt_require demo_oxenc k (bt_at demo_oxenc kvs) =
      map_option (\<lambda>v. (v, bt_at demo_oxenc (pairs_after k kvs))) (map_of kvs k)" if "dict_wf kvs" for kvs k
    using opt [OF that, of k] by (simp add: demo_oxenc_def read_key_def split: option.split)
  moreover have "bt_open demo_oxenc (bt_dict demo_oxenc kvs) = Some (bt_at demo_oxenc kvs)" for kvs
    unfolding at by (simp add: demo_oxenc_def enc_dict_def)
  moreover have "bt_finish demo_oxenc (bt_at demo_oxenc kvs) \<longleftrightarrow> kvs = []" for kvs
    unfolding at using length_enc_pairs_ge [of kvs]
    by (auto simp: demo_oxenc_def simp del: length_concat concat_eq_Nil_conv)
  ultimately show ?thesis
    using opt by (simp add: bt_reader_law_def)
qed

lemma demo_lists: "bt_list_law demo_oxenc"
proof -
  have "read_value (enc_dict d @ rest) = Some (BDict d, rest)" for d rest
    using read_value_enc [of "BDict d" rest] unfolding enc_value_dict by (simp add: enc_dict_def)
  then have "bt_consume_dict demo_oxenc (bt_dict demo_oxenc d @ rest) = Some (bt_dict demo_oxenc d, rest)" for d rest
    by (simp add: demo_oxenc_def)
  moreover have "bt_list_finish demo_oxenc (bt_dict demo_oxenc d @ rest) = False" for d rest
    by (simp add: demo_oxenc_def enc_dict_def)
  ultimately show ?thesis
    by (simp add: bt_list_law_def demo_oxenc_def)
qed

lemma demo_text: "bt_text_law demo_oxenc"
  by (simp add: bt_text_law_def demo_oxenc_def enc_dict_def enc_pair_def enc_str_def string_bytes_def)

lemma length_enc_str: "length s \<le> 999 \<Longrightarrow>
    length (enc_str s) = (if length s < 10 then 2 else if length s < 100 then 3 else 4) + length s"
  by (simp add: enc_str_def length_dec)

lemma length_enc_pairs:
  assumes "\<forall>(k, v) \<in> set kvs. length k \<le> 9 \<and> length v \<le> 999"
  shows "length (concat (map (enc_pair \<circ> (\<lambda>(k, v). (k, BStr v))) kvs)) =
    sum_list (map (\<lambda>(k, v). bt_pair_bytes (length v) (length k)) kvs)"
  using assms
  by (induction kvs) (auto simp: enc_pair_def length_enc_str bt_pair_bytes_def string_bytes_def)

lemma demo_size: "bt_size_law demo_oxenc"
  by (simp add: bt_size_law_def demo_oxenc_def enc_dict_def length_enc_pairs)

lemma length_store_little [simp]: "length (store_little n w) = n"
  by (simp add: store_little_def)

lemma load_store16: "load_little (store_little 2 w) = (w :: u16)"
  by (rule bit_word_eqI) (auto simp: load_little_def store_little_def numeral_2_eq_2 bit_simps)

lemma load_store32: "load_little (store_little 4 w) = (w :: u32)"
proof (rule bit_word_eqI)
  fix n
  assume "n < LENGTH(32)"
  then consider "n < 8" | "8 \<le> n" "n < 16" | "16 \<le> n" "n < 24" | "24 \<le> n" "n < 32" by fastforce
  then show "bit (load_little (store_little 4 w) :: u32) n = bit w n"
    by cases (auto simp: load_little_def store_little_def upt_rec bit_simps)
qed

lemma demo_endian: "endian_laws demo_oxenc"
  by (simp add: endian_laws_def demo_oxenc_def load_store16 load_store32 length_store_little)

lemma demo_oxenc_laws: "oxenc_laws demo_oxenc"
  by (simp add: oxenc_laws_def demo_reader demo_size demo_endian)

section \<open>A small network\<close>

text \<open>Relays whose identity is their own seed, with empty tables.\<close>

definition demo_relay :: "router_id \<Rightarrow> router_state" where
  "demo_relay rid =
     \<lparr>keys = router_keys_of demo_sodium rid, is_service_node = True, path_ctx = path_context_new,
      known_rc = (\<lambda>_. True), unreachable = (\<lambda>_. False)\<rparr>"

definition demo_rid :: "byte \<Rightarrow> router_id" where "demo_rid b = b # replicate 31 0"

definition demo_rc :: "byte \<Rightarrow> byte list \<Rightarrow> relay_contact" where
  "demo_rc b ver =
     \<lparr>rc_router_id = demo_rid b, rc_addr = [1, 2, 3, b, 4, 4], rc_addr6 = None, rc_timestamp = 0,
      rc_netid = 0, rc_version = ver, rc_payload = []\<rparr>"

text \<open>A path of three hops that returns to its first relay; the middle relay has the older version.\<close>

definition demo_rcs :: "relay_contact list" where
  "demo_rcs = [demo_rc 1 [1, 2, 0], demo_rc 2 [1, 0, 5], demo_rc 1 [1, 2, 0]]"

definition demo_hopid :: "nat \<Rightarrow> hop_id" where "demo_hopid i = of_nat (i + 1) # replicate 15 0"

definition demo_nonce :: symm_nonce where "demo_nonce = 9 # replicate 23 0"

definition demo_rand :: "nat \<Rightarrow> frame_rand" where
  "demo_rand i = \<lparr>fr_dh_nonce = demo_nonce, fr_eph_seed = [5], fr_eph_x = [6], fr_pad = replicate 54 0\<rparr>"

definition demo_junk :: "nat \<Rightarrow> bytes" where "demo_junk n = replicate 169 0"

lemma demo_rid_simps [simp]:
  "length (demo_rid b) = 32" "demo_rid a = demo_rid b \<longleftrightarrow> a = b" "fit 32 (demo_rid b) = demo_rid b"
  by (simp_all add: demo_rid_def fit_def)

lemma demo_hopid_simps [simp]: "length (demo_hopid i) = 16" "length demo_nonce = 24"
  by (simp_all add: demo_hopid_def demo_nonce_def)

lemma demo_relay_id: "rk_id (keys (demo_relay (demo_rid b))) = demo_rid b"
  by (simp add: demo_relay_def router_keys_of_def ed25519_generate_def ed25519_to_pubkey_def demo_sodium_def Let_def)

lemma demo_relay_serves: "relay_serves demo_sodium demo_relay ids rids (demo_rid b)"
  using demo_relay_id [of b]
  by (auto simp: relay_serves_def demo_relay_def path_context_new_def has_transit_hop_def Let_def)

lemma demo_draws: "path_draws_ok demo_hopid 3"
proof -
  have "inj_on demo_hopid {0..<3}"
    by (auto simp: inj_on_def demo_hopid_def numeral_3_eq_3 less_Suc_eq)
  moreover have "\<forall>i \<in> {0..<3}. hop_id_ok (demo_hopid i)"
    by (auto simp: hop_id_ok_def HOPID_SIZE_def is_zero_def demo_hopid_def numeral_3_eq_3 less_Suc_eq)
  ultimately show ?thesis by (simp add: path_draws_ok_def)
qed

lemma demo_buildable: "buildable demo_sodium demo_oxenc demo_relay demo_hopid demo_rcs 600"
proof -
  have "\<forall>r. ctx_wf (path_ctx (demo_relay r))" by (simp add: demo_relay_def)
  moreover have "lifetime_ok 600" by (simp add: lifetime_ok_def lifetime_consts)
  moreover have "length demo_rcs = 3" by (simp add: demo_rcs_def)
  moreover have "distinct_adj (map rc_router_id demo_rcs)" by (simp add: demo_rcs_def demo_rc_def)
  moreover have "\<forall>rc \<in> set demo_rcs. relay_serves demo_sodium demo_relay ids rids (rc_router_id rc)" for ids rids
    by (simp add: demo_rcs_def demo_rc_def demo_relay_serves)
  ultimately show ?thesis
    using demo_draws by (auto simp: buildable_def demo_sodium_laws demo_oxenc_laws BUILD_LENGTH_def)
qed

lemma demo_draw_sizes:
  "\<forall>i. frame_rand_ok (demo_rand i)" "\<forall>n. length (demo_junk n) = BUILD_FRAME_SIZE"
  by (simp_all add: frame_rand_ok_def demo_rand_def demo_junk_def build_consts SYMM_NONCE_SIZE_def)

subsection \<open>Two installed paths with a common pivot\<close>

definition demo_hop :: "byte \<Rightarrow> nat \<Rightarrow> nat \<Rightarrow> byte \<Rightarrow> peer \<Rightarrow> transit_hop" where
  "demo_hop r rx tx up dn =
     transit_hop_default\<lparr>router_id := demo_rid r, rxid := demo_hopid rx, txid := demo_hopid tx,
       upstream := demo_rid up, downstream := dn, shared_secret := [r, of_nat rx], xor_nonce := demo_nonce,
       expiry := 600000, terminal_hop := (rx = tx)\<rparr>"

definition demo_hops_p :: "transit_hop list" where
  "demo_hops_p = [demo_hop 1 0 1 3 (PeerConn 7), demo_hop 3 1 1 3 (PeerRelay (demo_rid 1))]"

definition demo_hops_q :: "transit_hop list" where
  "demo_hops_q = [demo_hop 2 10 11 3 (PeerConn 8), demo_hop 3 11 11 3 (PeerRelay (demo_rid 2))]"

definition demo_path :: "transit_hop list \<Rightarrow> path" where
  "demo_path hs = (path_new (demo_rid 9) demo_hopid [] 600000)\<lparr>hops := hs, is_built := True, is_established := True\<rparr>"

definition demo_net :: network where
  "demo_net r = fold store_hop (filter (\<lambda>h. router_id h = r) (demo_hops_p @ demo_hops_q)) (demo_relay r)"

definition demo_client :: router_state where
  "demo_client = (demo_relay (demo_rid 9))\<lparr>is_service_node := False,
     path_ctx := add_path 0 (path_context_new\<lparr>path_objs := [0 \<mapsto> demo_path demo_hops_q]\<rparr>)\<rparr>"

lemmas demo_defs = demo_hops_p_def demo_hops_q_def demo_hop_def transit_hop_default_def

lemma demo_hopid_inject [simp]: "i < 255 \<Longrightarrow> j < 255 \<Longrightarrow> demo_hopid i = demo_hopid j \<longleftrightarrow> i = j"
proof
  assume "i < 255" "j < 255" "demo_hopid i = demo_hopid j"
  then have "unat (of_nat (i + 1) :: byte) = unat (of_nat (j + 1) :: byte)" by (simp add: demo_hopid_def)
  with \<open>i < 255\<close> \<open>j < 255\<close> show "i = j"
    by (simp add: unsigned_of_nat take_bit_nat_eq_self del: of_nat_add of_nat_Suc)
qed simp

lemma demo_path_working:
  "path_working demo_net (PeerConn 7) (demo_path demo_hops_p)"
  "path_working demo_net (PeerConn 8) (demo_path demo_hops_q)"
  by (auto simp: path_working_def demo_path_def demo_defs demo_net_def demo_relay_def hop_installed_def
      store_hop_def put_transit_hop_def path_context_new_def emplace_def get_transit_hop_def hop_agrees_def
      ids_sized_def size_defs Let_def)

lemma demo_path_facts:
  "router_id (edge (demo_path demo_hops_p)) = demo_rid 1" "length (hops (demo_path demo_hops_p)) = 2"
  "length (hops (demo_path demo_hops_q)) = 2" "rxid (edge (demo_path demo_hops_q)) = demo_hopid 10"
  "terminal_rid (demo_path demo_hops_p) = demo_rid 3" "terminal_rid (demo_path demo_hops_q) = demo_rid 3"
  "terminal_hopid (demo_path demo_hops_p) = demo_hopid 1" "terminal_hopid (demo_path demo_hops_q) = demo_hopid 11"
  by (simp_all add: demo_path_def demo_defs terminal_rid_def terminal_hopid_def terminus_def edge_def)

lemma demo_rcs_facts: "length demo_rcs = 3" "map rc_router_id demo_rcs = [demo_rid 1, demo_rid 2, demo_rid 1]"
  by (simp_all add: demo_rcs_def demo_rc_def)

lemma demo_client_path:
  "\<not> is_service_node demo_client"
  "get_path (path_ctx demo_client) (demo_hopid 10) = Some (demo_path demo_hops_q)"
  by (simp_all add: demo_path_facts(4) demo_client_def add_path_def get_path_def emplace_def path_context_new_def)

end
