(* ===== verification/Rc_Network.thy ===== *)
theory Rc_Network
  imports Rc_Exchange Instances
begin

text \<open>
  The exchange of contacts between routers: gossip floods end and reach every connected relay, a
  client catches up with the relay it asks, an honest majority of sources fixes the accepted relay ids,
  and a bootstrap relay hands over its contacts.  The concrete contacts at the start show that the
  hypotheses can hold together.
\<close>

section \<open>A concrete contact\<close>

definition demo_env :: rc_env where
  "demo_env =
     \<lparr>bt_maybe = bt_optional demo_oxenc,
      bt_require_signature =
        (\<lambda>payload c. case bt_require demo_oxenc ''~'' c of
                       Some (BStr sig, c') \<Rightarrow> Some (take (length payload - length c) payload, sig, c')
                     | _ \<Rightarrow> None),
      bt_is_finished = bt_finish demo_oxenc, addr_is_public = (\<lambda>_. True), verify = (\<lambda>_ _ _. True)\<rparr>"

definition demo_layout :: rc_layout where
  "demo_layout = \<lparr>time_key_at = (\<lambda>_. 0), after_time = (\<lambda>_. (0, ''v'')), sig_key_at = length\<rparr>"

definition demo_pairs :: "router_id \<Rightarrow> (string \<times> bt_value) list" where
  "demo_pairs rid =
     [(''4'', BStr (buf_zero 6)), (''p'', BStr rid), (''t'', BInt 1000), (''v'', BStr [1, 1, 0]), (''~'', BStr (buf_zero 64))]"

definition demo_contact :: "router_id \<Rightarrow> relay_contact" where
  "demo_contact rid =
     \<lparr>rc_router_id = rid, rc_addr = buf_zero 6, rc_addr6 = None, rc_timestamp = 1000, rc_netid = 0,
      rc_version = [1, 1, 0], rc_payload = bt_dict demo_oxenc (demo_pairs rid)\<rparr>"

definition demo_cfg :: "router_id \<Rightarrow> bool \<Rightarrow> router_cfg" where
  "demo_cfg rid sn =
     \<lparr>cfg_sodium = demo_sodium, cfg_oxenc = demo_oxenc, cfg_rc_env = demo_env, cfg_layout = demo_layout,
      cfg_block_bogons = True, cfg_netid = 0, cfg_id = rid, cfg_service_node = sn\<rparr>"

lemma demo_pairs_wf: "dict_wf (demo_pairs rid)"
  by (simp add: demo_pairs_def)

lemma length_demo_payload:
  assumes "length rid = 32"
  shows "length (bt_dict demo_oxenc (demo_pairs rid)) \<le> MAX_RC_SIZE"
  using assms
  by (simp add: demo_oxenc_def enc_dict_def demo_pairs_def enc_pair_def length_enc_str enc_int_def MAX_RC_SIZE_def
      string_bytes_def dec.simps [of 1000] dec.simps [of 100] dec.simps [of 10] dec.simps [of "Suc 0"])

lemma demo_parse:
  assumes "length rid = 32" and "now < 2592000000"
  shows "parse_rc (demo_cfg self sn) ae now (rc_payload (demo_contact rid)) = Inr (demo_contact rid)"
proof -
  note rd = bt_reader [OF demo_reader]
  have "\<not> rc_is_expired (demo_contact rid) now"
    using assms(2) by (simp add: rc_is_expired_def rc_time_ms_def RC_LIFETIME_def demo_contact_def)
  then show ?thesis
    using assms(1) length_demo_payload [OF assms(1)] demo_pairs_wf [of rid]
    by (simp add: parse_rc_def rc_parse_def demo_cfg_def rc_load_def demo_contact_def demo_env_def rd demo_pairs_def
        rc_maybe_int_def rc_maybe_str_def RC_VERSION_def rc_load_identity_def rc_load_signature_def
        bt_require_str_def bt_require_int_def pairs_after_def less_eq_char_def)
qed


section \<open>Gossip\<close>

text \<open>
  C14: A gossip flood ends.  While relays pass one contact around, each relay forwards it at most
  once, so the number of messages delivered, in whatever order, is at most the number in
  flight at the start plus the links of the relays that did not have the contact.
\<close>

theorem gossip_terminates:
  assumes "finite relays" and "\<forall>r. links r \<noteq> [] \<longrightarrow> r \<in> relays"
    and "flood C now rc (dbs, msgs)" and "(gossip_step C now links ^^ n) (dbs, msgs) (dbs', msgs')"
  shows "n + size msgs' \<le> size msgs + (\<Sum>r \<in> relays. if settled rc (dbs r) then 0 else length (links r))"
  using flood_run_bound [OF assms(1,2,4,3)] by (simp add: flood_budget_def)

text \<open>
  C13: A gossip flood reaches every connected relay.  When a relay publishes a contact that is news
  to every other relay (new, or changed by more than its timestamp) and no message is left in
  flight, every relay connected to it by links has stored exactly that contact.
\<close>

theorem gossip_reaches_all:
  assumes "flood_init C now links rc st" and "(gossip_step C now links)\<^sup>*\<^sup>* st (dbs, {#})"
    and "(linked links)\<^sup>*\<^sup>* (rc_router_id rc) r" and "r \<noteq> rc_router_id rc"
  shows "get_rc (dbs r) (rc_router_id rc) = Some rc"
  using flood_end_heard [OF flood_run.reachable_inv [OF assms(1,2)] assms(3)] assms(4) by (simp add: heard_def)

subsection \<open>Two relays\<close>

definition demo_links :: "router_id \<Rightarrow> relay_conns" where
  "demo_links r = (if r = demo_rid 1 then [(demo_rid 2, 7)] else if r = demo_rid 2 then [(demo_rid 1, 8)] else [])"

definition demo_dbs :: "router_id \<Rightarrow> nodedb" where
  "demo_dbs r = (nodedb_new [])\<lparr>registered_relays := [demo_rid 1, demo_rid 2]\<rparr>"

abbreviation "demo_network \<equiv> \<lambda>r. demo_cfg r True"

lemma demo_news: "r \<noteq> demo_rid 1 \<Longrightarrow> news_to (demo_network r) (demo_contact (demo_rid 1)) (demo_dbs r)"
  by (simp add: news_to_def demo_cfg_def demo_contact_def is_registered_def demo_dbs_def get_rc_def nodedb_new_def)

lemma demo_flood_init:
  "flood_init demo_network 0 demo_links (demo_contact (demo_rid 1))
     (demo_dbs, {#(demo_rid 1, demo_rid 2, rc_payload (demo_contact (demo_rid 1)))#})"
proof -
  have "links_ok demo_links"
    by (auto simp: links_ok_def linked_def demo_links_def split: if_splits)
  then show ?thesis
    using demo_news demo_parse [of "demo_rid 1" 0]
    by (auto simp: flood_init_def gossip_sends_def gossip_rc_def for_each_relay_conn_def demo_contact_def demo_links_def)
qed

lemma demo_delivery:
  "\<exists>db'. gossip_step demo_network 0 demo_links
      (demo_dbs, {#(demo_rid 1, demo_rid 2, rc_payload (demo_contact (demo_rid 1)))#}) (demo_dbs(demo_rid 2 := db'), {#})"
proof -
  let ?rc = "demo_contact (demo_rid 1)" and ?r = "demo_rid 2"
  let ?h = "handle_gossip_rc (demo_network ?r) 0 False (demo_links ?r) 8 (rc_payload ?rc) (demo_dbs ?r)"
  have p: "parse_rc (demo_network ?r) False 0 (rc_payload ?rc) = Inr ?rc"
    by (rule demo_parse) simp_all
  have h: "?h = (fst ?h, snd ?h)" by simp
  have "fst ?h = gossip_rc False (demo_links ?r) ?rc (Some 8)"
    using handle_gossip_parsed(5) [OF p h] demo_news [of ?r] by simp
  then have "?h = ([], snd ?h)"
    by (simp add: prod_eq_iff gossip_rc_def for_each_relay_conn_def demo_links_def demo_contact_def)
  then have "gossip_step demo_network 0 demo_links (demo_dbs, add_mset (demo_rid 1, ?r, rc_payload ?rc) {#})
      (demo_dbs(?r := snd ?h), {#} + gossip_sends ?r [])"
    by (intro gossip_deliver [where conn = 8]) (simp_all add: demo_links_def)
  then show ?thesis
    by (auto simp: gossip_sends_def)
qed

lemma demo_settled: "\<not> settled (demo_contact rid) (demo_dbs r)"
  by (simp add: settled_def get_rc_def demo_dbs_def nodedb_new_def)

theorem gossip_terminates_witness:
  "\<exists>dbs'. (gossip_step demo_network 0 demo_links ^^ 1)
       (demo_dbs, {#(demo_rid 1, demo_rid 2, rc_payload (demo_contact (demo_rid 1)))#}) (dbs', {#}) \<and>
     1 + size {#} \<le> 1 + (\<Sum>r \<in> {demo_rid 1, demo_rid 2}. length (demo_links r))"
proof -
  let ?rc = "demo_contact (demo_rid 1)"
  obtain db' where "gossip_step demo_network 0 demo_links
      (demo_dbs, {#(demo_rid 1, demo_rid 2, rc_payload ?rc)#}) (demo_dbs(demo_rid 2 := db'), {#})"
    using demo_delivery by blast
  then have run: "(gossip_step demo_network 0 demo_links ^^ 1)
      (demo_dbs, {#(demo_rid 1, demo_rid 2, rc_payload ?rc)#}) (demo_dbs(demo_rid 2 := db'), {#})"
    by (simp add: eq_OO)
  have fl: "flood demo_network 0 ?rc (demo_dbs, {#(demo_rid 1, demo_rid 2, rc_payload ?rc)#})"
    by (simp add: flood_def demo_parse)
  have "\<forall>r. demo_links r \<noteq> [] \<longrightarrow> r \<in> {demo_rid 1, demo_rid 2}"
    by (auto simp: demo_links_def)
  from gossip_terminates [OF _ this fl run] run show ?thesis
    by (intro exI [of _ "demo_dbs(demo_rid 2 := db')"]) (simp add: demo_settled)
qed

theorem gossip_reaches_all_witness:
  "\<exists>dbs. (gossip_step demo_network 0 demo_links)\<^sup>*\<^sup>*
       (demo_dbs, {#(demo_rid 1, demo_rid 2, rc_payload (demo_contact (demo_rid 1)))#}) (dbs, {#}) \<and>
     get_rc (dbs (demo_rid 2)) (demo_rid 1) = Some (demo_contact (demo_rid 1))"
proof -
  let ?rc = "demo_contact (demo_rid 1)"
  obtain db' where step: "gossip_step demo_network 0 demo_links
      (demo_dbs, {#(demo_rid 1, demo_rid 2, rc_payload ?rc)#}) (demo_dbs(demo_rid 2 := db'), {#})"
    using demo_delivery by blast
  then have run: "(gossip_step demo_network 0 demo_links)\<^sup>*\<^sup>*
      (demo_dbs, {#(demo_rid 1, demo_rid 2, rc_payload ?rc)#}) (demo_dbs(demo_rid 2 := db'), {#})"
    by blast
  have id: "rc_router_id ?rc = demo_rid 1"
    by (simp add: demo_contact_def)
  have "linked demo_links (demo_rid 1) (demo_rid 2)"
    by (simp add: linked_def demo_links_def)
  then have "get_rc ((demo_dbs(demo_rid 2 := db')) (demo_rid 2)) (rc_router_id ?rc) = Some ?rc"
    by (intro gossip_reaches_all [OF demo_flood_init run]) (auto simp: id)
  with run show ?thesis
    unfolding id by blast
qed


section \<open>Fetching contacts\<close>

text \<open>
  C15: A client catches up with the relay it asks.  After the exchange, for every relay id the client
  accepts, in every bucket whose hash differed, the client has a contact at most a minute older than
  the relay's; any contact that changed was taken from the relay; and every queued lookup is answered
  with what is now known.
\<close>

theorem fetch_rcs_catches_up:
  assumes "bt_reader_law (cfg_oxenc C)" and "db_wf S L client" and "db_wf S' L' relay"
    and "ok resp" and "pcr_body resp = handle_fetch_rcs (cfg_oxenc C) relay (fetch_rcs_request (cfg_oxenc C) client)"
    and "\<forall>rid rc. get_rc relay rid = Some rc \<longrightarrow> parse_rc C False now (rc_payload rc) = Inr rc"
    and "fetch_rcs_response C now now' resp client = (success, answers, client')"
  shows "success \<and> pending_rc_lookups client' = [] \<and> last_rc_fetch client' = now' \<and>
    answers = map (\<lambda>(rid, func). (func, get_rc client' rid)) (pending_rc_lookups client) \<and>
    (\<forall>rid rc. get_rc relay rid = Some rc \<and> rid \<in> set (known_rids client) \<and>
       rc_bucket_hashes relay (bucket_of rid) \<noteq> rc_bucket_hashes client (bucket_of rid) \<longrightarrow>
       (\<exists>rc'. get_rc client' rid = Some rc' \<and> rc_timestamp rc < rc_timestamp rc' + MIN_GOSSIP_RC_AGE)) \<and>
    (\<forall>rid. get_rc client' rid \<noteq> get_rc client rid \<longrightarrow>
       rid \<in> set (known_rids client) \<and> get_rc client' rid = get_rc relay rid)"
proof -
  note ex = fetch_rcs_exchange [OF assms]
  have "\<exists>rc'. get_rc client' rid = Some rc' \<and> rc_timestamp rc < rc_timestamp rc' + MIN_GOSSIP_RC_AGE"
    if "get_rc relay rid = Some rc" "rid \<in> set (known_rids client)"
      "rc_bucket_hashes relay (bucket_of rid) \<noteq> rc_bucket_hashes client (bucket_of rid)" for rid rc
  proof -
    have "rc_router_id rc = rid"
      using assms(3) that(1) by (auto simp: db_wf_def rcs_ok_def get_rc_def dest: map_of_SomeD)
    then show ?thesis
      using ex(5) [OF that] by (auto simp: settled_def split: option.splits)
  qed
  then show ?thesis
    using ex(1-4) ex(6) by blast
qed

lemma demo_hash_laws: "hash_laws demo_sodium"
  using demo_sodium_laws by (simp add: sodium_laws_def)

definition demo_relay_db :: nodedb where
  "demo_relay_db = snd (put_rc demo_sodium demo_layout (demo_rid 2) True (demo_contact (demo_rid 1)) (nodedb_new []))"

lemma demo_relay_db_wf: "db_wf demo_sodium demo_layout demo_relay_db"
  unfolding demo_relay_db_def
  by (rule put_rc_wf [OF demo_hash_laws])
    (simp add: db_wf_def nodedb_new_def rcs_ok_def buckets_describe_def hashes_ok_def rc_hash_map_def)

lemma demo_relay_db_get: "get_rc demo_relay_db rid = (if rid = demo_rid 1 then Some (demo_contact (demo_rid 1)) else None)"
  by (simp add: demo_relay_db_def put_rc_get put_rc_stored) (simp add: get_rc_def nodedb_new_def demo_contact_def)

definition demo_fetching :: nodedb where
  "demo_fetching = (nodedb_new [])\<lparr>known_rids := [demo_rid 1], pending_rc_lookups := [(demo_rid 1, 5)]\<rparr>"

theorem fetch_rcs_catches_up_witness:
  "\<exists>client'. fetch_rcs_response (demo_cfg (demo_rid 9) False) 0 77
       \<lparr>pcr_body = handle_fetch_rcs demo_oxenc demo_relay_db (fetch_rcs_request demo_oxenc demo_fetching),
        pcr_timed_out = False, pcr_error = False\<rparr> demo_fetching = (True, [(5, get_rc client' (demo_rid 1))], client')"
proof -
  let ?C = "demo_cfg (demo_rid 9) False"
  let ?resp = "\<lparr>pcr_body = handle_fetch_rcs demo_oxenc demo_relay_db (fetch_rcs_request demo_oxenc demo_fetching),
        pcr_timed_out = False, pcr_error = False\<rparr>"
  obtain success answers client' where out: "fetch_rcs_response ?C 0 77 ?resp demo_fetching = (success, answers, client')"
    by (metis prod_cases3)
  have wf: "db_wf demo_sodium demo_layout demo_fetching"
    by (simp add: db_wf_def demo_fetching_def nodedb_new_def rcs_ok_def buckets_describe_def hashes_ok_def rc_hash_map_def)
  have X: "bt_reader_law (cfg_oxenc ?C)"
    by (simp add: demo_cfg_def demo_reader)
  have parse: "\<forall>rid rc. get_rc demo_relay_db rid = Some rc \<longrightarrow> parse_rc ?C False 0 (rc_payload rc) = Inr rc"
    by (simp add: demo_relay_db_get demo_parse)
  have resp: "ok ?resp" "pcr_body ?resp = handle_fetch_rcs (cfg_oxenc ?C) demo_relay_db (fetch_rcs_request (cfg_oxenc ?C) demo_fetching)"
    by (simp_all add: ok_def demo_cfg_def)
  have "success \<and> answers = map (\<lambda>(rid, func). (func, get_rc client' rid)) (pending_rc_lookups demo_fetching)"
    using fetch_rcs_catches_up [OF X wf demo_relay_db_wf resp parse out] by blast
  then show ?thesis
    using out by (intro exI [of _ client']) (simp add: demo_fetching_def)
qed

text \<open>
  A lookup is answered once.  It is answered at once with the contact if that is known, or with
  nothing if a fetch has completed; otherwise it is queued, and the next response to a fetch, unless
  it carries an empty status, answers every queued lookup once and empties the queue.  On a response with
  an empty status the fetch is reported as done although nothing was read, and the lookups stay queued.
\<close>

theorem lookup_answered_once:
  "lookup_rc rid func db =
     (if get_rc db rid = None \<and> last_rc_fetch db = 0
      then ([], db\<lparr>pending_rc_lookups := pending_rc_lookups db @ [(rid, func)]\<rparr>)
      else ([(func, get_rc db rid)], db)) \<and>
   (let (success, answers, db') = fetch_rcs_response C now now' resp db
    in if ok resp \<and> fst (read_fetched C now (pcr_body resp) db) = FetchThrew []
       then success \<and> answers = [] \<and> pending_rc_lookups db' = pending_rc_lookups db \<and> last_rc_fetch db' = last_rc_fetch db
       else map fst answers = map snd (pending_rc_lookups db) \<and> pending_rc_lookups db' = [])"
proof -
  have "lookup_rc rid func db =
     (if get_rc db rid = None \<and> last_rc_fetch db = 0
      then ([], db\<lparr>pending_rc_lookups := pending_rc_lookups db @ [(rid, func)]\<rparr>)
      else ([(func, get_rc db rid)], db))"
    by (auto simp: lookup_rc_def split: option.split)
  then show ?thesis
    by (auto simp: fetch_rcs_response_def read_failed_def string_bytes_def Let_def split_beta split: fetch_result.split)
qed

section \<open>Fetching relay ids\<close>

text \<open>
  C16: An honest majority fixes the accepted relay ids.  When a strict majority of the sources of a
  round, one of our own paths' terminals among them, are relays with the same registered relays that
  answer, then whatever the other sources send and in whatever order responses arrive, the
  round ends with the last response, the next one is scheduled exactly then, and the accepted ids are exactly those relays.
\<close>

theorem honest_majority_rids:
  assumes "bt_reader_law X" and "fetch_rids True active extra = RidsAsk sel f"
    and "distinct (map fst rs)" and "fst ` set rs = fst ` set sel"
    and "length sel < 2 * length (filter (\<lambda>(src, _). honest src) sel)"
    and "\<forall>(src, resp) \<in> set rs. honest src \<longrightarrow> ok resp \<and> pcr_body resp = handle_path_fetch_router_ids X (dbs src) \<and>
        set (registered_relays (dbs src)) = R"
    and "R \<noteq> {}" and "\<forall>r \<in> R. length r = 32" and "\<exists>src \<in> set (rf_inbound f). honest src"
  shows "\<exists>f' db'. rid_responses X rs (f, db) = (replicate (length rs - 1) None @ [Some (FETCH_INTERVAL, True)], f', db') \<and>
    set (known_rids db') = R"
  by (rule fetch_rids_honest_round [OF assms])

theorem honest_majority_rids_witness:
  "let good = \<lparr>pcr_body = handle_path_fetch_router_ids demo_oxenc (demo_dbs []), pcr_timed_out = False, pcr_error = False\<rparr>;
       bad = \<lparr>pcr_body = handle_path_fetch_router_ids demo_oxenc (nodedb_new []), pcr_timed_out = False, pcr_error = False\<rparr>;
       f = \<lparr>rf_results = [(demo_rid 1, []), (demo_rid 2, []), (demo_rid 3, [])], rf_count = 0, rf_inbound = [demo_rid 1]\<rparr>
   in \<exists>f' db'. rid_responses demo_oxenc [(demo_rid 3, bad), (demo_rid 2, good), (demo_rid 1, good)] (f, nodedb_new []) =
        ([None, None, Some (FETCH_INTERVAL, True)], f', db') \<and> set (known_rids db') = {demo_rid 1, demo_rid 2}"
proof -
  let ?good = "\<lparr>pcr_body = handle_path_fetch_router_ids demo_oxenc (demo_dbs []), pcr_timed_out = False, pcr_error = False\<rparr>"
  let ?bad = "\<lparr>pcr_body = handle_path_fetch_router_ids demo_oxenc (nodedb_new []), pcr_timed_out = False, pcr_error = False\<rparr>"
  let ?f = "\<lparr>rf_results = [(demo_rid 1, []), (demo_rid 2, []), (demo_rid 3, [])], rf_count = 0, rf_inbound = [demo_rid 1]\<rparr>"
  let ?rs = "[(demo_rid 3, ?bad), (demo_rid 2, ?good), (demo_rid 1, ?good)]"
  have ask: "fetch_rids True [(demo_rid 1, 0)] [(demo_rid 2, 1), (demo_rid 1, 2), (demo_rid 3, 3)] =
      RidsAsk [(demo_rid 1, 0), (demo_rid 2, 1), (demo_rid 3, 3)] ?f"
    by (simp add: fetch_rids_def RID_SOURCE_COUNT_def)
  have "\<exists>f' db'. rid_responses demo_oxenc ?rs (?f, nodedb_new []) =
      (replicate (length ?rs - 1) None @ [Some (FETCH_INTERVAL, True)], f', db') \<and> set (known_rids db') = {demo_rid 1, demo_rid 2}"
    by (rule honest_majority_rids [OF demo_reader ask, where honest = "\<lambda>src. src \<noteq> demo_rid 3" and dbs = demo_dbs])
      (auto simp: ok_def demo_dbs_def)
  then show ?thesis
    unfolding Let_def by (simp add: numeral_2_eq_2)
qed

section \<open>Bootstrap\<close>

text \<open>
  C17: A bootstrap relay hands over its contacts.  When the attempts before it fail and the router is
  not stopping, the run ends successfully with a relay that answers: the hand-assembled
  response decodes, every unexpired contact of that relay is known to the client (at most a minute older)
  with its id accepted, the failure count is reset, and a further run is scheduled only with fewer than six contacts.
\<close>

theorem bootstrap_learns_contacts:
  assumes "bt_reader_law (cfg_oxenc C)" and "bt_list_law (cfg_oxenc C)" and "bt_text_law (cfg_oxenc C)"
    and "bt_size_law (cfg_oxenc C)" and "zstd_law Z" and "seed_usable C Z seed_now now seed"
    and "bootstraps db = before @ rc # after" and "\<forall>i. \<not> stopping i"
    and "\<forall>rc \<in> set before. answer_fails C Z now (answer rc)"
    and "handle_fetch_bootstrap_rcs Z seed_now seed = Some (answer rc)"
  shows "\<exists>db'. bootstrap C Z now stopping answer db =
      (Some (if MIN_ACTIVE_RCS \<le> length (known_rcs db') then None else Some BOOTSTRAP_COOLDOWN), db') \<and>
    \<not> bootstrap_running db' \<and> bootstrap_fails db' = 0 \<and>
    (\<forall>rc \<in> set (unexpired_rcs seed_now seed). rc_router_id rc \<in> set (known_rids db') \<and> settled rc db')"
  by (rule bootstrap_from_seed [OF assms])

text \<open>
  Bootstrapping is retried.  A run that is not aborted by a stop leaves the running flag clear,
  and with fewer than six contacts another run is scheduled after three to sixty seconds.
\<close>

theorem bootstrap_retries:
  assumes "bootstrap C Z now stopping answer db = (Some delay, db')"
  shows "\<not> bootstrap_running db' \<and>
    (if MIN_ACTIVE_RCS \<le> length (known_rcs db') then delay = None
     else (\<exists>d. delay = Some d \<and> BOOTSTRAP_COOLDOWN \<le> d \<and> d \<le> BOOTSTRAP_COOLDOWN_MAX))"
  using assms unfolding bootstrap_def by (rule try_next_retries)

definition demo_zstd :: zstd_lib where
  "demo_zstd = \<lparr>zstd_compress = Some, zstd_decompress = Some\<rparr>"

lemma demo_relay_unexpired: "unexpired_rcs 0 demo_relay_db = [demo_contact (demo_rid 1)]"
  by (simp add: unexpired_rcs_def demo_relay_db_def put_rc_def nodedb_new_def Let_def update_rc_buckets_def
      rc_is_expired_def rc_time_ms_def demo_contact_def RC_LIFETIME_def)

lemma demo_seed_usable: "seed_usable (demo_cfg (demo_rid 9) False) demo_zstd 0 0 demo_relay_db"
proof -
  have "length (rc_payload (demo_contact (demo_rid 1))) \<le> 2048"
    using length_demo_payload [of "demo_rid 1"] by (simp add: demo_contact_def MAX_RC_SIZE_def)
  moreover have "\<exists>d. dict_wf d \<and> rc_payload (demo_contact (demo_rid 1)) = bt_dict demo_oxenc d"
    using demo_pairs_wf [of "demo_rid 1"] by (auto simp: demo_contact_def)
  moreover have "cfg_oxenc (demo_cfg (demo_rid 9) False) = demo_oxenc"
    by (simp add: demo_cfg_def)
  ultimately show ?thesis
    by (simp add: seed_usable_def demo_relay_unexpired demo_zstd_def rc_list_def demo_parse)
qed

theorem bootstrap_learns_contacts_witness:
  "\<exists>db'. bootstrap (demo_cfg (demo_rid 9) False) demo_zstd 0 (\<lambda>_. False)
       (\<lambda>rc. if rc = demo_contact (demo_rid 1) then the (handle_fetch_bootstrap_rcs demo_zstd 0 demo_relay_db) else RespTimeout)
       (nodedb_new [demo_contact (demo_rid 2), demo_contact (demo_rid 1)]) =
      (Some (if MIN_ACTIVE_RCS \<le> length (known_rcs db') then None else Some BOOTSTRAP_COOLDOWN), db') \<and>
     demo_rid 1 \<in> set (known_rids db') \<and> settled (demo_contact (demo_rid 1)) db'"
proof -
  let ?C = "demo_cfg (demo_rid 9) False" and ?rc = "demo_contact (demo_rid 1)"
  let ?ans = "\<lambda>rc. if rc = ?rc then the (handle_fetch_bootstrap_rcs demo_zstd 0 demo_relay_db) else RespTimeout"
  let ?db = "nodedb_new [demo_contact (demo_rid 2), ?rc]"
  have X: "cfg_oxenc ?C = demo_oxenc" by (simp add: demo_cfg_def)
  have ne: "demo_contact (demo_rid 2) \<noteq> ?rc"
    by (simp add: demo_contact_def)
  have laws: "bt_reader_law (cfg_oxenc ?C)" "bt_list_law (cfg_oxenc ?C)" "bt_text_law (cfg_oxenc ?C)" "bt_size_law (cfg_oxenc ?C)"
    unfolding X using demo_reader demo_lists demo_text demo_size by blast+
  have Z: "zstd_law demo_zstd"
    by (simp add: zstd_law_def demo_zstd_def)
  have ans: "handle_fetch_bootstrap_rcs demo_zstd 0 demo_relay_db = Some (?ans ?rc)"
    using bootstrap_exchange [OF laws Z demo_seed_usable, of ?db] by auto
  have bs: "bootstraps ?db = [demo_contact (demo_rid 2)] @ ?rc # []"
    by (simp add: nodedb_new_def)
  have fails: "\<forall>rc \<in> set [demo_contact (demo_rid 2)]. answer_fails ?C demo_zstd 0 (?ans rc)"
    using ne by (simp add: answer_fails_def)
  have id: "rc_router_id ?rc = demo_rid 1"
    by (simp add: demo_contact_def)
  from bootstrap_learns_contacts [OF laws Z demo_seed_usable bs _ fails ans, of "\<lambda>_. False"] obtain db' where
    "bootstrap ?C demo_zstd 0 (\<lambda>_. False) ?ans ?db =
      (Some (if MIN_ACTIVE_RCS \<le> length (known_rcs db') then None else Some BOOTSTRAP_COOLDOWN), db')"
    and "\<forall>rc \<in> set (unexpired_rcs 0 demo_relay_db). rc_router_id rc \<in> set (known_rids db') \<and> settled rc db'"
    by auto
  then show ?thesis
    by (intro exI [of _ db']) (simp add: demo_relay_unexpired id)
qed

theorem bootstrap_retries_witness:
  "\<exists>d db'. bootstrap (demo_cfg (demo_rid 9) False) demo_zstd 0 (\<lambda>_. False) (\<lambda>_. RespTimeout)
       (nodedb_new [demo_contact (demo_rid 1)]) = (Some (Some d), db') \<and> 3000 \<le> d \<and> d \<le> 60000"
proof -
  let ?r = "bootstrap (demo_cfg (demo_rid 9) False) demo_zstd 0 (\<lambda>_. False) (\<lambda>_. RespTimeout) (nodedb_new [demo_contact (demo_rid 1)])"
  have r: "?r = (Some (fst (on_bootstrap_done False ((nodedb_new [demo_contact (demo_rid 1)])\<lparr>bootstrap_running := True\<rparr>))), snd ?r)"
    by (simp add: bootstrap_def nodedb_new_def split_beta)
  have few: "\<not> MIN_ACTIVE_RCS \<le> length (known_rcs (snd ?r))"
    by (simp add: bootstrap_def nodedb_new_def split_beta on_bootstrap_done_def Let_def MIN_ACTIVE_RCS_def)
  from bootstrap_retries [OF r] few obtain d where
    "fst (on_bootstrap_done False ((nodedb_new [demo_contact (demo_rid 1)])\<lparr>bootstrap_running := True\<rparr>)) = Some d"
    "BOOTSTRAP_COOLDOWN \<le> d" "d \<le> BOOTSTRAP_COOLDOWN_MAX"
    by auto
  with r show ?thesis
    by (metis BOOTSTRAP_COOLDOWN_def BOOTSTRAP_COOLDOWN_MAX_def)
qed

end
