(* ===== verification/Profiling.thy ===== *)
theory Profiling
  imports Path
begin

text \<open>
  Router profiling (\<^verbatim>\<open>profiling.hpp\<close>, \<^verbatim>\<open>profiling.cpp\<close>): per-relay success and failure counters
  that decide which relays the path builder avoids.  Counters are 64-bit unsigned words; time points
  (\<^verbatim>\<open>sys_ms\<close>, a 64-bit signed count of milliseconds) are words read with \<^const>\<open>sint\<close>, because
  their initial value \<^verbatim>\<open>sys_ms::min()\<close> takes part in a subtraction.
\<close>

section \<open>Profiles\<close>

type_synonym time64 = "64 word"

definition TIME_MIN :: time64 where "TIME_MIN = 2 ^ 63"

record router_profile =
  conn_timeout :: u64
  conn_success :: u64
  prof_path_success :: u64
  prof_path_fail :: u64
  prof_path_timeout :: u64
  last_update :: time64
  last_decay :: time64
  prof_version :: u64

definition proto_version :: u64 where "proto_version = 0"

definition router_profile_new :: router_profile where
  "router_profile_new =
     \<lparr>conn_timeout = 0, conn_success = 0, prof_path_success = 0, prof_path_fail = 0, prof_path_timeout = 0,
      last_update = TIME_MIN, last_decay = TIME_MIN, prof_version = proto_version\<rparr>"

definition profile_encode :: "oxenc \<Rightarrow> router_profile \<Rightarrow> bytes" where
  "profile_encode X p = bt_dict X
     [(''g'', BInt (uint (conn_success p))), (''p'', BInt (uint (prof_path_success p))),
      (''q'', BInt (uint (prof_path_timeout p))), (''s'', BInt (uint (prof_path_fail p))),
      (''t'', BInt (uint (conn_timeout p))), (''u'', BInt (sint (last_update p))),
      (''v'', BInt (uint (prof_version p)))]"

text \<open>Each value is read as \<^verbatim>\<open>uint64_t\<close>; a failed read throws (\<open>None\<close>).\<close>

definition require_u64 :: "oxenc \<Rightarrow> string \<Rightarrow> bytes \<Rightarrow> (u64 \<times> bytes) option" where
  "require_u64 X key c = map_option (\<lambda>(i, c). (word_of_int i, c)) (bt_require_int X 0 (2 ^ 64 - 1) key c)"

definition profile_decode :: "oxenc \<Rightarrow> bytes \<Rightarrow> router_profile option" where
  "profile_decode X buf =
     (case bt_open X buf of None \<Rightarrow> None | Some c \<Rightarrow>
     (case require_u64 X ''g'' c of None \<Rightarrow> None | Some (g, c) \<Rightarrow>
     (case require_u64 X ''p'' c of None \<Rightarrow> None | Some (p, c) \<Rightarrow>
     (case require_u64 X ''q'' c of None \<Rightarrow> None | Some (q, c) \<Rightarrow>
     (case require_u64 X ''s'' c of None \<Rightarrow> None | Some (s, c) \<Rightarrow>
     (case require_u64 X ''t'' c of None \<Rightarrow> None | Some (t, c) \<Rightarrow>
     (case require_u64 X ''u'' c of None \<Rightarrow> None | Some (u, c) \<Rightarrow>
     (case require_u64 X ''v'' c of None \<Rightarrow> None | Some (v, c) \<Rightarrow>
       Some (router_profile_new\<lparr>conn_success := g, prof_path_success := p, prof_path_timeout := q,
         prof_path_fail := s, conn_timeout := t, last_update := u, prof_version := v\<rparr>)))))))))"

definition decay :: "time64 \<Rightarrow> router_profile \<Rightarrow> router_profile" where
  "decay now p =
     p\<lparr>conn_success := conn_success p div 2, conn_timeout := conn_timeout p div 2,
       prof_path_success := prof_path_success p div 2, prof_path_fail := prof_path_fail p div 2,
       prof_path_timeout := prof_path_timeout p div 2, last_decay := now\<rparr>"

definition UPDATE_INTERVAL :: int where "UPDATE_INTERVAL = 30 * 1000"

text \<open>\<^verbatim>\<open>RouterProfile::tick\<close>; the difference of two time points wraps like its representation.\<close>

definition profile_tick :: "time64 \<Rightarrow> router_profile \<Rightarrow> router_profile" where
  "profile_tick now p =
     (if sint (last_decay p) < sint now \<and> UPDATE_INTERVAL < sint (now - last_decay p) then decay now p else p)"

definition is_good :: "u64 \<Rightarrow> router_profile \<Rightarrow> bool" where
  "is_good chances p =
     (if chances < conn_timeout p
      then conn_timeout p < conn_success p \<and> prof_path_fail p < prof_path_success p * chances
      else prof_path_fail p < prof_path_success p * chances)"

definition checkIsGood :: "u64 \<Rightarrow> u64 \<Rightarrow> u64 \<Rightarrow> bool" where
  "checkIsGood fails success chances =
     (if 0 < fails \<and> chances \<le> fails + success then 1 < success div fails
      else if success = 0 then fails < chances
      else True)"

definition is_good_for_connect :: "u64 \<Rightarrow> router_profile \<Rightarrow> bool" where
  "is_good_for_connect chances p = checkIsGood (conn_timeout p) (conn_success p) chances"

definition is_good_for_path :: "u64 \<Rightarrow> router_profile \<Rightarrow> bool" where
  "is_good_for_path chances p =
     (if chances < prof_path_timeout p then False
      else checkIsGood (prof_path_fail p) (prof_path_success p) chances)"

section \<open>The profile table\<close>

record profiling =
  profiles :: "router_id \<Rightarrow> router_profile option"
  profiling_disabled :: bool
  last_save :: time64

definition profiling_new :: profiling where
  "profiling_new = \<lparr>profiles = (\<lambda>_. None), profiling_disabled = False, last_save = TIME_MIN\<rparr>"

definition profiling_chances :: u64 where "profiling_chances = 4"

definition disable :: "profiling \<Rightarrow> profiling" where "disable P = P\<lparr>profiling_disabled := True\<rparr>"
definition enable :: "profiling \<Rightarrow> profiling" where "enable P = P\<lparr>profiling_disabled := False\<rparr>"
definition is_enabled :: "profiling \<Rightarrow> bool" where "is_enabled P \<longleftrightarrow> \<not> profiling_disabled P"

definition is_bad_for_connect :: "profiling \<Rightarrow> router_id \<Rightarrow> u64 \<Rightarrow> bool" where
  "is_bad_for_connect P r chances \<longleftrightarrow>
     \<not> profiling_disabled P \<and> (case profiles P r of None \<Rightarrow> False | Some p \<Rightarrow> \<not> is_good_for_connect chances p)"

definition is_bad_for_path :: "profiling \<Rightarrow> router_id \<Rightarrow> u64 \<Rightarrow> bool" where
  "is_bad_for_path P r chances \<longleftrightarrow>
     \<not> profiling_disabled P \<and> (case profiles P r of None \<Rightarrow> False | Some p \<Rightarrow> \<not> is_good_for_path chances p)"

definition is_bad :: "profiling \<Rightarrow> router_id \<Rightarrow> u64 \<Rightarrow> bool" where
  "is_bad P r chances \<longleftrightarrow>
     \<not> profiling_disabled P \<and> (case profiles P r of None \<Rightarrow> False | Some p \<Rightarrow> \<not> is_good chances p)"

definition profiling_tick :: "time64 \<Rightarrow> profiling \<Rightarrow> profiling" where
  "profiling_tick now P =
     (if profiling_disabled P then P else P\<lparr>profiles := (\<lambda>r. map_option (profile_tick now) (profiles P r))\<rparr>)"

text \<open>\<^verbatim>\<open>_profiles[r]\<close> inserts a default profile; then the update is applied to it.\<close>

definition update_profile :: "router_id \<Rightarrow> (router_profile \<Rightarrow> router_profile) \<Rightarrow> profiling \<Rightarrow> profiling" where
  "update_profile r f P =
     P\<lparr>profiles := (profiles P)(r \<mapsto> f (case profiles P r of None \<Rightarrow> router_profile_new | Some p \<Rightarrow> p))\<rparr>"

definition connect_timeout :: "time64 \<Rightarrow> router_id \<Rightarrow> profiling \<Rightarrow> profiling" where
  "connect_timeout now r = update_profile r (\<lambda>p. p\<lparr>conn_timeout := conn_timeout p + 1, last_update := now\<rparr>)"

definition connect_succeess :: "time64 \<Rightarrow> router_id \<Rightarrow> profiling \<Rightarrow> profiling" where
  "connect_succeess now r = update_profile r (\<lambda>p. p\<lparr>conn_success := conn_success p + 1, last_update := now\<rparr>)"

definition clear_profile :: "router_id \<Rightarrow> profiling \<Rightarrow> profiling" where
  "clear_profile r P = P\<lparr>profiles := (profiles P)(r := None)\<rparr>"

definition fail_hop :: "time64 \<Rightarrow> router_profile \<Rightarrow> router_profile" where
  "fail_hop now p = p\<lparr>prof_path_fail := prof_path_fail p + 1, last_update := now\<rparr>"

definition hop_fail :: "time64 \<Rightarrow> router_id \<Rightarrow> profiling \<Rightarrow> profiling" where
  "hop_fail now r P = (if profiling_disabled P then P else update_profile r (fail_hop now) P)"

text \<open>All hops but the first, to which we are connected directly.\<close>

definition path_fail :: "time64 \<Rightarrow> path \<Rightarrow> profiling \<Rightarrow> profiling" where
  "path_fail now p P =
     (if profiling_disabled P then P
      else fold (\<lambda>h. update_profile (router_id h) (fail_hop now)) (tl (hops p)) P)"

definition timeout_hop :: "time64 \<Rightarrow> router_profile \<Rightarrow> router_profile" where
  "timeout_hop now p = p\<lparr>prof_path_timeout := prof_path_timeout p + 1, last_update := now\<rparr>"

definition path_timeout :: "time64 \<Rightarrow> path \<Rightarrow> profiling \<Rightarrow> profiling" where
  "path_timeout now p P =
     (if profiling_disabled P then P
      else fold (\<lambda>h. update_profile (router_id h) (timeout_hop now)) (hops p) P)"

definition success_hop :: "time64 \<Rightarrow> nat \<Rightarrow> router_profile \<Rightarrow> router_profile" where
  "success_hop now n p =
     p\<lparr>prof_path_fail := prof_path_fail p div 2, prof_path_timeout := 0,
       prof_path_success := prof_path_success p + of_nat n, last_update := now\<rparr>"

definition path_success :: "time64 \<Rightarrow> path \<Rightarrow> profiling \<Rightarrow> profiling" where
  "path_success now p P =
     (if profiling_disabled P then P
      else fold (\<lambda>h. update_profile (router_id h) (success_hop now (length (hops p)))) (hops p) P)"

definition should_save :: "time64 \<Rightarrow> profiling \<Rightarrow> bool" where
  "should_save now P \<longleftrightarrow> 60 * 1000 < sint (now - last_save P)"

section \<open>Lemmas\<close>

lemma profiles_update [simp]:
  "profiles (update_profile r f P) =
     (profiles P)(r \<mapsto> f (case profiles P r of None \<Rightarrow> router_profile_new | Some p \<Rightarrow> p))"
  "profiling_disabled (update_profile r f P) = profiling_disabled P"
  by (simp_all add: update_profile_def)

text \<open>The profile in force for a relay, known or not.\<close>

definition profile_of :: "profiling \<Rightarrow> router_id \<Rightarrow> router_profile" where
  "profile_of P r = (case profiles P r of None \<Rightarrow> router_profile_new | Some p \<Rightarrow> p)"

lemma profile_of_update: "profile_of (update_profile r f P) r' = (if r' = r then f (profile_of P r) else profile_of P r')"
  by (simp add: profile_of_def)

text \<open>Updating along a list applies the update once per occurrence.\<close>

lemma profile_of_fold:
  "profile_of (fold (\<lambda>h. update_profile (g h) f) hs P) r = (f ^^ count_list (map g hs) r) (profile_of P r)"
  by (induction hs arbitrary: P) (auto simp: profile_of_update funpow_swap1)

lemma disabled_fold [simp]:
  "profiling_disabled (fold (\<lambda>h. update_profile (g h) f) hs P) = profiling_disabled P"
  by (induction hs arbitrary: P) auto

lemma timeouts_counted: "prof_path_timeout ((timeout_hop now ^^ n) p) = prof_path_timeout p + of_nat n"
  by (induction n) (simp_all add: timeout_hop_def)

lemma new_profile_good: "0 < chances \<Longrightarrow> is_good_for_path chances router_profile_new"
  by (simp add: is_good_for_path_def checkIsGood_def router_profile_new_def)

lemma is_bad_for_path_of:
  "0 < chances \<Longrightarrow> is_bad_for_path P r chances \<longleftrightarrow> \<not> profiling_disabled P \<and> \<not> is_good_for_path chances (profile_of P r)"
  by (auto simp: is_bad_for_path_def profile_of_def new_profile_good split: option.splits)

text \<open>
  The subtraction in \<^const>\<open>profile_tick\<close> wraps for a profile that never decayed: the difference of any
  present time and \<^const>\<open>TIME_MIN\<close> is negative.
\<close>

lemma sint_TIME_MIN: "sint TIME_MIN = - (2 ^ 63)"
  by (simp add: TIME_MIN_def)

lemma diff_TIME_MIN:
  assumes "0 \<le> sint (now :: time64)"
  shows "sint (now - TIME_MIN) = sint now - 2 ^ 63"
proof -
  have "sint (now - TIME_MIN) = signed_take_bit 63 (sint now + 2 ^ 63)"
    by (simp add: sint_word_ariths(2) sint_TIME_MIN)
  also have "\<dots> = (sint now + 2 ^ 64) mod 2 ^ 64 - 2 ^ 63"
    by (simp add: signed_take_bit_eq_take_bit_shift take_bit_eq_mod)
  also have "\<dots> = sint now - 2 ^ 63"
    using assms sint_lt [of now] by simp
  finally show ?thesis .
qed

lemma profile_tick_never_decayed:
  assumes "0 \<le> sint now" "last_decay p = TIME_MIN"
  shows "profile_tick now p = p"
  using assms sint_lt [of now] by (simp add: profile_tick_def diff_TIME_MIN UPDATE_INTERVAL_def)

lemma require_u64I:
  "bt_require X k c = Some (BInt (uint w), c') \<Longrightarrow> require_u64 X k c = Some (w, c')"
  using uint_lt2p [of w] by (simp add: require_u64_def bt_require_int_def)

lemma profile_decode_encode:
  assumes "bt_reader_law X" and "0 \<le> sint (last_update p)"
  shows "profile_decode X (profile_encode X p) = Some (p\<lparr>last_decay := TIME_MIN\<rparr>)"
proof -
  have u: "sint (last_update p) = uint (last_update p)"
    using assms(2) sint_lt [of "last_update p"] by (simp add: uint_sint take_bit_eq_mod)
  let ?kvs = "[(''g'', BInt (uint (conn_success p))), (''p'', BInt (uint (prof_path_success p))),
      (''q'', BInt (uint (prof_path_timeout p))), (''s'', BInt (uint (prof_path_fail p))),
      (''t'', BInt (uint (conn_timeout p))), (''u'', BInt (uint (last_update p))),
      (''v'', BInt (uint (prof_version p)))]"
  obtain c0 c where o: "bt_open X (bt_dict X ?kvs) = Some c0"
    and "bt_requires X (map fst ?kvs) c0 = Some (map snd ?kvs, c)"
    by (rule bt_roundtrip [of X ?kvs]) (use assms in auto)
  then obtain c1 c2 c3 c4 c5 c6 c7 where
    "require_u64 X ''g'' c0 = Some (conn_success p, c1)" "require_u64 X ''p'' c1 = Some (prof_path_success p, c2)"
    "require_u64 X ''q'' c2 = Some (prof_path_timeout p, c3)" "require_u64 X ''s'' c3 = Some (prof_path_fail p, c4)"
    "require_u64 X ''t'' c4 = Some (conn_timeout p, c5)" "require_u64 X ''u'' c5 = Some (last_update p, c6)"
    "require_u64 X ''v'' c6 = Some (prof_version p, c7)"
    by (auto simp: bt_requires_Cons_iff simp del: bt_requires.simps dest!: require_u64I)
  then show ?thesis
    unfolding profile_decode_def profile_encode_def u
    by (simp add: o router_profile_new_def)
qed

lemma profiling_tick_keeps:
  assumes "0 \<le> sint now" and "last_decay (profile_of P r) = TIME_MIN"
  shows "profile_of (profiling_tick now P) r = profile_of P r"
  using assms
  by (auto simp: profiling_tick_def profile_of_def profile_tick_never_decayed split: option.splits)

lemma profiling_ticks_keep:
  assumes "\<forall>now \<in> set ts. 0 \<le> sint now" and "last_decay (profile_of P r) = TIME_MIN"
  shows "profile_of (fold profiling_tick ts P) r = profile_of P r"
  using assms by (induction ts arbitrary: P) (simp_all add: profiling_tick_keeps)

lemma profiling_ticks_disabled [simp]:
  "profiling_disabled (fold profiling_tick ts P) = profiling_disabled P"
  by (induction ts arbitrary: P) (simp_all add: profiling_tick_def)

lemma timeout_keeps_decay: "last_decay ((timeout_hop now ^^ n) p) = last_decay p"
  by (induction n) (simp_all add: timeout_hop_def)

lemma success_clears: "0 < n \<Longrightarrow> prof_path_timeout ((success_hop now k ^^ n) p) = 0"
  by (cases n) (simp_all add: success_hop_def)

lemma path_timeout_of:
  "\<not> profiling_disabled P \<Longrightarrow>
     profile_of (path_timeout now p P) r = (timeout_hop now ^^ count_list (map router_id (hops p)) r) (profile_of P r)"
  by (simp add: path_timeout_def profile_of_fold)

lemma path_success_of:
  "\<not> profiling_disabled P \<Longrightarrow>
     profile_of (path_success now p P) r =
       (success_hop now (length (hops p)) ^^ count_list (map router_id (hops p)) r) (profile_of P r)"
  by (simp add: path_success_def profile_of_fold)

section \<open>Properties\<close>

lemma path_outcome_counted_facts:
  assumes "\<not> profiling_disabled P"
  shows "prof_path_timeout (profile_of (path_timeout now p P) r) =
           prof_path_timeout (profile_of P r) + of_nat (count_list (map router_id (hops p)) r)"
    and "prof_path_timeout (profile_of (path_success now p P) r) =
           (if r \<in> router_id ` set (hops p) then 0 else prof_path_timeout (profile_of P r))"
    and "r \<notin> router_id ` set (hops p) \<Longrightarrow> profile_of (path_success now p P) r = profile_of P r"
proof -
  have "0 < count_list (map router_id (hops p)) r" if "r \<in> router_id ` set (hops p)"
    using that count_list_0_iff [of "map router_id (hops p)" r] by auto
  moreover have "count_list (map router_id (hops p)) r = 0" if "r \<notin> router_id ` set (hops p)"
    using that by (simp add: count_list_0_iff)
  ultimately show "prof_path_timeout (profile_of (path_success now p P) r) =
           (if r \<in> router_id ` set (hops p) then 0 else prof_path_timeout (profile_of P r))"
    and "r \<notin> router_id ` set (hops p) \<Longrightarrow> profile_of (path_success now p P) r = profile_of P r"
    using assms by (simp_all add: path_success_of success_clears)
qed (use assms in \<open>simp add: path_timeout_of timeouts_counted\<close>)

text \<open>
  A timed-out path build adds to the timeout counter of every relay exactly the number of times
  the relay occurs on the path, and a successful build resets the counter of every relay on the path
  and leaves the profile of every other relay unchanged.
\<close>

theorem path_outcome_counted:
  assumes "\<not> profiling_disabled P"
  shows "prof_path_timeout (profile_of (path_timeout now p P) r) =
           prof_path_timeout (profile_of P r) + of_nat (count_list (map router_id (hops p)) r) \<and>
    prof_path_timeout (profile_of (path_success now p P) r) =
           (if r \<in> router_id ` set (hops p) then 0 else prof_path_timeout (profile_of P r)) \<and>
    (r \<notin> router_id ` set (hops p) \<longrightarrow> profile_of (path_success now p P) r = profile_of P r)"
  using path_outcome_counted_facts [OF assms] by blast

theorem path_outcome_counted_witness:
  "let p = path_new [9] (\<lambda>_. []) [] 0\<lparr>hops := [transit_hop_default\<lparr>router_id := [1]\<rparr>, transit_hop_default\<lparr>router_id := [2]\<rparr>,
              transit_hop_default\<lparr>router_id := [1]\<rparr>]\<rparr>
   in prof_path_timeout (profile_of (path_timeout 7 p profiling_new) [1]) = 2"
  using path_outcome_counted [of profiling_new 7 "path_new [9] (\<lambda>_. []) [] 0\<lparr>hops := [transit_hop_default\<lparr>router_id := [1]\<rparr>,
      transit_hop_default\<lparr>router_id := [2]\<rparr>, transit_hop_default\<lparr>router_id := [1]\<rparr>]\<rparr>" "[1]"]
  by (simp add: profiling_new_def profile_of_def router_profile_new_def)

text \<open>
  C9: A relay whose timeout counter exceeds the allowed chances is refused for paths, and no number of
  profiling ticks at any present times ever changes this for a profile that has not decayed yet: the
  first decay is guarded by a subtraction from \<^verbatim>\<open>sys_ms::min()\<close> that wraps to a negative value.
\<close>

theorem timed_out_relay_stays_bad:
  assumes "\<not> profiling_disabled P" and "0 < chances"
    and "chances < prof_path_timeout (profile_of P r)" and "last_decay (profile_of P r) = TIME_MIN"
    and "\<forall>now \<in> set ts. 0 \<le> sint now"
  shows "is_bad_for_path (fold profiling_tick ts P) r chances"
  using assms by (simp add: is_bad_for_path_of profiling_ticks_keep is_good_for_path_def)

theorem timed_out_relay_stays_bad_witness:
  "is_bad_for_path (fold profiling_tick [1000, 100000, 100000000]
     (profiling_new\<lparr>profiles := [[1] \<mapsto> router_profile_new\<lparr>prof_path_timeout := 5\<rparr>]\<rparr>)) [1] profiling_chances"
  by (rule timed_out_relay_stays_bad)
    (simp_all add: profiling_new_def profiling_chances_def profile_of_def router_profile_new_def)

end
