(* ===== verification/Hop_Select.thy ===== *)
theory Hop_Select
  imports Nodedb Profiling
begin

text \<open>
  Choosing the relays of a path: random sampling of contacts (\<^verbatim>\<open>sample_rcs\<close>,
  \<^verbatim>\<open>get_n_random_rcs\<close>, \<^verbatim>\<open>get_random_rc\<close>, \<^verbatim>\<open>get_n_random_edge_rcs\<close> of
  \<^verbatim>\<open>nodedb.cpp\<close>) and the selection of the hops to a terminus (\<^verbatim>\<open>select_first_hop\<close>,
  \<^verbatim>\<open>select_hops_to_remote\<close> of \<^verbatim>\<open>path/path_handler.cpp\<close>).  A random draw from \<open>0..k\<close> is
  the value at \<open>k\<close> of an argument function.
\<close>

section \<open>Random samples of contacts\<close>

record sample_env =
  se_service_node :: bool
  se_self :: router_id
  se_blacklist :: "router_id list"
  se_strict_edges :: "router_id list"
  se_now :: ms

definition sample_admits :: "sample_env \<Rightarrow> (relay_contact \<Rightarrow> bool) \<Rightarrow> relay_contact \<Rightarrow> bool" where
  "sample_admits E predicate rc \<longleftrightarrow>
     \<not> rc_is_expired rc (se_now E) \<and>
     (if se_service_node E then rc_router_id rc \<noteq> se_self E else rc_router_id rc \<notin> set (se_blacklist E)) \<and>
     predicate rc"

fun sample_loop ::
  "(relay_contact \<Rightarrow> bool) \<Rightarrow> (nat \<Rightarrow> nat) \<Rightarrow> nat \<Rightarrow> relay_contact list \<Rightarrow> relay_contact option list \<times> nat \<Rightarrow>
     relay_contact option list \<times> nat" where
  "sample_loop adm rnd n [] st = st"
| "sample_loop adm rnd n (rc # rcs) (rand, admitted) =
     (if \<not> adm rc then sample_loop adm rnd n rcs (rand, admitted)
      else (let pos = (if admitted < n then admitted else rnd admitted)
            in sample_loop adm rnd n rcs (if pos < n then rand[pos := Some rc] else rand, admitted + 1)))"

text \<open>
  \<^verbatim>\<open>sample_rcs\<close>; the vector of pointers starts out as null pointers.  \<open>shuf\<close> is the outcome
  of \<^verbatim>\<open>std::ranges::shuffle\<close>.
\<close>

definition sample_rcs ::
  "sample_env \<Rightarrow> (nat \<Rightarrow> nat) \<Rightarrow> (relay_contact option list \<Rightarrow> relay_contact option list) \<Rightarrow> relay_contact list \<Rightarrow>
     nat \<Rightarrow> (relay_contact \<Rightarrow> bool) \<Rightarrow> bool \<Rightarrow> relay_contact option list" where
  "sample_rcs E rnd shuf rcs n predicate shuffle =
     (let (rand, admitted) = sample_loop (sample_admits E predicate) rnd n rcs (replicate n None, 0);
          rand = (if admitted < n then take admitted rand else rand)
      in if shuffle \<and> 1 < length rand then shuf rand else rand)"

definition get_n_random_rcs ::
  "sample_env \<Rightarrow> (nat \<Rightarrow> nat) \<Rightarrow> (relay_contact option list \<Rightarrow> relay_contact option list) \<Rightarrow> nodedb \<Rightarrow> nat \<Rightarrow> bool \<Rightarrow>
     (relay_contact \<Rightarrow> bool) \<Rightarrow> relay_contact option list" where
  "get_n_random_rcs E rnd shuf db n shuffle predicate =
     sample_rcs E rnd shuf (map snd (known_rcs db)) n predicate shuffle"

definition get_random_rc ::
  "sample_env \<Rightarrow> (nat \<Rightarrow> nat) \<Rightarrow> nodedb \<Rightarrow> (relay_contact \<Rightarrow> bool) \<Rightarrow> relay_contact option" where
  "get_random_rc E rnd db predicate =
     (let randos = get_n_random_rcs E rnd id db 1 False predicate in if randos = [] then None else hd randos)"

definition get_n_random_edge_rcs ::
  "sample_env \<Rightarrow> (nat \<Rightarrow> nat) \<Rightarrow> (relay_contact option list \<Rightarrow> relay_contact option list) \<Rightarrow> nodedb \<Rightarrow> nat \<Rightarrow> bool \<Rightarrow>
     (relay_contact \<Rightarrow> bool) \<Rightarrow> relay_contact option list" where
  "get_n_random_edge_rcs E rnd shuf db n shuffle predicate =
     (if se_service_node E \<or> se_strict_edges E = [] then get_n_random_rcs E rnd shuf db n shuffle predicate
      else sample_rcs E rnd shuf (List.map_filter (get_rc db) (se_strict_edges E))
             (min n (length (se_strict_edges E))) predicate shuffle)"

section \<open>Hops of a path\<close>

text \<open>The reservoir loop of \<^verbatim>\<open>select_first_hop\<close> over the connected relays.\<close>

fun first_hop_loop ::
  "nodedb \<Rightarrow> profiling \<Rightarrow> (relay_contact \<Rightarrow> bool) \<Rightarrow> (nat \<Rightarrow> nat) \<Rightarrow> router_id list \<Rightarrow> relay_contact option \<Rightarrow> nat \<Rightarrow>
     relay_contact option" where
  "first_hop_loop db P pred rnd [] selected acceptable = selected"
| "first_hop_loop db P pred rnd (rid # rids) selected acceptable =
     (case get_rc db rid of
        None \<Rightarrow> first_hop_loop db P pred rnd rids selected acceptable
      | Some rc \<Rightarrow>
          if \<not> pred rc then first_hop_loop db P pred rnd rids selected acceptable
          else if is_bad_for_path P rid profiling_chances then first_hop_loop db P pred rnd rids selected acceptable
          else first_hop_loop db P pred rnd rids
                 (if acceptable = 0 \<or> rnd acceptable = 0 then Some rc else selected) (acceptable + 1))"

definition select_first_hop ::
  "nodedb \<Rightarrow> profiling \<Rightarrow> router_id list \<Rightarrow> (nat \<Rightarrow> nat) \<Rightarrow> (relay_contact \<Rightarrow> bool) \<Rightarrow> relay_contact option" where
  "select_first_hop db P current_remotes rnd pred = first_hop_loop db P pred rnd current_remotes None 0"

text \<open>
  The configuration and surroundings of a selection.  \<open>in_net mask a b\<close> is
  \<^verbatim>\<open>(a.to_ipv4() % mask).contains(b.to_ipv4())\<close> of the networking library; mask 0 disables the
  check.
\<close>

record select_env =
  sel_sample :: sample_env
  sel_remotes :: "router_id list"
  sel_num_hops :: nat
  sel_netmask :: nat
  sel_in_net :: "nat \<Rightarrow> packed_addr \<Rightarrow> packed_addr \<Rightarrow> bool"

record select_draws =
  draw_first :: "nat \<Rightarrow> nat"
  draw_first_any :: "nat \<Rightarrow> nat"
  draw_first_last :: "nat \<Rightarrow> nat"
  draw_hop :: "nat \<Rightarrow> nat \<Rightarrow> nat" \<comment> \<open>by the number of hops still needed\<close>

definition hop_filter ::
  "select_env \<Rightarrow> profiling \<Rightarrow> router_id list \<Rightarrow> packed_addr list \<Rightarrow> relay_contact \<Rightarrow> bool" where
  "hop_filter V P to_exclude excluded_ranges rc =
     (if rc_router_id rc \<in> set to_exclude then False
      else if sel_netmask V \<noteq> 0 \<and> (\<exists>r \<in> set excluded_ranges. sel_in_net V (sel_netmask V) r (rc_addr rc)) then False
      else if is_bad_for_path P (rc_router_id rc) 1 then False
      else True)"

definition exclude_range :: "select_env \<Rightarrow> relay_contact \<Rightarrow> packed_addr list \<Rightarrow> packed_addr list" where
  "exclude_range V rc ranges = (if sel_netmask V \<noteq> 0 then rc_addr rc # ranges else ranges)"

fun middle_hops ::
  "select_env \<Rightarrow> nodedb \<Rightarrow> profiling \<Rightarrow> select_draws \<Rightarrow> nat \<Rightarrow> router_id list \<Rightarrow> packed_addr list \<Rightarrow>
     relay_contact list option" where
  "middle_hops V db P D 0 to_exclude ranges = Some []"
| "middle_hops V db P D (Suc k) to_exclude ranges =
     (case get_random_rc (sel_sample V) (draw_hop D (Suc k)) db (hop_filter V P to_exclude ranges) of
        None \<Rightarrow> None
      | Some hop \<Rightarrow>
          map_option (\<lambda>hs. hop # hs)
            (middle_hops V db P D k (rc_router_id hop # to_exclude) (exclude_range V hop ranges)))"

text \<open>The fallbacks for the first hop: the contact, and whether the path is to be extended.\<close>

definition choose_first_hop ::
  "select_env \<Rightarrow> nodedb \<Rightarrow> profiling \<Rightarrow> select_draws \<Rightarrow> router_id \<Rightarrow> router_id list \<Rightarrow> packed_addr list \<Rightarrow>
     relay_contact option \<times> bool" where
  "choose_first_hop V db P D pivot to_exclude ranges =
     (let first0 = (if sel_netmask V \<noteq> 0
                    then select_first_hop db P (sel_remotes V) (draw_first D) (hop_filter V P to_exclude ranges)
                    else None);
          extend0 = (sel_netmask V \<noteq> 0 \<and> first0 = None);
          first1 = (case first0 of None \<Rightarrow> select_first_hop db P (sel_remotes V) (draw_first_any D)
                                             (\<lambda>rc. rc_router_id rc \<noteq> pivot)
                    | Some rc \<Rightarrow> Some rc);
          (first2, extend2) = (case first1 of None \<Rightarrow> (get_rc db pivot, True) | Some rc \<Rightarrow> (Some rc, extend0));
          first3 = (case first2 of None \<Rightarrow> select_first_hop db P (sel_remotes V) (draw_first_last D) (\<lambda>_. True)
                    | Some rc \<Rightarrow> Some rc)
      in (first3, extend2))"

definition select_hops_to_remote ::
  "select_env \<Rightarrow> nodedb \<Rightarrow> profiling \<Rightarrow> select_draws \<Rightarrow> router_id \<Rightarrow> relay_contact list option" where
  "select_hops_to_remote V db P D pivot =
     (case get_rc db pivot of
        None \<Rightarrow> None
      | Some pivot_rc \<Rightarrow>
          if sel_num_hops V - 1 = 0 then Some [pivot_rc]
          else
            (let to_exclude = [rc_router_id pivot_rc, pivot];
                 ranges = exclude_range V pivot_rc []
             in case choose_first_hop V db P D pivot to_exclude ranges of
                  (None, _) \<Rightarrow> None
                | (Some first, extend_path) \<Rightarrow>
                    (let hops_needed = sel_num_hops V - 2;
                         hops_needed = (if extend_path \<and> hops_needed < BUILD_LENGTH - 2 then hops_needed + 1
                                        else hops_needed)
                     in map_option (\<lambda>mid. first # mid @ [pivot_rc])
                          (middle_hops V db P D hops_needed (rc_router_id first # to_exclude)
                             (exclude_range V first ranges)))))"

section \<open>Lemmas on sampling\<close>

lemma sample_loop_spec:
  assumes "length ys = min admitted n" and "distinct (ys @ rcs)"
  shows "\<exists>ys'. sample_loop adm rnd n rcs (map Some ys @ replicate (n - length ys) None, admitted) =
        (map Some ys' @ replicate (n - length ys') None, admitted + length (filter adm rcs)) \<and>
      length ys' = min (admitted + length (filter adm rcs)) n \<and> distinct ys' \<and>
      set ys' \<subseteq> set ys \<union> set (filter adm rcs)"
  using assms
proof (induction rcs arbitrary: ys admitted)
  case Nil
  then show ?case by (intro exI [of _ ys]) simp
next
  case (Cons rc rcs)
  show ?case
  proof (cases "adm rc")
    case False
    with Cons.IH [OF Cons.prems(1)] Cons.prems(2) show ?thesis by simp
  next
    case adm: True
    define pos where "pos = (if admitted < n then admitted else rnd admitted)"
    define zs where "zs = (if admitted < n then ys @ [rc] else if pos < n then ys[pos := rc] else ys)"
    let ?rand = "map Some ys @ replicate (n - length ys) None"
    have rand: "(if pos < n then ?rand[pos := Some rc] else ?rand) = map Some zs @ replicate (n - length zs) None"
    proof (cases "admitted < n")
      case True
      then have "n - length ys = Suc (n - Suc admitted)" "length ys = admitted"
        using Cons.prems(1) by auto
      then show ?thesis
        using True by (simp add: pos_def zs_def list_update_append)
    next
      case False
      then have "length ys = n"
        using Cons.prems(1) by auto
      then show ?thesis
        using False by (auto simp: zs_def map_update)
    qed
    have zs: "length zs = min (admitted + 1) n" "set zs \<subseteq> set ys \<union> {rc}"
      using Cons.prems(1) set_update_subset_insert [of ys pos rc] by (auto simp: zs_def)
    have "distinct zs"
      using Cons.prems by (auto simp: zs_def pos_def intro!: distinct_list_update)
    then have "distinct (zs @ rcs)"
      using Cons.prems(2) zs(2) by auto
    from Cons.IH [OF zs(1) this] obtain ys' where
      "sample_loop adm rnd n rcs (map Some zs @ replicate (n - length zs) None, admitted + 1) =
        (map Some ys' @ replicate (n - length ys') None, admitted + 1 + length (filter adm rcs))"
      "length ys' = min (admitted + 1 + length (filter adm rcs)) n" "distinct ys'"
      "set ys' \<subseteq> set zs \<union> set (filter adm rcs)"
      by blast
    then show ?thesis
      using zs(2) adm rand by (intro exI [of _ ys']) (auto simp: Let_def pos_def)
  qed
qed

lemma sample_unshuffled:
  assumes "distinct rcs"
  shows "\<exists>ys. sample_rcs E rnd shuf rcs n pred False = map Some ys \<and>
      length ys = min (length (filter (sample_admits E pred) rcs)) n \<and> distinct ys \<and>
      set ys \<subseteq> set (filter (sample_admits E pred) rcs)"
proof -
  from sample_loop_spec [of "[]" 0 n rcs "sample_admits E pred" rnd] assms obtain ys where
    "sample_loop (sample_admits E pred) rnd n rcs (replicate n None, 0) =
      (map Some ys @ replicate (n - length ys) None, length (filter (sample_admits E pred) rcs))"
    "length ys = min (length (filter (sample_admits E pred) rcs)) n" "distinct ys"
    "set ys \<subseteq> set (filter (sample_admits E pred) rcs)"
    by auto
  then show ?thesis
    by (intro exI [of _ ys]) (auto simp: sample_rcs_def Let_def)
qed

lemma rcs_ok_distinct: "rcs_ok m \<Longrightarrow> distinct (map snd m)"
proof -
  assume "rcs_ok m"
  then have "map rc_router_id (map snd m) = map fst m"
    unfolding rcs_ok_def by (induction m) auto
  then show "distinct (map snd m)"
    using \<open>rcs_ok m\<close> unfolding rcs_ok_def by (metis distinct_map)
qed

lemma get_random_rc_Some:
  assumes "rcs_ok (known_rcs db)" and "get_random_rc E rnd db pred = Some rc"
  shows "get_rc db (rc_router_id rc) = Some rc \<and> pred rc \<and> sample_admits E pred rc"
proof -
  from sample_unshuffled [OF rcs_ok_distinct [OF assms(1)], of E rnd id 1 pred] obtain ys where
    ys: "sample_rcs E rnd id (map snd (known_rcs db)) 1 pred False = map Some ys"
    "set ys \<subseteq> set (filter (sample_admits E pred) (map snd (known_rcs db)))"
    by blast
  then have "rc \<in> set ys"
    using assms(2) by (cases ys) (auto simp: get_random_rc_def get_n_random_rcs_def)
  then have "rc \<in> snd ` set (known_rcs db)" "sample_admits E pred rc"
    using ys(2) by auto
  then show ?thesis
    using assms(1) by (auto simp: get_rc_def rcs_ok_def sample_admits_def)
qed

lemma get_random_rc_None:
  assumes "rcs_ok (known_rcs db)"
  shows "get_random_rc E rnd db pred = None \<longleftrightarrow> (\<forall>rc \<in> snd ` set (known_rcs db). \<not> sample_admits E pred rc)"
proof -
  from sample_unshuffled [OF rcs_ok_distinct [OF assms(1)], of E rnd id 1 pred] obtain ys where
    ys: "sample_rcs E rnd id (map snd (known_rcs db)) 1 pred False = map Some ys"
    "length ys = min (length (filter (sample_admits E pred) (map snd (known_rcs db)))) 1"
    by blast
  have "length ys = 0 \<longleftrightarrow> length (filter (sample_admits E pred) (map snd (known_rcs db))) = 0"
    unfolding ys(2) by linarith
  then have "ys = [] \<longleftrightarrow> filter (sample_admits E pred) (map snd (known_rcs db)) = []"
    by (simp only: length_0_conv)
  with ys(1) show ?thesis
    by (cases ys) (auto simp: get_random_rc_def get_n_random_rcs_def filter_empty_conv)
qed

section \<open>Lemmas on hop selection\<close>

definition first_candidate :: "nodedb \<Rightarrow> profiling \<Rightarrow> (relay_contact \<Rightarrow> bool) \<Rightarrow> router_id list \<Rightarrow> relay_contact \<Rightarrow> bool" where
  "first_candidate db P pred rids rc \<longleftrightarrow>
     (\<exists>rid \<in> set rids. get_rc db rid = Some rc \<and> pred rc \<and> \<not> is_bad_for_path P rid profiling_chances)"

lemma first_hop_loop_Some:
  "first_hop_loop db P pred rnd rids sel acc = Some rc \<Longrightarrow> sel = Some rc \<or> first_candidate db P pred rids rc"
  by (induction db P pred rnd rids sel acc rule: first_hop_loop.induct)
    (auto simp: first_candidate_def split: option.splits if_splits)

lemma first_hop_loop_None:
  "(acc = 0 \<longleftrightarrow> sel = None) \<Longrightarrow>
     first_hop_loop db P pred rnd rids sel acc = None \<longleftrightarrow> sel = None \<and> (\<forall>rc. \<not> first_candidate db P pred rids rc)"
  by (induction db P pred rnd rids sel acc rule: first_hop_loop.induct)
    (auto simp: first_candidate_def split: option.splits)

lemma select_first_hop_Some:
  "select_first_hop db P rids rnd pred = Some rc \<Longrightarrow> first_candidate db P pred rids rc"
  using first_hop_loop_Some unfolding select_first_hop_def by fastforce

lemma select_first_hop_None:
  "select_first_hop db P rids rnd pred = None \<longleftrightarrow> (\<forall>rc. \<not> first_candidate db P pred rids rc)"
  by (simp add: select_first_hop_def first_hop_loop_None)

lemma rcs_ok_get: "rcs_ok (known_rcs db) \<Longrightarrow> get_rc db rid = Some rc \<Longrightarrow> rc_router_id rc = rid"
  by (auto simp: rcs_ok_def get_rc_def dest: map_of_SomeD)

text \<open>Where the first hop comes from, and that a path starting at its own end is extended.\<close>

lemma choose_first_hop_Some:
  assumes "rcs_ok (known_rcs db)" and "choose_first_hop V db P D pivot ex ranges = (Some first, ext)"
    and "get_rc db pivot = Some pivot_rc" and "pivot \<in> set ex"
  shows "get_rc db (rc_router_id first) = Some first"
    and "rc_router_id first = pivot \<Longrightarrow> ext"
    and "rc_router_id first \<noteq> pivot \<Longrightarrow>
      rc_router_id first \<in> set (sel_remotes V) \<and> \<not> is_bad_for_path P (rc_router_id first) profiling_chances"
proof -
  let ?cand = "\<lambda>pred. first_candidate db P pred (sel_remotes V) first"
  have "?cand (\<lambda>rc. rc_router_id rc \<noteq> pivot) \<or> first = pivot_rc \<and> ext"
    using assms(2-4)
    by (auto simp: choose_first_hop_def Let_def first_candidate_def hop_filter_def
        dest!: select_first_hop_Some split: option.splits if_splits)
  then show "get_rc db (rc_router_id first) = Some first"
    and "rc_router_id first = pivot \<Longrightarrow> ext"
    and "rc_router_id first \<noteq> pivot \<Longrightarrow>
      rc_router_id first \<in> set (sel_remotes V) \<and> \<not> is_bad_for_path P (rc_router_id first) profiling_chances"
    using assms(1,3) by (auto simp: first_candidate_def dest: rcs_ok_get)
qed

lemma middle_hops_Some:
  assumes "rcs_ok (known_rcs db)" and "middle_hops V db P D k ex ranges = Some hs"
  shows "length hs = k \<and> distinct (map rc_router_id hs) \<and> rc_router_id ` set hs \<inter> set ex = {} \<and>
    (\<forall>rc \<in> set hs. get_rc db (rc_router_id rc) = Some rc \<and> \<not> is_bad_for_path P (rc_router_id rc) 1 \<and>
       \<not> rc_is_expired rc (se_now (sel_sample V)))"
  using assms(2)
proof (induction k arbitrary: ex ranges hs)
  case (Suc k)
  then obtain hop hs' where hop: "get_random_rc (sel_sample V) (draw_hop D (Suc k)) db (hop_filter V P ex ranges) = Some hop"
    and hs': "middle_hops V db P D k (rc_router_id hop # ex) (exclude_range V hop ranges) = Some hs'" "hs = hop # hs'"
    by (auto split: option.splits)
  from get_random_rc_Some [OF assms(1) hop] Suc.IH [OF hs'(1)] hs'(2) show ?case
    by (auto simp: hop_filter_def sample_admits_def split: if_splits)
qed simp

text \<open>With a netmask, no middle hop is in the range of an excluded contact or of an earlier hop.\<close>

lemma middle_hops_ranges:
  assumes "rcs_ok (known_rcs db)" and "middle_hops V db P D k ex ranges = Some hs" and "sel_netmask V \<noteq> 0"
  shows "(\<forall>rc \<in> set hs. \<forall>r \<in> set ranges. \<not> sel_in_net V (sel_netmask V) r (rc_addr rc)) \<and>
    sorted_wrt (\<lambda>a b. \<not> sel_in_net V (sel_netmask V) (rc_addr a) (rc_addr b)) hs"
  using assms(2)
proof (induction k arbitrary: ex ranges hs)
  case (Suc k)
  then obtain hop hs' where hop: "get_random_rc (sel_sample V) (draw_hop D (Suc k)) db (hop_filter V P ex ranges) = Some hop"
    and hs': "middle_hops V db P D k (rc_router_id hop # ex) (exclude_range V hop ranges) = Some hs'" "hs = hop # hs'"
    by (auto split: option.splits)
  from get_random_rc_Some [OF assms(1) hop] Suc.IH [OF hs'(1)] hs'(2) assms(3) show ?case
    by (auto simp: hop_filter_def exclude_range_def split: if_splits)
qed simp

lemma distinct_imp_adj: "distinct xs \<Longrightarrow> distinct_adj xs"
  by (induction xs rule: induct_list012) auto

lemma adj_between:
  assumes "distinct ms" "a \<notin> set ms" "b \<notin> set ms" "a = b \<Longrightarrow> ms \<noteq> []"
  shows "distinct_adj (a # ms @ [b])"
  using assms distinct_imp_adj [of ms]
  by (cases "ms = []") (auto simp: distinct_adj_Cons distinct_adj_append_iff hd_append)

lemma select_hops_Some:
  assumes ok: "rcs_ok (known_rcs db)" and sel: "select_hops_to_remote V db P D pivot = Some hs"
    and n: "1 < sel_num_hops V"
  obtains pivot_rc first mid ext where "hs = first # mid @ [pivot_rc]" "get_rc db pivot = Some pivot_rc"
    "rc_router_id pivot_rc = pivot"
    "choose_first_hop V db P D pivot [pivot, pivot] (exclude_range V pivot_rc []) = (Some first, ext)"
    "middle_hops V db P D
       (if ext \<and> sel_num_hops V - 2 < BUILD_LENGTH - 2 then sel_num_hops V - 2 + 1 else sel_num_hops V - 2)
       [rc_router_id first, pivot, pivot] (exclude_range V first (exclude_range V pivot_rc [])) = Some mid"
proof -
  from sel obtain pivot_rc where p: "get_rc db pivot = Some pivot_rc"
    by (auto simp: select_hops_to_remote_def split: option.splits)
  then have "rc_router_id pivot_rc = pivot"
    using rcs_ok_get ok by blast
  with p sel n that show thesis
    by (auto simp: select_hops_to_remote_def Let_def split: option.splits prod.splits)
qed

section \<open>Properties\<close>

lemma selected_hops_facts:
  assumes ok: "rcs_ok (known_rcs db)" and sel: "select_hops_to_remote V db P D pivot = Some hs"
    and n: "1 \<le> sel_num_hops V" "sel_num_hops V \<le> BUILD_LENGTH"
  shows "hs \<noteq> [] \<and> rc_router_id (last hs) = pivot \<and> sel_num_hops V \<le> length hs \<and> length hs \<le> BUILD_LENGTH \<and>
    (\<forall>rc \<in> set hs. get_rc db (rc_router_id rc) = Some rc) \<and> distinct (map rc_router_id (butlast hs)) \<and>
    distinct (map rc_router_id (tl hs)) \<and> distinct_adj (map rc_router_id hs) \<and>
    (\<forall>rc \<in> set (butlast (tl hs)). \<not> rc_is_expired rc (se_now (sel_sample V)) \<and> \<not> is_bad_for_path P (rc_router_id rc) 1)"
proof (cases "sel_num_hops V = 1")
  case True
  then show ?thesis
    using sel ok by (auto simp: select_hops_to_remote_def BUILD_LENGTH_def dest: rcs_ok_get split: option.splits)
next
  case False
  with n(1) have n': "1 < sel_num_hops V" by simp
  from select_hops_Some [OF ok sel n'] obtain pivot_rc first mid ext where
    hs: "hs = first # mid @ [pivot_rc]" and p: "get_rc db pivot = Some pivot_rc" "rc_router_id pivot_rc = pivot" and
    f: "choose_first_hop V db P D pivot [pivot, pivot] (exclude_range V pivot_rc []) = (Some first, ext)" and
    m: "middle_hops V db P D
     (if ext \<and> sel_num_hops V - 2 < BUILD_LENGTH - 2 then sel_num_hops V - 2 + 1 else sel_num_hops V - 2)
     [rc_router_id first, pivot, pivot] (exclude_range V first (exclude_range V pivot_rc [])) = Some mid" .
  note first = choose_first_hop_Some [OF ok f p(1)]
  note mid = middle_hops_Some [OF ok m]
  have "mid \<noteq> []" if "rc_router_id first = pivot"
    using that first(2) mid by (auto simp: BUILD_LENGTH_def split: if_splits)
  then have "distinct_adj (map rc_router_id hs)"
    using mid p(2) adj_between [of "map rc_router_id mid" "rc_router_id first" pivot] by (auto simp: hs)
  then show ?thesis
    using mid first(1) p n n' unfolding hs
    by (auto simp: BUILD_LENGTH_def butlast_append split: if_splits)
qed

text \<open>
  C4: Selected hops form a valid path to the requested terminus: the last hop is the terminus, the
  length lies between the configured number of hops and the maximal build length, every hop is a
  known contact, no relay occurs twice except that the first may be the terminus itself, and even
  then no relay is its own neighbour.  The inner hops are unexpired and not profiled as bad.
\<close>

theorem selected_hops_valid:
  assumes "rcs_ok (known_rcs db)" and "select_hops_to_remote V db P D pivot = Some hs"
    and "1 \<le> sel_num_hops V" and "sel_num_hops V \<le> BUILD_LENGTH"
  shows "hs \<noteq> [] \<and> rc_router_id (last hs) = pivot \<and> sel_num_hops V \<le> length hs \<and> length hs \<le> BUILD_LENGTH \<and>
    (\<forall>rc \<in> set hs. get_rc db (rc_router_id rc) = Some rc) \<and> distinct (map rc_router_id (butlast hs)) \<and>
    distinct (map rc_router_id (tl hs)) \<and> distinct_adj (map rc_router_id hs) \<and>
    (\<forall>rc \<in> set (butlast (tl hs)). \<not> rc_is_expired rc (se_now (sel_sample V)) \<and> \<not> is_bad_for_path P (rc_router_id rc) 1)"
  using selected_hops_facts [OF assms] .

text \<open>A client pinned to one relay that is also the terminus gets the path over another relay and back.\<close>

theorem selected_hops_valid_witness:
  "let rc = (\<lambda>i. \<lparr>rc_router_id = [i], rc_addr = [], rc_addr6 = None, rc_timestamp = 0, rc_netid = 0, rc_version = [],
              rc_payload = []\<rparr>);
       db = nodedb_new []\<lparr>known_rcs := [([1], rc 1), ([2], rc 2)]\<rparr>;
       V = \<lparr>sel_sample = \<lparr>se_service_node = False, se_self = [], se_blacklist = [], se_strict_edges = [], se_now = 0\<rparr>,
            sel_remotes = [[1]], sel_num_hops = 2, sel_netmask = 0, sel_in_net = (\<lambda>_ _ _. False)\<rparr>;
       D = \<lparr>draw_first = id, draw_first_any = id, draw_first_last = id, draw_hop = (\<lambda>_. id)\<rparr>
   in select_hops_to_remote V db profiling_new D [1] = Some [rc 1, rc 2, rc 1] \<and> distinct_adj (map rc_router_id [rc 1, rc 2, rc 1])"
proof -
  let ?rc = "\<lambda>i. \<lparr>rc_router_id = [i], rc_addr = [], rc_addr6 = None, rc_timestamp = 0, rc_netid = 0, rc_version = [],
              rc_payload = []\<rparr> :: relay_contact"
  let ?db = "nodedb_new []\<lparr>known_rcs := [([1], ?rc 1), ([2], ?rc 2)]\<rparr>"
  let ?V = "\<lparr>sel_sample = \<lparr>se_service_node = False, se_self = [], se_blacklist = [], se_strict_edges = [], se_now = 0\<rparr>,
            sel_remotes = [[1]], sel_num_hops = 2, sel_netmask = 0, sel_in_net = (\<lambda>_ _ _. False)\<rparr>"
  let ?D = "\<lparr>draw_first = id, draw_first_any = id, draw_first_last = id, draw_hop = (\<lambda>_. id)\<rparr>"
  have "select_hops_to_remote ?V ?db profiling_new ?D [1] = Some [?rc 1, ?rc 2, ?rc 1]"
    by (simp add: select_hops_to_remote_def get_rc_def choose_first_hop_def select_first_hop_def exclude_range_def
        BUILD_LENGTH_def get_random_rc_def get_n_random_rcs_def sample_rcs_def sample_admits_def hop_filter_def
        is_bad_for_path_def profiling_new_def rc_age_defs numeral_2_eq_2)
  moreover from selected_hops_valid [OF _ this] have "distinct_adj (map rc_router_id [?rc 1, ?rc 2, ?rc 1])"
    by (simp add: rcs_ok_def BUILD_LENGTH_def)
  ultimately show ?thesis
    by simp
qed

end
