(* ===== verification/Path_Handler.thy ===== *)
theory Path_Handler
  imports Hop_Select Path_Build
begin

text \<open>
  The path handler (\<^verbatim>\<open>path/path_handler.hpp\<close>, \<^verbatim>\<open>path/path_handler.cpp\<close>,
  \<^verbatim>\<open>path/build_stats.cpp\<close>): a client's set of paths, the life cycle of a path build from the
  request to the response callback, expiry, and the backoff after repeated failures.  The parts of
  the router a handler writes (path context, profiling, build statistics) are fields of its state;
  path objects live in the store of the path context.
\<close>

section \<open>Build statistics\<close>

record build_stats =
  bs_attempts :: u64
  bs_success :: u64
  bs_build_fails :: u64
  bs_path_fails :: u64
  bs_timeouts :: u64
  bs_last_warn_time :: ms

definition build_stats_new :: build_stats where
  "build_stats_new = \<lparr>bs_attempts = 0, bs_success = 0, bs_build_fails = 0, bs_path_fails = 0, bs_timeouts = 0,
     bs_last_warn_time = 0\<rparr>"

text \<open>\<^verbatim>\<open>BuildStats::update\<close>: whether a warning is logged, and the statistics afterwards.\<close>

definition build_stats_update :: "ms \<Rightarrow> build_stats \<Rightarrow> bool \<times> build_stats" where
  "build_stats_update now b =
     (if 50 < bs_attempts b \<and> bs_success b * 4 \<le> bs_attempts b \<and> 5000 < now - bs_last_warn_time b
      then (True, b\<lparr>bs_last_warn_time := now\<rparr>) else (False, b))"

section \<open>State\<close>

record path_handler =
  ph_running :: bool
  ph_path_counter :: int
  ph_consecutive_failures :: int
  ph_last_failure :: ms
  ph_paths :: "(hop_id \<times> path_ref) list"
  ph_ctx :: path_context
  ph_profiling :: profiling
  ph_stats :: build_stats
  ph_next_ref :: path_ref \<comment> \<open>the next path object\<close>

definition BACKOFF_THRESHOLD :: int where "BACKOFF_THRESHOLD = 3"
definition BACKOFF_INCREMENT :: ms where "BACKOFF_INCREMENT = 1000"
definition BACKOFF_MAX :: ms where "BACKOFF_MAX = 15000"

definition path_handler_new :: "path_context \<Rightarrow> profiling \<Rightarrow> path_handler" where
  "path_handler_new c P =
     \<lparr>ph_running = True, ph_path_counter = 0, ph_consecutive_failures = 0, ph_last_failure = 0, ph_paths = [],
      ph_ctx = c, ph_profiling = P, ph_stats = build_stats_new, ph_next_ref = 0\<rparr>"

definition path_at :: "path_handler \<Rightarrow> path_ref \<Rightarrow> path option" where
  "path_at st r = path_objs (ph_ctx st) r"

definition set_path_at :: "path_ref \<Rightarrow> path \<Rightarrow> path_handler \<Rightarrow> path_handler" where
  "set_path_at r p st = st\<lparr>ph_ctx := (ph_ctx st)\<lparr>path_objs := (path_objs (ph_ctx st))(r \<mapsto> p)\<rparr>\<rparr>"

section \<open>The set of paths\<close>

definition ph_add_path :: "path_ref \<Rightarrow> path_handler \<Rightarrow> path_handler" where
  "ph_add_path r st =
     (case path_at st r of None \<Rightarrow> st
      | Some p \<Rightarrow> st\<lparr>ph_paths := AList.update (rxid (edge p)) r (ph_paths st), ph_ctx := add_path r (ph_ctx st)\<rparr>)"

definition ph_drop_path :: "path \<Rightarrow> path_handler \<Rightarrow> path_handler" where
  "ph_drop_path p st =
     st\<lparr>ph_paths := AList.delete (rxid (edge p)) (ph_paths st), ph_ctx := drop_path_ctx p (ph_ctx st)\<rparr>"

definition active_paths :: "ms \<Rightarrow> path_handler \<Rightarrow> path_ref list" where
  "active_paths now st =
     filter (\<lambda>r. case path_at st r of None \<Rightarrow> False | Some p \<Rightarrow> is_active p now) (map snd (ph_paths st))"

definition num_active_paths :: "ms \<Rightarrow> ms \<Rightarrow> path_handler \<Rightarrow> nat" where
  "num_active_paths now expiry_ts st =
     length (filter (\<lambda>r. case path_at st r of None \<Rightarrow> False | Some p \<Rightarrow> is_active p now \<and> \<not> is_expired p expiry_ts)
       (map snd (ph_paths st)))"

definition num_paths :: "ms \<Rightarrow> path_handler \<Rightarrow> nat" where
  "num_paths expiry_ts st =
     length (filter (\<lambda>r. case path_at st r of None \<Rightarrow> False | Some p \<Rightarrow> \<not> is_expired p expiry_ts) (map snd (ph_paths st)))"

text \<open>
  \<^verbatim>\<open>get_random_active_path\<close>: the number of active paths and the view over them are taken from two
  readings of the clock; stepping past the end of the view is \<open>Some None\<close>.  \<open>draw n\<close> is drawn
  from \<open>0..n - 1\<close>.
\<close>

definition get_random_active_path :: "ms \<Rightarrow> ms \<Rightarrow> (nat \<Rightarrow> nat) \<Rightarrow> path_handler \<Rightarrow> path_ref option option" where
  "get_random_active_path now now' draw st =
     (let n_paths = num_active_paths now now st
      in if n_paths = 0 then None
         else (let view = active_paths now' st; i = draw n_paths
               in Some (if i < length view then Some (view ! i) else None)))"

text \<open>\<^verbatim>\<open>ping_paths\<close>: the paths that send a ping.\<close>

fun ping_loop :: "ms \<Rightarrow> ms \<Rightarrow> ms \<Rightarrow> path_ref list \<Rightarrow> path_handler \<Rightarrow> path_ref list \<times> path_handler" where
  "ping_loop interval sys_now now [] st = ([], st)"
| "ping_loop interval sys_now now (r # rs) st =
     (case path_at st r of
        None \<Rightarrow> ping_loop interval sys_now now rs st
      | Some p \<Rightarrow>
          (let (sent, p') = do_ping interval sys_now now p;
               (pinged, st') = ping_loop interval sys_now now rs (set_path_at r p' st)
           in (if sent then r # pinged else pinged, st')))"

definition ping_paths :: "ms \<Rightarrow> ms \<Rightarrow> ms \<Rightarrow> path_handler \<Rightarrow> path_ref list \<times> path_handler" where
  "ping_paths interval sys_now now st = ping_loop interval sys_now now (map snd (ph_paths st)) st"

text \<open>
  \<^verbatim>\<open>expire_paths\<close>: the loop counts dropped and still established paths; the result says whether
  \<^verbatim>\<open>no_established_paths_left\<close> is called.
\<close>

fun expire_loop ::
  "ms \<Rightarrow> (hop_id \<times> path_ref) list \<Rightarrow> path_handler \<Rightarrow> (hop_id \<times> path_ref) list \<times> nat \<times> nat \<times> path_handler" where
  "expire_loop now [] st = ([], 0, 0, st)"
| "expire_loop now ((k, r) # m) st =
     (case path_at st r of
        Some p \<Rightarrow>
          if is_expired p now
          then (let (kept, n, est, st') = expire_loop now m (st\<lparr>ph_ctx := drop_path_ctx p (ph_ctx st)\<rparr>)
                in (kept, n + 1, est, st'))
          else (let (kept, n, est, st') = expire_loop now m st
                in ((k, r) # kept, n, if is_established p then est + 1 else est, st'))
      | None \<Rightarrow> (let (kept, n, est, st') = expire_loop now m st in ((k, r) # kept, n, est, st')))"

definition expire_paths :: "ms \<Rightarrow> path_handler \<Rightarrow> bool \<times> path_handler" where
  "expire_paths now st =
     (let (kept, n, still_established, st') = expire_loop now (ph_paths st) st
      in (0 < n \<and> still_established = 0, st'\<lparr>ph_paths := kept\<rparr>))"

definition invalidate_paths :: "path_handler \<Rightarrow> path_handler" where
  "invalidate_paths st =
     (fold (\<lambda>(k, r) st. case path_at st r of None \<Rightarrow> st | Some p \<Rightarrow> st\<lparr>ph_ctx := drop_path_ctx p (ph_ctx st)\<rparr>)
        (ph_paths st) st)\<lparr>ph_paths := []\<rparr>"

definition get_path_by_edge :: "hop_id \<Rightarrow> path_handler \<Rightarrow> path_ref option" where
  "get_path_by_edge h st = map_of (ph_paths st) h"

definition get_path_by_terminus :: "hop_id \<Rightarrow> path_handler \<Rightarrow> path_ref option" where
  "get_path_by_terminus h st =
     map_option snd (find (\<lambda>(k, r). case path_at st r of None \<Rightarrow> False | Some p \<Rightarrow> terminal_hopid p = h) (ph_paths st))"

definition ph_stop :: "path_handler \<Rightarrow> path_handler" where
  "ph_stop st = st\<lparr>ph_running := False, ph_paths := []\<rparr>"

definition is_stopped :: "path_handler \<Rightarrow> bool" where
  "is_stopped st \<longleftrightarrow> \<not> ph_running st"

section \<open>Builds\<close>

definition can_build :: "relay_contact list \<Rightarrow> path_handler \<Rightarrow> bool" where
  "can_build hop_rcs st \<longleftrightarrow> \<not> is_stopped st \<and> hop_rcs \<noteq> [] \<and> length hop_rcs \<le> BUILD_LENGTH"

definition cooldown :: "ms \<Rightarrow> path_handler \<Rightarrow> bool" where
  "cooldown now st =
     (if ph_consecutive_failures st < BACKOFF_THRESHOLD then False
      else (let delay = min (BACKOFF_INCREMENT * (1 + ph_consecutive_failures st - BACKOFF_THRESHOLD)) BACKOFF_MAX
            in now < ph_last_failure st + delay))"

text \<open>
  \<^verbatim>\<open>path_build_failed\<close>; \<open>p\<close> is the null pointer when no build was attempted.  \<open>now\<close> is the
  steady clock, \<open>sys_now\<close> the system clock read by the profiling.
\<close>

definition path_build_failed :: "time64 \<Rightarrow> ms \<Rightarrow> path option \<Rightarrow> bool \<Rightarrow> path_handler \<Rightarrow> path_handler" where
  "path_build_failed sys_now now p timeout st =
     (let st1 = (case p of None \<Rightarrow> st
                 | Some p \<Rightarrow>
                     (let st = ph_drop_path p st
                      in if timeout then st\<lparr>ph_profiling := path_timeout sys_now p (ph_profiling st)\<rparr> else st));
          b = ph_stats st1;
          b' = (if timeout then b\<lparr>bs_timeouts := bs_timeouts b + 1\<rparr> else b\<lparr>bs_build_fails := bs_build_fails b + 1\<rparr>)
      in st1\<lparr>ph_stats := b', ph_last_failure := now, ph_consecutive_failures := ph_consecutive_failures st1 + 1\<rparr>)"

definition path_build_succeeded :: "time64 \<Rightarrow> path_ref \<Rightarrow> path_handler \<Rightarrow> path_handler" where
  "path_build_succeeded sys_now r st =
     (case path_at st r of None \<Rightarrow> st
      | Some p \<Rightarrow>
          (let p' = set_established p;
               st1 = ph_add_path r (set_path_at r p' st)
           in st1\<lparr>ph_profiling := path_success sys_now p' (ph_profiling st1),
                  ph_stats := (ph_stats st1)\<lparr>bs_success := bs_success (ph_stats st1) + 1\<rparr>,
                  ph_consecutive_failures := 0\<rparr>))"

definition path_died :: "path_handler \<Rightarrow> path_handler" where
  "path_died st = st\<lparr>ph_stats := (ph_stats st)\<lparr>bs_path_fails := bs_path_fails (ph_stats st) + 1\<rparr>\<rparr>"

text \<open>\<^verbatim>\<open>build_init_path\<close>: a new path object, entered unless its edge id is taken.\<close>

definition build_init_path ::
  "router_id \<Rightarrow> (nat \<Rightarrow> hop_id) \<Rightarrow> relay_contact list \<Rightarrow> ms \<Rightarrow> path_handler \<Rightarrow> path_ref option \<times> path_handler" where
  "build_init_path self rnd hop_rcs expiry_ts st =
     (let p = path_new self rnd hop_rcs expiry_ts; r = ph_next_ref st
      in case map_of (ph_paths st) (rxid (edge p)) of
           Some _ \<Rightarrow> (None, st)
         | None \<Rightarrow> (Some r, (set_path_at r p st)\<lparr>ph_paths := (rxid (edge p), r) # ph_paths st, ph_next_ref := Suc r\<rparr>))"

record build_env =
  be_sodium :: sodium
  be_oxenc :: oxenc
  be_self :: router_id
  be_ids :: "nat \<Rightarrow> hop_id"
  be_rand :: "nat \<Rightarrow> frame_rand"
  be_junk :: bytes
  be_now :: ms \<comment> \<open>system clock\<close>
  be_steady_now :: ms

text \<open>
  \<^verbatim>\<open>build\<close> with \<^verbatim>\<open>send_path_build\<close>: the build was sent to the edge (the object and the
  request), or could not be sent, or was refused, or the onion could not be made (an exception).
  \<open>sent\<close> says whether the edge resolves to a connection.
\<close>

datatype build_result =
    BuildSent path_ref router_id bytes
  | BuildUnsent
  | BuildRefused
  | BuildThrew build_error

definition send_path_build ::
  "build_env \<Rightarrow> (router_id \<Rightarrow> bool) \<Rightarrow> path_ref \<Rightarrow> path \<Rightarrow> path_handler \<Rightarrow> build_result \<times> path_handler" where
  "send_path_build B sent r p st =
     (case path_build_onion (be_sodium B) (be_oxenc B) (be_rand B) (be_junk B) (be_now B) p of
        Inl e \<Rightarrow> (BuildThrew e, set_path_at r (snd (set_built p)) st)
      | Inr (p', payload) \<Rightarrow>
          (let b = ph_stats st;
               st1 = (set_path_at r p' st)\<lparr>ph_stats := b\<lparr>bs_attempts := bs_attempts b + 1\<rparr>\<rparr>;
               upstream_rid = router_id (edge p')
           in if sent upstream_rid then (BuildSent r upstream_rid payload, st1)
              else (BuildUnsent, path_build_failed (word_of_int (be_now B)) (be_steady_now B) (Some p') False st1)))"

definition build ::
  "build_env \<Rightarrow> (router_id \<Rightarrow> bool) \<Rightarrow> relay_contact list \<Rightarrow> ms \<Rightarrow> path_handler \<Rightarrow> build_result \<times> path_handler" where
  "build B sent hop_rcs expiry_ts st =
     (let refused = (\<lambda>st. (BuildRefused, path_build_failed (word_of_int (be_now B)) (be_steady_now B) None False st))
      in if can_build hop_rcs st
         then (case build_init_path (be_self B) (be_ids B) hop_rcs expiry_ts st of
                 (None, st1) \<Rightarrow> refused st1
               | (Some r, st1) \<Rightarrow>
                   (case path_at st1 r of
                      None \<Rightarrow> refused st1
                    | Some p \<Rightarrow>
                        send_path_build B sent r p (st1\<lparr>ph_path_counter := ph_path_counter st1 + 1\<rparr>)))
         else refused st)"

text \<open>
  The response callback of \<^verbatim>\<open>send_path_build\<close>: nothing when the handler is gone, success, or
  failure with or without a timeout.
\<close>

definition build_response ::
  "bool \<Rightarrow> time64 \<Rightarrow> ms \<Rightarrow> path_ref \<Rightarrow> response \<Rightarrow> path_handler \<Rightarrow> path_handler" where
  "build_response alive sys_now now r m st =
     (if \<not> alive then st
      else case m of
             RespOk _ \<Rightarrow> path_build_succeeded sys_now r st
           | RespTimeout \<Rightarrow> path_build_failed sys_now now (path_at st r) True st
           | RespError _ \<Rightarrow> path_build_failed sys_now now (path_at st r) False st)"

definition build_path_to_remote ::
  "build_env \<Rightarrow> (router_id \<Rightarrow> bool) \<Rightarrow> select_env \<Rightarrow> nodedb \<Rightarrow> select_draws \<Rightarrow> router_id \<Rightarrow> ms \<Rightarrow> path_handler \<Rightarrow>
     build_result option \<times> path_handler" where
  "build_path_to_remote B sent V db D remote lifetime st =
     (case select_hops_to_remote V db (ph_profiling st) D remote of
        None \<Rightarrow> (None, st)
      | Some hop_rcs \<Rightarrow> (let (res, st') = build B sent hop_rcs (be_now B + lifetime) st in (Some res, st')))"

text \<open>
  \<^verbatim>\<open>tick\<close>; \<open>update_paths\<close> is the subclass hook, \<open>connected\<close> whether paths may be built
  (\<^verbatim>\<open>is_service_node\<close> or \<^verbatim>\<open>is_edge_connected\<close>).
\<close>

definition ph_tick ::
  "(ms \<Rightarrow> path_handler \<Rightarrow> path_handler) \<Rightarrow> bool \<Rightarrow> ms \<Rightarrow> ms \<Rightarrow> ms \<Rightarrow> path_handler \<Rightarrow> path_handler" where
  "ph_tick update_paths connected interval now steady_now st =
     (let st1 = snd (expire_paths now st)
      in if \<not> connected then st1
         else (let st2 = (if is_stopped st1 then st1 else update_paths now st1);
                   st3 = st2\<lparr>ph_stats := snd (build_stats_update steady_now (ph_stats st2))\<rparr>
               in snd (ping_paths interval now steady_now st3)))"

section \<open>Identity of a path under its operations\<close>

text \<open>A build sets secrets only: the ids and relays of the hops stay.\<close>

definition hop_ident :: "transit_hop \<Rightarrow> hop_id \<times> hop_id \<times> router_id \<times> router_id" where
  "hop_ident h = (rxid h, txid h, router_id h, upstream h)"

lemma encode_frame_ident: "encode_frame S X R h n l = Inr (h', f, nonce) \<Longrightarrow> hop_ident h' = hop_ident h"
  by (auto simp: encode_frame_def encode_frame_v0_def encode_frame_v1_def hop_ident_def Let_def
      split: if_splits option.splits)

lemma onion_loop_ident:
  "onion_loop S X R l i (hs, buf) = Inr (hs', buf') \<Longrightarrow> i \<le> length hs \<Longrightarrow> map hop_ident hs' = map hop_ident hs"
proof (induction i arbitrary: hs buf)
  case (Suc i)
  then obtain h f n buf2 where e: "encode_frame S X (R i) (hs ! i) BUILD_FRAME_SIZE l = Inr (h, f, n)"
    and l: "onion_loop S X R l i (hs[i := h], buf2) = Inr (hs', buf')"
    by (auto simp: Let_def split: sum.splits prod.splits)
  from Suc.IH [OF l] Suc.prems(2) have "map hop_ident hs' = map hop_ident (hs[i := h])"
    by simp
  also have "\<dots> = map hop_ident hs"
    using encode_frame_ident [OF e] Suc.prems(2) by (simp add: map_update list_update_same_conv)
  finally show ?case .
qed simp

lemma path_build_onion_ident:
  assumes "path_build_onion S X R junk now p = Inr (p', m)"
  shows "map hop_ident (hops p') = map hop_ident (hops p)" and "path_expiry p' = path_expiry p"
    and "is_established p' = is_established p"
proof -
  from assms obtain hs where p': "p' = p\<lparr>is_built := True, hops := hs\<rparr>"
    and l: "onion_loop S X R (word_of_int (round_seconds (expires_in p now))) (length (hops p))
      (hops p, buf_zero (length (hops p) * BUILD_FRAME_SIZE) @ take ((BUILD_LENGTH - length (hops p)) * BUILD_FRAME_SIZE) junk) = Inr (hs, m)"
    by (auto simp: path_build_onion_def set_built_def Let_def split: if_splits sum.splits)
  from onion_loop_ident [OF l] p' show "map hop_ident (hops p') = map hop_ident (hops p)"
    and "path_expiry p' = path_expiry p" and "is_established p' = is_established p"
    by simp_all
qed

lemma ident_edge: "map hop_ident hs' = map hop_ident hs \<Longrightarrow> rxid (hd hs') = rxid (hd hs)"
  by (cases hs; cases hs'; simp add: hop_ident_def)

section \<open>Invariant\<close>

abbreviation edge_id :: "path \<Rightarrow> hop_id" where "edge_id p \<equiv> rxid (edge p)"

text \<open>Every table entry refers to an object whose edge id is the key.\<close>

definition entries_ok :: "(path_ref \<Rightarrow> path option) \<Rightarrow> (hop_id \<times> path_ref) list \<Rightarrow> bool" where
  "entries_ok objs m \<longleftrightarrow> distinct (map fst m) \<and> (\<forall>(k, r) \<in> set m. map_option edge_id (objs r) = Some k)"

definition ph_wf :: "path_handler \<Rightarrow> bool" where
  "ph_wf st \<longleftrightarrow>
     entries_ok (path_objs (ph_ctx st)) (ph_paths st) \<and> entries_ok (path_objs (ph_ctx st)) (path_map (ph_ctx st)) \<and>
     (\<forall>r. path_objs (ph_ctx st) r \<noteq> None \<longrightarrow> r < ph_next_ref st)"

text \<open>What the handler's table says: the path under each edge id.\<close>

definition paths_view :: "path_handler \<Rightarrow> hop_id \<Rightarrow> path option" where
  "paths_view st k = Option.bind (map_of (ph_paths st) k) (path_at st)"

lemma entries_ok_simps [simp]:
  "entries_ok objs []"
  "entries_ok objs ((k, r) # m) \<longleftrightarrow> k \<notin> fst ` set m \<and> map_option edge_id (objs r) = Some k \<and> entries_ok objs m"
  by (auto simp: entries_ok_def)

lemma entries_ok_update:
  assumes "entries_ok objs m" and "map_option edge_id (objs r) = Some k"
  shows "entries_ok objs (AList.update k r m)"
  using assms by (auto simp: entries_ok_def AList.distinct_update dest!: set_alist_update)

lemma entries_ok_delete: "entries_ok objs m \<Longrightarrow> entries_ok objs (AList.delete k m)"
  by (auto simp: entries_ok_def AList.distinct_delete dest!: set_alist_delete)

lemma entries_ok_emplace:
  "entries_ok objs m \<Longrightarrow> map_option edge_id (objs r) = Some k \<Longrightarrow> entries_ok objs (emplace k r m)"
  by (auto simp: entries_ok_def emplace_def map_of_eq_None_iff split: option.splits)

lemma entries_ok_mono:
  assumes "entries_ok objs m" and "\<And>r k. map_option edge_id (objs r) = Some k \<Longrightarrow> map_option edge_id (objs' r) = Some k"
  shows "entries_ok objs' m"
  using assms by (auto simp: entries_ok_def)

lemma entries_ok_lookup:
  "entries_ok objs m \<Longrightarrow> map_of m k = Some r \<Longrightarrow> \<exists>p. objs r = Some p \<and> edge_id p = k"
  by (auto simp: entries_ok_def dest!: map_of_SomeD)

text \<open>Dropping a path from the context marks at most the object under its edge id.\<close>

lemma drop_path_ctx_objs:
  "path_objs (drop_path_ctx p c) r =
     (if map_of (path_map c) (edge_id p) = Some r then map_option (\<lambda>q. q\<lparr>is_dead := True\<rparr>) (path_objs c r)
      else path_objs c r)"
  "path_map (drop_path_ctx p c) = AList.delete (edge_id p) (path_map c)"
  by (auto simp: drop_path_ctx_def kill_path_def map_of_eq_None_iff AList.delete_id split: option.splits)

lemma edge_id_frame [simp]: "edge_id (q\<lparr>is_dead := b\<rparr>) = edge_id q" "edge_id (q\<lparr>is_established := b\<rparr>) = edge_id q"
  "edge_id (q\<lparr>next_ping := t\<rparr>) = edge_id q" "edge_id (q\<lparr>is_built := b\<rparr>) = edge_id q"
  by (simp_all add: edge_def)

lemma drop_path_ctx_edges [simp]:
  "map_option edge_id (path_objs (drop_path_ctx p c) r) = map_option edge_id (path_objs c r)"
  by (simp add: drop_path_ctx_objs option.map_comp o_def)

lemma entries_ok_drop [simp]: "entries_ok (path_objs (drop_path_ctx p c)) m = entries_ok (path_objs c) m"
  by (simp add: entries_ok_def)

lemma drop_ctx_wf: "ph_wf st \<Longrightarrow> ph_wf (st\<lparr>ph_ctx := drop_path_ctx p (ph_ctx st)\<rparr>)"
proof -
  assume "ph_wf st"
  moreover have "path_objs (drop_path_ctx p c) r = None \<longleftrightarrow> path_objs c r = None" for c r
    by (simp add: drop_path_ctx_objs)
  ultimately show ?thesis
    unfolding ph_wf_def
    by (auto simp: drop_path_ctx_objs(2) entries_ok_delete)
qed

lemma set_path_at_wf:
  assumes "ph_wf st" and "map_option edge_id (path_at st r) = Some (edge_id p)"
  shows "ph_wf (set_path_at r p st)"
proof -
  have "entries_ok ((path_objs (ph_ctx st))(r \<mapsto> p)) m" if "entries_ok (path_objs (ph_ctx st)) m" for m
    using assms(2) by (intro entries_ok_mono [OF that]) (auto simp: path_at_def)
  then show ?thesis
    using assms by (auto simp: ph_wf_def set_path_at_def path_at_def)
qed

lemma ph_paths_delete_wf: "ph_wf st \<Longrightarrow> ph_wf (st\<lparr>ph_paths := AList.delete k (ph_paths st)\<rparr>)"
  by (auto simp: ph_wf_def entries_ok_delete)

lemma ph_wf_frame [simp]:
  "ph_wf (st\<lparr>ph_profiling := P\<rparr>) \<longleftrightarrow> ph_wf st" "ph_wf (st\<lparr>ph_stats := b\<rparr>) \<longleftrightarrow> ph_wf st"
  "ph_wf (st\<lparr>ph_last_failure := t\<rparr>) \<longleftrightarrow> ph_wf st" "ph_wf (st\<lparr>ph_consecutive_failures := n\<rparr>) \<longleftrightarrow> ph_wf st"
  "ph_wf (st\<lparr>ph_path_counter := c\<rparr>) \<longleftrightarrow> ph_wf st" "ph_wf (st\<lparr>ph_running := f\<rparr>) \<longleftrightarrow> ph_wf st"
  by (simp_all add: ph_wf_def)

lemma ph_wf_clear: "ph_wf st \<Longrightarrow> ph_wf (st\<lparr>ph_paths := []\<rparr>)"
  by (simp add: ph_wf_def)

lemma ph_drop_path_wf: "ph_wf st \<Longrightarrow> ph_wf (ph_drop_path p st)"
  using drop_ctx_wf [of "st\<lparr>ph_paths := AList.delete (edge_id p) (ph_paths st)\<rparr>" p] ph_paths_delete_wf [of st "edge_id p"]
  by (simp add: ph_drop_path_def)

lemma ph_add_path_wf: "ph_wf st \<Longrightarrow> ph_wf (ph_add_path r st)"
  by (auto simp: ph_add_path_def add_path_def ph_wf_def path_at_def entries_ok_update entries_ok_emplace split: option.splits)

lemma path_build_failed_wf: "ph_wf st \<Longrightarrow> ph_wf (path_build_failed sys_now now p timeout st)"
  by (auto simp: path_build_failed_def Let_def ph_drop_path_wf split: option.split)

lemma path_build_succeeded_wf: "ph_wf st \<Longrightarrow> ph_wf (path_build_succeeded sys_now r st)"
  by (auto simp: path_build_succeeded_def Let_def set_established_def intro!: ph_add_path_wf set_path_at_wf split: option.split)

lemma build_response_wf: "ph_wf st \<Longrightarrow> ph_wf (build_response alive sys_now now r m st)"
  by (auto simp: build_response_def path_build_failed_wf path_build_succeeded_wf split: response.split)

lemma do_ping_edge: "edge_id (snd (do_ping interval sys_now now p)) = edge_id p"
  by (simp add: do_ping_def)

lemma ping_loop_wf: "ph_wf st \<Longrightarrow> ph_wf (snd (ping_loop interval sys_now now rs st))"
  by (induction rs arbitrary: st)
    (simp_all add: Let_def split_beta set_path_at_wf do_ping_edge split: option.split)

lemma path_at_drop_edges:
  "path_at st r = Some p \<Longrightarrow> \<exists>p'. path_at (st\<lparr>ph_ctx := drop_path_ctx q (ph_ctx st)\<rparr>) r = Some p' \<and> edge_id p' = edge_id p"
  by (simp add: path_at_def drop_path_ctx_objs)

lemma expire_loop_wf:
  assumes "expire_loop now m st = (kept, n, est, st')" and "ph_wf st"
  shows "ph_wf st' \<and> ph_paths st' = ph_paths st \<and> set kept \<subseteq> set m \<and> (distinct (map fst m) \<longrightarrow> distinct (map fst kept)) \<and>
    (\<forall>r. map_option edge_id (path_at st' r) = map_option edge_id (path_at st r))"
  using assms
proof (induction now m st arbitrary: kept n est st' rule: expire_loop.induct)
  case (2 now k r m st)
  then show ?case
    by (fastforce simp: drop_ctx_wf path_at_def split: option.splits if_splits prod.splits)
qed auto

lemma expire_paths_wf:
  assumes "ph_wf st"
  shows "ph_wf (snd (expire_paths now st))"
proof -
  obtain kept n est st' where e: "expire_loop now (ph_paths st) st = (kept, n, est, st')"
    by (metis prod_cases4)
  have "entries_ok (path_objs (ph_ctx st')) kept"
    using expire_loop_wf [OF e assms] assms by (auto simp: entries_ok_def ph_wf_def path_at_def)
  then show ?thesis
    using expire_loop_wf [OF e assms] by (simp add: expire_paths_def e ph_wf_def)
qed

lemma onion_edge: "path_build_onion S X R junk now p = Inr (p', m) \<Longrightarrow> edge_id p' = edge_id p"
  by (simp add: edge_def ident_edge [OF path_build_onion_ident(1)])

lemma build_init_path_wf:
  assumes "ph_wf st" and "build_init_path self rnd rcs t st = (res, st')"
  shows "ph_wf st'" and "res = Some r \<Longrightarrow> path_at st' r = Some (path_new self rnd rcs t)"
proof -
  let ?p = "path_new self rnd rcs t" and ?r = "ph_next_ref st"
  have fresh: "path_objs (ph_ctx st) ?r = None"
    using assms(1) by (auto simp: ph_wf_def)
  then have keep: "entries_ok ((path_objs (ph_ctx st))(?r \<mapsto> ?p)) m" if "entries_ok (path_objs (ph_ctx st)) m" for m
    by (intro entries_ok_mono [OF that]) auto
  show "ph_wf st'"
  proof (cases "map_of (ph_paths st) (edge_id ?p)")
    case None
    then have "entries_ok ((path_objs (ph_ctx st))(?r \<mapsto> ?p)) ((edge_id ?p, ?r) # ph_paths st)"
      using keep [of "ph_paths st"] assms(1) by (simp add: ph_wf_def map_of_eq_None_iff)
    with None show ?thesis
      using assms keep by (auto simp: build_init_path_def Let_def ph_wf_def set_path_at_def less_Suc_eq split: if_splits)
  next
    case (Some x)
    then show ?thesis
      using assms by (simp add: build_init_path_def Let_def)
  qed
  show "res = Some r \<Longrightarrow> path_at st' r = Some (path_new self rnd rcs t)"
    using assms(2) by (auto simp: build_init_path_def Let_def path_at_def set_path_at_def split: option.splits)
qed

lemma send_path_build_wf:
  assumes "ph_wf st" and "path_at st r = Some p"
  shows "ph_wf (snd (send_path_build B sent r p st))"
  using assms
  by (auto simp: send_path_build_def Let_def set_built_def onion_edge
      intro!: path_build_failed_wf set_path_at_wf split: sum.split prod.split)

lemma build_wf:
  assumes "ph_wf st"
  shows "ph_wf (snd (build B sent rcs t st))"
proof -
  obtain res st1 where i: "build_init_path (be_self B) (be_ids B) rcs t st = (res, st1)"
    by (metis surj_pair)
  have "ph_wf st1"
    by (rule build_init_path_wf [OF assms i])
  then show ?thesis
    using assms
    by (auto simp: build_def Let_def i path_build_failed_wf path_at_def intro!: send_path_build_wf split: option.split)
qed

lemma invalidate_paths_wf:
  assumes "ph_wf st"
  shows "ph_wf (invalidate_paths st)"
proof -
  let ?f = "\<lambda>(k, r) st. case path_at st r of None \<Rightarrow> st | Some p \<Rightarrow> st\<lparr>ph_ctx := drop_path_ctx p (ph_ctx st)\<rparr>"
  have "ph_wf (fold ?f m st)" for m :: "(hop_id \<times> path_ref) list"
    using assms by (induction m arbitrary: st) (auto simp: drop_ctx_wf split: option.split)
  then show ?thesis
    unfolding invalidate_paths_def by (rule ph_wf_clear)
qed

section \<open>Runs\<close>

inductive ph_step :: "path_handler \<Rightarrow> path_handler \<Rightarrow> bool" where
  step_build: "ph_step st (snd (build B sent rcs t st))"
| step_response: "ph_step st (build_response alive sys_now now r m st)"
| step_expire: "ph_step st (snd (expire_paths now st))"
| step_ping: "ph_step st (snd (ping_paths interval sys_now now st))"
| step_invalidate: "ph_step st (invalidate_paths st)"
| step_stop: "ph_step st (ph_stop st)"
| step_died: "ph_step st (path_died st)"
| step_stats: "ph_step st (st\<lparr>ph_stats := snd (build_stats_update now (ph_stats st))\<rparr>)"

lemma ph_step_wf: "ph_step st st' \<Longrightarrow> ph_wf st \<Longrightarrow> ph_wf st'"
proof (induction rule: ph_step.induct)
  case (step_stop st)
  then show ?case by (simp add: ph_stop_def ph_wf_def)
qed (simp_all add: build_wf build_response_wf expire_paths_wf ping_paths_def ping_loop_wf invalidate_paths_wf path_died_def)

definition ph_init :: "path_handler \<Rightarrow> bool" where
  "ph_init st \<longleftrightarrow> (\<exists>P. st = path_handler_new path_context_new P)"

interpretation ph_run: invariant_system ph_init ph_step ph_wf
proof
  show "ph_wf st" if "ph_init st" for st
    using that by (auto simp: ph_init_def ph_wf_def path_handler_new_def path_context_new_def)
qed (rule ph_step_wf)

section \<open>The table as a map from edge ids to paths\<close>

lemma path_at_drop:
  assumes "ph_wf st" and "map_option edge_id (path_at st r) \<noteq> Some (edge_id q)"
  shows "path_at (st\<lparr>ph_ctx := drop_path_ctx q (ph_ctx st)\<rparr>) r = path_at st r"
proof -
  have "map_of (path_map (ph_ctx st)) (edge_id q) \<noteq> Some r"
    using assms entries_ok_lookup [of "path_objs (ph_ctx st)" "path_map (ph_ctx st)" "edge_id q" r]
    by (auto simp: path_at_def ph_wf_def)
  then show ?thesis
    by (simp add: path_at_def drop_path_ctx_objs)
qed






lemma paths_view_frame [simp]:
  "paths_view (st\<lparr>ph_profiling := P\<rparr>) = paths_view st" "paths_view (st\<lparr>ph_stats := b\<rparr>) = paths_view st"
  "paths_view (st\<lparr>ph_last_failure := t\<rparr>) = paths_view st" "paths_view (st\<lparr>ph_consecutive_failures := n\<rparr>) = paths_view st"
  "paths_view (st\<lparr>ph_path_counter := c\<rparr>) = paths_view st"
  by (simp_all add: paths_view_def path_at_def [abs_def] fun_eq_iff)

lemma paths_view_Some:
  assumes "ph_wf st" and "map_of (ph_paths st) k = Some r"
  shows "\<exists>p. path_at st r = Some p \<and> edge_id p = k \<and> paths_view st k = Some p"
  using assms entries_ok_lookup [of "path_objs (ph_ctx st)" "ph_paths st" k r]
  by (auto simp: ph_wf_def paths_view_def path_at_def)

lemma paths_view_drop:
  assumes "ph_wf st"
  shows "paths_view (ph_drop_path p st) k = (if k = edge_id p then None else paths_view st k)"
proof (cases "k = edge_id p \<or> map_of (ph_paths st) k = None")
  case True
  then show ?thesis
    by (auto simp: paths_view_def ph_drop_path_def AList.delete_conv')
next
  case False
  then obtain r where r: "map_of (ph_paths st) k = Some r" by auto
  from paths_view_Some [OF assms r] False
  have "path_at (st\<lparr>ph_ctx := drop_path_ctx p (ph_ctx st)\<rparr>) r = path_at st r"
    by (intro path_at_drop [OF assms]) auto
  with r False show ?thesis
    by (simp add: paths_view_def ph_drop_path_def AList.delete_conv' path_at_def)
qed

lemma paths_view_failed:
  assumes "ph_wf st"
  shows "paths_view (path_build_failed sys_now now p t st) k =
    (case p of None \<Rightarrow> paths_view st k | Some p \<Rightarrow> if k = edge_id p then None else paths_view st k)"
  using paths_view_drop [OF assms] by (simp add: path_build_failed_def Let_def split: option.split)

lemma edge_id_established [simp]: "edge_id (set_established p) = edge_id p"
  by (simp add: set_established_def)

lemma path_objs_add_path [simp]: "path_objs (add_path r c) = path_objs c"
  by (simp add: add_path_def split: option.split)


lemma paths_view_init:
  assumes "ph_wf st" and "build_init_path self rnd rcs t st = (Some r, st')"
  shows "paths_view st' k = (if k = edge_id (path_new self rnd rcs t) then Some (path_new self rnd rcs t) else paths_view st k)"
    and "paths_view st (edge_id (path_new self rnd rcs t)) = None"
proof -
  let ?p = "path_new self rnd rcs t"
  have new: "map_of (ph_paths st) (edge_id ?p) = None"
    and st': "st' = (set_path_at (ph_next_ref st) ?p st)\<lparr>ph_paths := (edge_id ?p, ph_next_ref st) # ph_paths st,
       ph_next_ref := Suc (ph_next_ref st)\<rparr>"
    using assms(2) by (auto simp: build_init_path_def Let_def split: option.splits)
  then show "paths_view st (edge_id ?p) = None"
    by (simp add: paths_view_def)
  show "paths_view st' k = (if k = edge_id ?p then Some ?p else paths_view st k)"
  proof (cases "k = edge_id ?p \<or> map_of (ph_paths st) k = None")
    case True
    then show ?thesis
      by (auto simp: st' paths_view_def path_at_def set_path_at_def)
  next
    case False
    then obtain r' where r': "map_of (ph_paths st) k = Some r'" by auto
    have "r' \<noteq> ph_next_ref st"
      using paths_view_Some [OF assms(1) r'] assms(1) by (auto simp: ph_wf_def path_at_def)
    with r' False show ?thesis
      by (simp add: st' paths_view_def path_at_def set_path_at_def)
  qed
qed

lemma send_path_build_view:
  assumes wf: "ph_wf st" and r: "path_at st r = Some p" and m: "map_of (ph_paths st) (edge_id p) = Some r"
    and b: "send_path_build B sent r p st = (res, st')"
  shows "k \<noteq> edge_id p \<Longrightarrow> paths_view st' k = paths_view st k"
    and "res = BuildUnsent \<Longrightarrow> paths_view st' (edge_id p) = None"
    and "res = BuildThrew e \<Longrightarrow> paths_view st' (edge_id p) = Some (snd (set_built p))"
    and "res = BuildSent r' u msg \<Longrightarrow> r' = r \<and> (\<exists>p'. paths_view st' (edge_id p) = Some p' \<and>
        path_build_onion (be_sodium B) (be_oxenc B) (be_rand B) (be_junk B) (be_now B) p = Inr (p', msg))"
proof -
  have sw: "ph_wf (set_path_at r q st)" if "edge_id q = edge_id p" for q
    by (rule set_path_at_wf [OF wf]) (simp add: r that)
  have sv: "paths_view (set_path_at r q st) k = (if k = edge_id p then Some q else paths_view st k)" for q k
  proof (cases "k = edge_id p")
    case True
    then show ?thesis
      using m by (simp add: paths_view_def set_path_at_def path_at_def)
  next
    case False
    then have "map_of (ph_paths st) k \<noteq> Some r"
      using paths_view_Some [OF wf] r by fastforce
    then show ?thesis
      using False by (cases "map_of (ph_paths st) k") (simp_all add: paths_view_def set_path_at_def path_at_def)
  qed
  show "paths_view st' k = paths_view st k" if "k \<noteq> edge_id p"
    using b that sv sw onion_edge
    by (auto simp: send_path_build_def Let_def set_built_def paths_view_failed split: sum.splits prod.splits if_splits)
  show "paths_view st' (edge_id p) = None" if "res = BuildUnsent"
    using b that sv sw onion_edge
    by (auto simp: send_path_build_def Let_def paths_view_failed split: sum.splits prod.splits if_splits)
  show "paths_view st' (edge_id p) = Some (snd (set_built p))" if "res = BuildThrew e"
    using b that sv by (auto simp: send_path_build_def Let_def split: sum.splits prod.splits if_splits)
  show "r' = r \<and> (\<exists>p'. paths_view st' (edge_id p) = Some p' \<and>
        path_build_onion (be_sodium B) (be_oxenc B) (be_rand B) (be_junk B) (be_now B) p = Inr (p', msg))"
    if "res = BuildSent r' u msg"
    using b that sv by (auto simp: send_path_build_def Let_def split: sum.splits prod.splits if_splits)
qed

lemma failed_counts:
  "ph_consecutive_failures (path_build_failed sys_now now p t st) = ph_consecutive_failures st + 1"
  "ph_last_failure (path_build_failed sys_now now p t st) = now"
  by (simp_all add: path_build_failed_def Let_def ph_drop_path_def split: option.split)

lemma set_path_at_failures [simp]: "ph_consecutive_failures (set_path_at r p st) = ph_consecutive_failures st"
  by (simp add: set_path_at_def)

lemma path_new_edge: "edge_id (path_new self rnd rcs t) = rxid (hd (path_hops rnd 1 self (rnd 0) rcs))"
  by (simp add: edge_def path_new_def)

lemma path_hops_first: "rcs \<noteq> [] \<Longrightarrow> rxid (hd (path_hops rnd k prev rx rcs)) = rx"
  by (cases "(rnd, k, prev, rx, rcs)" rule: path_hops.cases) auto

text \<open>What a build does to the table, by its result.\<close>

lemma build_view:
  assumes wf: "ph_wf st" and b: "build B sent rcs t st = (res, st')"
  shows "case res of
      BuildSent r u msg \<Rightarrow> (\<exists>p. paths_view st' = (paths_view st)(be_ids B 0 \<mapsto> p) \<and> paths_view st (be_ids B 0) = None \<and>
        path_build_onion (be_sodium B) (be_oxenc B) (be_rand B) (be_junk B) (be_now B) (path_new (be_self B) (be_ids B) rcs t) = Inr (p, msg))
    | BuildThrew e \<Rightarrow> paths_view st' = (paths_view st)(be_ids B 0 \<mapsto> (path_new (be_self B) (be_ids B) rcs t)\<lparr>is_built := True\<rparr>)
    | _ \<Rightarrow> paths_view st' = paths_view st \<and> ph_consecutive_failures st' = ph_consecutive_failures st + 1"
proof (cases "can_build rcs st \<and> map_of (ph_paths st) (edge_id (path_new (be_self B) (be_ids B) rcs t)) = None")
  case False
  then have "build_init_path (be_self B) (be_ids B) rcs t st = (None, st)" if "can_build rcs st"
    using that by (auto simp: build_init_path_def Let_def)
  then have "res = BuildRefused"
    "st' = path_build_failed (word_of_int (be_now B)) (be_steady_now B) None False st"
    using b by (cases "can_build rcs st"; simp add: build_def Let_def)+
  then show ?thesis
    using paths_view_failed [OF wf, of _ _ None False] by (simp add: failed_counts fun_eq_iff)
next
  case True
  let ?p = "path_new (be_self B) (be_ids B) rcs t" and ?r = "ph_next_ref st"
  obtain st1 where i: "build_init_path (be_self B) (be_ids B) rcs t st = (Some ?r, st1)"
    using True by (auto simp: build_init_path_def Let_def)
  let ?st1 = "st1\<lparr>ph_path_counter := ph_path_counter st1 + 1\<rparr>"
  have id: "edge_id ?p = be_ids B 0"
    using True by (auto simp: path_new_edge path_hops_first can_build_def)
  have wf1: "ph_wf ?st1" and r1: "path_at ?st1 ?r = Some ?p"
    using build_init_path_wf [OF wf i] by (simp_all add: path_at_def)
  have m1: "map_of (ph_paths ?st1) (edge_id ?p) = Some ?r" and f1: "ph_consecutive_failures ?st1 = ph_consecutive_failures st"
    using i by (auto simp: build_init_path_def Let_def set_path_at_def split: option.splits)
  have v1: "paths_view ?st1 = (paths_view st)(be_ids B 0 \<mapsto> ?p)" and v0: "paths_view st (be_ids B 0) = None"
    using paths_view_init [OF wf i] by (auto simp: id fun_eq_iff)
  have s: "send_path_build B sent ?r ?p ?st1 = (res, st')"
    using b True i r1 by (simp add: build_def Let_def path_at_def)
  have "paths_view st' k = paths_view st k" if "k \<noteq> be_ids B 0" for k
    using that send_path_build_view(1) [OF wf1 r1 m1 s, of k] v1 by (simp add: id)
  then have ext: "paths_view st' = (paths_view st)(be_ids B 0 := paths_view st' (be_ids B 0))"
    by (simp add: fun_eq_iff)
  show ?thesis
  proof (cases res)
    case (BuildSent r u msg)
    then show ?thesis
      using send_path_build_view(4) [OF wf1 r1 m1 s BuildSent] ext v0 by (auto simp: id)
  next
    case BuildUnsent
    moreover have "ph_consecutive_failures st' = ph_consecutive_failures st + 1"
      using s BuildUnsent f1
      by (auto simp: send_path_build_def Let_def failed_counts split: sum.splits prod.splits if_splits)
    ultimately show ?thesis
      using send_path_build_view(2) [OF wf1 r1 m1 s BuildUnsent] ext v0 by (simp add: id fun_eq_iff)
  next
    case BuildRefused
    then show ?thesis
      using s by (auto simp: send_path_build_def Let_def split: sum.splits prod.splits if_splits)
  next
    case (BuildThrew e)
    then show ?thesis
      using send_path_build_view(3) [OF wf1 r1 m1 s BuildThrew] ext by (simp add: id set_built_def)
  qed
qed

section \<open>Properties\<close>

text \<open>
  C10: In every reachable state of a path handler each entry of its table is a path whose edge
  receives under the entry's key, so that looking a path up by the id a response arrives under gives the
  path with that edge; the same holds for the router's context.
\<close>

theorem handler_table_wf:
  assumes "ph_init st0" and "ph_step\<^sup>*\<^sup>* st0 st"
  shows "(\<forall>k r. get_path_by_edge k st = Some r \<longrightarrow> (\<exists>p. path_at st r = Some p \<and> rxid (edge p) = k)) \<and>
    distinct (map fst (ph_paths st)) \<and>
    (\<forall>k p. get_path (ph_ctx st) k = Some p \<longrightarrow> rxid (edge p) = k)"
proof -
  have "ph_wf st"
    by (rule ph_run.reachable_inv [OF assms])
  then show ?thesis
    using entries_ok_lookup [of "path_objs (ph_ctx st)"]
    by (fastforce simp: ph_wf_def get_path_by_edge_def get_path_def path_at_def entries_ok_def bind_eq_Some_conv)
qed

theorem handler_table_wf_witness:
  "\<exists>st. ph_step\<^sup>*\<^sup>* (path_handler_new path_context_new profiling_new) st \<and> ph_consecutive_failures st = 1 \<and>
     distinct (map fst (ph_paths st))"
proof -
  let ?st0 = "path_handler_new path_context_new profiling_new"
  have "ph_step\<^sup>*\<^sup>* ?st0 (build_response True 5 5 0 RespTimeout ?st0)"
    by (intro r_into_rtranclp step_response)
  moreover from this handler_table_wf [of ?st0] have "distinct (map fst (ph_paths (build_response True 5 5 0 RespTimeout ?st0)))"
    by (auto simp: ph_init_def)
  ultimately show ?thesis
    by (intro exI conjI) (auto simp: build_response_def failed_counts path_handler_new_def)
qed



text \<open>
  C12: A build that is refused or cannot be sent leaves no path behind and counts as a failure; a
  build that is sent has entered a path that was not there before, with the secrets of the onion sent.
\<close>

theorem build_no_orphan:
  assumes "ph_init st0" and "ph_step\<^sup>*\<^sup>* st0 st" and "build B sent rcs t st = (res, st')"
  shows "(res = BuildRefused \<or> res = BuildUnsent \<longrightarrow>
      paths_view st' = paths_view st \<and> ph_consecutive_failures st' = ph_consecutive_failures st + 1) \<and>
    (\<forall>r u msg. res = BuildSent r u msg \<longrightarrow>
      (\<exists>p. paths_view st' = (paths_view st)(be_ids B 0 \<mapsto> p) \<and> paths_view st (be_ids B 0) = None \<and>
        path_build_onion (be_sodium B) (be_oxenc B) (be_rand B) (be_junk B) (be_now B)
          (path_new (be_self B) (be_ids B) rcs t) = Inr (p, msg)))"
  using build_view [OF ph_run.reachable_inv [OF assms(1,2)] assms(3)] by auto

theorem build_no_orphan_witness:
  "\<forall>B. let st = path_handler_new path_context_new profiling_new; out = build B (\<lambda>_. True) [] 9 st
   in fst out = BuildRefused \<and> paths_view (snd out) = paths_view st \<and> ph_consecutive_failures (snd out) = 1"
proof
  fix B
  let ?st = "path_handler_new path_context_new profiling_new"
  let ?out = "build B (\<lambda>_. True) [] 9 ?st"
  have r: "?out = (BuildRefused, snd ?out)"
    by (simp add: build_def can_build_def Let_def)
  have "ph_init ?st"
    by (auto simp: ph_init_def)
  from build_no_orphan [OF this rtranclp.rtrancl_refl r] r show "let st = ?st; out = build B (\<lambda>_. True) [] 9 st
   in fst out = BuildRefused \<and> paths_view (snd out) = paths_view st \<and> ph_consecutive_failures (snd out) = 1"
    unfolding Let_def by (metis fst_conv add_0 path_handler.select_convs(3) path_handler_new_def)
qed

text \<open>
  A build whose onion cannot be made (the exception leaves \<^verbatim>\<open>send_path_build\<close> before anything
  is sent) leaves its path in the table although no response can ever arrive for it.
\<close>

theorem build_exception_orphan:
  assumes "ph_init st0" and "ph_step\<^sup>*\<^sup>* st0 st" and "build B sent rcs t st = (BuildThrew e, st')"
  shows "\<exists>p. paths_view st' (be_ids B 0) = Some p \<and> \<not> is_established p \<and> path_expiry p = t"
  using build_view [OF ph_run.reachable_inv [OF assms(1,2)] assms(3)] by (simp add: path_new_def)

text \<open>A relay whose identity key has no Montgomery form is enough.\<close>

theorem build_exception_orphan_witness:
  "\<forall>S X. let rc = \<lparr>rc_router_id = [1], rc_addr = [], rc_addr6 = None, rc_timestamp = 0, rc_netid = 0, rc_version = [1, 1, 0],
                rc_payload = []\<rparr>;
       B = \<lparr>be_sodium = S\<lparr>sign_ed25519_pk_to_curve25519 := (\<lambda>_. None)\<rparr>, be_oxenc = X, be_self = [9], be_ids = (\<lambda>i. [of_nat i]),
            be_rand = (\<lambda>_. \<lparr>fr_dh_nonce = [], fr_eph_seed = [], fr_eph_x = [], fr_pad = []\<rparr>), be_junk = [], be_now = 0, be_steady_now = 0\<rparr>;
       out = build B (\<lambda>_. True) [rc] 9 (path_handler_new path_context_new profiling_new)
   in fst out = BuildThrew BadHopKey \<and> (\<exists>p. paths_view (snd out) [0] = Some p \<and> \<not> is_established p)"
proof (intro allI)
  fix S X
  let ?rc = "\<lparr>rc_router_id = [1], rc_addr = [], rc_addr6 = None, rc_timestamp = 0, rc_netid = 0, rc_version = [1, 1, 0],
                rc_payload = []\<rparr> :: relay_contact"
  let ?B = "\<lparr>be_sodium = S\<lparr>sign_ed25519_pk_to_curve25519 := (\<lambda>_. None)\<rparr>, be_oxenc = X, be_self = [9], be_ids = (\<lambda>i. [of_nat i]),
            be_rand = (\<lambda>_. \<lparr>fr_dh_nonce = [], fr_eph_seed = [], fr_eph_x = [], fr_pad = []\<rparr>), be_junk = [], be_now = 0, be_steady_now = 0\<rparr>"
  let ?st = "path_handler_new path_context_new profiling_new"
  let ?out = "build ?B (\<lambda>_. True) [?rc] 9 ?st"
  have r: "?out = (BuildThrew BadHopKey, snd ?out)"
    by (simp add: build_def can_build_def is_stopped_def path_handler_new_def BUILD_LENGTH_def Let_def build_init_path_def
        set_path_at_def path_at_def send_path_build_def path_build_onion_def set_built_def path_new_def encode_frame_def
        encode_frame_v1_def x25519_pubkey_of_ed_def frame_version_of_def BUILD_FRAME_V1_MIN_VERSION_def)
  have "ph_init ?st"
    by (auto simp: ph_init_def)
  from build_exception_orphan [OF this rtranclp.rtrancl_refl r]
  have "\<exists>p. paths_view (snd ?out) [0] = Some p \<and> \<not> is_established p"
    by auto
  moreover have "fst ?out = BuildThrew BadHopKey"
    by (subst r) simp
  ultimately show "let rc = ?rc; B = ?B; out = build B (\<lambda>_. True) [rc] 9 ?st
     in fst out = BuildThrew BadHopKey \<and> (\<exists>p. paths_view (snd out) [0] = Some p \<and> \<not> is_established p)"
    unfolding Let_def by blast
qed

text \<open>
  Backoff.  After \<open>n\<close> consecutive failures the handler pauses exactly when \<open>n\<close> is at
  least three, for one second per failure beyond the second but never for more than fifteen
  seconds after the last failure; a successful build ends the backoff at once.
\<close>

theorem backoff_bounded:
  assumes "ph_consecutive_failures st = 0" and "ts \<noteq> []"
  shows "(let st' = fold (\<lambda>t. path_build_failed s t None False) ts st; n = int (length ts)
    in (cooldown now st' \<longleftrightarrow> 3 \<le> n \<and> now < last ts + min (1000 * (n - 2)) 15000)) \<and>
    (\<forall>r. path_at st r \<noteq> None \<longrightarrow> \<not> cooldown now (path_build_succeeded s r st))"
proof -
  have "ph_consecutive_failures (fold (\<lambda>t. path_build_failed s t None False) ts st) = ph_consecutive_failures st + int (length ts)"
    for st :: path_handler
    by (induction ts arbitrary: st) (simp_all add: failed_counts)
  moreover have "ph_last_failure (fold (\<lambda>t. path_build_failed s t None False) ts st) = last ts"
    using assms(2) by (induction ts arbitrary: st rule: rev_induct) (simp_all add: failed_counts)
  ultimately have "cooldown now (fold (\<lambda>t. path_build_failed s t None False) ts st) \<longleftrightarrow>
      3 \<le> int (length ts) \<and> now < last ts + min (1000 * (int (length ts) - 2)) 15000"
    using assms(1) by (auto simp: cooldown_def Let_def BACKOFF_THRESHOLD_def BACKOFF_INCREMENT_def BACKOFF_MAX_def algebra_simps)
  then show ?thesis
    by (auto simp: Let_def cooldown_def path_build_succeeded_def BACKOFF_THRESHOLD_def)
qed

theorem backoff_bounded_witness:
  "let st = fold (\<lambda>t. path_build_failed 0 t None False) [100, 200, 300, 400] (path_handler_new path_context_new profiling_new)
   in cooldown 2399 st \<and> \<not> cooldown 2400 st"
  using backoff_bounded [of "path_handler_new path_context_new profiling_new" "[100, 200, 300, 400]"]
  unfolding Let_def by (simp add: path_handler_new_def)

end
