(* ===== verification/Session.thy ===== *)
theory Session
  imports Path_Handler Path_Relay "HOL-Library.Monad_Syntax"
begin

text \<open>
  Sessions (\<^verbatim>\<open>session/session.hpp\<close>, \<^verbatim>\<open>session/session.cpp\<close>): the two handshakes that establish
  the traffic keys of a session, the session messages and their encryption, the queue of packets
  that wait for a session, path switches, and closing.  Sealed boxes, signatures, ML-KEM and the
  signed dictionaries of oxenc are library code: fields of the record \<open>handshake_lib\<close>.
\<close>

section \<open>Library code the handshake calls\<close>

record handshake_lib =
  sign_detached :: "bytes \<Rightarrow> bytes \<Rightarrow> bytes"
    \<comment> \<open>secret key, message\<close>
  sign_verify_detached :: "bytes \<Rightarrow> bytes \<Rightarrow> bytes \<Rightarrow> bool"
    \<comment> \<open>public key, message, signature\<close>
  box_seal :: "bytes \<Rightarrow> bytes \<Rightarrow> bytes \<Rightarrow> bytes option"
    \<comment> \<open>randomness, X25519 public key, message\<close>
  box_seal_open :: "bytes \<Rightarrow> bytes \<Rightarrow> bytes \<Rightarrow> bytes option"
    \<comment> \<open>ciphertext, X25519 public and secret key\<close>
  mlkem_keygen :: "bytes \<Rightarrow> bytes \<times> bytes"
    \<comment> \<open>seed to public and secret key\<close>
  mlkem_encapsulate :: "bytes \<Rightarrow> bytes \<Rightarrow> bytes \<times> bytes"
    \<comment> \<open>public key and seed to ciphertext and shared secret\<close>
  mlkem_decapsulate :: "bytes \<Rightarrow> bytes \<Rightarrow> bytes option"
    \<comment> \<open>ciphertext, secret key\<close>
  bt_signing_data :: "(string \<times> bt_value) list \<Rightarrow> bytes"
    \<comment> \<open>what \<^verbatim>\<open>append_signature\<close> hands to the signer after the given pairs\<close>
  bt_take_signature :: "string \<Rightarrow> bytes \<Rightarrow> bytes \<Rightarrow> (bytes \<times> bytes \<times> bytes) option"
    \<comment> \<open>\<^verbatim>\<open>require_signature\<close>: key, whole input, consumer to signed data, signature, consumer\<close>
  bt_str_list :: "bytes list \<Rightarrow> bytes"
    \<comment> \<open>\<^verbatim>\<open>bt_list_producer\<close> with the appended strings\<close>
  bt_consume_str :: "bytes \<Rightarrow> (bytes \<times> bytes) option"
    \<comment> \<open>\<^verbatim>\<open>bt_list_consumer::consume_span\<close>\<close>
  aead_failed_buffer :: "bytes \<Rightarrow> bytes"
    \<comment> \<open>what an in-place decryption that failed leaves in its buffer\<close>

definition SIGNATURE_SIZE :: nat where "SIGNATURE_SIZE = 64"
definition SEALBYTES :: nat where "SEALBYTES = 48"
definition MLKEM_PUBLICKEYBYTES :: nat where "MLKEM_PUBLICKEYBYTES = 1184"
definition MLKEM_CIPHERTEXTBYTES :: nat where "MLKEM_CIPHERTEXTBYTES = 1088"

lemmas hs_sizes = SIGNATURE_SIZE_def SEALBYTES_def MLKEM_PUBLICKEYBYTES_def MLKEM_CIPHERTEXTBYTES_def

text \<open>
  Documented behaviour.  A signature made with a secret key verifies under its public key; a sealed
  box opens with the key pair it was sealed for; the encapsulated secret is the decapsulated one;
  reading the signature of a signed dictionary gives the data that was signed.
\<close>

definition sign_laws :: "sodium \<Rightarrow> handshake_lib \<Rightarrow> bool" where
  "sign_laws S H \<longleftrightarrow>
     (\<forall>seed m. length (sign_detached H (snd (sign_seed_keypair S seed)) m) = SIGNATURE_SIZE \<and>
        sign_verify_detached H (fst (sign_seed_keypair S seed)) m (sign_detached H (snd (sign_seed_keypair S seed)) m))"

definition seal_laws :: "sodium \<Rightarrow> handshake_lib \<Rightarrow> bool" where
  "seal_laws S H \<longleftrightarrow>
     (\<forall>r a m. \<exists>c. box_seal H r (scalarmult_curve25519_base S a) m = Some c \<and> length c = length m + SEALBYTES \<and>
        box_seal_open H c (scalarmult_curve25519_base S a) a = Some m)"

definition mlkem_laws :: "handshake_lib \<Rightarrow> bool" where
  "mlkem_laws H \<longleftrightarrow>
     (\<forall>seed. length (fst (mlkem_keygen H seed)) = MLKEM_PUBLICKEYBYTES) \<and>
     (\<forall>pk seed. length (fst (mlkem_encapsulate H pk seed)) = MLKEM_CIPHERTEXTBYTES) \<and>
     (\<forall>seed r. mlkem_decapsulate H (fst (mlkem_encapsulate H (fst (mlkem_keygen H seed)) r)) (snd (mlkem_keygen H seed)) =
        Some (snd (mlkem_encapsulate H (fst (mlkem_keygen H seed)) r)))"

definition signed_dict_law :: "oxenc \<Rightarrow> handshake_lib \<Rightarrow> bool" where
  "signed_dict_law X H \<longleftrightarrow>
     (\<forall>kvs k sig. dict_wf (kvs @ [(k, BStr sig)]) \<longrightarrow>
        bt_take_signature H k (bt_dict X (kvs @ [(k, BStr sig)])) (bt_at X [(k, BStr sig)]) =
          Some (bt_signing_data H kvs, sig, bt_at X []))"

definition handshake_laws :: "sodium \<Rightarrow> oxenc \<Rightarrow> handshake_lib \<Rightarrow> bool" where
  "handshake_laws S X H \<longleftrightarrow> sign_laws S H \<and> seal_laws S H \<and> mlkem_laws H \<and> signed_dict_law X H"

section \<open>Signatures and sealed boxes (\<^verbatim>\<open>crypto/keys.cpp\<close>)\<close>

definition ed25519_sign :: "handshake_lib \<Rightarrow> bytes \<Rightarrow> bytes \<Rightarrow> bytes" where
  "ed25519_sign H sk buf = sign_detached H sk buf"

definition pubkey_verify :: "handshake_lib \<Rightarrow> bytes \<Rightarrow> bytes \<Rightarrow> bytes \<Rightarrow> bool" where
  "pubkey_verify H pk message signature = sign_verify_detached H pk message signature"

definition seal_box :: "sodium \<Rightarrow> handshake_lib \<Rightarrow> bytes \<Rightarrow> bytes \<Rightarrow> bytes \<Rightarrow> bytes option" where
  "seal_box S H r pk message =
     (case x25519_pubkey_of_ed S pk of None \<Rightarrow> None | Some xpk \<Rightarrow> box_seal H r xpk message)"

definition unseal_box :: "sodium \<Rightarrow> handshake_lib \<Rightarrow> bytes \<Rightarrow> bytes \<Rightarrow> bytes option" where
  "unseal_box S H sk ciphertext =
     (if length ciphertext < SEALBYTES then None
      else let x = x25519_keypair_of_ed S sk in box_seal_open H ciphertext (xpub x) (xsec x))"

text \<open>A dictionary closed by \<^verbatim>\<open>append_signature("~", ...)\<close>, and the check on the other side.\<close>

definition signed_dict :: "oxenc \<Rightarrow> handshake_lib \<Rightarrow> bytes \<Rightarrow> (string \<times> bt_value) list \<Rightarrow> bytes" where
  "signed_dict X H sk kvs = bt_dict X (kvs @ [(''~'', BStr (ed25519_sign H sk (bt_signing_data H kvs)))])"

definition check_signature :: "handshake_lib \<Rightarrow> router_id \<Rightarrow> bytes \<Rightarrow> bytes \<Rightarrow> bytes option" where
  "check_signature H signer whole c =
     (case bt_take_signature H ''~'' whole c of
        None \<Rightarrow> None
      | Some (msg, sig, c') \<Rightarrow>
          if length sig \<noteq> SIGNATURE_SIZE then None
          else if \<not> pubkey_verify H signer msg sig then None else Some c')"

section \<open>State\<close>

record network_address =
  na_pubkey :: router_id
  na_client :: bool

text \<open>
  One record for the class hierarchy: \<open>s_is_outbound\<close> and \<open>s_is_relay\<close> say which of the four
  final classes the object has.  \<open>s_waiting\<close> is the priority queue \<^verbatim>\<open>_on_established\<close>, ordered by
  deadline, its callbacks named by numbers.
\<close>

record session =
  s_inbound_tag :: session_tag
  s_outbound_tag :: session_tag
  s_remote :: network_address
  s_shared_secret :: "symm_key option"
  s_pending_secret :: "symm_key option"
  s_inbound_key :: "symm_key option"
  s_outbound_key :: "symm_key option"
  s_remote_pivot :: hop_id
  s_established :: bool
  s_closed :: bool
  s_unreachable :: bool
  s_dead_path :: bool
  s_tunnel :: bool \<comment> \<open>\<^verbatim>\<open>tcp_tunnel\<close> is set\<close>
  s_last_activity :: ms
  s_last_inbound :: ms
  s_ipv4_mapped :: bool
  s_is_outbound :: bool
  s_is_relay :: bool
  s_path :: "path_ref option" \<comment> \<open>\<^verbatim>\<open>_current_path\<close>\<close>
  s_thop :: "hop_ref option" \<comment> \<open>\<^verbatim>\<open>_current_thop\<close>\<close>
  s_mlkem :: "(bytes \<times> bytes) option"
  s_x25519 :: "x25519_keypair option"
  s_queue :: "bytes list option"
  s_waiting :: "(ms \<times> nat) list"
  s_accept_msg :: bytes
  s_old_accept :: bool

definition SESSION_TIMEOUT :: ms where "SESSION_TIMEOUT = 30 * 1000"
definition DATA_MESSAGE_OVERHEAD :: nat where "DATA_MESSAGE_OVERHEAD = 1 + TAG_SIZE + 4 + HOPID_SIZE"
definition MAX_QUEUED_PACKETS :: nat where "MAX_QUEUED_PACKETS = 30"
definition switch_xor_factor :: symm_nonce where "switch_xor_factor = replicate SYMM_NONCE_SIZE 0x42"

definition session_new_outbound :: "ms \<Rightarrow> network_address \<Rightarrow> session_tag \<Rightarrow> session" where
  "session_new_outbound now remote inbound_tag =
     \<lparr>s_inbound_tag = inbound_tag, s_outbound_tag = 0, s_remote = remote, s_shared_secret = None, s_pending_secret = None,
      s_inbound_key = None, s_outbound_key = None, s_remote_pivot = buf_zero HOPID_SIZE, s_established = False,
      s_closed = False, s_unreachable = False, s_dead_path = True, s_tunnel = False, s_last_activity = now,
      s_last_inbound = now, s_ipv4_mapped = False, s_is_outbound = True, s_is_relay = (\<not> na_client remote),
      s_path = None, s_thop = None, s_mlkem = None, s_x25519 = None, s_queue = None, s_waiting = [],
      s_accept_msg = [], s_old_accept = False\<rparr>"

text \<open>Where an inbound session's request came from; a relay has transit hops, a client paths.\<close>

datatype session_source = SrcHop hop_ref | SrcPath path_ref

definition session_new_inbound :: "ms \<Rightarrow> bool \<Rightarrow> session_source \<Rightarrow> session" where
  "session_new_inbound now service_node source =
     (session_new_outbound now \<lparr>na_pubkey = buf_zero PUBKEY_SIZE, na_client = False\<rparr> 0)
       \<lparr>s_established := True, s_is_outbound := False, s_is_relay := service_node, s_dead_path := False,
        s_path := (case source of SrcPath r \<Rightarrow> Some r | SrcHop _ \<Rightarrow> None),
        s_thop := (case source of SrcHop r \<Rightarrow> Some r | SrcPath _ \<Rightarrow> None)\<rparr>"

definition session_is_established :: "session \<Rightarrow> bool" where
  "session_is_established s \<longleftrightarrow> s_established s \<and> \<not> s_closed s"

definition is_established_pfs :: "session \<Rightarrow> bool" where
  "is_established_pfs s \<longleftrightarrow> s_inbound_key s \<noteq> None"

definition session_is_expired :: "session \<Rightarrow> ms \<Rightarrow> bool" where
  "session_is_expired s now \<longleftrightarrow> SESSION_TIMEOUT < now - s_last_activity s"

definition update_active :: "ms \<Rightarrow> session \<Rightarrow> session" where
  "update_active now s = s\<lparr>s_last_activity := now\<rparr>"

section \<open>Session messages\<close>

text \<open>
  \<^verbatim>\<open>make_session_message\<close>: payload, optional type byte and room for the tag, encrypted; then the
  session tag, and the pivot id unless a relay answers on its own transit hop.  \<open>nonce\<close> is the
  random draw.
\<close>

definition make_session_message ::
  "sodium \<Rightarrow> oxenc \<Rightarrow> symm_nonce \<Rightarrow> session \<Rightarrow> bytes \<Rightarrow> byte option \<Rightarrow> bool \<Rightarrow> (bytes \<times> symm_nonce) option" where
  "make_session_message S X nonce s data data_type encrypt =
     (if s_dead_path s then None
      else let relay_session_return = (\<not> s_is_outbound s \<and> s_is_relay s);
               plain = data @ (case data_type of Some t \<Rightarrow> [t] | None \<Rightarrow> []);
               tail = big32 X (s_outbound_tag s) @ (if relay_session_return then [] else s_remote_pivot s)
           in if \<not> encrypt then Some (plain @ tail, nonce)
              else (case (if s_outbound_key s \<noteq> None then s_outbound_key s else s_shared_secret s) of
                      None \<Rightarrow> None
                    | Some key \<Rightarrow>
                        (case xchacha20_poly1305_encrypt_inplace S (plain @ replicate TAG_SIZE 0) key nonce [] of
                           None \<Rightarrow> None
                         | Some ciphertext \<Rightarrow> Some (ciphertext @ tail, nonce))))"

subsection \<open>Sending on the current path\<close>

text \<open>\<^verbatim>\<open>check_dead\<close> on the current path: the object it leads to, unless it is gone or dead.\<close>

definition live_path :: "path_context \<Rightarrow> session \<Rightarrow> path option" where
  "live_path c s =
     (case Option.bind (s_path s) (path_objs c) of
        None \<Rightarrow> None
      | Some p \<Rightarrow> if is_dead p then None else Some p)"

definition live_thop :: "path_context \<Rightarrow> session \<Rightarrow> transit_hop option" where
  "live_thop c s =
     (case Option.bind (s_thop s) (hop_objs c) of
        None \<Rightarrow> None
      | Some h \<Rightarrow> if hop_dead h then None else Some h)"

definition send_path_data_impl :: "sodium \<Rightarrow> path_context \<Rightarrow> bytes \<Rightarrow> symm_nonce \<Rightarrow> session \<Rightarrow> session \<times> link_send list" where
  "send_path_data_impl S c data nonce s =
     (case live_path c s of
        None \<Rightarrow> (s\<lparr>s_dead_path := True, s_path := None\<rparr>, [])
      | Some p \<Rightarrow>
          if \<not> is_established p then (s, [])
          else (s, case send_path_data_message S p data nonce of None \<Rightarrow> [] | Some m \<Rightarrow> [m]))"

definition send_path_control_impl ::
  "sodium \<Rightarrow> path_context \<Rightarrow> bytes \<Rightarrow> symm_nonce \<Rightarrow> byte \<Rightarrow> session \<Rightarrow> session \<times> link_send list" where
  "send_path_control_impl S c data nonce type s =
     (case live_path c s of
        None \<Rightarrow> (s\<lparr>s_dead_path := True, s_path := None\<rparr>, [])
      | Some p \<Rightarrow>
          if \<not> is_established p then (s, [])
          else (s, case send_session_control_message S p data nonce type of None \<Rightarrow> [] | Some m \<Rightarrow> [m]))"

text \<open>\<^verbatim>\<open>InboundRelaySession::encrypt_path_message\<close>: the terminus adds the innermost layer.\<close>

definition thop_encrypt_path_message :: "sodium \<Rightarrow> transit_hop \<Rightarrow> bytes \<Rightarrow> symm_nonce \<Rightarrow> byte \<Rightarrow> bytes" where
  "thop_encrypt_path_message S hop data nonce type =
     (let nonce = buf_xor nonce (xor_nonce hop)
      in xchacha20 S data (shared_secret hop) nonce @ nonce @ rxid hop @ [type])"

definition send_path_data :: "sodium \<Rightarrow> path_context \<Rightarrow> ms \<Rightarrow> bytes \<Rightarrow> symm_nonce \<Rightarrow> session \<Rightarrow> session \<times> link_send list" where
  "send_path_data S c now data nonce s =
     (let s = update_active now s
      in if \<not> s_is_outbound s \<and> s_is_relay s
         then (case live_thop c s of
                 None \<Rightarrow> (s\<lparr>s_dead_path := True, s_thop := None\<rparr>, [])
               | Some hop \<Rightarrow>
                   (s, [SendDatagram (downstream hop) (thop_encrypt_path_message S hop data nonce MSG_DATA)]))
         else send_path_data_impl S c data nonce s)"

definition send_path_control ::
  "sodium \<Rightarrow> path_context \<Rightarrow> ms \<Rightarrow> bytes \<Rightarrow> symm_nonce \<Rightarrow> byte \<Rightarrow> session \<Rightarrow> session \<times> link_send list" where
  "send_path_control S c now data nonce type s =
     (let s = update_active now s
      in if \<not> s_is_outbound s \<and> s_is_relay s
         then (case live_thop c s of
                 None \<Rightarrow> (s\<lparr>s_dead_path := True, s_thop := None\<rparr>, [])
               | Some hop \<Rightarrow>
                   (s, [SendCommand (downstream hop) ''session_control''
                          (thop_encrypt_path_message S hop data nonce type)]))
         else send_path_control_impl S c data nonce type s)"

subsection \<open>Data\<close>

text \<open>
  Packets wait, at most \<^const>\<open>MAX_QUEUED_PACKETS\<close> of them, with their type byte appended.  Only
  outbound sessions have a queue.
\<close>

definition queue_data_message :: "ms \<Rightarrow> bytes \<Rightarrow> byte \<Rightarrow> session \<Rightarrow> session" where
  "queue_data_message now data type s =
     (if \<not> s_is_outbound s then s
      else let s = update_active now s;
               q = (case s_queue s of
                      None \<Rightarrow> []
                    | Some q \<Rightarrow> if MAX_QUEUED_PACKETS \<le> length q then drop (length q + 1 - MAX_QUEUED_PACKETS) q else q)
           in s\<lparr>s_queue := Some (q @ [data @ [type]])\<rparr>)"

definition send_session_data_message ::
  "sodium \<Rightarrow> oxenc \<Rightarrow> path_context \<Rightarrow> ms \<Rightarrow> symm_nonce \<Rightarrow> bytes \<Rightarrow> byte \<Rightarrow> session \<Rightarrow> session \<times> link_send list" where
  "send_session_data_message S X c now nonce data type s =
     (if \<not> s_established s then (queue_data_message now data type s, [])
      else case make_session_message S X nonce s data (Some type) True of
             None \<Rightarrow> (s, [])
           | Some (m, n) \<Rightarrow> send_path_data S c now m n s)"

text \<open>The queue is sent when the session is established; the \<open>i\<close>-th message uses the \<open>i\<close>-th draw.\<close>

fun flush_queue ::
  "sodium \<Rightarrow> oxenc \<Rightarrow> path_context \<Rightarrow> ms \<Rightarrow> (nat \<Rightarrow> symm_nonce) \<Rightarrow> nat \<Rightarrow> bytes list \<Rightarrow> session \<Rightarrow> session \<times> link_send list" where
  "flush_queue S X c now rnd i [] s = (s, [])"
| "flush_queue S X c now rnd i (d # ds) s =
     (let (s1, out) = send_session_data_message S X c now (rnd i) (butlast d) (last d) s;
          (s2, outs) = flush_queue S X c now rnd (Suc i) ds s1
      in (s2, out @ outs))"

text \<open>\<^verbatim>\<open>traffic_type\<close> (\<^verbatim>\<open>net/traffic_type.hpp\<close>).\<close>

definition TRAFFIC_UDP :: byte where "TRAFFIC_UDP = 0"
definition TRAFFIC_TUNNELED_QUIC :: byte where "TRAFFIC_TUNNELED_QUIC = 3"

definition traffic_is_valid :: "byte \<Rightarrow> bool" where
  "traffic_is_valid t \<longleftrightarrow> TRAFFIC_UDP \<le> t \<and> t \<le> TRAFFIC_TUNNELED_QUIC"

text \<open>
  What becomes of a received data message: dropped, handed to the TCP tunnel, to the UDP handler of
  an embedded client, or to the tun device.  \<open>is_ipv4\<close> is \<^verbatim>\<open>IPPacket::is_ipv4\<close> and \<open>map_v4\<close> the
  result of \<^verbatim>\<open>SessionEndpoint::map_session_v4\<close>.
\<close>

datatype data_outcome =
    DataDropped
  | DataTunnel bytes
  | DataUdp bytes
  | DataTun bytes byte

definition recv_session_data_message ::
  "sodium \<Rightarrow> bool \<Rightarrow> (bytes \<Rightarrow> bool) \<Rightarrow> bool \<Rightarrow> ms \<Rightarrow> bytes \<Rightarrow> symm_nonce \<Rightarrow> session \<Rightarrow> session \<times> data_outcome" where
  "recv_session_data_message S embedded is_ipv4 map_v4 now data nonce s =
     (let s = s\<lparr>s_last_inbound := now, s_last_activity := now\<rparr>
      in if data = [] then (s, DataDropped)
         else case (if s_inbound_key s \<noteq> None then s_inbound_key s else s_shared_secret s) of
           None \<Rightarrow> (s, DataDropped)
         | Some key \<Rightarrow>
             (case xchacha20_poly1305_decrypt_inplace S data key nonce [] of
                None \<Rightarrow> (s, DataDropped)
              | Some dspan \<Rightarrow>
                  if dspan = [] then (s, DataDropped)
                  else let dgram_type = last dspan; data = butlast dspan
                       in if \<not> traffic_is_valid dgram_type then (s, DataDropped)
                          else if dgram_type = TRAFFIC_TUNNELED_QUIC
                          then (if s_closed s then (s, DataDropped) else (s\<lparr>s_tunnel := True\<rparr>, DataTunnel data))
                          else if embedded
                          then (s, if dgram_type = TRAFFIC_UDP then DataUdp data else DataDropped)
                          else if is_ipv4 data \<and> \<not> s_ipv4_mapped s
                          then (if map_v4 then (s\<lparr>s_ipv4_mapped := True\<rparr>, DataTun data dgram_type) else (s, DataDropped))
                          else (s, DataTun data dgram_type)))"

subsection \<open>Control\<close>

definition session_control_message ::
  "sodium \<Rightarrow> oxenc \<Rightarrow> path_context \<Rightarrow> ms \<Rightarrow> symm_nonce \<Rightarrow> string \<Rightarrow> bytes \<Rightarrow> session \<Rightarrow> session \<times> link_send list" where
  "session_control_message S X c now nonce method body s =
     (if \<not> s_established s then (s, [])
      else if s_dead_path s then (s, [])
      else case make_session_message S X nonce s (bt_dict X [(''e'', BStr (string_bytes method)), (''p'', BStr body)]) None True of
             None \<Rightarrow> (s, [])
           | Some (m, n) \<Rightarrow> send_path_control S c now m n MSG_CONTROL s)"

definition session_precontrol_message ::
  "sodium \<Rightarrow> oxenc \<Rightarrow> path_context \<Rightarrow> ms \<Rightarrow> symm_nonce \<Rightarrow> bytes \<Rightarrow> byte \<Rightarrow> session \<Rightarrow> session \<times> link_send list" where
  "session_precontrol_message S X c now nonce body mtype s =
     (if s_dead_path s then (s, [])
      else case make_session_message S X nonce s body None False of
             None \<Rightarrow> (s, [])
           | Some (m, n) \<Rightarrow> send_path_control S c now m n mtype s)"

definition session_publish_client_contact ::
  "sodium \<Rightarrow> oxenc \<Rightarrow> path_context \<Rightarrow> ms \<Rightarrow> symm_nonce \<Rightarrow> bytes \<Rightarrow> session \<Rightarrow> session \<times> link_send list" where
  "session_publish_client_contact S X c now nonce encrypted_cc s =
     session_control_message S X c now nonce ''publish_cc'' encrypted_cc s"

text \<open>\<^verbatim>\<open>Session::close\<close>.\<close>

definition session_close ::
  "sodium \<Rightarrow> oxenc \<Rightarrow> path_context \<Rightarrow> ms \<Rightarrow> symm_nonce \<Rightarrow> bool \<Rightarrow> session \<Rightarrow> session \<times> link_send list" where
  "session_close S X c now nonce send_close s =
     (if s_closed s then (s, [])
      else let s = s\<lparr>s_tunnel := False, s_closed := True\<rparr>
           in if send_close then session_control_message S X c now nonce ''session_close'' [] s else (s, []))"

section \<open>Waiting for establishment\<close>

fun insert_waiting :: "ms \<times> nat \<Rightarrow> (ms \<times> nat) list \<Rightarrow> (ms \<times> nat) list" where
  "insert_waiting w [] = [w]"
| "insert_waiting w (v # vs) = (if fst v \<le> fst w then v # insert_waiting w vs else w # v # vs)"

definition on_established :: "ms \<Rightarrow> ms \<Rightarrow> ms option \<Rightarrow> nat \<Rightarrow> session \<Rightarrow> session" where
  "on_established build_timeout now timeout callback s =
     s\<lparr>s_waiting := insert_waiting (now + (case timeout of Some t \<Rightarrow> t | None \<Rightarrow> build_timeout), callback) (s_waiting s)\<rparr>"

text \<open>\<^verbatim>\<open>fire_waiting\<close>: the callbacks that run, in order, and what is left.\<close>

definition fire_waiting :: "ms \<Rightarrow> session \<Rightarrow> session \<times> nat list" where
  "fire_waiting now s =
     (let est = session_is_established s;
          due = (\<lambda>w. est \<or> fst w \<le> now)
      in (s\<lparr>s_waiting := dropWhile due (s_waiting s)\<rparr>, map snd (takeWhile due (s_waiting s))))"

definition mark_unreachable :: "session \<Rightarrow> session \<times> nat list" where
  "mark_unreachable s = (s\<lparr>s_unreachable := True, s_dead_path := True, s_waiting := []\<rparr>, map snd (s_waiting s))"

section \<open>The handshake\<close>

text \<open>The random draws of a session init and of its acceptance.\<close>

record init_rand =
  ir_mlkem_seed :: bytes
  ir_x25519_sec :: bytes
  ir_seal :: bytes
  ir_dh_seed :: bytes
  ir_dh_nonce :: symm_nonce

subsection \<open>Initiator: \<^verbatim>\<open>make_session_init\<close>\<close>

text \<open>
  The ephemeral keys are stored before the message is made; \<open>None\<close> is the exception of a remote key
  that is no curve point.
\<close>

definition make_session_init_old ::
  "sodium \<Rightarrow> oxenc \<Rightarrow> handshake_lib \<Rightarrow> router_keys \<Rightarrow> init_rand \<Rightarrow> hop_id \<Rightarrow> session \<Rightarrow> session \<times> (bytes \<times> byte) option" where
  "make_session_init_old S X H K R terminal s =
     (let s = s\<lparr>s_mlkem := None, s_x25519 := None, s_pending_secret := Some (buf_zero SYMM_KEY_SIZE)\<rparr>
      in case dh_client_gen S (na_pubkey (s_remote s)) (ir_dh_seed R) (ir_dh_nonce R) of
           None \<Rightarrow> (s, None)
         | Some (secret, dh_pk, dh_nonce) \<Rightarrow>
             (let s = s\<lparr>s_pending_secret := Some secret\<rparr>;
                  inner = signed_dict X H (rk_secret K)
                    [(''i'', BStr (rk_id K)), (''p'', BStr terminal), (''t'', BInt (uint (s_inbound_tag s)))]
              in case xchacha20_poly1305_encrypt_inplace S (inner @ replicate TAG_SIZE 0) secret dh_nonce [] of
                   None \<Rightarrow> (s, None)
                 | Some x \<Rightarrow>
                     (s, Some (bt_dict X [(''k'', BStr dh_pk), (''n'', BStr dh_nonce), (''x'', BStr x)], MSG_CONTROL))))"

definition make_session_init ::
  "sodium \<Rightarrow> oxenc \<Rightarrow> handshake_lib \<Rightarrow> router_keys \<Rightarrow> bool \<Rightarrow> init_rand \<Rightarrow> hop_id \<Rightarrow> session \<Rightarrow>
     session \<times> (bytes \<times> byte) option" where
  "make_session_init S X H K use_old_init R terminal s =
     (if use_old_init then make_session_init_old S X H K R terminal s
      else let mlkem = mlkem_keygen H (ir_mlkem_seed R);
               x25519 = x25519_generate S (ir_x25519_sec R);
               s = s\<lparr>s_mlkem := Some mlkem, s_x25519 := Some x25519\<rparr>;
               inner = signed_dict X H (rk_secret K)
                 [(''I'', BStr (rk_id K)), (''M'', BStr (fst mlkem)), (''X'', BStr (xpub x25519)),
                  (''p'', BStr terminal), (''t'', BInt (uint (s_inbound_tag s)))]
           in case seal_box S H (ir_seal R) (na_pubkey (s_remote s)) inner of
                None \<Rightarrow> (s, None)
              | Some box \<Rightarrow>
                  (s, Some (bt_dict X [('''', BStr (string_bytes ''i'')), (''B'', BStr box)], MSG_SESSION_HANDSHAKE)))"

subsection \<open>Receiver: \<^verbatim>\<open>InboundSession::init\<close>\<close>

text \<open>What the two forms of the init message carry, read and verified.\<close>

record pfs_init =
  pi_id :: router_id
  pi_mlkem :: bytes
  pi_x25519 :: bytes
  pi_pivot :: hop_id
  pi_tag :: session_tag

record old_init =
  oi_secret :: symm_key
  oi_id :: router_id
  oi_pivot :: hop_id
  oi_tag :: session_tag

definition init_parse_inner :: "oxenc \<Rightarrow> handshake_lib \<Rightarrow> bytes \<Rightarrow> pfs_init option" where
  "init_parse_inner X H inner =
     do { c \<leftarrow> bt_open X inner;
          (I, c) \<leftarrow> bt_require_span X PUBKEY_SIZE ''I'' c;
          (M, c) \<leftarrow> bt_require_span X MLKEM_PUBLICKEYBYTES ''M'' c;
          (E, c) \<leftarrow> bt_require_span X PUBKEY_SIZE ''X'' c;
          (p, c) \<leftarrow> bt_require_span X HOPID_SIZE ''p'' c;
          (t, c) \<leftarrow> bt_require_int X 0 (2 ^ 32 - 1) ''t'' c;
          c \<leftarrow> check_signature H I inner c;
          if bt_finish X c
          then Some \<lparr>pi_id = I, pi_mlkem = M, pi_x25519 = E, pi_pivot = p, pi_tag = word_of_int t\<rparr> else None }"

definition init_parse_legacy ::
  "sodium \<Rightarrow> oxenc \<Rightarrow> handshake_lib \<Rightarrow> router_keys \<Rightarrow> bytes \<Rightarrow> old_init option" where
  "init_parse_legacy S X H K c =
     do { (eph_pubkey, c) \<leftarrow> bt_require_span X PUBKEY_SIZE ''k'' c;
          (dh_nonce, c) \<leftarrow> bt_require_span X SYMM_NONCE_SIZE ''n'' c;
          (inner_payload, c) \<leftarrow> bt_require_str X ''x'' c;
          secret \<leftarrow> (if bt_finish X c then dh_server S eph_pubkey (rk_secret K) dh_nonce else None);
          decrypted \<leftarrow> xchacha20_poly1305_decrypt S inner_payload secret dh_nonce;
          c \<leftarrow> bt_open X decrypted;
          (i, c) \<leftarrow> bt_require_span X PUBKEY_SIZE ''i'' c;
          (p, c) \<leftarrow> bt_require_span X HOPID_SIZE ''p'' c;
          (t, c) \<leftarrow> bt_require_int X 0 (2 ^ 32 - 1) ''t'' c;
          c \<leftarrow> check_signature H i decrypted c;
          if bt_finish X c
          then Some \<lparr>oi_secret = secret, oi_id = i, oi_pivot = p, oi_tag = word_of_int t\<rparr> else None }"

text \<open>The empty key tells the two forms apart.\<close>

definition init_parse ::
  "sodium \<Rightarrow> oxenc \<Rightarrow> handshake_lib \<Rightarrow> router_keys \<Rightarrow> bytes \<Rightarrow> (old_init + pfs_init) option" where
  "init_parse S X H K request =
     do { c \<leftarrow> bt_open X request;
          (case bt_optional X '''' c of
             (None, c) \<Rightarrow> map_option Inl (init_parse_legacy S X H K c)
           | (Some (BStr init_type), c) \<Rightarrow>
               if init_type \<noteq> string_bytes ''i'' then None
               else do { (box, c) \<leftarrow> bt_require_str X ''B'' c;
                         inner \<leftarrow> unseal_box S H (rk_secret K) box;
                         map_option Inr (init_parse_inner X H inner) }
           | (Some _, c) \<Rightarrow> None) }"

text \<open>
  The rest of \<^verbatim>\<open>init\<close> and \<^verbatim>\<open>init_legacy\<close>, from the draw of the inbound tag on: the keys of this side
  and the accept message that lets the initiator compute the same.
\<close>

definition init_complete_pfs ::
  "sodium \<Rightarrow> oxenc \<Rightarrow> handshake_lib \<Rightarrow> router_keys \<Rightarrow> init_rand \<Rightarrow> session_tag \<Rightarrow> pfs_init \<Rightarrow> session \<Rightarrow> session option" where
  "init_complete_pfs S X H K R tag i s =
     (let local_eph_x = x25519_generate S (ir_x25519_sec R);
          (mlct, mlss) = mlkem_encapsulate H (pi_mlkem i) (ir_mlkem_seed R);
          accept = signed_dict X H (rk_secret K)
            [(''Y'', BStr (xpub local_eph_x)), (''c'', BStr mlct), (''t'', BInt (uint tag))]
      in do { (key_in, key_out) \<leftarrow> session_secret S (little32 X) (pi_id i) (rk_id K) local_eph_x (pi_x25519 i) False
                mlss (pi_mlkem i) (pi_tag i) tag;
              box \<leftarrow> seal_box S H (ir_seal R) (pi_id i) accept;
              Some (s\<lparr>s_remote := \<lparr>na_pubkey = pi_id i, na_client = True\<rparr>, s_remote_pivot := pi_pivot i,
                      s_outbound_tag := pi_tag i, s_inbound_tag := tag,
                      s_inbound_key := Some key_in, s_outbound_key := Some key_out,
                      s_accept_msg := bt_dict X [('''', BStr (string_bytes ''a'')), (''B'', BStr box)],
                      s_old_accept := False\<rparr>) })"

definition init_complete_legacy :: "oxenc \<Rightarrow> session_tag \<Rightarrow> old_init \<Rightarrow> session \<Rightarrow> session" where
  "init_complete_legacy X tag i s =
     s\<lparr>s_shared_secret := Some (oi_secret i), s_remote := \<lparr>na_pubkey = oi_id i, na_client = True\<rparr>,
       s_remote_pivot := oi_pivot i, s_outbound_tag := oi_tag i, s_inbound_tag := tag,
       s_accept_msg := bt_dict X [(''t'', BInt (uint tag))], s_old_accept := True\<rparr>"

definition init_complete ::
  "sodium \<Rightarrow> oxenc \<Rightarrow> handshake_lib \<Rightarrow> router_keys \<Rightarrow> init_rand \<Rightarrow> session_tag \<Rightarrow> old_init + pfs_init \<Rightarrow> session \<Rightarrow>
     session option" where
  "init_complete S X H K R tag i s =
     (case i of Inl i \<Rightarrow> Some (init_complete_legacy X tag i s) | Inr i \<Rightarrow> init_complete_pfs S X H K R tag i s)"

text \<open>\<^verbatim>\<open>init\<close> as a whole, for a given draw of the tag; \<open>None\<close> is an exception: no session is made.\<close>

definition session_init ::
  "sodium \<Rightarrow> oxenc \<Rightarrow> handshake_lib \<Rightarrow> router_keys \<Rightarrow> init_rand \<Rightarrow> session_tag \<Rightarrow> bytes \<Rightarrow> session \<Rightarrow> session option" where
  "session_init S X H K R tag request s =
     do { i \<leftarrow> init_parse S X H K request; init_complete S X H K R tag i s }"

definition session_init_accept ::
  "sodium \<Rightarrow> oxenc \<Rightarrow> path_context \<Rightarrow> ms \<Rightarrow> symm_nonce \<Rightarrow> session \<Rightarrow> session \<times> link_send list" where
  "session_init_accept S X c now nonce s =
     (if s_accept_msg s = [] then (s, [])
      else let (s, out) =
             (if s_old_accept s then session_control_message S X c now nonce ''session_accept'' (s_accept_msg s) s
              else session_precontrol_message S X c now nonce (s_accept_msg s) MSG_SESSION_HANDSHAKE s)
           in (s\<lparr>s_accept_msg := []\<rparr>, out))"

subsection \<open>Initiator: the acceptance\<close>

definition accept_parse_inner ::
  "oxenc \<Rightarrow> handshake_lib \<Rightarrow> router_id \<Rightarrow> bytes \<Rightarrow> (bytes \<times> bytes \<times> session_tag) option" where
  "accept_parse_inner X H remote inner =
     do { c \<leftarrow> bt_open X inner;
          (Y, c) \<leftarrow> bt_require_span X PUBKEY_SIZE ''Y'' c;
          (mlct, c) \<leftarrow> bt_require_span X MLKEM_CIPHERTEXTBYTES ''c'' c;
          (t, c) \<leftarrow> bt_require_int X 0 (2 ^ 32 - 1) ''t'' c;
          c \<leftarrow> check_signature H remote inner c;
          if bt_finish X c then Some (Y, mlct, word_of_int t) else None }"

definition accept_parse ::
  "sodium \<Rightarrow> oxenc \<Rightarrow> handshake_lib \<Rightarrow> router_keys \<Rightarrow> router_id \<Rightarrow> bytes \<Rightarrow> (bytes \<times> bytes \<times> session_tag) option" where
  "accept_parse S X H K remote payload =
     do { (box, c) \<leftarrow> bt_require_str X ''B'' payload;
          inner \<leftarrow> (if bt_finish X c then unseal_box S H (rk_secret K) box else None);
          accept_parse_inner X H remote inner }"

text \<open>Sending what waited: the queue, then the callbacks.\<close>

definition establish_finish ::
  "sodium \<Rightarrow> oxenc \<Rightarrow> path_context \<Rightarrow> ms \<Rightarrow> ms \<Rightarrow> (nat \<Rightarrow> symm_nonce) \<Rightarrow> session \<Rightarrow> session \<times> link_send list \<times> nat list" where
  "establish_finish S X c now steady_now rnd s =
     (let (s1, out) = (case s_queue s of
                         None \<Rightarrow> (s, [])
                       | Some q \<Rightarrow> (let (s', out) = flush_queue S X c now rnd 0 q s in (s'\<lparr>s_queue := None\<rparr>, out)));
          (s2, fired) = fire_waiting steady_now s1
      in (s2, out, fired))"

text \<open>
  \<^verbatim>\<open>handle_session_accept\<close>; \<open>payload\<close> is the consumer after the type key.  Nothing changes until the
  signature of the remote is verified; a failure after that resets the session.
\<close>

definition handle_session_accept ::
  "sodium \<Rightarrow> oxenc \<Rightarrow> handshake_lib \<Rightarrow> router_keys \<Rightarrow> path_context \<Rightarrow> ms \<Rightarrow> ms \<Rightarrow> (nat \<Rightarrow> symm_nonce) \<Rightarrow> bytes \<Rightarrow> session \<Rightarrow>
     session \<times> link_send list \<times> nat list" where
  "handle_session_accept S X H K c now steady_now rnd payload s =
     (case (s_mlkem s, s_x25519 s) of
        (Some (mlpk, mlsk), Some x25519) \<Rightarrow>
          (case accept_parse S X H K (na_pubkey (s_remote s)) payload of
             None \<Rightarrow> (s, [], [])
           | Some (remote_eph_xpk, mlct, tag) \<Rightarrow>
               (case do { mlss \<leftarrow> mlkem_decapsulate H mlct mlsk;
                          session_secret S (little32 X) (rk_id K) (na_pubkey (s_remote s)) x25519 remote_eph_xpk True
                            mlss mlpk (s_inbound_tag s) tag } of
                  None \<Rightarrow> (s\<lparr>s_established := False, s_outbound_tag := 0\<rparr>, [], [])
                | Some (key_in, key_out) \<Rightarrow>
                    establish_finish S X c now steady_now rnd
                      (s\<lparr>s_outbound_tag := tag, s_inbound_key := Some key_in, s_outbound_key := Some key_out,
                         s_established := True, s_mlkem := None, s_x25519 := None\<rparr>)))
      | _ \<Rightarrow> (s, [], []))"

text \<open>The 1.0 form; the flag says whether the handler returned (a parse error throws).\<close>

definition handle_session_accept_deprecated ::
  "sodium \<Rightarrow> oxenc \<Rightarrow> path_context \<Rightarrow> ms \<Rightarrow> ms \<Rightarrow> (nat \<Rightarrow> symm_nonce) \<Rightarrow> bytes \<Rightarrow> session \<Rightarrow>
     bool \<times> session \<times> link_send list \<times> nat list" where
  "handle_session_accept_deprecated S X c now steady_now rnd params s =
     (if \<not> s_is_outbound s then (True, s, [], [])
      else case s_pending_secret s of
        None \<Rightarrow> (True, s, [], [])
      | Some secret \<Rightarrow>
          (let s = s\<lparr>s_shared_secret := Some secret, s_pending_secret := None, s_established := False, s_outbound_tag := 0\<rparr>
           in case do { c \<leftarrow> bt_open X params;
                        (t, c) \<leftarrow> bt_require_int X 0 (2 ^ 32 - 1) ''t'' c;
                        if bt_finish X c then Some t else None } of
                None \<Rightarrow> (False, s, [], [])
              | Some t \<Rightarrow>
                  (True, establish_finish S X c now steady_now rnd (s\<lparr>s_outbound_tag := word_of_int t, s_established := True\<rparr>))))"

section \<open>Path switches\<close>

text \<open>
  \<^verbatim>\<open>OutboundSession::switch_path\<close>: the new current path \<open>p\<close> at \<open>r\<close>; a session init when the
  session is not established, otherwise the encrypted switch with an init as fallback.  The second
  argument \<open>pivot_hopid\<close> of the code is only logged.
\<close>

definition switch_path ::
  "sodium \<Rightarrow> oxenc \<Rightarrow> handshake_lib \<Rightarrow> router_keys \<Rightarrow> path_context \<Rightarrow> ms \<Rightarrow> bool \<Rightarrow> init_rand \<Rightarrow> symm_nonce \<Rightarrow>
     path_ref \<Rightarrow> path \<Rightarrow> session \<Rightarrow> session \<times> link_send list" where
  "switch_path S X H K c now use_old_init R nonce r p s =
     (let s = s\<lparr>s_path := Some r, s_dead_path := False,
                s_remote_pivot := (case aligned_hopid p of Some h \<Rightarrow> h | None \<Rightarrow> terminal_hopid p)\<rparr>
      in case make_session_init S X H K use_old_init R (terminal_hopid p) s of
           (s, None) \<Rightarrow> (s, [])
         | (s, Some (init_msg, type)) \<Rightarrow>
             if \<not> s_established s then session_precontrol_message S X c now nonce init_msg type s
             else (case make_session_message S X nonce s
                          (bt_dict X [(''e'', BStr (string_bytes ''path_switch'')),
                             (''p'', BStr (bt_dict X [(''p'', BStr (terminal_hopid p))]))]) None True of
                     None \<Rightarrow> (s, [])
                   | Some (m, n) \<Rightarrow>
                       (let n = (if is_established_pfs s then n else buf_xor n switch_xor_factor);
                            m = take (length m - (4 + HOPID_SIZE)) m;
                            payload = (if use_old_init then bt_str_list H [m, init_msg]
                                       else bt_dict X [('''', BStr (string_bytes ''s'')), (''S'', BStr m), (''i'', BStr init_msg)])
                        in send_path_control S c now (payload @ big32 X (s_outbound_tag s) @ s_remote_pivot s) n
                             MSG_SESSION_HANDSHAKE s)))"

text \<open>\<^verbatim>\<open>handle_path_switch\<close> of the two inbound classes.\<close>

definition handle_path_switch :: "hop_id \<Rightarrow> session_source \<Rightarrow> session \<Rightarrow> session" where
  "handle_path_switch pivot source s =
     (case source of
        SrcPath r \<Rightarrow> s\<lparr>s_path := Some r, s_dead_path := False, s_remote_pivot := pivot\<rparr>
      | SrcHop r \<Rightarrow> s\<lparr>s_thop := Some r, s_dead_path := False, s_remote_pivot := pivot\<rparr>)"

section \<open>Received control messages\<close>

text \<open>
  What the handler leaves to others: closing by the endpoint, a client contact for the outbound
  session; \<open>CtlThrew\<close> is an exception that the link manager catches.
\<close>

datatype ctl_action = CtlNone | CtlThrew | CtlClose | CtlContact bytes

text \<open>
  The decryption: the session's inbound key, or the old shared secret and then the pending one.  The
  second attempt works on the buffer the first has left.  The flag says that the pending secret was used.
\<close>

definition decrypt_session_control ::
  "sodium \<Rightarrow> handshake_lib \<Rightarrow> bytes \<Rightarrow> symm_nonce \<Rightarrow> session \<Rightarrow> (bytes \<times> bool) option" where
  "decrypt_session_control S H message nonce s =
     (case s_inbound_key s of
        Some key \<Rightarrow> map_option (\<lambda>d. (d, False)) (xchacha20_poly1305_decrypt_inplace S message key nonce [])
      | None \<Rightarrow>
          (let first = (case s_shared_secret s of
                          None \<Rightarrow> None
                        | Some key \<Rightarrow> xchacha20_poly1305_decrypt_inplace S message key nonce []);
               buffer = (if s_shared_secret s \<noteq> None \<and> TAG_SIZE \<le> length message then aead_failed_buffer H message else message)
           in case first of
                Some d \<Rightarrow> Some (d, False)
              | None \<Rightarrow>
                  (case s_pending_secret s of
                     None \<Rightarrow> None
                   | Some key \<Rightarrow>
                       map_option (\<lambda>d. (d, True)) (xchacha20_poly1305_decrypt_inplace S buffer key nonce []))))"

definition recv_path_switch ::
  "oxenc \<Rightarrow> path_context \<Rightarrow> bytes \<Rightarrow> session_source \<Rightarrow> session \<Rightarrow> session \<times> ctl_action" where
  "recv_path_switch X c params source s =
     (if s_is_outbound s then (s, CtlNone)
      else case do { c \<leftarrow> bt_open X params;
                     (hopid, c) \<leftarrow> bt_require_span X HOPID_SIZE ''p'' c;
                     if bt_finish X c then Some hopid else None } of
             None \<Rightarrow> (s, CtlThrew)
           | Some hopid \<Rightarrow>
               (case (s_is_relay s, source) of
                  (True, SrcHop r) \<Rightarrow>
                    (case hop_objs c r of
                       None \<Rightarrow> (s, CtlThrew)
                     | Some h \<Rightarrow> if hopid \<noteq> rxid h then (s, CtlNone) else (handle_path_switch hopid source s, CtlNone))
                | (False, SrcPath r) \<Rightarrow>
                    (case path_objs c r of
                       None \<Rightarrow> (s, CtlThrew)
                     | Some p \<Rightarrow>
                         if hopid = terminal_hopid p then (s, CtlNone) else (handle_path_switch hopid source s, CtlNone))
                | _ \<Rightarrow> (s, CtlThrew)))"

definition recv_session_control_message ::
  "sodium \<Rightarrow> oxenc \<Rightarrow> handshake_lib \<Rightarrow> path_context \<Rightarrow> ms \<Rightarrow> ms \<Rightarrow> (nat \<Rightarrow> symm_nonce) \<Rightarrow> bytes \<Rightarrow> symm_nonce \<Rightarrow>
     session_source \<Rightarrow> session \<Rightarrow> session \<times> ctl_action \<times> link_send list \<times> nat list" where
  "recv_session_control_message S X H c now steady_now rnd message nonce source s =
     (let s = s\<lparr>s_last_inbound := now, s_last_activity := now\<rparr>
      in case decrypt_session_control S H message nonce s of
           None \<Rightarrow> (s, CtlNone, [], [])
         | Some (decrypted, used_pending) \<Rightarrow>
             (case do { c \<leftarrow> bt_open X decrypted;
                        (method, c) \<leftarrow> bt_require_str X ''e'' c;
                        (params, c) \<leftarrow> bt_require_str X ''p'' c;
                        Some (method, params) } of
                None \<Rightarrow> (s, CtlThrew, [], [])
              | Some (method, params) \<Rightarrow>
                  if method = string_bytes ''session_accept''
                  then (let (returned, s, out, fired) = handle_session_accept_deprecated S X c now steady_now rnd params s
                        in (s, if returned then CtlNone else CtlThrew, out, fired))
                  else if used_pending then (s, CtlNone, [], [])
                  else if method = string_bytes ''session_close'' then (s, CtlClose, [], [])
                  else if method = string_bytes ''publish_cc'' then (s, CtlContact params, [], [])
                  else if method = string_bytes ''path_switch''
                  then (let (s, act) = recv_path_switch X c params source s in (s, act, [], []))
                  else (s, CtlNone, [], [])))"

end
