(* ===== verification/Session_Table.thy ===== *)
theory Session_Table
  imports Session
begin

text \<open>
  The session tables of an endpoint (\<^verbatim>\<open>handlers/session.hpp\<close>, \<^verbatim>\<open>handlers/session.cpp\<close>): sessions by
  remote address and by inbound tag, their creation from either side, deferred removal, and the
  dispatch of session messages that the link manager (\<^verbatim>\<open>link/link_manager.cpp\<close>) makes by tag.
  Session objects are shared between the tables, so they live in a store.
\<close>

section \<open>State\<close>

type_synonym sess_ref = nat

record session_table =
  st_sessions :: "(network_address \<times> sess_ref) list"
  st_tags :: "(session_tag \<times> sess_ref) list"
  st_objs :: "sess_ref \<Rightarrow> session option"
  st_next_ref :: sess_ref
  st_last_tag :: session_tag
  st_deferred :: "sess_ref list" \<comment> \<open>the removals queued by \<^verbatim>\<open>call_soon\<close>\<close>
  st_running :: bool

definition session_table_new :: "session_tag \<Rightarrow> session_table" where
  "session_table_new first =
     \<lparr>st_sessions = [], st_tags = [], st_objs = (\<lambda>_. None), st_next_ref = 0, st_last_tag = first, st_deferred = [],
      st_running = True\<rparr>"

text \<open>What does not change while messages are handled.\<close>

record session_env =
  se_sodium :: sodium
  se_oxenc :: oxenc
  se_hs :: handshake_lib
  se_keys :: router_keys
  se_service_node :: bool
  se_embedded :: bool
  se_has_tun :: bool
  se_is_ipv4 :: "bytes \<Rightarrow> bool"
  se_build_timeout :: ms

text \<open>The random draws of one handler run.\<close>

record session_draws =
  sd_init :: init_rand
  sd_nonce :: symm_nonce
  sd_nonces :: "nat \<Rightarrow> symm_nonce"

text \<open>What handlers cause elsewhere.\<close>

datatype ep_action =
    EpSend link_send
  | EpCallback nat
  | EpTunExpire network_address
  | EpInvalidatePaths sess_ref
  | EpContact sess_ref bytes
  | EpData data_outcome network_address

definition put_session :: "sess_ref \<Rightarrow> session \<Rightarrow> session_table \<Rightarrow> session_table" where
  "put_session r s tbl = tbl\<lparr>st_objs := (st_objs tbl)(r \<mapsto> s)\<rparr>"

section \<open>Lookup\<close>

definition get_session :: "session_tag \<Rightarrow> session_table \<Rightarrow> (sess_ref \<times> session) option" where
  "get_session tag tbl =
     (if tag = 0 then None
      else case map_of (st_tags tbl) tag of
             None \<Rightarrow> None
           | Some r \<Rightarrow> map_option (Pair r) (st_objs tbl r))"

definition get_session_remote :: "network_address \<Rightarrow> session_table \<Rightarrow> (sess_ref \<times> session) option" where
  "get_session_remote remote tbl =
     (case map_of (st_sessions tbl) remote of
        None \<Rightarrow> None
      | Some r \<Rightarrow> map_option (Pair r) (st_objs tbl r))"

text \<open>
  \<^verbatim>\<open>next_tag\<close>: the first tag from the last one on that is neither zero nor in use.  The loop does not
  end when every tag is taken.
\<close>

partial_function (option) next_tag_loop :: "session_tag list \<Rightarrow> session_tag \<Rightarrow> session_tag option" where
  "next_tag_loop used t = (if t \<in> set used \<or> t = 0 then next_tag_loop used (t + 1) else Some t)"

definition next_tag :: "session_table \<Rightarrow> session_tag option" where
  "next_tag tbl = next_tag_loop (map fst (st_tags tbl)) (st_last_tag tbl)"

section \<open>Closing\<close>

definition close_session ::
  "session_env \<Rightarrow> path_context \<Rightarrow> ms \<Rightarrow> symm_nonce \<Rightarrow> bool \<Rightarrow> sess_ref \<Rightarrow> session_table \<Rightarrow> ep_action list \<times> session_table" where
  "close_session E c now nonce send_close r tbl =
     (case st_objs tbl r of
        None \<Rightarrow> ([], tbl)
      | Some s \<Rightarrow>
          (let (s', out) = session_close (se_sodium E) (se_oxenc E) c now nonce send_close s
           in (map EpSend out @ (if se_has_tun E then [EpTunExpire (s_remote s)] else []),
               (put_session r s' tbl)\<lparr>st_deferred := st_deferred tbl @ [r]\<rparr>)))"

definition close_session_remote ::
  "session_env \<Rightarrow> path_context \<Rightarrow> ms \<Rightarrow> symm_nonce \<Rightarrow> network_address \<Rightarrow> bool \<Rightarrow> session_table \<Rightarrow>
     bool \<times> ep_action list \<times> session_table" where
  "close_session_remote E c now nonce remote send_close tbl =
     (case map_of (st_sessions tbl) remote of
        None \<Rightarrow> (False, [], tbl)
      | Some r \<Rightarrow> (True, close_session E c now nonce send_close r tbl))"

definition close_session_tag ::
  "session_env \<Rightarrow> path_context \<Rightarrow> ms \<Rightarrow> symm_nonce \<Rightarrow> session_tag \<Rightarrow> bool \<Rightarrow> session_table \<Rightarrow>
     bool \<times> ep_action list \<times> session_table" where
  "close_session_tag E c now nonce tag send_close tbl =
     (case map_of (st_tags tbl) tag of
        None \<Rightarrow> (False, [], tbl)
      | Some r \<Rightarrow> (True, close_session E c now nonce send_close r tbl))"

text \<open>
  The deferred part: the session leaves both tables, provided it is still the one its remote leads
  to.  A session that is in neither table any more (the weak pointer may have expired) is not found.
\<close>

definition run_deferred :: "session_table \<Rightarrow> session_table" where
  "run_deferred tbl =
     (case st_deferred tbl of
        [] \<Rightarrow> tbl
      | r # rest \<Rightarrow>
          (let tbl = tbl\<lparr>st_deferred := rest\<rparr>
           in case st_objs tbl r of
                None \<Rightarrow> tbl
              | Some s \<Rightarrow>
                  (case map_of (st_sessions tbl) (s_remote s) of
                     None \<Rightarrow> tbl
                   | Some r' \<Rightarrow>
                       if r' \<noteq> r then tbl
                       else tbl\<lparr>st_tags := AList.delete (s_inbound_tag s) (st_tags tbl),
                                st_sessions := AList.delete (s_remote s) (st_sessions tbl)\<rparr>)))"

text \<open>
  One session's \<^verbatim>\<open>tick\<close>; \<open>hook\<close> is what an outbound session that lives on does with its paths and
  waiting callbacks.
\<close>

definition session_tick ::
  "session_env \<Rightarrow> path_context \<Rightarrow> ms \<Rightarrow> symm_nonce \<Rightarrow> (session \<Rightarrow> session \<times> ep_action list) \<Rightarrow> sess_ref \<Rightarrow>
     session_table \<Rightarrow> ep_action list \<times> session_table" where
  "session_tick E c now nonce hook r tbl =
     (case st_objs tbl r of
        None \<Rightarrow> ([], tbl)
      | Some s \<Rightarrow>
          (let (out1, tbl1) = (if session_is_expired s now then snd (close_session_tag E c now nonce (s_inbound_tag s) False tbl)
                               else ([], tbl))
           in case st_objs tbl1 r of
                None \<Rightarrow> (out1, tbl1)
              | Some s1 \<Rightarrow>
                  if \<not> s_is_outbound s1 \<or> s_closed s1 then (out1, tbl1)
                  else if s_unreachable s1
                  then (let (out2, tbl2) = snd (close_session_tag E c now nonce (s_inbound_tag s1) False tbl1) in (out1 @ out2, tbl2))
                  else (let (s2, out2) = hook s1 in (out1 @ out2, put_session r s2 tbl1))))"

definition endpoint_tick ::
  "session_env \<Rightarrow> path_context \<Rightarrow> ms \<Rightarrow> symm_nonce \<Rightarrow> (session \<Rightarrow> session \<times> ep_action list) \<Rightarrow> session_table \<Rightarrow>
     ep_action list \<times> session_table" where
  "endpoint_tick E c now nonce hook tbl =
     fold (\<lambda>(remote, r) (out, tbl). let (o2, tbl2) = session_tick E c now nonce hook r tbl in (out @ o2, tbl2))
       (st_sessions tbl) ([], tbl)"

definition endpoint_stop ::
  "session_env \<Rightarrow> path_context \<Rightarrow> ms \<Rightarrow> symm_nonce \<Rightarrow> bool \<Rightarrow> session_table \<Rightarrow> link_send list \<times> session_table" where
  "endpoint_stop E c now nonce send_close tbl =
     (let (outs, tbl') =
        fold (\<lambda>(remote, r) (out, tbl).
            case st_objs tbl r of
              None \<Rightarrow> (out, tbl)
            | Some s \<Rightarrow> (let (s', o2) = session_close (se_sodium E) (se_oxenc E) c now nonce send_close s in (out @ o2, put_session r s' tbl)))
          (st_sessions tbl) ([], tbl)
      in (outs, tbl'\<lparr>st_running := False, st_tags := []\<rparr>))"

text \<open>\<^verbatim>\<open>session_stats\<close>: inbound, outbound to relays, outbound to clients, and those not yet established.\<close>

definition session_stats :: "session_table \<Rightarrow> nat list" where
  "session_stats tbl =
     (let open = filter (\<lambda>s. \<not> s_closed s) (List.map_filter (\<lambda>(_, r). st_objs tbl r) (st_sessions tbl));
          count = (\<lambda>P. length (filter P open))
      in [count (\<lambda>s. \<not> s_is_outbound s),
          count (\<lambda>s. s_is_outbound s \<and> s_is_relay s),
          count (\<lambda>s. s_is_outbound s \<and> \<not> s_is_relay s),
          count (\<lambda>s. s_is_outbound s \<and> s_is_relay s \<and> \<not> session_is_established s),
          count (\<lambda>s. s_is_outbound s \<and> \<not> s_is_relay s \<and> \<not> session_is_established s)])"

section \<open>Creation\<close>

text \<open>\<^verbatim>\<open>session_post_init\<close>; \<open>mapped\<close> says whether the tun device gave an address to the remote.\<close>

definition session_post_init ::
  "session_env \<Rightarrow> path_context \<Rightarrow> ms \<Rightarrow> symm_nonce \<Rightarrow> bool \<Rightarrow> session \<Rightarrow> session_table \<Rightarrow> ep_action list \<times> session_table" where
  "session_post_init E c now nonce mapped s tbl =
     (if \<not> mapped then ([], tbl)
      else let r = st_next_ref tbl;
               tags = (case get_session_remote (s_remote s) tbl of
                         None \<Rightarrow> st_tags tbl
                       | Some (_, old) \<Rightarrow> AList.delete (s_inbound_tag old) (st_tags tbl));
               (s', out) = session_init_accept (se_sodium E) (se_oxenc E) c now nonce s
           in (map EpSend out,
               (put_session r s' tbl)\<lparr>st_next_ref := Suc r, st_sessions := AList.update (s_remote s) r (st_sessions tbl),
                  st_tags := AList.update (s_inbound_tag s) r tags\<rparr>))"

text \<open>\<^verbatim>\<open>handle_session_init\<close> for both kinds of source; \<open>None\<close> when no tag is left.\<close>

definition handle_session_init ::
  "session_env \<Rightarrow> path_context \<Rightarrow> ms \<Rightarrow> session_draws \<Rightarrow> bool \<Rightarrow> bytes \<Rightarrow> session_source \<Rightarrow> session_table \<Rightarrow>
     (ep_action list \<times> session_table) option" where
  "handle_session_init E c now D mapped payload source tbl =
     (case init_parse (se_sodium E) (se_oxenc E) (se_hs E) (se_keys E) payload of
        None \<Rightarrow> Some ([], tbl)
      | Some i \<Rightarrow>
          (case next_tag tbl of
             None \<Rightarrow> None
           | Some tag \<Rightarrow>
               (let tbl = tbl\<lparr>st_last_tag := tag\<rparr>
                in case init_complete (se_sodium E) (se_oxenc E) (se_hs E) (se_keys E) (sd_init D) tag i
                          (session_new_inbound now (se_service_node E) source) of
                     None \<Rightarrow> Some ([], tbl)
                   | Some s \<Rightarrow> Some (session_post_init E c now (sd_nonce D) mapped s tbl))))"

text \<open>
  The constructors of the outbound sessions.  A relay session looks its relay contact up at once:
  the answer is found (the session ticks), not found (it is unreachable), or still to come.
\<close>

datatype rc_answer = RcFound | RcMissing | RcPending

definition outbound_session_new ::
  "session_env \<Rightarrow> ms \<Rightarrow> ms \<Rightarrow> rc_answer \<Rightarrow> (session \<Rightarrow> session \<times> ep_action list) \<Rightarrow> network_address \<Rightarrow> session_tag \<Rightarrow>
     nat option \<Rightarrow> ms option \<Rightarrow> session \<times> ep_action list" where
  "outbound_session_new E now steady_now answer hook remote tag on_attempted timeout =
     (let s = session_new_outbound now remote tag;
          s = (case on_attempted of None \<Rightarrow> s | Some cb \<Rightarrow> on_established (se_build_timeout E) steady_now timeout cb s)
      in if na_client remote then (s, [])
         else (case answer of
                 RcFound \<Rightarrow> hook s
               | RcMissing \<Rightarrow> (let (s, fired) = mark_unreachable s in (s, map EpCallback fired))
               | RcPending \<Rightarrow> (s, [])))"

definition initiate_remote_session ::
  "session_env \<Rightarrow> ms \<Rightarrow> ms \<Rightarrow> rc_answer \<Rightarrow> (session \<Rightarrow> session \<times> ep_action list) \<Rightarrow> network_address \<Rightarrow> nat option \<Rightarrow>
     ms option \<Rightarrow> session_table \<Rightarrow> (sess_ref option \<times> ep_action list \<times> session_table) option" where
  "initiate_remote_session E now steady_now answer hook remote on_attempted timeout tbl =
     (let fresh =
        (case next_tag tbl of
           None \<Rightarrow> None
         | Some tag \<Rightarrow>
             (let tbl = tbl\<lparr>st_last_tag := tag\<rparr>;
                  (s, out) = outbound_session_new E now steady_now answer hook remote tag on_attempted timeout;
                  r = st_next_ref tbl
              in if s_unreachable s then Some (None, out, tbl)
                 else Some (Some r, out,
                   (put_session r s tbl)\<lparr>st_next_ref := Suc r, st_sessions := AList.update remote r (st_sessions tbl),
                      st_tags := emplace tag r (st_tags tbl)\<rparr>)))
      in case get_session_remote remote tbl of
           None \<Rightarrow> fresh
         | Some (r, s) \<Rightarrow>
             if s_closed s \<or> s_unreachable s then fresh
             else (case on_attempted of
                     None \<Rightarrow> Some (Some r, [], tbl)
                   | Some cb \<Rightarrow>
                       if session_is_established s then Some (Some r, [EpCallback cb], tbl)
                       else Some (Some r, [], put_session r (on_established (se_build_timeout E) steady_now timeout cb s) tbl)))"

section \<open>Dispatch by tag (\<^verbatim>\<open>link_manager.cpp\<close>)\<close>

definition handle_session_data ::
  "session_env \<Rightarrow> ms \<Rightarrow> bool \<Rightarrow> bytes \<Rightarrow> session_tag \<Rightarrow> symm_nonce \<Rightarrow> session_table \<Rightarrow> ep_action list \<times> session_table" where
  "handle_session_data E now map_v4 payload tag nonce tbl =
     (case get_session tag tbl of
        None \<Rightarrow> ([], tbl)
      | Some (r, s) \<Rightarrow>
          (let (s', outcome) = recv_session_data_message (se_sodium E) (se_embedded E) (se_is_ipv4 E) map_v4 now payload nonce s
           in ([EpData outcome (s_remote s)], put_session r s' tbl)))"

text \<open>
  \<^verbatim>\<open>handle_session_control\<close>, with \<^verbatim>\<open>recv_close\<close> and \<^verbatim>\<open>handle_client_contact\<close> of the session's class:
  an outbound session drops its paths, any other is closed; only outbound sessions to clients take a
  contact.
\<close>

definition handle_session_control ::
  "session_env \<Rightarrow> path_context \<Rightarrow> ms \<Rightarrow> ms \<Rightarrow> session_draws \<Rightarrow> bytes \<Rightarrow> session_tag \<Rightarrow> symm_nonce \<Rightarrow> session_source \<Rightarrow>
     session_table \<Rightarrow> ep_action list \<times> session_table" where
  "handle_session_control E c now steady_now D payload tag nonce source tbl =
     (case get_session tag tbl of
        None \<Rightarrow> ([], tbl)
      | Some (r, s) \<Rightarrow>
          (let (s', act, sends, fired) = recv_session_control_message (se_sodium E) (se_oxenc E) (se_hs E) c now steady_now
                 (sd_nonces D) payload nonce source s;
               tbl1 = put_session r s' tbl;
               out = map EpSend sends @ map EpCallback fired
           in case act of
                CtlClose \<Rightarrow>
                  if s_is_outbound s' then (out @ [EpInvalidatePaths r], tbl1)
                  else (let (o2, tbl2) = snd (close_session_tag E c now (sd_nonce D) (s_inbound_tag s') False tbl1) in (out @ o2, tbl2))
              | CtlContact params \<Rightarrow>
                  (out @ (if s_is_outbound s' \<and> \<not> s_is_relay s' then [EpContact r params] else []), tbl1)
              | _ \<Rightarrow> (out, tbl1)))"

text \<open>The two encodings of a path switch: the encrypted switch and the fallback init.\<close>

definition path_switch_parts :: "oxenc \<Rightarrow> handshake_lib \<Rightarrow> bytes \<Rightarrow> (bytes \<times> bytes) option" where
  "path_switch_parts X H payload =
     (if hd payload = 100
      then do { c \<leftarrow> bt_open X payload;
                (ty, c) \<leftarrow> bt_require_str X '''' c;
                (switch, c) \<leftarrow> bt_require_str X ''S'' c;
                (init, c) \<leftarrow> bt_require_str X ''i'' c;
                if bt_finish X c then Some (switch, init) else None }
      else do { c \<leftarrow> bt_list_open X payload;
                (switch, c) \<leftarrow> bt_consume_str H c;
                (init, c) \<leftarrow> bt_consume_str H c;
                if bt_list_finish X c then Some (switch, init) else None })"

definition handle_path_switch_message ::
  "session_env \<Rightarrow> path_context \<Rightarrow> ms \<Rightarrow> ms \<Rightarrow> session_draws \<Rightarrow> bool \<Rightarrow> bytes \<Rightarrow> bytes \<Rightarrow> session_tag \<Rightarrow> symm_nonce \<Rightarrow>
     session_source \<Rightarrow> session_table \<Rightarrow> (ep_action list \<times> session_table) option" where
  "handle_path_switch_message E c now steady_now D mapped path_switch fallback_init tag nonce source tbl =
     (case get_session tag tbl of
        Some (r, s) \<Rightarrow>
          Some (handle_session_control E c now steady_now D path_switch tag
                  (if is_established_pfs s then nonce else buf_xor nonce switch_xor_factor) source tbl)
      | None \<Rightarrow>
          if fallback_init \<noteq> [] then handle_session_init E c now D mapped fallback_init source tbl else Some ([], tbl))"

definition handle_session_handshake ::
  "session_env \<Rightarrow> path_context \<Rightarrow> ms \<Rightarrow> ms \<Rightarrow> session_draws \<Rightarrow> bool \<Rightarrow> bytes \<Rightarrow> session_tag \<Rightarrow> symm_nonce \<Rightarrow>
     session_source \<Rightarrow> session_table \<Rightarrow> (ep_action list \<times> session_table) option" where
  "handle_session_handshake E c now steady_now D mapped payload tag nonce source tbl =
     (let X = se_oxenc E; ignored = Some ([], tbl);
          switch = (case path_switch_parts X (se_hs E) payload of
                      None \<Rightarrow> ignored
                    | Some (ps, fb) \<Rightarrow> handle_path_switch_message E c now steady_now D mapped ps fb tag nonce source tbl)
      in if payload = [] then ignored
         else if hd payload = 100
         then (case do { c \<leftarrow> bt_open X payload; bt_require_str X '''' c } of
                 None \<Rightarrow> ignored
               | Some (hs_type, btdc) \<Rightarrow>
                   if hs_type = string_bytes ''i''
                   then (if tag = 0 then handle_session_init E c now D mapped payload source tbl else ignored)
                   else if hs_type = string_bytes ''a''
                   then (if tag = 0 then ignored
                         else case get_session tag tbl of
                                None \<Rightarrow> ignored
                              | Some (r, s) \<Rightarrow>
                                  if \<not> s_is_outbound s then ignored
                                  else (let (s', sends, fired) = handle_session_accept (se_sodium E) X (se_hs E) (se_keys E) c now
                                              steady_now (sd_nonces D) btdc s
                                        in Some (map EpSend sends @ map EpCallback fired, put_session r s' tbl)))
                   else if hs_type \<noteq> string_bytes ''s'' then ignored
                   else switch)
         else if hd payload = 108 then switch
         else ignored)"

section \<open>Well-formed tables\<close>

text \<open>
  Each tag in use leads to a session that listens on it, each remote to a session with that remote;
  while the endpoint runs, a session found by its remote is also found by its tag.
\<close>

definition tag_entry_wf :: "session_table \<Rightarrow> session_tag \<Rightarrow> sess_ref \<Rightarrow> bool" where
  "tag_entry_wf tbl t r \<longleftrightarrow> (\<exists>s. st_objs tbl r = Some s \<and> s_inbound_tag s = t \<and> t \<noteq> 0)"

definition remote_entry_wf :: "session_table \<Rightarrow> network_address \<Rightarrow> sess_ref \<Rightarrow> bool" where
  "remote_entry_wf tbl a r \<longleftrightarrow>
     (\<exists>s. st_objs tbl r = Some s \<and> s_remote s = a \<and> (st_running tbl \<longrightarrow> map_of (st_tags tbl) (s_inbound_tag s) = Some r))"

definition table_wf :: "session_table \<Rightarrow> bool" where
  "table_wf tbl \<longleftrightarrow>
     distinct (map fst (st_tags tbl)) \<and> distinct (map fst (st_sessions tbl)) \<and>
     (\<forall>t r. map_of (st_tags tbl) t = Some r \<longrightarrow> tag_entry_wf tbl t r) \<and>
     (\<forall>a r. map_of (st_sessions tbl) a = Some r \<longrightarrow> remote_entry_wf tbl a r) \<and>
     (\<forall>r. st_objs tbl r \<noteq> None \<longrightarrow> r < st_next_ref tbl)"

text \<open>Handlers change neither the tag a session listens on nor its remote.\<close>

definition sess_key :: "session \<Rightarrow> session_tag \<times> network_address" where
  "sess_key s = (s_inbound_tag s, s_remote s)"

lemma send_path_key [simp]:
  "sess_key (fst (send_path_data S c now m n s)) = sess_key s" "sess_key (fst (send_path_control S c now m n ty s)) = sess_key s"
  by (auto simp: send_path_data_def send_path_control_def send_path_data_impl_def send_path_control_impl_def update_active_def
      sess_key_def Let_def split: option.split)

lemma control_message_key [simp]:
  "sess_key (fst (session_control_message S X c now n meth b s)) = sess_key s"
  "sess_key (fst (session_precontrol_message S X c now n b ty s)) = sess_key s"
  by (auto simp: session_control_message_def session_precontrol_message_def split: option.split)

lemma close_key [simp]: "sess_key (fst (session_close S X c now n send s)) = sess_key s"
proof -
  have "sess_key (s\<lparr>s_tunnel := False, s_closed := True\<rparr>) = sess_key s" by (simp add: sess_key_def)
  then show ?thesis by (auto simp: session_close_def Let_def)
qed

lemma accept_msg_key [simp]: "sess_key (s\<lparr>s_accept_msg := m\<rparr>) = sess_key s"
  by (simp add: sess_key_def)

lemma init_accept_key [simp]: "sess_key (fst (session_init_accept S X c now n s)) = sess_key s"
  by (simp add: session_init_accept_def split_beta Let_def)

lemma send_data_key [simp]: "sess_key (fst (send_session_data_message S X c now n d ty s)) = sess_key s"
proof -
  have "sess_key (queue_data_message now d ty s) = sess_key s"
    by (simp add: queue_data_message_def update_active_def sess_key_def Let_def)
  then show ?thesis by (auto simp: send_session_data_message_def split: option.split)
qed

lemma flush_queue_key [simp]: "sess_key (fst (flush_queue S X c now rnd i q s)) = sess_key s"
  by (induction q arbitrary: i s) (simp_all add: split_beta Let_def)

lemma establish_finish_key [simp]: "sess_key (fst (establish_finish S X c now sn rnd s)) = sess_key s"
  using flush_queue_key [of S X c now rnd 0 _ s]
  by (auto simp: establish_finish_def fire_waiting_def sess_key_def Let_def split_beta split: option.split)

lemma accept_key [simp]: "sess_key (fst (handle_session_accept S X H K c now sn rnd p s)) = sess_key s"
proof -
  have *: "sess_key (s\<lparr>s_outbound_tag := t, s_inbound_key := ki, s_outbound_key := ko, s_established := b, s_mlkem := m, s_x25519 := x\<rparr>) =
      sess_key s" "sess_key (s\<lparr>s_established := b, s_outbound_tag := t\<rparr>) = sess_key s" for t ki ko b m x
    by (simp_all add: sess_key_def)
  show ?thesis by (auto simp: handle_session_accept_def * split: option.split prod.split)
qed

lemma accept_deprecated_key [simp]:
  "sess_key (fst (snd (handle_session_accept_deprecated S X c now sn rnd p s))) = sess_key s"
proof -
  have *: "sess_key (s\<lparr>s_shared_secret := k, s_pending_secret := k', s_established := b, s_outbound_tag := t\<rparr>) = sess_key s"
    "sess_key (s\<lparr>s_shared_secret := k, s_pending_secret := k', s_outbound_tag := t, s_established := b\<rparr>) = sess_key s" for k k' b t
    by (simp_all add: sess_key_def)
  show ?thesis by (auto simp: handle_session_accept_deprecated_def * Let_def split: option.split)
qed

lemma recv_data_key [simp]: "sess_key (fst (recv_session_data_message S e v m now d n s)) = sess_key s"
  by (auto simp: recv_session_data_message_def sess_key_def Let_def split: option.split)

lemma recv_path_switch_key [simp]: "sess_key (fst (recv_path_switch X c p src s)) = sess_key s"
  by (auto simp: recv_path_switch_def handle_path_switch_def sess_key_def split: option.split session_source.split prod.split bool.split)

lemma recv_control_key [simp]: "sess_key (fst (recv_session_control_message S X H c now sn rnd m n src s)) = sess_key s"
proof -
  have "sess_key (s\<lparr>s_last_inbound := now, s_last_activity := now\<rparr>) = sess_key s" by (simp add: sess_key_def)
  then show ?thesis
    using accept_deprecated_key [of S X c now sn rnd _ "s\<lparr>s_last_inbound := now, s_last_activity := now\<rparr>"]
      recv_path_switch_key [of X c _ src "s\<lparr>s_last_inbound := now, s_last_activity := now\<rparr>"]
    by (auto simp: recv_session_control_message_def Let_def split_beta split: option.split)
qed

lemma on_established_key [simp]: "sess_key (on_established bt now t cb s) = sess_key s"
  by (simp add: on_established_def sess_key_def)

subsection \<open>Preservation\<close>

lemma table_wfD:
  assumes "table_wf tbl"
  shows "map_of (st_tags tbl) t = Some r \<Longrightarrow> \<exists>s. st_objs tbl r = Some s \<and> s_inbound_tag s = t \<and> t \<noteq> 0"
    and "map_of (st_sessions tbl) a = Some r \<Longrightarrow> \<exists>s. st_objs tbl r = Some s \<and> s_remote s = a"
    and "map_of (st_sessions tbl) a = Some r \<Longrightarrow> st_objs tbl r = Some s \<Longrightarrow> st_running tbl \<Longrightarrow>
      map_of (st_tags tbl) (s_inbound_tag s) = Some r"
  using assms unfolding table_wf_def tag_entry_wf_def remote_entry_wf_def by (blast, blast, fastforce)

text \<open>Replacing a session by one with the same tag and remote.\<close>

lemma entry_wf_put:
  assumes "st_objs tbl r = Some s" and "sess_key s' = sess_key s"
  shows "tag_entry_wf (put_session r s' tbl) t r' = tag_entry_wf tbl t r'"
    and "remote_entry_wf (put_session r s' tbl) a r' = remote_entry_wf tbl a r'"
  using assms by (auto simp: put_session_def tag_entry_wf_def remote_entry_wf_def sess_key_def)

lemma table_wf_put:
  assumes "table_wf tbl" and "st_objs tbl r = Some s" and "sess_key s' = sess_key s"
  shows "table_wf (put_session r s' tbl)"
proof -
  have "st_objs (put_session r s' tbl) r' \<noteq> None \<longleftrightarrow> st_objs tbl r' \<noteq> None" for r'
    using assms(2) by (simp add: put_session_def)
  moreover have "st_tags (put_session r s' tbl) = st_tags tbl" "st_sessions (put_session r s' tbl) = st_sessions tbl"
    "st_next_ref (put_session r s' tbl) = st_next_ref tbl"
    by (simp_all add: put_session_def)
  ultimately show ?thesis
    using assms(1) unfolding table_wf_def by (simp add: entry_wf_put [OF assms(2,3)] del: map_of_eq_Some_iff not_None_eq)
qed

lemma table_wf_other [simp]:
  "table_wf (tbl\<lparr>st_deferred := q\<rparr>) = table_wf tbl" "table_wf (tbl\<lparr>st_last_tag := t\<rparr>) = table_wf tbl"
  by (simp_all add: table_wf_def tag_entry_wf_def remote_entry_wf_def)

lemma put_session_other [simp]: "(put_session r s tbl)\<lparr>st_deferred := q\<rparr> = put_session r s (tbl\<lparr>st_deferred := q\<rparr>)"
  by (simp add: put_session_def)

lemma table_wf_close: "table_wf tbl \<Longrightarrow> table_wf (snd (close_session E c now n send r tbl))"
  by (auto simp: close_session_def split_beta split: option.split intro: table_wf_put)

lemma table_wf_close_tag: "table_wf tbl \<Longrightarrow> table_wf (snd (snd (close_session_tag E c now n t send tbl)))"
  by (auto simp: close_session_tag_def split: option.split intro: table_wf_close)

lemma table_wf_close_remote: "table_wf tbl \<Longrightarrow> table_wf (snd (snd (close_session_remote E c now n a send tbl)))"
  by (auto simp: close_session_remote_def split: option.split intro: table_wf_close)

lemma table_wf_remove:
  assumes wf: "table_wf tbl" and r: "st_objs tbl r = Some s" and m: "map_of (st_sessions tbl) (s_remote s) = Some r"
  shows "table_wf (tbl\<lparr>st_tags := AList.delete (s_inbound_tag s) (st_tags tbl), st_sessions := AList.delete (s_remote s) (st_sessions tbl)\<rparr>)"
proof -
  let ?tbl = "tbl\<lparr>st_tags := AList.delete (s_inbound_tag s) (st_tags tbl), st_sessions := AList.delete (s_remote s) (st_sessions tbl)\<rparr>"
  have "tag_entry_wf ?tbl t r'" if "map_of (st_tags ?tbl) t = Some r'" for t r'
    using table_wfD(1) [OF wf, of t r'] that by (auto simp: tag_entry_wf_def delete_conv' split: if_splits)
  moreover have "remote_entry_wf ?tbl a r'" if "map_of (st_sessions ?tbl) a = Some r'" for a r'
  proof -
    from that have a: "a \<noteq> s_remote s" "map_of (st_sessions tbl) a = Some r'" by (auto simp: delete_conv' split: if_splits)
    then obtain s' where s': "st_objs tbl r' = Some s'" "s_remote s' = a" using table_wfD(2) [OF wf] by blast
    have "st_running tbl \<Longrightarrow> s_inbound_tag s' \<noteq> s_inbound_tag s"
      using table_wfD(3) [OF wf a(2) s'(1)] table_wfD(3) [OF wf m r] s' a r by auto
    then show ?thesis using s' table_wfD(3) [OF wf a(2) s'(1)] by (auto simp: remote_entry_wf_def delete_conv')
  qed
  ultimately show ?thesis
    using wf unfolding table_wf_def by (simp add: distinct_delete)
qed

lemma table_wf_deferred: "table_wf tbl \<Longrightarrow> table_wf (run_deferred tbl)"
  by (auto simp: run_deferred_def Let_def split: list.split option.split intro!: table_wf_remove [where tbl = "tbl\<lparr>st_deferred := q\<rparr>" for tbl q, simplified])

subsection \<open>Tags\<close>

lemma next_tag_loop_Some: "next_tag_loop used t = Some u \<Longrightarrow> u \<notin> set used \<and> u \<noteq> 0"
  by (erule next_tag_loop.raw_induct [where P = "\<lambda>used t u. u \<notin> set used \<and> u \<noteq> 0", rotated]) (auto split: if_splits)

text \<open>The loop returns whenever one of the following tags is free.\<close>

lemma next_tag_loop_returns:
  assumes "t + of_nat n \<notin> set used \<union> {0}"
  shows "\<exists>u. next_tag_loop used t = Some u"
  using assms
proof (induction n arbitrary: t)
  case 0
  then show ?case by (subst next_tag_loop.simps) simp
next
  case (Suc n)
  then have "\<exists>u. next_tag_loop used (t + 1) = Some u" by (intro Suc.IH) (simp add: add.assoc)
  then show ?case by (subst next_tag_loop.simps) simp
qed

lemma free_tag_exists:
  assumes "length used < 2 ^ 32 - 1"
  shows "\<exists>n. (t :: session_tag) + of_nat n \<notin> set used \<union> {0}"
proof -
  have "card (set used \<union> {0 :: session_tag}) \<le> length used + 1"
    using card_length [of used] card_insert_le_m1 [of "length used + 1" "set used" 0]
    by (metis Un_insert_right add_diff_cancel_right' le_add2 sup_bot.right_neutral zero_less_one add_gr_0)
  also have "\<dots> < card (UNIV :: session_tag set)" using assms by (simp add: card_word)
  finally obtain u where u: "u \<notin> set used \<union> {0 :: session_tag}"
    by (metis UNIV_I card_mono finite linorder_not_le subsetI)
  have "t + of_nat (unat (u - t)) = u" by simp
  with u show ?thesis by metis
qed

lemma next_tag_free:
  assumes "next_tag tbl = Some t"
  shows "map_of (st_tags tbl) t = None" and "t \<noteq> 0"
  using next_tag_loop_Some assms by (force simp: next_tag_def map_of_eq_None_iff)+

text \<open>A session that enters both tables under a tag no other session has.\<close>

lemma table_wf_enter:
  assumes wf: "table_wf tbl" and s: "s_remote s = a" "s_inbound_tag s = t" "t \<noteq> 0"
    and tags: "distinct (map fst tags)" "\<forall>u. u \<noteq> t \<longrightarrow> map_of tags u = (if u \<in> gone then None else map_of (st_tags tbl) u)"
      "map_of tags t = Some (st_next_ref tbl)"
    and gone: "\<forall>b r u. b \<noteq> a \<longrightarrow> map_of (st_sessions tbl) b = Some r \<longrightarrow> st_objs tbl r = Some u \<longrightarrow> st_running tbl \<longrightarrow>
      s_inbound_tag u \<notin> insert t gone"
  shows "table_wf ((put_session (st_next_ref tbl) s tbl)\<lparr>st_next_ref := Suc (st_next_ref tbl),
      st_sessions := AList.update a (st_next_ref tbl) (st_sessions tbl), st_tags := tags\<rparr>)" (is "table_wf ?tbl")
proof -
  let ?r = "st_next_ref tbl"
  have old: "r' \<noteq> ?r" if "st_objs tbl r' = Some u" for r' u
  proof -
    from wf have "\<forall>r. st_objs tbl r \<noteq> None \<longrightarrow> r < ?r" by (simp add: table_wf_def)
    with that show ?thesis by (metis less_irrefl option.distinct(1))
  qed
  have "tag_entry_wf ?tbl u r'" if "map_of (st_tags ?tbl) u = Some r'" for u r'
  proof (cases "u = t")
    case True
    with that tags(3) s show ?thesis by (auto simp: tag_entry_wf_def put_session_def)
  next
    case False
    with that tags(2) have "map_of (st_tags tbl) u = Some r'" by (auto split: if_splits)
    with table_wfD(1) [OF wf] obtain v where "st_objs tbl r' = Some v" "s_inbound_tag v = u" "u \<noteq> 0" by blast
    with old [of r' v] show ?thesis by (auto simp: tag_entry_wf_def put_session_def)
  qed
  moreover have "remote_entry_wf ?tbl b r'" if "map_of (st_sessions ?tbl) b = Some r'" for b r'
  proof (cases "b = a")
    case True
    with that s tags(3) show ?thesis by (auto simp: remote_entry_wf_def put_session_def update_conv')
  next
    case False
    with that have b: "map_of (st_sessions tbl) b = Some r'" by (simp add: update_conv')
    then obtain v where v: "st_objs tbl r' = Some v" "s_remote v = b" using table_wfD(2) [OF wf] by blast
    have "map_of tags (s_inbound_tag v) = Some r'" if "st_running tbl"
      using gone False b v(1) that tags(2) table_wfD(3) [OF wf b v(1) that] by auto
    with v old [OF v(1)] show ?thesis by (auto simp: remote_entry_wf_def put_session_def)
  qed
  moreover have "r' < Suc ?r" if "st_objs ?tbl r' \<noteq> None" for r'
    using wf that by (auto simp: table_wf_def put_session_def less_Suc_eq split: if_splits)
  ultimately show ?thesis
    using wf tags(1) by (simp add: table_wf_def distinct_update del: map_of_eq_Some_iff not_None_eq)
qed

lemma put_session_fields [simp]:
  "st_tags (put_session r s tbl) = st_tags tbl" "st_sessions (put_session r s tbl) = st_sessions tbl"
  "st_next_ref (put_session r s tbl) = st_next_ref tbl" "st_running (put_session r s tbl) = st_running tbl"
  "st_deferred (put_session r s tbl) = st_deferred tbl" "st_objs (put_session r s tbl) = (st_objs tbl)(r \<mapsto> s)"
  by (simp_all add: put_session_def)

lemma free_tag_unused:
  assumes "table_wf tbl" and "map_of (st_tags tbl) t = None" and "map_of (st_sessions tbl) b = Some r" and "st_objs tbl r = Some u"
    and "st_running tbl"
  shows "s_inbound_tag u \<noteq> t"
  using table_wfD(3) [OF assms(1,3,4,5)] assms(2) by auto

lemma table_wf_post_init:
  assumes wf: "table_wf tbl" and t: "map_of (st_tags tbl) (s_inbound_tag s) = None" "s_inbound_tag s \<noteq> 0"
  shows "table_wf (snd (session_post_init E c now n mapped s tbl))"
proof (cases mapped)
  case True
  let ?s' = "fst (session_init_accept (se_sodium E) (se_oxenc E) c now n s)"
  let ?gone = "case get_session_remote (s_remote s) tbl of None \<Rightarrow> {} | Some (_, old) \<Rightarrow> {s_inbound_tag old}"
  let ?del = "case get_session_remote (s_remote s) tbl of None \<Rightarrow> st_tags tbl
      | Some (_, old) \<Rightarrow> AList.delete (s_inbound_tag old) (st_tags tbl)"
  let ?tags = "AList.update (s_inbound_tag s) (st_next_ref tbl) ?del"
  have key: "s_remote ?s' = s_remote s" "s_inbound_tag ?s' = s_inbound_tag s"
    using init_accept_key [of "se_sodium E" "se_oxenc E" c now n s] by (simp_all add: sess_key_def)
  have d: "distinct (map fst ?del)" using wf by (auto simp: table_wf_def distinct_delete split: option.split)
  have "table_wf ((put_session (st_next_ref tbl) ?s' tbl)\<lparr>st_next_ref := Suc (st_next_ref tbl),
      st_sessions := AList.update (s_remote s) (st_next_ref tbl) (st_sessions tbl), st_tags := ?tags\<rparr>)"
  proof (rule table_wf_enter [OF wf key t(2), where gone = ?gone])
    show "distinct (map fst ?tags)" using d by (rule distinct_update)
    show "\<forall>u. u \<noteq> s_inbound_tag s \<longrightarrow> map_of ?tags u = (if u \<in> ?gone then None else map_of (st_tags tbl) u)"
      by (auto simp: update_conv' delete_conv' split: option.split)
    show "map_of ?tags (s_inbound_tag s) = Some (st_next_ref tbl)" by (simp add: update_conv')
    show "\<forall>b r u. b \<noteq> s_remote s \<longrightarrow> map_of (st_sessions tbl) b = Some r \<longrightarrow> st_objs tbl r = Some u \<longrightarrow> st_running tbl \<longrightarrow>
        s_inbound_tag u \<notin> insert (s_inbound_tag s) ?gone"
    proof (intro allI impI)
      fix b r u
      assume b: "b \<noteq> s_remote s" "map_of (st_sessions tbl) b = Some r" "st_objs tbl r = Some u" "st_running tbl"
      have "s_inbound_tag u \<notin> ?gone"
      proof (cases "get_session_remote (s_remote s) tbl")
        case (Some x)
        then obtain r0 old where x: "x = (r0, old)" "map_of (st_sessions tbl) (s_remote s) = Some r0" "st_objs tbl r0 = Some old"
          by (cases x) (auto simp: get_session_remote_def simp del: map_of_eq_Some_iff split: option.splits)
        have "r0 \<noteq> r" using table_wfD(2) [OF wf b(2)] table_wfD(2) [OF wf x(2)] b(1) by auto
        then have "s_inbound_tag u \<noteq> s_inbound_tag old"
          using table_wfD(3) [OF wf b(2-4)] table_wfD(3) [OF wf x(2,3) b(4)] by auto
        with Some x show ?thesis by simp
      qed simp
      with free_tag_unused [OF wf t(1) b(2-4)] show "s_inbound_tag u \<notin> insert (s_inbound_tag s) ?gone" by simp
    qed
  qed
  with True show ?thesis by (simp add: session_post_init_def split_beta Let_def)
qed (simp add: session_post_init_def wf)

lemma init_complete_tag: "init_complete S X H K R tag i s = Some s' \<Longrightarrow> s_inbound_tag s' = tag"
  by (auto simp: init_complete_def init_complete_legacy_def init_complete_pfs_def Option.bind_eq_Some_conv Let_def split_beta split: sum.splits)

lemma table_wf_session_init:
  assumes wf: "table_wf tbl" and h: "handle_session_init E c now D mapped p src tbl = Some (out, tbl')"
  shows "table_wf tbl'"
proof -
  show ?thesis
  proof (cases "init_parse (se_sodium E) (se_oxenc E) (se_hs E) (se_keys E) p")
    case None
    with h wf show ?thesis by (simp add: handle_session_init_def)
  next
    case (Some i)
    with h obtain tag where tag: "next_tag tbl = Some tag" by (auto simp: handle_session_init_def split: option.splits)
    note free = next_tag_free [OF tag]
    show ?thesis
    proof (cases "init_complete (se_sodium E) (se_oxenc E) (se_hs E) (se_keys E) (sd_init D) tag i
        (session_new_inbound now (se_service_node E) src)")
      case None
      with h Some tag wf show ?thesis by (simp add: handle_session_init_def) (metis table_wf_other(2))
    next
      case s: (Some s)
      with h Some tag have "tbl' = snd (session_post_init E c now (sd_nonce D) mapped s (tbl\<lparr>st_last_tag := tag\<rparr>))"
        by (simp add: handle_session_init_def)
      with free init_complete_tag [OF s] wf show ?thesis by (simp add: table_wf_post_init)
    qed
  qed
qed

lemma outbound_session_new_key:
  assumes hook: "\<forall>s. sess_key (fst (hook s)) = sess_key s"
  shows "sess_key (fst (outbound_session_new E now sn ans hook remote tag cb to)) = (tag, remote)"
proof -
  have new: "sess_key (session_new_outbound now remote tag) = (tag, remote)"
    by (simp add: sess_key_def session_new_outbound_def)
  have mark: "sess_key (fst (mark_unreachable s)) = sess_key s" for s by (simp add: mark_unreachable_def sess_key_def)
  show ?thesis
    using hook new mark by (auto simp: outbound_session_new_def Let_def split_beta split: option.split rc_answer.split)
qed

lemma table_wf_initiate:
  assumes wf: "table_wf tbl" and hook: "\<forall>s. sess_key (fst (hook s)) = sess_key s"
    and i: "initiate_remote_session E now sn ans hook remote cb to tbl = Some (res, out, tbl')"
  shows "table_wf tbl'"
proof -
  let ?new = "\<lambda>tag. fst (outbound_session_new E now sn ans hook remote tag cb to)"
  from i consider "tbl' = tbl" | tag where "tbl' = tbl\<lparr>st_last_tag := tag\<rparr>"
    | r s cb' where "get_session_remote remote tbl = Some (r, s)"
      "tbl' = put_session r (on_established (se_build_timeout E) sn to cb' s) tbl"
    | tag where "next_tag tbl = Some tag"
      "tbl' = (put_session (st_next_ref tbl) (?new tag) (tbl\<lparr>st_last_tag := tag\<rparr>))\<lparr>st_next_ref := Suc (st_next_ref tbl),
         st_sessions := AList.update remote (st_next_ref tbl) (st_sessions tbl), st_tags := emplace tag (st_next_ref tbl) (st_tags tbl)\<rparr>"
    by (auto simp: initiate_remote_session_def Let_def split_beta split: option.splits if_splits) 
  then show ?thesis
  proof cases
    case (3 r s cb')
    then have "st_objs tbl r = Some s" by (auto simp: get_session_remote_def split: option.splits)
    with 3 wf show ?thesis by (auto intro: table_wf_put)
  next
    case (4 tag)
    note t = next_tag_free [OF 4(1)]
    have key: "s_remote (?new tag) = remote" "s_inbound_tag (?new tag) = tag"
      using outbound_session_new_key [OF hook, of E now sn ans remote tag cb to] by (simp_all add: sess_key_def)
    have "table_wf (tbl\<lparr>st_last_tag := tag\<rparr>)" using wf by simp
    from table_wf_enter [OF this key t(2), where gone = "{}" and tags = "emplace tag (st_next_ref tbl) (st_tags tbl)"] t(1) wf
      free_tag_unused [OF wf t(1)] show ?thesis
      unfolding 4(2) by (auto simp: map_of_emplace distinct_emplace table_wf_def)
  qed (use wf in simp_all)
qed

lemma get_session_obj: "get_session t tbl = Some (r, s) \<Longrightarrow> st_objs tbl r = Some s"
  by (auto simp: get_session_def split: if_splits option.splits)

lemma table_wf_tick1:
  assumes wf: "table_wf tbl" and hook: "\<forall>s. sess_key (fst (hook s)) = sess_key s"
  shows "table_wf (snd (session_tick E c now n hook r tbl))"
proof (cases "st_objs tbl r")
  case (Some s)
  let ?x = "if session_is_expired s now then snd (close_session_tag E c now n (s_inbound_tag s) False tbl) else ([], tbl)"
  have wf1: "table_wf (snd ?x)" using wf by (simp add: table_wf_close_tag)
  show ?thesis
  proof (cases "st_objs (snd ?x) r")
    case None
    with Some wf1 show ?thesis by (simp add: session_tick_def split_beta Let_def)
  next
    case s1: (Some s1)
    with Some wf1 hook show ?thesis
      by (auto simp: session_tick_def split_beta Let_def intro: table_wf_close_tag table_wf_put)
  qed
qed (simp add: session_tick_def wf)

lemma table_wf_tick:
  assumes "table_wf tbl" and hook: "\<forall>s. sess_key (fst (hook s)) = sess_key s"
  shows "table_wf (snd (endpoint_tick E c now n hook tbl))"
proof -
  have "table_wf (snd (fold (\<lambda>(remote, r) (out, tbl). let (o2, tbl2) = session_tick E c now n hook r tbl in (out @ o2, tbl2)) rs (out, tbl)))"
    if "table_wf tbl" for rs out tbl
    using that
  proof (induction rs arbitrary: out tbl)
    case (Cons x rs)
    then show ?case using table_wf_tick1 [OF Cons.prems hook] by (simp add: split_beta Let_def)
  qed simp
  with assms(1) show ?thesis by (simp add: endpoint_tick_def)
qed

lemma table_wf_cleared:
  assumes "table_wf tbl"
  shows "table_wf (tbl\<lparr>st_running := False, st_tags := []\<rparr>)"
proof -
  have "remote_entry_wf (tbl\<lparr>st_running := False, st_tags := []\<rparr>) a r" if "map_of (st_sessions tbl) a = Some r" for a r
    using table_wfD(2) [OF assms that] by (auto simp: remote_entry_wf_def)
  with assms show ?thesis by (simp add: table_wf_def del: map_of_eq_Some_iff)
qed

lemma table_wf_stop:
  assumes "table_wf tbl"
  shows "table_wf (snd (endpoint_stop E c now n send tbl))"
proof -
  let ?f = "\<lambda>(remote :: network_address, r) (out, tbl). case st_objs tbl r of None \<Rightarrow> (out, tbl)
      | Some s \<Rightarrow> (let (s', o2) = session_close (se_sodium E) (se_oxenc E) c now n send s in (out @ o2, put_session r s' tbl))"
  have "table_wf (snd (fold ?f rs (out, tbl)))" if "table_wf tbl" for rs out tbl
    using that
  proof (induction rs arbitrary: out tbl)
    case (Cons x rs)
    have "table_wf (snd (?f x (out, tbl)))"
      using Cons.prems by (auto simp: split_beta Let_def split: option.split intro: table_wf_put)
    with Cons.IH [of "snd (?f x (out, tbl))" "fst (?f x (out, tbl))"] show ?case by simp
  qed simp
  from this [OF assms, of "st_sessions tbl" "[]"] show ?thesis
    by (simp add: endpoint_stop_def split_beta Let_def table_wf_cleared)
qed

lemma table_wf_data: "table_wf tbl \<Longrightarrow> table_wf (snd (handle_session_data E now v4 p t n tbl))"
  by (auto simp: handle_session_data_def split_beta Let_def dest: get_session_obj split: option.split intro: table_wf_put)

lemma table_wf_control:
  assumes wf: "table_wf tbl"
  shows "table_wf (snd (handle_session_control E c now sn D p t n src tbl))"
proof (cases "get_session t tbl")
  case (Some x)
  obtain r s where x: "x = (r, s)" by (cases x)
  let ?s' = "fst (recv_session_control_message (se_sodium E) (se_oxenc E) (se_hs E) c now sn (sd_nonces D) p n src s)"
  have "table_wf (put_session r ?s' tbl)"
    by (rule table_wf_put [OF wf get_session_obj]) (use Some x in simp_all)
  with Some x show ?thesis
    by (auto simp: handle_session_control_def split_beta Let_def split: ctl_action.split intro: table_wf_close_tag)
qed (simp add: handle_session_control_def wf)

lemma table_wf_handshake:
  assumes wf: "table_wf tbl" and h: "handle_session_handshake E c now sn D mapped p t n src tbl = Some (out, tbl')"
  shows "table_wf tbl'"
proof -
  have switch: "table_wf tbl'" if "handle_path_switch_message E c now sn D mapped ps fb t n src tbl = Some (out, tbl')" for ps fb
    using that wf table_wf_control [OF wf]
    by (auto simp: handle_path_switch_message_def intro: table_wf_session_init split: option.splits if_splits)
      (metis snd_conv)+
  have accept: "table_wf (put_session r (fst (handle_session_accept S X H K c now sn rnd b s)) tbl)"
    if "get_session t tbl = Some (r, s)" for r s b S X H K rnd
    by (rule table_wf_put [OF wf get_session_obj]) (use that in simp_all)
  from h wf show ?thesis
    unfolding handle_session_handshake_def Let_def
    by (auto simp: split_beta intro: switch accept table_wf_session_init [OF wf] split: if_splits option.splits)
qed

section \<open>Runs\<close>

text \<open>Every handler that changes the tables, with arbitrary messages, clocks and random draws.\<close>

inductive table_step :: "session_env \<Rightarrow> session_table \<Rightarrow> session_table \<Rightarrow> bool" for E where
  step_init: "handle_session_init E c now D mapped p src tbl = Some (out, tbl') \<Longrightarrow> table_step E tbl tbl'"
| step_initiate: "\<forall>s. sess_key (fst (hook s)) = sess_key s \<Longrightarrow>
    initiate_remote_session E now sn ans hook remote cb to tbl = Some (res, out, tbl') \<Longrightarrow> table_step E tbl tbl'"
| step_handshake: "handle_session_handshake E c now sn D mapped p t n src tbl = Some (out, tbl') \<Longrightarrow> table_step E tbl tbl'"
| step_control: "table_step E tbl (snd (handle_session_control E c now sn D p t n src tbl))"
| step_data: "table_step E tbl (snd (handle_session_data E now v4 p t n tbl))"
| step_close_tag: "table_step E tbl (snd (snd (close_session_tag E c now n t send tbl)))"
| step_close_remote: "table_step E tbl (snd (snd (close_session_remote E c now n a send tbl)))"
| step_deferred: "table_step E tbl (run_deferred tbl)"
| step_tick: "\<forall>s. sess_key (fst (hook s)) = sess_key s \<Longrightarrow> table_step E tbl (snd (endpoint_tick E c now n hook tbl))"
| step_stop: "table_step E tbl (snd (endpoint_stop E c now n send tbl))"

inductive_cases table_stepE: "table_step E tbl tbl'"

lemma table_wf_new: "table_wf (session_table_new first)"
  by (simp add: table_wf_def session_table_new_def)

interpretation tbl_run: invariant_system "\<lambda>tbl. \<exists>first. tbl = session_table_new first" "table_step E" table_wf for E
proof
  fix tbl tbl'
  assume wf: "table_wf tbl" and "table_step E tbl tbl'"
  from this(2) show "table_wf tbl'"
    by cases (use wf in \<open>auto intro: table_wf_session_init table_wf_initiate table_wf_handshake table_wf_control table_wf_data
        table_wf_close_tag table_wf_close_remote table_wf_deferred table_wf_tick table_wf_stop\<close>)
qed (auto simp: table_wf_new)

section \<open>Tags of sessions that lost their remote\<close>

text \<open>A session that is reached by its tag but no longer by its remote.\<close>

definition stranded :: "session_tag \<Rightarrow> sess_ref \<Rightarrow> session_table \<Rightarrow> bool" where
  "stranded t r tbl \<longleftrightarrow> st_running tbl \<and> map_of (st_tags tbl) t = Some r \<and> (\<forall>a. map_of (st_sessions tbl) a \<noteq> Some r)"

definition same_tables :: "session_table \<Rightarrow> session_table \<Rightarrow> bool" where
  "same_tables tbl tbl' \<longleftrightarrow> st_tags tbl' = st_tags tbl \<and> st_sessions tbl' = st_sessions tbl \<and> st_running tbl' = st_running tbl"

lemma same_tables_intros [intro]:
  "same_tables tbl tbl" "same_tables tbl (put_session r s tbl)" "same_tables tbl (tbl\<lparr>st_last_tag := t\<rparr>)"
  by (simp_all add: same_tables_def)

lemma same_tables_trans: "same_tables a b \<Longrightarrow> same_tables b c \<Longrightarrow> same_tables a c"
  by (simp add: same_tables_def)

lemma stranded_same: "same_tables tbl tbl' \<Longrightarrow> stranded t r tbl \<Longrightarrow> stranded t r tbl'"
  by (simp add: same_tables_def stranded_def)

lemma same_tables_close: "same_tables tbl (snd (close_session E c now n send r tbl))"
  by (auto simp: close_session_def same_tables_def split_beta split: option.split)

lemma same_tables_close_tag: "same_tables tbl (snd (snd (close_session_tag E c now n t send tbl)))"
  by (auto simp: close_session_tag_def intro: same_tables_close split: option.split)

lemma same_tables_close_remote: "same_tables tbl (snd (snd (close_session_remote E c now n a send tbl)))"
  by (auto simp: close_session_remote_def intro: same_tables_close split: option.split)

lemma same_tables_data: "same_tables tbl (snd (handle_session_data E now v4 p t n tbl))"
  by (auto simp: handle_session_data_def split_beta Let_def split: option.split)

lemma same_tables_control: "same_tables tbl (snd (handle_session_control E c now sn D p t n src tbl))"
  by (auto simp: handle_session_control_def split_beta Let_def split: option.split ctl_action.split
      intro: same_tables_trans [OF _ same_tables_close_tag])

lemma same_tables_tick1: "same_tables tbl (snd (session_tick E c now n hook r tbl))"
  by (auto simp: session_tick_def split_beta Let_def split: option.split
      intro: same_tables_close_tag same_tables_trans [OF same_tables_close_tag])

lemma same_tables_tick: "same_tables tbl (snd (endpoint_tick E c now n hook tbl))"
proof -
  have "same_tables tbl (snd (fold (\<lambda>(remote, r) (out, tbl). let (o2, tbl2) = session_tick E c now n hook r tbl in (out @ o2, tbl2)) rs (out, tbl)))"
    for rs out tbl
  proof (induction rs arbitrary: out tbl)
    case (Cons x rs)
    then show ?case by (auto simp: split_beta Let_def intro: same_tables_trans [OF same_tables_tick1])
  qed auto
  then show ?thesis by (simp add: endpoint_tick_def)
qed

lemma stranded_deferred:
  assumes wf: "table_wf tbl" and st: "stranded t r tbl"
  shows "stranded t r (run_deferred tbl)"
proof -
  have "s_inbound_tag s \<noteq> t" if "map_of (st_sessions tbl) a = Some r'" "st_objs tbl r' = Some s" for a r' s
    using table_wfD(3) [OF wf that] st that by (auto simp: stranded_def)
  with st show ?thesis
    by (auto simp: run_deferred_def stranded_def delete_conv' Let_def simp del: map_of_eq_Some_iff split: list.split option.split)
qed

lemma stranded_old: "table_wf tbl \<Longrightarrow> stranded t r tbl \<Longrightarrow> r \<noteq> st_next_ref tbl"
  using table_wfD(1) [of tbl t r] by (auto simp: stranded_def table_wf_def simp del: map_of_eq_Some_iff)

lemma stranded_post_init:
  assumes wf: "table_wf tbl" and st: "stranded t r tbl" and t: "map_of (st_tags tbl) (s_inbound_tag s) = None"
  shows "stranded t r (snd (session_post_init E c now n mapped s tbl))"
proof -
  have "s_inbound_tag old \<noteq> t" if "get_session_remote a tbl = Some (r', old)" for a r' old
    using that table_wfD(3) [OF wf, of a r' old] st
    by (auto simp: stranded_def get_session_remote_def simp del: map_of_eq_Some_iff split: option.splits)
  moreover have "t \<noteq> s_inbound_tag s" using st t by (auto simp: stranded_def)
  ultimately show ?thesis
    using st stranded_old [OF wf st]
    by (auto simp: session_post_init_def stranded_def split_beta Let_def update_conv' delete_conv' simp del: map_of_eq_Some_iff
        split: option.split)
qed

lemma stranded_session_init:
  assumes wf: "table_wf tbl" and st: "stranded t r tbl" and h: "handle_session_init E c now D mapped p src tbl = Some (out, tbl')"
  shows "stranded t r tbl'"
proof (cases "init_parse (se_sodium E) (se_oxenc E) (se_hs E) (se_keys E) p")
  case None
  with h st show ?thesis by (simp add: handle_session_init_def)
next
  case (Some i)
  with h obtain tag where tag: "next_tag tbl = Some tag" by (auto simp: handle_session_init_def split: option.splits)
  have st': "table_wf (tbl\<lparr>st_last_tag := tag\<rparr>)" "stranded t r (tbl\<lparr>st_last_tag := tag\<rparr>)"
    using wf st by (simp_all add: stranded_def)
  show ?thesis
  proof (cases "init_complete (se_sodium E) (se_oxenc E) (se_hs E) (se_keys E) (sd_init D) tag i
      (session_new_inbound now (se_service_node E) src)")
    case None
    with h Some tag st'(2) show ?thesis by (simp add: handle_session_init_def)
  next
    case s: (Some s)
    with h Some tag have "tbl' = snd (session_post_init E c now (sd_nonce D) mapped s (tbl\<lparr>st_last_tag := tag\<rparr>))"
      by (simp add: handle_session_init_def)
    with stranded_post_init [OF st'] next_tag_free(1) [OF tag] init_complete_tag [OF s] show ?thesis by simp
  qed
qed

lemma stranded_initiate:
  assumes wf: "table_wf tbl" and st: "stranded t r tbl"
    and i: "initiate_remote_session E now sn ans hook remote cb to tbl = Some (res, out, tbl')"
  shows "stranded t r tbl'"
proof -
  have "t \<noteq> tag" if "next_tag tbl = Some tag" for tag using next_tag_free(1) [OF that] st by (auto simp: stranded_def)
  with i st stranded_old [OF wf st] show ?thesis
    by (auto simp: initiate_remote_session_def stranded_def Let_def split_beta update_conv' map_of_emplace
        simp del: map_of_eq_Some_iff split: option.splits if_splits)
qed

lemma stranded_handshake:
  assumes wf: "table_wf tbl" and st: "stranded t r tbl"
    and h: "handle_session_handshake E c now sn D mapped p t' n src tbl = Some (out, tbl')"
  shows "stranded t r tbl'"
proof -
  have ctl: "stranded t r (snd (handle_session_control E c now sn D p t' n' src tbl))" for p n'
    by (rule stranded_same [OF same_tables_control st])
  have switch: "stranded t r tbl'" if "handle_path_switch_message E c now sn D mapped ps fb t' n src tbl = Some (out, tbl')" for ps fb
  proof (cases "get_session t' tbl")
    case None
    with that st show ?thesis
      by (auto simp: handle_path_switch_message_def intro: stranded_session_init [OF wf st] split: if_splits)
  next
    case (Some x)
    with that ctl show ?thesis by (auto simp: handle_path_switch_message_def split: prod.splits) (metis snd_conv)+
  qed
  have accept: "stranded t r (put_session r' s tbl)" for r' s
    by (rule stranded_same [OF _ st]) auto
  from h st show ?thesis
    unfolding handle_session_handshake_def Let_def
    by (auto simp: split_beta intro: switch accept stranded_session_init [OF wf st] split: if_splits option.splits)
qed

lemma stranded_step:
  assumes wf: "table_wf tbl" and st: "stranded t r tbl" and "table_step E tbl tbl'" and run: "st_running tbl'"
  shows "stranded t r tbl'"
  using assms(3)
proof cases
  case (step_stop c now n send)
  with run show ?thesis by (simp add: endpoint_stop_def split_beta Let_def)
qed (use wf st in \<open>auto intro: stranded_session_init stranded_initiate stranded_handshake stranded_deferred
    stranded_same [OF same_tables_control] stranded_same [OF same_tables_data] stranded_same [OF same_tables_close_tag]
    stranded_same [OF same_tables_close_remote] stranded_same [OF same_tables_tick]\<close>)

text \<open>Only stopping the endpoint frees such a tag.\<close>

interpretation stranded_run: invariant_system "\<lambda>tbl. table_wf tbl \<and> stranded t r tbl"
  "\<lambda>tbl tbl'. table_step E tbl tbl' \<and> st_running tbl'" "\<lambda>tbl. table_wf tbl \<and> stranded t r tbl" for t r E
  by unfold_locales (auto intro: stranded_step tbl_run.step_inv)

end
