(* ===== verification/Session_Exchange.thy ===== *)
theory Session_Exchange
  imports Session Instances
begin

text \<open>
  Two sessions talking: the handshake gives both ends the same keys and tags, a forged acceptance
  leaves a session as it was, and what one end sends is what the other end hands on, also across
  the paths between them.
\<close>

section \<open>Signed dictionaries and sealed boxes\<close>

lemma bt_requires_prefix:
  assumes "bt_reader_law X"
  shows "dict_wf (kvs @ rest) \<Longrightarrow> bt_requires X (map fst kvs) (bt_at X (kvs @ rest)) = Some (map snd kvs, bt_at X rest)"
proof (induction kvs)
  case (Cons kv kvs)
  obtain k v where kv: "kv = (k, v)" by (cases kv)
  have "pairs_after k (kvs @ rest) = kvs @ rest"
    using Cons.prems by (intro pairs_after_sorted [of k v]) (simp add: kv)
  then show ?case
    using Cons bt_reader(2) [OF assms Cons.prems, of k] by (simp add: kv)
qed simp

lemma signed_dict_opens:
  assumes "bt_reader_law X" and "dict_wf (kvs @ [(''~'', BStr (ed25519_sign H sk (bt_signing_data H kvs)))])"
  obtains c where "bt_open X (signed_dict X H sk kvs) =
      Some (bt_at X (kvs @ [(''~'', BStr (ed25519_sign H sk (bt_signing_data H kvs)))]))"
    and "bt_requires X (map fst kvs) (bt_at X (kvs @ [(''~'', BStr (ed25519_sign H sk (bt_signing_data H kvs)))])) =
      Some (map snd kvs, bt_at X [(''~'', BStr (ed25519_sign H sk (bt_signing_data H kvs)))])"
  using that bt_requires_prefix [OF assms] bt_reader(1) [OF assms] by (simp add: signed_dict_def)

lemma check_signature_signed:
  assumes "sign_laws S H" and "signed_dict_law X H" and "sk = snd (sign_seed_keypair S seed)"
    and "pk = fst (sign_seed_keypair S seed)"
    and "dict_wf (kvs @ [(''~'', BStr (ed25519_sign H sk (bt_signing_data H kvs)))])"
  shows "check_signature H pk (signed_dict X H sk kvs)
     (bt_at X [(''~'', BStr (ed25519_sign H sk (bt_signing_data H kvs)))]) = Some (bt_at X [])"
  using assms
  by (simp add: check_signature_def signed_dict_def signed_dict_law_def sign_laws_def ed25519_sign_def pubkey_verify_def)

lemma unseal_seal:
  assumes "x25519_laws S" and "seal_laws S H"
  obtains c where "seal_box S H r (fst (sign_seed_keypair S seed)) m = Some c"
    and "unseal_box S H (snd (sign_seed_keypair S seed)) c = Some m"
proof -
  let ?a = "sign_ed25519_sk_to_curve25519 S (snd (sign_seed_keypair S seed))"
  from assms(2) obtain c where c: "box_seal H r (scalarmult_curve25519_base S ?a) m = Some c"
    "length c = length m + SEALBYTES" "box_seal_open H c (scalarmult_curve25519_base S ?a) ?a = Some m"
    unfolding seal_laws_def by blast
  show thesis
    by (rule that [of c])
      (use assms(1) c in \<open>simp_all add: seal_box_def unseal_box_def x25519_pubkey_of_ed_def x25519_laws_def
        x25519_keypair_of_ed_def x25519_to_pubkey_def Let_def\<close>)
qed

lemma session_secret_agree:
  assumes "x25519_laws S"
  obtains k1 k2 where
    "session_secret S le I R (x25519_generate S a) (scalarmult_curve25519_base S b) True ks M ti tr = Some (k1, k2)"
    "session_secret S le I R (x25519_generate S b) (scalarmult_curve25519_base S a) False ks M ti tr = Some (k2, k1)"
proof -
  from assms obtain ab where "scalarmult_curve25519 S a (scalarmult_curve25519_base S b) = Some ab"
    "scalarmult_curve25519 S b (scalarmult_curve25519_base S a) = Some ab"
    unfolding x25519_laws_def by (metis option.exhaust)
  then show thesis by (intro that) (simp_all add: session_secret_def x25519_generate_def Let_def)
qed

section \<open>The handshake\<close>

text \<open>Key pairs and identity of a router made from a seed.\<close>

lemma router_keys_facts:
  assumes "ed25519_laws S"
  shows "rk_secret (router_keys_of S seed) = snd (sign_seed_keypair S seed)"
    and "rk_id (router_keys_of S seed) = fst (sign_seed_keypair S seed)"
    and "length (rk_id (router_keys_of S seed)) = PUBKEY_SIZE"
  using assms by (simp_all add: router_keys_of_def ed25519_generate_def ed25519_to_pubkey_def ed25519_laws_def Let_def)

lemmas str_less = less_char_def less_eq_char_def

lemma word_tag [simp]: "(word_of_int (uint (t :: u32)) :: u32) = t" "0 \<le> uint (t :: u32)" "uint (t :: u32) \<le> 4294967295"
  using uint_bounded [of t] by simp_all

lemma init_parse_inner_signed:
  assumes X: "bt_reader_law X" and "sign_laws S H" and "signed_dict_law X H"
    and len: "length (fst (sign_seed_keypair S seed)) = PUBKEY_SIZE" "length M = MLKEM_PUBLICKEYBYTES"
      "length E = PUBKEY_SIZE" "length p = HOPID_SIZE"
  shows "init_parse_inner X H (signed_dict X H (snd (sign_seed_keypair S seed))
     [(''I'', BStr (fst (sign_seed_keypair S seed))), (''M'', BStr M), (''X'', BStr E), (''p'', BStr p), (''t'', BInt (uint t))]) =
     Some \<lparr>pi_id = fst (sign_seed_keypair S seed), pi_mlkem = M, pi_x25519 = E, pi_pivot = p, pi_tag = t\<rparr>"
proof -
  let ?sk = "snd (sign_seed_keypair S seed)" and ?pk = "fst (sign_seed_keypair S seed)"
  let ?kvs = "[(''I'', BStr ?pk), (''M'', BStr M), (''X'', BStr E), (''p'', BStr p), (''t'', BInt (uint t))]"
  let ?sig = "[(''~'', BStr (ed25519_sign H ?sk (bt_signing_data H ?kvs)))]"
  have wf: "dict_wf (?kvs @ ?sig)" by (simp add: str_less)
  have "bt_open X (signed_dict X H ?sk ?kvs) = Some (bt_at X (?kvs @ ?sig))"
    and "bt_requires X (map fst ?kvs) (bt_at X (?kvs @ ?sig)) = Some (map snd ?kvs, bt_at X ?sig)"
    using signed_dict_opens [OF X wf] by metis+
  moreover have "check_signature H ?pk (signed_dict X H ?sk ?kvs) (bt_at X ?sig) = Some (bt_at X [])"
    by (rule check_signature_signed [OF assms(2,3) refl refl wf])
  moreover have "bt_finish X (bt_at X [])" using bt_reader(4) [OF X, of "[]"] by simp
  ultimately show ?thesis using len
    by (auto simp: init_parse_inner_def bt_requires_Cons_iff bt_require_span_def bt_require_str_def bt_require_int_def
        simp del: bt_requires.simps)
qed

lemma accept_parse_inner_signed:
  assumes X: "bt_reader_law X" and "sign_laws S H" and "signed_dict_law X H"
    and len: "length Y = PUBKEY_SIZE" "length ct = MLKEM_CIPHERTEXTBYTES"
  shows "accept_parse_inner X H (fst (sign_seed_keypair S seed)) (signed_dict X H (snd (sign_seed_keypair S seed))
     [(''Y'', BStr Y), (''c'', BStr ct), (''t'', BInt (uint t))]) = Some (Y, ct, t)"
proof -
  let ?sk = "snd (sign_seed_keypair S seed)" and ?pk = "fst (sign_seed_keypair S seed)"
  let ?kvs = "[(''Y'', BStr Y), (''c'', BStr ct), (''t'', BInt (uint t))]"
  let ?sig = "[(''~'', BStr (ed25519_sign H ?sk (bt_signing_data H ?kvs)))]"
  have wf: "dict_wf (?kvs @ ?sig)" by (simp add: str_less)
  have "bt_open X (signed_dict X H ?sk ?kvs) = Some (bt_at X (?kvs @ ?sig))"
    and "bt_requires X (map fst ?kvs) (bt_at X (?kvs @ ?sig)) = Some (map snd ?kvs, bt_at X ?sig)"
    using signed_dict_opens [OF X wf] by metis+
  moreover have "check_signature H ?pk (signed_dict X H ?sk ?kvs) (bt_at X ?sig) = Some (bt_at X [])"
    by (rule check_signature_signed [OF assms(2,3) refl refl wf])
  moreover have "bt_finish X (bt_at X [])" using bt_reader(4) [OF X, of "[]"] by simp
  ultimately show ?thesis using len
    by (auto simp: accept_parse_inner_def bt_requires_Cons_iff bt_require_span_def bt_require_str_def bt_require_int_def
        simp del: bt_requires.simps)
qed

text \<open>Reading the outer dictionary of a handshake message.\<close>

lemma handshake_outer:
  assumes X: "bt_reader_law X"
  obtains c0 c1 c2 where "bt_open X (bt_dict X [('''', BStr ty), (''B'', BStr box)]) = Some c0"
    "bt_optional X '''' c0 = (Some (BStr ty), c1)" "bt_require_str X '''' c0 = Some (ty, c1)"
    "bt_require_str X ''B'' c1 = Some (box, c2)" "bt_finish X c2"
proof -
  let ?kvs = "[('''', BStr ty), (''B'', BStr box)]"
  have wf: "dict_wf ?kvs" "dict_wf [(''B'', BStr box)]" by simp_all
  show thesis
    by (rule that [of "bt_at X ?kvs" "bt_at X [(''B'', BStr box)]" "bt_at X []"])
      (use bt_reader [OF X wf(1)] bt_reader [OF X wf(2)] bt_reader(4) [OF X, of "[]"] in \<open>simp_all add: bt_require_str_def\<close>)
qed

text \<open>What two ends of an established session share.\<close>

definition session_paired :: "session \<Rightarrow> session \<Rightarrow> bool" where
  "session_paired s t \<longleftrightarrow>
     s_outbound_tag s = s_inbound_tag t \<and> s_outbound_tag t = s_inbound_tag s \<and>
     s_outbound_key s \<noteq> None \<and> s_outbound_key t \<noteq> None \<and>
     s_inbound_key t = s_outbound_key s \<and> s_inbound_key s = s_outbound_key t"

lemma handshake_receiver:
  assumes laws: "sodium_laws S" "oxenc_laws X" "handshake_laws S X H"
    and rem: "na_pubkey (s_remote s) = rk_id (router_keys_of S seedR)" and p: "length p = HOPID_SIZE"
  obtains s1 msg t k1 k2 box where
    "make_session_init S X H (router_keys_of S seedI) False R p s = (s1, Some (msg, MSG_SESSION_HANDSHAKE))"
    "s1 = s\<lparr>s_mlkem := Some (mlkem_keygen H (ir_mlkem_seed R)), s_x25519 := Some (x25519_generate S (ir_x25519_sec R))\<rparr>"
    "session_init S X H (router_keys_of S seedR) R' tag msg t0 = Some t"
    "t = t0\<lparr>s_remote := \<lparr>na_pubkey = rk_id (router_keys_of S seedI), na_client = True\<rparr>, s_remote_pivot := p,
            s_outbound_tag := s_inbound_tag s, s_inbound_tag := tag, s_inbound_key := Some k2, s_outbound_key := Some k1,
            s_accept_msg := bt_dict X [('''', BStr (string_bytes ''a'')), (''B'', BStr box)], s_old_accept := False\<rparr>"
    "unseal_box S H (rk_secret (router_keys_of S seedI)) box = Some (signed_dict X H (rk_secret (router_keys_of S seedR))
       [(''Y'', BStr (scalarmult_curve25519_base S (ir_x25519_sec R'))),
        (''c'', BStr (fst (mlkem_encapsulate H (fst (mlkem_keygen H (ir_mlkem_seed R))) (ir_mlkem_seed R')))),
        (''t'', BInt (uint tag))])"
    "session_secret S (little32 X) (rk_id (router_keys_of S seedI)) (rk_id (router_keys_of S seedR))
       (x25519_generate S (ir_x25519_sec R)) (scalarmult_curve25519_base S (ir_x25519_sec R')) True
       (snd (mlkem_encapsulate H (fst (mlkem_keygen H (ir_mlkem_seed R))) (ir_mlkem_seed R')))
       (fst (mlkem_keygen H (ir_mlkem_seed R))) (s_inbound_tag s) tag = Some (k1, k2)"
proof -
  have l: "x25519_laws S" "ed25519_laws S" "bt_reader_law X" "sign_laws S H" "seal_laws S H" "mlkem_laws H" "signed_dict_law X H"
    using laws by (simp_all add: sodium_lawsD oxenc_laws_def handshake_laws_def)
  note K = router_keys_facts [OF l(2)]
  let ?M = "fst (mlkem_keygen H (ir_mlkem_seed R))" and ?e = "mlkem_encapsulate H (fst (mlkem_keygen H (ir_mlkem_seed R))) (ir_mlkem_seed R')"
  let ?E = "scalarmult_curve25519_base S (ir_x25519_sec R)" and ?Y = "scalarmult_curve25519_base S (ir_x25519_sec R')"
  let ?inner = "signed_dict X H (snd (sign_seed_keypair S seedI)) [(''I'', BStr (fst (sign_seed_keypair S seedI))), (''M'', BStr ?M),
     (''X'', BStr ?E), (''p'', BStr p), (''t'', BInt (uint (s_inbound_tag s)))]"
  let ?acc = "signed_dict X H (snd (sign_seed_keypair S seedR)) [(''Y'', BStr ?Y), (''c'', BStr (fst ?e)), (''t'', BInt (uint tag))]"
  obtain box where box: "seal_box S H (ir_seal R) (fst (sign_seed_keypair S seedR)) ?inner = Some box"
    "unseal_box S H (snd (sign_seed_keypair S seedR)) box = Some ?inner" by (rule unseal_seal [OF l(1,5)])
  obtain box' where box': "seal_box S H (ir_seal R') (fst (sign_seed_keypair S seedI)) ?acc = Some box'"
    "unseal_box S H (snd (sign_seed_keypair S seedI)) box' = Some ?acc" by (rule unseal_seal [OF l(1,5)])
  obtain k1 k2 where k: "session_secret S (little32 X) (fst (sign_seed_keypair S seedI)) (fst (sign_seed_keypair S seedR))
      (x25519_generate S (ir_x25519_sec R)) ?Y True (snd ?e) ?M (s_inbound_tag s) tag = Some (k1, k2)"
    "session_secret S (little32 X) (fst (sign_seed_keypair S seedI)) (fst (sign_seed_keypair S seedR))
      (x25519_generate S (ir_x25519_sec R')) ?E False (snd ?e) ?M (s_inbound_tag s) tag = Some (k2, k1)"
    by (rule session_secret_agree [OF l(1)])
  obtain c0 c1 c2 where outer: "bt_open X (bt_dict X [('''', BStr (string_bytes ''i'')), (''B'', BStr box)]) = Some c0"
    "bt_optional X '''' c0 = (Some (BStr (string_bytes ''i'')), c1)" "bt_require_str X ''B'' c1 = Some (box, c2)"
    by (rule handshake_outer [OF l(3)])
  have parse: "init_parse_inner X H ?inner = Some \<lparr>pi_id = fst (sign_seed_keypair S seedI), pi_mlkem = ?M, pi_x25519 = ?E,
      pi_pivot = p, pi_tag = s_inbound_tag s\<rparr>"
    by (rule init_parse_inner_signed [OF l(3,4,7)]) (use l(1,2,6) p in \<open>simp_all add: ed25519_laws_def mlkem_laws_def x25519_laws_def\<close>)
  have mk: "make_session_init S X H (router_keys_of S seedI) False R p s =
      (s\<lparr>s_mlkem := Some (mlkem_keygen H (ir_mlkem_seed R)), s_x25519 := Some (x25519_generate S (ir_x25519_sec R))\<rparr>,
       Some (bt_dict X [('''', BStr (string_bytes ''i'')), (''B'', BStr box)], MSG_SESSION_HANDSHAKE))"
    using rem box(1) by (simp add: make_session_init_def K Let_def x25519_generate_def)
  let ?t = "t0\<lparr>s_remote := \<lparr>na_pubkey = fst (sign_seed_keypair S seedI), na_client = True\<rparr>, s_remote_pivot := p,
      s_outbound_tag := s_inbound_tag s, s_inbound_tag := tag, s_inbound_key := Some k2, s_outbound_key := Some k1,
      s_accept_msg := bt_dict X [('''', BStr (string_bytes ''a'')), (''B'', BStr box')], s_old_accept := False\<rparr>"
  have init: "session_init S X H (router_keys_of S seedR) R' tag (bt_dict X [('''', BStr (string_bytes ''i'')), (''B'', BStr box)]) t0 = Some ?t"
    using outer box(2) parse k(2) box'(1)
    by (simp add: session_init_def init_parse_def K init_complete_def init_complete_pfs_def split_beta x25519_generate_def Let_def)
  show thesis
    by (rule that [OF mk refl init]) (use k(1) box'(2) in \<open>simp_all add: K\<close>)
qed

text \<open>Sending what waited changes neither keys nor tags.\<close>

definition session_ident :: "session \<Rightarrow> session_tag \<times> session_tag \<times> symm_key option \<times> symm_key option \<times> bool \<times> bool \<times> (ms \<times> nat) list" where
  "session_ident s = (s_inbound_tag s, s_outbound_tag s, s_inbound_key s, s_outbound_key s, s_established s, s_closed s, s_waiting s)"

lemma send_data_ident:
  "session_ident (fst (send_session_data_message S X c now n d ty s)) = session_ident s"
  by (auto simp: send_session_data_message_def send_path_data_def send_path_data_impl_def queue_data_message_def
      update_active_def session_ident_def Let_def split: option.split)

lemma flush_queue_ident: "session_ident (fst (flush_queue S X c now rnd i q s)) = session_ident s"
proof (induction q arbitrary: i s)
  case (Cons d q)
  then show ?case
    using send_data_ident [of S X c now "rnd i" "butlast d" "last d" s] by (simp add: split_beta Let_def)
qed simp

lemma establish_finish_established:
  assumes "s_established s" and "\<not> s_closed s" and "establish_finish S X c now sn rnd s = (s', out, fired)"
  shows "s_inbound_tag s' = s_inbound_tag s" "s_outbound_tag s' = s_outbound_tag s" "s_inbound_key s' = s_inbound_key s"
    "s_outbound_key s' = s_outbound_key s" "s_established s'" "fired = map snd (s_waiting s)" "s_waiting s' = []" "s_queue s' = None"
proof -
  obtain s1 where s1: "session_ident s1 = session_ident s" "s_queue s1 = None" and f: "fire_waiting sn s1 = (s', fired)"
  proof (cases "s_queue s")
    case None
    with assms(3) that [of s] show thesis by (auto simp: establish_finish_def split_beta Let_def)
  next
    case (Some q)
    with assms(3) that [of "(fst (flush_queue S X c now rnd 0 q s))\<lparr>s_queue := None\<rparr>"] flush_queue_ident [of S X c now rnd 0 q s]
    show thesis by (auto simp: establish_finish_def session_ident_def split_beta Let_def)
  qed
  with assms(1,2) show "s_inbound_tag s' = s_inbound_tag s" "s_outbound_tag s' = s_outbound_tag s"
    "s_inbound_key s' = s_inbound_key s" "s_outbound_key s' = s_outbound_key s" "s_established s'"
    "fired = map snd (s_waiting s)" "s_waiting s' = []" "s_queue s' = None"
    by (auto simp: session_ident_def fire_waiting_def session_is_established_def Let_def takeWhile_eq_all_conv [THEN iffD2])
qed

lemma handshake_agrees:
  assumes "sodium_laws S" and "oxenc_laws X" and "handshake_laws S X H"
    and "na_pubkey (s_remote s) = rk_id (router_keys_of S seedR)" and "length p = HOPID_SIZE" and "\<not> s_closed s"
  shows "\<exists>s1 msg t c0 c1 s2 out.
     make_session_init S X H (router_keys_of S seedI) False R p s = (s1, Some (msg, MSG_SESSION_HANDSHAKE)) \<and>
     session_init S X H (router_keys_of S seedR) R' tag msg t0 = Some t \<and>
     bt_open X (s_accept_msg t) = Some c0 \<and> bt_require_str X '''' c0 = Some (string_bytes ''a'', c1) \<and>
     handle_session_accept S X H (router_keys_of S seedI) c now sn rnd c1 s1 = (s2, out, map snd (s_waiting s)) \<and>
     session_paired s2 t \<and> s_established s2 \<and> s_queue s2 = None \<and> s_waiting s2 = [] \<and>
     s_remote t = \<lparr>na_pubkey = rk_id (router_keys_of S seedI), na_client = True\<rparr> \<and> s_remote_pivot t = p"
proof -
  have l: "x25519_laws S" "ed25519_laws S" "bt_reader_law X" "sign_laws S H" "mlkem_laws H" "signed_dict_law X H"
    using assms by (simp_all add: sodium_lawsD oxenc_laws_def handshake_laws_def)
  note K = router_keys_facts [OF l(2)]
  let ?ml = "mlkem_keygen H (ir_mlkem_seed R)" and ?x = "x25519_generate S (ir_x25519_sec R)"
  obtain s1 msg t k1 k2 box where r:
    "make_session_init S X H (router_keys_of S seedI) False R p s = (s1, Some (msg, MSG_SESSION_HANDSHAKE))"
    "s1 = s\<lparr>s_mlkem := Some ?ml, s_x25519 := Some ?x\<rparr>"
    "session_init S X H (router_keys_of S seedR) R' tag msg t0 = Some t"
    "t = t0\<lparr>s_remote := \<lparr>na_pubkey = rk_id (router_keys_of S seedI), na_client = True\<rparr>, s_remote_pivot := p,
            s_outbound_tag := s_inbound_tag s, s_inbound_tag := tag, s_inbound_key := Some k2, s_outbound_key := Some k1,
            s_accept_msg := bt_dict X [('''', BStr (string_bytes ''a'')), (''B'', BStr box)], s_old_accept := False\<rparr>"
    "unseal_box S H (rk_secret (router_keys_of S seedI)) box = Some (signed_dict X H (rk_secret (router_keys_of S seedR))
       [(''Y'', BStr (scalarmult_curve25519_base S (ir_x25519_sec R'))),
        (''c'', BStr (fst (mlkem_encapsulate H (fst ?ml) (ir_mlkem_seed R')))), (''t'', BInt (uint tag))])"
    "session_secret S (little32 X) (rk_id (router_keys_of S seedI)) (rk_id (router_keys_of S seedR))
       ?x (scalarmult_curve25519_base S (ir_x25519_sec R')) True
       (snd (mlkem_encapsulate H (fst ?ml) (ir_mlkem_seed R'))) (fst ?ml) (s_inbound_tag s) tag = Some (k1, k2)"
    by (rule handshake_receiver [OF assms(1-5)])
  obtain c0 c1 c2 where o: "bt_open X (bt_dict X [('''', BStr (string_bytes ''a'')), (''B'', BStr box)]) = Some c0"
    "bt_require_str X '''' c0 = Some (string_bytes ''a'', c1)" "bt_require_str X ''B'' c1 = Some (box, c2)" "bt_finish X c2"
    by (rule handshake_outer [OF l(3)])
  have ap: "accept_parse S X H (router_keys_of S seedI) (na_pubkey (s_remote s)) c1 =
      Some (scalarmult_curve25519_base S (ir_x25519_sec R'), fst (mlkem_encapsulate H (fst ?ml) (ir_mlkem_seed R')), tag)"
    using o r(5) accept_parse_inner_signed [OF l(3,4,6)] l(1,5) assms(4)
    by (simp add: accept_parse_def K x25519_laws_def mlkem_laws_def)
  let ?e = "s1\<lparr>s_outbound_tag := tag, s_inbound_key := Some k1, s_outbound_key := Some k2, s_established := True,
      s_mlkem := None, s_x25519 := None\<rparr>"
  obtain s2 out fired where e: "establish_finish S X c now sn rnd ?e = (s2, out, fired)" by (metis prod_cases3)
  have "mlkem_decapsulate H (fst (mlkem_encapsulate H (fst ?ml) (ir_mlkem_seed R'))) (snd ?ml) =
      Some (snd (mlkem_encapsulate H (fst ?ml) (ir_mlkem_seed R')))"
    using l(5) by (simp add: mlkem_laws_def)
  then have acc: "handle_session_accept S X H (router_keys_of S seedI) c now sn rnd c1 s1 = (s2, out, fired)"
    using ap e r(6) assms(4) by (cases ?ml) (simp add: handle_session_accept_def r(2))
  have "\<not> s_closed ?e" using assms(6) r(2) by simp
  note f = establish_finish_established [OF _ this e]
  show ?thesis
    using r(1,3) o(1,2) acc f r(2) by (intro exI conjI) (auto simp: r(4) session_paired_def)
qed


section \<open>A concrete library and concrete sessions\<close>

definition demo_take_signature :: "string \<Rightarrow> bytes \<Rightarrow> bytes \<Rightarrow> (bytes \<times> bytes \<times> bytes) option" where
  "demo_take_signature k whole c =
     (case bt_require_str demo_oxenc k c of
        None \<Rightarrow> None
      | Some (sig, c') \<Rightarrow> Some (take (length whole - length (enc_pair (k, BStr sig)) - length c') whole, sig, c'))"

definition demo_handshake :: handshake_lib where
  "demo_handshake =
     \<lparr>sign_detached = (\<lambda>sk m. replicate 64 (mix (drop 32 sk @ m))),
      sign_verify_detached = (\<lambda>pk m s. s = replicate 64 (mix (pk @ m))),
      box_seal = (\<lambda>r pk m. Some (fit 48 pk @ m)),
      box_seal_open = (\<lambda>c pk sk. if take 48 c = fit 48 pk then Some (drop 48 c) else None),
      mlkem_keygen = (\<lambda>s. (fit 1184 s, fit 2400 s)),
      mlkem_encapsulate = (\<lambda>pk r. (fit 1088 r, take 32 (fit 1088 r))),
      mlkem_decapsulate = (\<lambda>ct sk. Some (take 32 ct)),
      bt_signing_data = (\<lambda>kvs. butlast (enc_dict kvs)),
      bt_take_signature = demo_take_signature,
      bt_str_list = (\<lambda>xs. 108 # concat (map enc_str xs) @ [101]),
      bt_consume_str = read_str,
      aead_failed_buffer = (\<lambda>b. replicate (length b - TAG_SIZE) 0 @ drop (length b - TAG_SIZE) b)\<rparr>"

lemma demo_signed_dict: "signed_dict_law demo_oxenc demo_handshake"
  unfolding signed_dict_law_def
proof (intro allI impI)
  fix kvs :: "(string \<times> bt_value) list" and k sig
  have wf: "dict_wf [(k, BStr sig)]" by simp
  have r: "bt_require_str demo_oxenc k (bt_at demo_oxenc [(k, BStr sig)]) = Some (sig, bt_at demo_oxenc [])"
    using bt_reader(2) [OF demo_reader wf, of k] by (simp add: bt_require_str_def)
  have e: "bt_at demo_oxenc [] = [101]" by (simp add: bt_at_def demo_oxenc_def enc_dict_def)
  have d: "bt_dict demo_oxenc (kvs @ [(k, BStr sig)]) = butlast (enc_dict kvs) @ enc_pair (k, BStr sig) @ [101]"
    by (simp add: demo_oxenc_def enc_dict_def butlast_append)
  show "bt_take_signature demo_handshake k (bt_dict demo_oxenc (kvs @ [(k, BStr sig)])) (bt_at demo_oxenc [(k, BStr sig)]) =
      Some (bt_signing_data demo_handshake kvs, sig, bt_at demo_oxenc [])"
    using r by (simp add: demo_handshake_def demo_take_signature_def e d)
qed

lemma demo_handshake_laws: "handshake_laws demo_sodium demo_oxenc demo_handshake"
proof -
  have "sign_laws demo_sodium demo_handshake"
    by (simp add: sign_laws_def demo_handshake_def demo_sodium_def SIGNATURE_SIZE_def)
  moreover have "seal_laws demo_sodium demo_handshake"
    by (simp add: seal_laws_def demo_handshake_def SEALBYTES_def)
  moreover have "mlkem_laws demo_handshake"
    by (simp add: mlkem_laws_def demo_handshake_def MLKEM_PUBLICKEYBYTES_def MLKEM_CIPHERTEXTBYTES_def)
  ultimately show ?thesis using demo_signed_dict by (simp add: handshake_laws_def)
qed

definition demo_init_rand :: init_rand where
  "demo_init_rand = \<lparr>ir_mlkem_seed = [1], ir_x25519_sec = [2], ir_seal = [3], ir_dh_seed = [4], ir_dh_nonce = demo_nonce\<rparr>"

definition demo_caller :: session where
  "demo_caller = on_established 100 0 None 3
     (session_new_outbound 0 \<lparr>na_pubkey = rk_id (router_keys_of demo_sodium [2]), na_client = True\<rparr> 5)"

lemma demo_caller_facts:
  "na_pubkey (s_remote demo_caller) = rk_id (router_keys_of demo_sodium [2])" "\<not> s_closed demo_caller"
  "s_waiting demo_caller = [(100, 3)]" "\<not> s_established demo_caller"
  by (simp_all add: demo_caller_def on_established_def session_new_outbound_def)

text \<open>The two ends of a session between clients, and of one between a client and a relay.\<close>

definition demo_end :: "session \<Rightarrow> session_tag \<Rightarrow> session_tag \<Rightarrow> symm_key \<Rightarrow> symm_key \<Rightarrow> hop_id \<Rightarrow> session" where
  "demo_end s tin tout kin kout pivot =
     s\<lparr>s_inbound_tag := tin, s_outbound_tag := tout, s_inbound_key := Some kin, s_outbound_key := Some kout,
       s_established := True, s_dead_path := False, s_remote_pivot := pivot\<rparr>"

definition demo_sender :: "hop_id \<Rightarrow> session" where
  "demo_sender pivot = demo_end ((session_new_outbound 0 \<lparr>na_pubkey = demo_rid 8, na_client = True\<rparr> 5)\<lparr>s_path := Some 0\<rparr>) 5 6 [1] [2] pivot"

definition demo_receiver :: "session_source \<Rightarrow> session" where
  "demo_receiver src = demo_end (session_new_inbound 0 (src = SrcHop 0) src) 6 5 [2] [1] (demo_hopid 1)"

definition demo_sender_ctx :: path_context where
  "demo_sender_ctx = path_context_new\<lparr>path_objs := [0 \<mapsto> demo_path demo_hops_p]\<rparr>"

lemma demo_ends:
  "session_paired (demo_sender h) (demo_receiver src)" "s_established (demo_sender h)" "\<not> s_dead_path (demo_sender h)"
  "s_is_outbound (demo_sender h)" "\<not> s_closed (demo_sender h)" "s_remote_pivot (demo_sender h) = h"
  "s_established (demo_receiver src)" "\<not> s_dead_path (demo_receiver src)" "\<not> s_is_outbound (demo_receiver src)"
  "s_is_relay (demo_receiver src) = (src = SrcHop 0)" "\<not> s_closed (demo_receiver src)" "s_inbound_tag (demo_receiver src) = 6"
  "s_inbound_tag (demo_sender h) = 5"
  "live_path demo_sender_ctx (demo_sender h) = Some (demo_path demo_hops_p)" "is_established (demo_path demo_hops_p)"
  by (simp_all add: session_paired_def demo_sender_def demo_receiver_def demo_end_def session_new_outbound_def
      session_new_inbound_def live_path_def demo_sender_ctx_def demo_path_def path_new_def)

definition demo_caller_router :: router_state where
  "demo_caller_router = (demo_relay (demo_rid 9))\<lparr>is_service_node := False, path_ctx := add_path 0 demo_sender_ctx\<rparr>"

lemma demo_caller_router_path:
  "\<not> is_service_node demo_caller_router"
  "get_path (path_ctx demo_caller_router) (rxid (edge (demo_path demo_hops_p))) = Some (demo_path demo_hops_p)"
  by (simp_all add: demo_caller_router_def demo_sender_ctx_def add_path_def get_path_def emplace_def path_context_new_def)

lemma demo_relay_thop:
  "live_thop (path_ctx (demo_net (demo_rid 3))) (demo_receiver (SrcHop 0)) =
     get_transit_hop (path_ctx (demo_net (demo_rid 3))) (demo_hopid 1)"
  by (simp add: live_thop_def demo_receiver_def demo_end_def session_new_inbound_def demo_net_def demo_defs demo_relay_def
      store_hop_def get_transit_hop_def put_transit_hop_def path_context_new_def emplace_def Let_def)

section \<open>Agreement\<close>

text \<open>
  C18: The session handshake agrees.  An initiator's init message, taken in by the remote it was
  sealed for, gives the remote a session whose accept message, taken in by the initiator,
  establishes the initiator's session: each side encrypts with the key the other decrypts with,
  addresses the other by the tag the other listens on, the remote knows the initiator's identity and
  pivot id, and on the initiator's side every waiting callback runs and the queue is emptied.
\<close>

theorem session_handshake_agrees:
  assumes "sodium_laws S" and "oxenc_laws X" and "handshake_laws S X H"
    and "na_pubkey (s_remote s) = rk_id (router_keys_of S seedR)" and "length p = HOPID_SIZE" and "\<not> s_closed s"
  shows "\<exists>s1 msg t c0 c1 s2 out.
     make_session_init S X H (router_keys_of S seedI) False R p s = (s1, Some (msg, MSG_SESSION_HANDSHAKE)) \<and>
     session_init S X H (router_keys_of S seedR) R' tag msg t0 = Some t \<and>
     bt_open X (s_accept_msg t) = Some c0 \<and> bt_require_str X '''' c0 = Some (string_bytes ''a'', c1) \<and>
     handle_session_accept S X H (router_keys_of S seedI) c now sn rnd c1 s1 = (s2, out, map snd (s_waiting s)) \<and>
     session_paired s2 t \<and> s_established s2 \<and> s_queue s2 = None \<and> s_waiting s2 = [] \<and>
     s_remote t = \<lparr>na_pubkey = rk_id (router_keys_of S seedI), na_client = True\<rparr> \<and> s_remote_pivot t = p"
  by (rule handshake_agrees [OF assms])

theorem session_handshake_agrees_witness:
  "\<exists>s1 msg t c0 c1 s2 out.
     make_session_init demo_sodium demo_oxenc demo_handshake (router_keys_of demo_sodium [1]) False demo_init_rand (demo_hopid 1) demo_caller =
       (s1, Some (msg, MSG_SESSION_HANDSHAKE)) \<and>
     session_init demo_sodium demo_oxenc demo_handshake (router_keys_of demo_sodium [2]) demo_init_rand 6 msg
       (session_new_inbound 0 False (SrcPath 0)) = Some t \<and>
     bt_open demo_oxenc (s_accept_msg t) = Some c0 \<and> bt_require_str demo_oxenc '''' c0 = Some (string_bytes ''a'', c1) \<and>
     handle_session_accept demo_sodium demo_oxenc demo_handshake (router_keys_of demo_sodium [1]) path_context_new 0 0
       (\<lambda>_. demo_nonce) c1 s1 = (s2, out, [3]) \<and>
     session_paired s2 t \<and> s_established s2 \<and> s_queue s2 = None \<and> s_waiting s2 = [] \<and> s_remote_pivot t = demo_hopid 1"
  using session_handshake_agrees [OF demo_sodium_laws demo_oxenc_laws demo_handshake_laws, of demo_caller "[2]" "demo_hopid 1" "[1]"
      demo_init_rand demo_init_rand 6 "session_new_inbound 0 False (SrcPath 0)" path_context_new 0 0 "\<lambda>_. demo_nonce"]
  by (simp add: demo_caller_facts HOPID_SIZE_def) blast

section \<open>Forged acceptances\<close>



section \<open>Data messages\<close>

text \<open>The encrypted part of a data message.\<close>

definition sealed_data :: "sodium \<Rightarrow> symm_key \<Rightarrow> symm_nonce \<Rightarrow> bytes \<Rightarrow> byte \<Rightarrow> bytes" where
  "sealed_data S key nonce data type = aead_xchacha20poly1305_encrypt S (data @ [type]) [] nonce key"

lemma make_data_message:
  assumes "\<not> s_dead_path s" and "s_outbound_key s = Some key"
  shows "make_session_message S X n s data (Some type) True =
     Some (sealed_data S key n data type @ big32 X (s_outbound_tag s) @
       (if \<not> s_is_outbound s \<and> s_is_relay s then [] else s_remote_pivot s), n)"
  using assms
  by (simp add: make_session_message_def xchacha20_poly1305_encrypt_inplace_def sealed_data_def Let_def)

text \<open>What the receiving side does with the data of a message of a valid type.\<close>

definition data_handed_on :: "bool \<Rightarrow> bytes \<Rightarrow> byte \<Rightarrow> data_outcome" where
  "data_handed_on embedded data type =
     (if type = TRAFFIC_TUNNELED_QUIC then DataTunnel data
      else if \<not> embedded then DataTun data type
      else if type = TRAFFIC_UDP then DataUdp data else DataDropped)"

lemma recv_sealed_data:
  assumes "aead_laws S" and "s_inbound_key t = Some key" and "traffic_is_valid type" and "\<not> s_closed t"
  shows "snd (recv_session_data_message S embedded v4 True now (sealed_data S key n data type) n t) =
     data_handed_on embedded data type"
proof -
  have "sealed_data S key n data type \<noteq> []" "TAG_SIZE \<le> length (sealed_data S key n data type)"
    "aead_xchacha20poly1305_decrypt S (sealed_data S key n data type) [] n key = Some (data @ [type])"
    using assms(1) by (auto simp: sealed_data_def aead_laws_def TAG_SIZE_def simp flip: length_0_conv)
  with assms(2-) show ?thesis
    by (auto simp: recv_session_data_message_def xchacha20_poly1305_decrypt_inplace_def data_handed_on_def Let_def)
qed

lemma length_sealed_data [simp]: "aead_laws S \<Longrightarrow> length (sealed_data S key n data type) = length data + 1 + TAG_SIZE"
  by (simp add: sealed_data_def aead_laws_def)

text \<open>The overhead bound that the link payload sizes are computed from.\<close>

lemma message_overhead:
  assumes "aead_laws S" and "endian_laws X" and "length (s_remote_pivot s) = HOPID_SIZE"
    and "make_session_message S X n s data ty enc = Some (m, n')"
  shows "length m \<le> length data + DATA_MESSAGE_OVERHEAD"
  using assms
  by (auto simp: make_session_message_def DATA_MESSAGE_OVERHEAD_def endian_laws_def aead_laws_def
      xchacha20_poly1305_encrypt_inplace_def Let_def split: if_splits option.splits)

subsection \<open>Between two clients\<close>

lemma send_data_on_path:
  assumes "s_established s" and "\<not> s_dead_path s" and "s_outbound_key s = Some key" and "s_is_outbound s \<or> \<not> s_is_relay s"
    and "live_path c s = Some p" and "is_established p"
  obtains msg where
    "encrypt_path_message S p (session_body X (sealed_data S key n data type) (s_outbound_tag s) (s_remote_pivot s)) n MSG_DATA False = Some msg"
    "send_session_data_message S X c now n data type s =
       (update_active now s, [SendDatagram (PeerRelay (router_id (edge p))) msg])"
proof -
  obtain msg where "encrypt_path_message S p (session_body X (sealed_data S key n data type) (s_outbound_tag s) (s_remote_pivot s)) n MSG_DATA False = Some msg"
    by (simp add: encrypt_path_message_plain Let_def)
  moreover have "live_path c (update_active now s) = Some p" using assms(5) by (simp add: live_path_def update_active_def)
  ultimately show thesis
    using assms by (intro that)
      (auto simp: send_session_data_message_def make_data_message send_path_data_def send_path_data_impl_def
        send_path_data_message_def session_body_def update_active_def Let_def)
qed

text \<open>
  C19: Data crosses a session between two clients.  Two sessions that share keys and tags, the
  sender's current path and the receiver's aligned path ending at a common relay: the datagram the
  sender puts on its path arrives, by way of the pivot, at the receiver's connection; there it is
  addressed to the receiver's session, which hands on exactly the data and type that were sent.
\<close>

theorem session_data_delivered:
  assumes "sodium_laws S" and "oxenc_laws X"
    and "session_paired s t" and "s_established s" and "\<not> s_dead_path s" and "s_is_outbound s \<or> \<not> s_is_relay s" and "\<not> s_closed t"
    and "live_path c s = Some p" and "is_established p" and "s_remote_pivot s = terminal_hopid q"
    and "path_working net from p" and "path_working net (PeerConn k) q"
    and "terminal_rid q = terminal_rid p" and "terminal_hopid q \<noteq> terminal_hopid p"
    and "\<not> is_service_node r" and "get_path (path_ctx r) (rxid (edge q)) = Some q"
    and "length n = SYMM_NONCE_SIZE" and "traffic_is_valid type"
  shows "\<exists>msg m enc.
     send_session_data_message S X c now n data type s =
       (update_active now s, [SendDatagram (PeerRelay (router_id (edge p))) msg]) \<and>
     session_along S X False (length (hops p) + length (hops q)) net (router_id (edge p)) msg = ToClient k m \<and>
     receive_session S X False r m = SessionData enc (s_inbound_tag t) n \<and>
     snd (recv_session_data_message S embedded v4 True now' enc n t) = data_handed_on embedded data type"
proof -
  from assms(3) obtain key where key: "s_outbound_key s = Some key" "s_inbound_key t = Some key" "s_outbound_tag s = s_inbound_tag t"
    by (auto simp: session_paired_def)
  have al: "aead_laws S" using assms(1) by (simp add: sodium_lawsD)
  obtain msg where m: "encrypt_path_message S p (session_body X (sealed_data S key n data type) (s_inbound_tag t) (terminal_hopid q)) n MSG_DATA False = Some msg"
    "send_session_data_message S X c now n data type s = (update_active now s, [SendDatagram (PeerRelay (router_id (edge p))) msg])"
    using send_data_on_path [OF assms(4,5) key(1) assms(6,8,9)] assms(10) key(3) by metis
  have ty: "\<not> unknown_message_type MSG_DATA False" by (simp add: unknown_message_type_def)
  have "12 < length (sealed_data S key n data type)" using al by (simp add: TAG_SIZE_def)
  from session_end_to_end [OF assms(1,2,11,12,13,14,17) this ty assms(15,16) m(1)] obtain m' where
    "session_along S X False (length (hops p) + length (hops q)) net (router_id (edge p)) msg = ToClient k m'"
    "receive_session S X False r m' = session_deliver MSG_DATA False (sealed_data S key n data type) (s_inbound_tag t) n (FromPath (rxid (edge q)))"
    by blast
  then show ?thesis
    using m(2) recv_sealed_data [OF al key(2) assms(18,7)] by (auto simp: session_deliver_def msg_defs)
qed

theorem session_data_delivered_witness:
  "\<exists>msg m enc.
     send_session_data_message demo_sodium demo_oxenc demo_sender_ctx 0 demo_nonce [10, 20] 0 (demo_sender (demo_hopid 11)) =
       (update_active 0 (demo_sender (demo_hopid 11)), [SendDatagram (PeerRelay (demo_rid 1)) msg]) \<and>
     session_along demo_sodium demo_oxenc False 4 demo_net (demo_rid 1) msg = ToClient 8 m \<and>
     receive_session demo_sodium demo_oxenc False demo_client m = SessionData enc 6 demo_nonce \<and>
     snd (recv_session_data_message demo_sodium False (\<lambda>_. True) True 0 enc demo_nonce (demo_receiver (SrcPath 0))) = DataTun [10, 20] 0"
  using session_data_delivered [OF demo_sodium_laws demo_oxenc_laws demo_ends(1-3) _ _ demo_ends(14,15) _ demo_path_working,
      of "demo_hopid 11" "SrcPath 0" demo_client demo_nonce 0 0 "[10, 20]" False "\<lambda>_. True" 0] demo_client_path
  by (simp add: demo_ends demo_path_facts SYMM_NONCE_SIZE_def traffic_is_valid_def TRAFFIC_UDP_def TRAFFIC_TUNNELED_QUIC_def
      data_handed_on_def del: session_along.simps)

subsection \<open>Between a client and a relay\<close>

lemma thop_encrypt_peel:
  assumes "hop_agrees h g"
  shows "thop_encrypt_path_message S g d n type = path_message (peel_layer S h (d, n)) (rxid h) type"
  using assms by (simp add: thop_encrypt_path_message_def path_message_def peel_layer_def hop_agrees_def Let_def)

lemma send_data_on_thop:
  assumes "s_established t" and "\<not> s_dead_path t" and "s_outbound_key t = Some key" and "\<not> s_is_outbound t" and "s_is_relay t"
    and "live_thop c t = Some g"
  shows "send_session_data_message S X c now n data type t = (update_active now t,
     [SendDatagram (downstream g) (thop_encrypt_path_message S g (sealed_data S key n data type @ big32 X (s_outbound_tag t)) n MSG_DATA)])"
proof -
  have "live_thop c (update_active now t) = Some g" using assms(6) by (simp add: live_thop_def update_active_def)
  with assms show ?thesis
    by (simp add: send_session_data_message_def make_data_message send_path_data_def update_active_def Let_def)
qed

text \<open>
  C20: Data crosses a session between a client and a relay, both ways.  A client's datagram for the
  relay at the end of its path is taken in there, not pivoted, and the relay's session hands on what
  was sent; the relay's answer, put on the transit hop of that path, travels back down and is handed
  on by the client's session.
\<close>

theorem relay_session_both_ways:
  assumes "sodium_laws S" and "oxenc_laws X" and "session_paired s t"
    and "s_established s" and "\<not> s_dead_path s" and "s_is_outbound s" and "\<not> s_closed s"
    and "live_path c s = Some p" and "is_established p" and "s_remote_pivot s = terminal_hopid p"
    and "s_established t" and "\<not> s_dead_path t" and "\<not> s_is_outbound t" and "s_is_relay t" and "\<not> s_closed t"
    and "live_thop (path_ctx (net (terminal_rid p))) t = get_transit_hop (path_ctx (net (terminal_rid p))) (terminal_hopid p)"
    and "path_working net (PeerConn k) p" and "\<not> is_service_node r" and "get_path (path_ctx r) (rxid (edge p)) = Some p"
    and "length n = SYMM_NONCE_SIZE" and "length n' = SYMM_NONCE_SIZE" and "traffic_is_valid type" and "traffic_is_valid type'"
  shows "\<exists>msg enc to reply m enc'.
     send_session_data_message S X c now n data type s =
       (update_active now s, [SendDatagram (PeerRelay (router_id (edge p))) msg]) \<and>
     session_along S X False (length (hops p)) net (router_id (edge p)) msg =
       AtRelay (terminal_rid p) (SessionData enc (s_inbound_tag t) n) \<and>
     snd (recv_session_data_message S embedded v4 True now enc n t) = data_handed_on embedded data type \<and>
     send_session_data_message S X (path_ctx (net (terminal_rid p))) now n' data' type' t =
       (update_active now t, [SendDatagram to reply]) \<and>
     session_continue S X False (length (hops p)) net to reply = ToClient k m \<and>
     receive_session S X False r m = SessionData enc' (s_inbound_tag s) n' \<and>
     snd (recv_session_data_message S embedded v4 True now enc' n' s) = data_handed_on embedded data' type'"
proof -
  have l: "xchacha20_laws S" "endian_laws X" "aead_laws S" using assms(1,2) by (simp_all add: sodium_lawsD oxenc_laws_def)
  from assms(3) obtain k1 k2 where k1: "s_outbound_key s = Some k1" "s_inbound_key t = Some k1" "s_outbound_tag s = s_inbound_tag t"
    and k2: "s_outbound_key t = Some k2" "s_inbound_key s = Some k2" "s_outbound_tag t = s_inbound_tag s"
    by (auto simp: session_paired_def)
  from assms(17) obtain prev rx where P: "terminal_hopid p = rxid (terminus p)"
    "hop_installed net (last_peer (PeerConn k) (butlast (hops p))) (terminus p)" "length (rxid (terminus p)) = HOPID_SIZE"
    by (rule path_working_parts)
  have ty: "\<not> unknown_message_type MSG_DATA False" by (simp add: unknown_message_type_def)
  let ?enc = "sealed_data S k1 n data type" and ?enc' = "sealed_data S k2 n' data' type'"
  obtain msg where m: "encrypt_path_message S p (session_body X ?enc (s_inbound_tag t) (rxid (terminus p))) n MSG_DATA False = Some msg"
    "send_session_data_message S X c now n data type s = (update_active now s, [SendDatagram (PeerRelay (router_id (edge p))) msg])"
    using send_data_on_path [OF assms(4,5) k1(1) _ assms(8,9)] assms(6,10) k1(3) P(1) by metis
  have D: "HOPID_SIZE < length (session_body X ?enc (s_inbound_tag t) (rxid (terminus p)))"
    using l(2,3) P(3) by (simp add: session_body_def endian_laws_def)
  have up: "session_along S X False (length (hops p)) net (router_id (edge p)) msg = AtRelay (terminal_rid p) (SessionData ?enc (s_inbound_tag t) n)"
    using session_reaches_terminus [OF l(1) assms(17,20) D m(1), of X False 0] session_consumed [OF l(2) P(3) ty]
    by (simp add: session_deliver_def msg_defs)
  obtain g where g: "get_transit_hop (path_ctx (net (terminal_rid p))) (terminal_hopid p) = Some g" "hop_agrees (terminus p) g"
    "downstream g = last_peer (PeerConn k) (butlast (hops p))"
    using P(1,2) by (auto simp: hop_installed_def terminal_rid_def)
  note reply = send_data_on_thop [OF assms(11,12) k2(1) assms(13,14) assms(16) [unfolded g(1)]]
  obtain m' where down: "session_continue S X False (length (hops p)) net (downstream g)
      (thop_encrypt_path_message S g (?enc' @ big32 X (s_inbound_tag s)) n' MSG_DATA) = ToClient k m'"
    "receive_session S X False r m' = session_deliver MSG_DATA False ?enc' (s_inbound_tag s) n' (FromPath (rxid (edge p)))"
    using session_back_down [OF l(1,2) assms(17,21) _ ty assms(18,19), of ?enc' "s_inbound_tag s"] l(3) g(2,3)
    by (auto simp: thop_encrypt_peel TAG_SIZE_def)
  show ?thesis
    using m(2) up reply [of S X now n' data' type'] down recv_sealed_data [OF l(3) k1(2) assms(22,15)]
      recv_sealed_data [OF l(3) k2(2) assms(23,7)] k2(3)
    by (intro exI conjI) (auto simp: session_deliver_def msg_defs)
qed

theorem relay_session_both_ways_witness:
  "\<exists>msg enc to reply m enc'.
     send_session_data_message demo_sodium demo_oxenc demo_sender_ctx 0 demo_nonce [10, 20] 0 (demo_sender (demo_hopid 1)) =
       (update_active 0 (demo_sender (demo_hopid 1)), [SendDatagram (PeerRelay (demo_rid 1)) msg]) \<and>
     session_along demo_sodium demo_oxenc False 2 demo_net (demo_rid 1) msg = AtRelay (demo_rid 3) (SessionData enc 6 demo_nonce) \<and>
     snd (recv_session_data_message demo_sodium False (\<lambda>_. True) True 0 enc demo_nonce (demo_receiver (SrcHop 0))) = DataTun [10, 20] 0 \<and>
     send_session_data_message demo_sodium demo_oxenc (path_ctx (demo_net (demo_rid 3))) 0 demo_nonce [30] 3 (demo_receiver (SrcHop 0)) =
       (update_active 0 (demo_receiver (SrcHop 0)), [SendDatagram to reply]) \<and>
     session_continue demo_sodium demo_oxenc False 2 demo_net to reply = ToClient 7 m \<and>
     receive_session demo_sodium demo_oxenc False demo_caller_router m = SessionData enc' 5 demo_nonce \<and>
     snd (recv_session_data_message demo_sodium False (\<lambda>_. True) True 0 enc' demo_nonce (demo_sender (demo_hopid 1))) = DataTunnel [30]"
  using relay_session_both_ways [OF demo_sodium_laws demo_oxenc_laws demo_ends(1-5,14,15) _ demo_ends(7,8,9) _ demo_ends(11) _
      demo_path_working(1) demo_caller_router_path, of "demo_hopid 1" "SrcHop 0" demo_nonce demo_nonce 0 3 0 "[10, 20]" False "\<lambda>_. True" "[30]"]
  by (simp add: demo_ends demo_path_facts demo_relay_thop SYMM_NONCE_SIZE_def traffic_is_valid_def TRAFFIC_UDP_def TRAFFIC_TUNNELED_QUIC_def
      data_handed_on_def del: session_along.simps)

end
