(* ===== verification/Session_Runs.thy ===== *)
theory Session_Runs
  imports Session_Table Session_Exchange
begin

text \<open>
  Properties of the session tables along all runs of an endpoint, with a concrete endpoint as witness.
\<close>

section \<open>A concrete endpoint\<close>

definition demo_ep_env :: session_env where
  "demo_ep_env =
     \<lparr>se_sodium = demo_sodium, se_oxenc = demo_oxenc, se_hs = demo_handshake, se_keys = router_keys_of demo_sodium [1],
      se_service_node = False, se_embedded = False, se_has_tun = True, se_is_ipv4 = (\<lambda>_. True), se_build_timeout = 100\<rparr>"

definition demo_peer :: network_address where
  "demo_peer = \<lparr>na_pubkey = demo_rid 8, na_client = True\<rparr>"

definition demo_initiate :: "session_table \<Rightarrow> (sess_ref option \<times> ep_action list \<times> session_table) option" where
  "demo_initiate tbl = initiate_remote_session demo_ep_env 0 0 RcPending (\<lambda>s. (s, [])) demo_peer None None tbl"

text \<open>The table with one session to the peer, listening on tag 5, and the same with that session closed.\<close>

definition demo_tbl1 :: session_table where
  "demo_tbl1 = (put_session 0 (session_new_outbound 0 demo_peer 5) (session_table_new 5))
     \<lparr>st_next_ref := 1, st_sessions := [(demo_peer, 0)], st_tags := [(5, 0)]\<rparr>"

definition demo_tbl2 :: session_table where
  "demo_tbl2 = (put_session 0 ((session_new_outbound 0 demo_peer 5)\<lparr>s_closed := True\<rparr>) demo_tbl1)\<lparr>st_deferred := [0]\<rparr>"

lemma demo_next_tag: "next_tag (session_table_new 5) = Some 5" "next_tag demo_tbl2 = Some 6"
  by (simp_all add: next_tag_def session_table_new_def demo_tbl2_def demo_tbl1_def put_session_def next_tag_loop.simps)

lemma demo_initiate1: "demo_initiate (session_table_new 5) = Some (Some 0, [], demo_tbl1)"
  by (simp add: demo_initiate_def initiate_remote_session_def demo_next_tag [unfolded session_table_new_def] get_session_remote_def session_table_new_def
      outbound_session_new_def demo_peer_def session_new_outbound_def demo_tbl1_def put_session_def emplace_def Let_def
      del: fun_upd_apply)


lemma demo_step1: "table_step demo_ep_env (session_table_new 5) demo_tbl1"
  by (rule step_initiate [of "\<lambda>s. (s, [])", OF _ demo_initiate1 [unfolded demo_initiate_def]]) simp

lemma demo_tbl1_wf: "table_wf demo_tbl1"
  by (rule tbl_run.step_inv [OF table_wf_new demo_step1])

section \<open>The tables are consistent\<close>



section \<open>Every free tag is found\<close>

text \<open>
  Drawing a tag ends and gives a usable tag.  As long as fewer than 2^32 - 1 tags are in use, the
  search for the next tag returns one that is not zero and leads to no session.
\<close>

theorem next_tag_terminates:
  assumes "length (st_tags tbl) < 2 ^ 32 - 1"
  shows "\<exists>t. next_tag tbl = Some t \<and> t \<noteq> 0 \<and> get_session t tbl = None"
proof -
  obtain t where "next_tag tbl = Some t"
    using free_tag_exists [of "map fst (st_tags tbl)" "st_last_tag tbl"] next_tag_loop_returns assms
    by (force simp: next_tag_def)
  with next_tag_free [OF this] show ?thesis by (auto simp: get_session_def)
qed

theorem next_tag_terminates_witness:
  "\<exists>t. next_tag demo_tbl1 = Some t \<and> t \<noteq> 0 \<and> get_session t demo_tbl1 = None"
  using next_tag_terminates [of demo_tbl1] by (simp add: demo_tbl1_def)

section \<open>A closed session can keep its tag for good\<close>

text \<open>
  C23: A session closed while its remote is contacted again keeps its tag.  When a closed session is
  still waiting for its removal and a new session to the same remote is initiated first, the
  removal finds the new session under the remote and leaves the tag of the closed one in place; from then on, until
  the endpoint stops, that tag leads to the closed session, whatever else happens.
\<close>

theorem closed_session_keeps_tag:
  assumes "table_wf tbl" and "st_running tbl" and "get_session_remote a tbl = Some (r, s)" and "s_closed s"
    and "st_deferred tbl = r # rest"
    and "initiate_remote_session E now sn ans hook a cb to tbl = Some (Some r2, out, tbl2)"
    and "\<forall>s. sess_key (fst (hook s)) = sess_key s"
    and "(\<lambda>x y. table_step E' x y \<and> st_running y)\<^sup>*\<^sup>* (run_deferred tbl2) tbl3"
  shows "r2 \<noteq> r \<and> map_of (st_sessions (run_deferred tbl2)) a = Some r2 \<and> map_of (st_tags tbl3) (s_inbound_tag s) = Some r"
proof -
  have r: "map_of (st_sessions tbl) a = Some r" "st_objs tbl r = Some s"
    using assms(3) by (auto simp: get_session_remote_def simp del: map_of_eq_Some_iff split: option.splits)
  note tag = table_wfD(3) [OF assms(1) r assms(2)]
  have a: "s_remote s = a" using table_wfD(2) [OF assms(1) r(1)] r(2) by auto
  have wf2: "table_wf tbl2" by (rule table_wf_initiate [OF assms(1,7,6)])
  obtain t2 s2 where t2: "next_tag tbl = Some t2" and tbl2: "r2 = st_next_ref tbl"
    "tbl2 = (put_session r2 s2 (tbl\<lparr>st_last_tag := t2\<rparr>))\<lparr>st_next_ref := Suc r2,
       st_sessions := AList.update a r2 (st_sessions tbl), st_tags := emplace t2 r2 (st_tags tbl)\<rparr>"
    using assms(3,4,6) by (auto simp: initiate_remote_session_def Let_def split_beta split: option.splits if_splits)
  have ne: "r2 \<noteq> r" using assms(1) r(2) tbl2(1) by (auto simp: table_wf_def)
  have only: "map_of (st_sessions tbl) b \<noteq> Some r" if "b \<noteq> a" for b
    using table_wfD(2) [OF assms(1), of b r] that r(2) a by auto
  have d: "run_deferred tbl2 = tbl2\<lparr>st_deferred := rest\<rparr>"
    using assms(5) r(2) ne a by (simp add: run_deferred_def tbl2(2) update_conv')
  have "stranded (s_inbound_tag s) r (run_deferred tbl2)"
    unfolding d stranded_def using tag ne only assms(2) by (auto simp: tbl2(2) update_conv' map_of_emplace simp del: map_of_eq_Some_iff)
  then have "stranded (s_inbound_tag s) r tbl3"
    using stranded_run.run_inv [OF assms(8), of "s_inbound_tag s" r] wf2 d by simp
  with ne d show ?thesis by (simp add: stranded_def tbl2(2) update_conv')
qed

theorem closed_session_keeps_tag_witness:
  "\<exists>tbl3. demo_initiate demo_tbl2 = Some (Some 1, [], tbl3) \<and>
     get_session_remote demo_peer demo_tbl2 = Some (0, (session_new_outbound 0 demo_peer 5)\<lparr>s_closed := True\<rparr>) \<and>
     map_of (st_tags (run_deferred tbl3)) 5 = Some 0 \<and> map_of (st_sessions (run_deferred tbl3)) demo_peer = Some 1"
proof -
  have wf: "table_wf demo_tbl2"
    unfolding demo_tbl2_def put_session_other
    by (rule table_wf_put [where s = "session_new_outbound 0 demo_peer 5"])
      (use demo_tbl1_wf in \<open>simp_all add: demo_tbl1_def sess_key_def\<close>)
  have g: "get_session_remote demo_peer demo_tbl2 = Some (0, (session_new_outbound 0 demo_peer 5)\<lparr>s_closed := True\<rparr>)"
    by (simp add: get_session_remote_def demo_tbl2_def demo_tbl1_def)
  have "na_client demo_peer" "st_next_ref demo_tbl2 = 1" "\<not> s_unreachable (session_new_outbound 0 demo_peer 6)"
    by (simp_all add: demo_peer_def demo_tbl2_def demo_tbl1_def session_new_outbound_def)
  then obtain tbl3 where i: "demo_initiate demo_tbl2 = Some (Some 1, [], tbl3)"
    by (simp add: demo_initiate_def initiate_remote_session_def g demo_next_tag outbound_session_new_def Let_def)
  have "st_running demo_tbl2" "st_deferred demo_tbl2 = [0]"
    by (simp_all add: demo_tbl2_def demo_tbl1_def session_table_new_def)
  from closed_session_keeps_tag [OF wf this(1) g _ this(2) i [unfolded demo_initiate_def] _ rtranclp.rtrancl_refl] g i show ?thesis
    by (simp add: session_new_outbound_def)
qed

end
