(* ===== verification/Client_Contact.thy ===== *)
theory Client_Contact
  imports Session "HOL-Library.Product_Lexorder" "HOL-Library.Option_ord"
begin

text \<open>
  Client contacts: introductions (\<^verbatim>\<open>contact/client_intro.cpp\<close>), SRV records
  (\<^verbatim>\<open>dns/srv_data.cpp\<close>), exit policies with their IP ranges (\<^verbatim>\<open>net/policy.cpp\<close>,
  \<^verbatim>\<open>address/ip_range.cpp\<close>), the contact itself with its encrypted and signed form
  (\<^verbatim>\<open>contact/client_contact.cpp\<close>), the blinded key it is signed with (\<^verbatim>\<open>crypto/keys.cpp\<close>), and
  the string helpers these use (\<^verbatim>\<open>util/str.cpp\<close>).
\<close>

section \<open>Strings (\<^verbatim>\<open>util/str.cpp\<close>)\<close>

text \<open>\<^verbatim>\<open>string_view::find\<close> of a substring.\<close>

fun find_sub :: "bytes \<Rightarrow> bytes \<Rightarrow> nat option" where
  "find_sub delim [] = (if delim = [] then Some 0 else None)"
| "find_sub delim (x # xs) =
     (if take (length delim) (x # xs) = delim then Some 0 else map_option Suc (find_sub delim xs))"

lemma find_sub_bound: "find_sub delim s = Some pos \<Longrightarrow> pos + length delim \<le> length s"
  by (induction s arbitrary: pos) (auto split: if_splits dest: arg_cong [where f = length])

function split_loop :: "bool \<Rightarrow> bytes \<Rightarrow> bytes \<Rightarrow> bytes list \<Rightarrow> bytes list" where
  "split_loop trim delim str results =
     (if delim = [] then results
      else case find_sub delim str of
             Some pos \<Rightarrow>
               split_loop trim delim (drop (pos + length delim) str)
                 (if \<not> trim \<or> results \<noteq> [] \<or> 0 < pos then results @ [take pos str] else results)
           | None \<Rightarrow>
               if \<not> trim \<or> str \<noteq> [] then results @ [str]
               else rev (dropWhile (\<lambda>r. r = []) (rev results)))"
  by pat_completeness auto
termination
  by (relation "measure (\<lambda>(_, _, str, _). length str)") (auto dest: find_sub_bound simp flip: length_greater_0_conv)

declare split_loop.simps [simp del]

definition split_str :: "bytes \<Rightarrow> bytes \<Rightarrow> bool \<Rightarrow> bytes list" where
  "split_str str delim trim = (if delim = [] then map (\<lambda>c. [c]) str else split_loop trim delim str [])"

section \<open>Optional lists and dictionaries\<close>

text \<open>\<^verbatim>\<open>maybe<bt_list_consumer>\<close>, and \<^verbatim>\<open>skip_until\<close> followed by \<^verbatim>\<open>consume_dict_consumer\<close>; a value of another type throws.\<close>

definition bt_maybe_list :: "oxenc \<Rightarrow> string \<Rightarrow> bytes \<Rightarrow> (bt_value list option \<times> bytes) option" where
  "bt_maybe_list X key c =
     (case bt_optional X key c of
        (None, c) \<Rightarrow> Some (None, c)
      | (Some (BList vs), c) \<Rightarrow> Some (Some vs, c)
      | (Some _, c) \<Rightarrow> None)"

definition bt_maybe_dict :: "oxenc \<Rightarrow> string \<Rightarrow> bytes \<Rightarrow> ((string \<times> bt_value) list option \<times> bytes) option" where
  "bt_maybe_dict X key c =
     (case bt_optional X key c of
        (None, c) \<Rightarrow> Some (None, c)
      | (Some (BDict d), c) \<Rightarrow> Some (Some d, c)
      | (Some _, c) \<Rightarrow> None)"

definition bt_require_list :: "oxenc \<Rightarrow> string \<Rightarrow> bytes \<Rightarrow> (bt_value list \<times> bytes) option" where
  "bt_require_list X key c = (case bt_require X key c of Some (BList vs, c) \<Rightarrow> Some (vs, c) | _ \<Rightarrow> None)"

section \<open>Introductions\<close>

definition intro_expires_in :: "client_intro \<Rightarrow> ms \<Rightarrow> ms" where
  "intro_expires_in i now = intro_expiry i * 1000 - now"

definition intro_is_expired :: "client_intro \<Rightarrow> ms \<Rightarrow> bool" where
  "intro_is_expired i now \<longleftrightarrow> intro_expires_in i now \<le> 0"

definition intro_encode :: "client_intro \<Rightarrow> (string \<times> bt_value) list" where
  "intro_encode i = [(''e'', BInt (intro_expiry i)), (''h'', BStr (intro_hop i)), (''r'', BStr (intro_relay i))]"

text \<open>Reading from the dictionary consumer of a list element.\<close>

definition intro_decode :: "oxenc \<Rightarrow> (string \<times> bt_value) list \<Rightarrow> client_intro option" where
  "intro_decode X d =
     do { (e, c) \<leftarrow> bt_require_int X (- (2 ^ 63)) (2 ^ 63 - 1) ''e'' (bt_at X d);
          (h, c) \<leftarrow> bt_require_span X HOPID_SIZE ''h'' c;
          (r, c) \<leftarrow> bt_require_span X PUBKEY_SIZE ''r'' c;
          Some \<lparr>intro_relay = r, intro_hop = h, intro_expiry = e\<rparr> }"

section \<open>SRV records\<close>

record srv_data =
  srv_service :: bytes
  srv_proto :: bytes
  srv_priority :: u16
  srv_weight :: u16
  srv_port :: u16
  srv_target :: bytes

definition TARGET_MAX_SIZE :: nat where "TARGET_MAX_SIZE = 200"

definition srv_piece_chars :: bytes where
  "srv_piece_chars = string_bytes ''abcdefghijklmnopqrstuvwxyz0123456789-''"

definition srv_check_piece :: "bytes \<Rightarrow> bool" where
  "srv_check_piece p \<longleftrightarrow> 2 \<le> length p \<and> hd p = 95 \<and> list_all (\<lambda>c. c \<in> set srv_piece_chars) (tl p)"

definition ends_with :: "bytes \<Rightarrow> bytes \<Rightarrow> bool" where
  "ends_with s suffix \<longleftrightarrow> length suffix \<le> length s \<and> drop (length s - length suffix) s = suffix"

definition srv_is_valid :: "srv_data \<Rightarrow> bool" where
  "srv_is_valid d \<longleftrightarrow>
     srv_check_piece (srv_service d) \<and> srv_check_piece (srv_proto d) \<and> length (srv_target d) \<le> TARGET_MAX_SIZE \<and>
     (ends_with (srv_target d) (string_bytes ''.sesh'') \<or> ends_with (srv_target d) (string_bytes ''.loki'') \<or>
      srv_target d = string_bytes ''.'' \<or> srv_target d = [])"

definition srv_encode :: "srv_data \<Rightarrow> (string \<times> bt_value) list" where
  "srv_encode d =
     [(''p'', BInt (uint (srv_port d))), (''s'', BStr (srv_service d @ string_bytes ''.'' @ srv_proto d)),
      (''t'', BStr (srv_target d)), (''u'', BInt (uint (srv_priority d))), (''w'', BInt (uint (srv_weight d)))]"

definition require_u16 :: "oxenc \<Rightarrow> string \<Rightarrow> bytes \<Rightarrow> (u16 \<times> bytes) option" where
  "require_u16 X key c = map_option (\<lambda>(v, c). (word_of_int v, c)) (bt_require_int X 0 (2 ^ 16 - 1) key c)"

text \<open>
  \<^verbatim>\<open>SRVData::bt_decode\<close> fills the object field by field; an exception (\<open>None\<close>) leaves the rest as it
  was, otherwise the validity is the result.  The constructor from a dictionary swallows the exception
  and ignores the result, so the object is kept; \<open>fresh\<close> is the object with its integers not yet initialised.
\<close>

definition srv_bt_decode :: "oxenc \<Rightarrow> srv_data \<Rightarrow> (string \<times> bt_value) list \<Rightarrow> srv_data \<times> bool option" where
  "srv_bt_decode X fresh d =
     (case require_u16 X ''p'' (bt_at X d) of None \<Rightarrow> (fresh, None) | Some (p, c) \<Rightarrow>
      (let d1 = fresh\<lparr>srv_port := p\<rparr> in
       case bt_require_str X ''s'' c of None \<Rightarrow> (d1, None) | Some (s, c) \<Rightarrow>
      (case split_str s (string_bytes ''.'') False of
         [service, proto] \<Rightarrow>
           (let d2 = d1\<lparr>srv_service := service, srv_proto := proto\<rparr> in
            case bt_require_str X ''t'' c of None \<Rightarrow> (d2, None) | Some (t, c) \<Rightarrow>
           (let d3 = d2\<lparr>srv_target := t\<rparr> in
            case require_u16 X ''u'' c of None \<Rightarrow> (d3, None) | Some (u, c) \<Rightarrow>
           (let d4 = d3\<lparr>srv_priority := u\<rparr> in
            case require_u16 X ''w'' c of None \<Rightarrow> (d4, None) | Some (w, c) \<Rightarrow>
           (let d5 = d4\<lparr>srv_weight := w\<rparr> in (d5, Some (srv_is_valid d5))))))
       | _ \<Rightarrow> (d1, None))))"

definition srv_from_dict :: "oxenc \<Rightarrow> srv_data \<Rightarrow> (string \<times> bt_value) list \<Rightarrow> srv_data" where
  "srv_from_dict X fresh d = fst (srv_bt_decode X fresh d)"

text \<open>
  \<^verbatim>\<open>parse_int\<close> for \<^verbatim>\<open>uint16_t\<close> (\<^verbatim>\<open>std::from_chars\<close> has to consume the whole string), and the record of a
  configuration line, which has exactly five parts.
\<close>

definition parse_u16 :: "bytes \<Rightarrow> u16 option" where
  "parse_u16 s =
     (if s = [] \<or> \<not> list_all (\<lambda>c. 48 \<le> c \<and> c \<le> 57) s then None
      else let v = foldl (\<lambda>a c. 10 * a + (uint c - 48)) 0 s in if v < 2 ^ 16 then Some (word_of_int v) else None)"

definition from_srv_string :: "bytes \<Rightarrow> srv_data option" where
  "from_srv_string buf =
     (case split_str buf (string_bytes '' '') False of
        [svc_proto, priority, weight, port, target] \<Rightarrow>
          (case split_str svc_proto (string_bytes ''.'') False of
             [service, proto] \<Rightarrow>
               do { u \<leftarrow> parse_u16 priority; w \<leftarrow> parse_u16 weight; p \<leftarrow> parse_u16 port;
                    let d = \<lparr>srv_service = service, srv_proto = proto, srv_priority = u, srv_weight = w, srv_port = p,
                             srv_target = target\<rparr>
                    in if srv_is_valid d then Some d else None }
           | _ \<Rightarrow> None)
      | _ \<Rightarrow> None)"

section \<open>Exit policies\<close>

record ip_range4 =
  r4_ip :: u32
  r4_mask :: byte

record ip_range6 =
  r6_hi :: u64
  r6_lo :: u64
  r6_mask :: byte

text \<open>The 64-bit conversions of oxenc.\<close>

record endian64 =
  big64 :: "u64 \<Rightarrow> bytes"
  load_big64 :: "bytes \<Rightarrow> u64"

definition endian64_laws :: "endian64 \<Rightarrow> bool" where
  "endian64_laws L \<longleftrightarrow> (\<forall>w. length (big64 L w) = 8 \<and> load_big64 L (big64 L w) = w)"

definition encode_range4 :: "oxenc \<Rightarrow> ip_range4 \<Rightarrow> bytes" where
  "encode_range4 X r = big32 X (r4_ip r) @ [r4_mask r]"

definition decode_range4 :: "oxenc \<Rightarrow> bytes \<Rightarrow> ip_range4 option" where
  "decode_range4 X enc =
     (if length enc \<noteq> 5 then None
      else if 32 < enc ! 4 then None
      else Some \<lparr>r4_ip = load_big32 X (take 4 enc), r4_mask = enc ! 4\<rparr>)"

definition encode_range6 :: "endian64 \<Rightarrow> ip_range6 \<Rightarrow> bytes" where
  "encode_range6 L r = big64 L (r6_hi r) @ (if r6_lo r \<noteq> 0 then big64 L (r6_lo r) else []) @ [r6_mask r]"

definition decode_range6 :: "endian64 \<Rightarrow> bytes \<Rightarrow> ip_range6 option" where
  "decode_range6 L enc =
     (if length enc \<noteq> 9 \<and> length enc \<noteq> 17 then None
      else if 128 < last enc then None
      else Some \<lparr>r6_hi = load_big64 L (take 8 enc),
                 r6_lo = (if length enc = 17 then load_big64 L (take 8 (drop 8 enc)) else 0), r6_mask = last enc\<rparr>)"

definition decode_ip_range :: "oxenc \<Rightarrow> endian64 \<Rightarrow> bytes \<Rightarrow> (ip_range4 + ip_range6) option" where
  "decode_ip_range X L enc =
     (if length enc = 5 then map_option Inl (decode_range4 X enc)
      else if length enc = 9 \<or> length enc = 17 then map_option Inr (decode_range6 L enc)
      else None)"

text \<open>\<^verbatim>\<open>ProtocolInfo\<close>: protocol number and optional port; a \<^verbatim>\<open>std::set\<close> of them is an ascending list.\<close>

type_synonym protocol_info = "byte \<times> u16 option"

record exit_policy =
  ep_ranges :: "ip_range4 list"
  ep_ranges_v6 :: "ip_range6 list"
  ep_protocols :: "protocol_info list"

definition protocol_encode :: "protocol_info \<Rightarrow> bt_value" where
  "protocol_encode p = BList (BInt (uint (fst p)) # (case snd p of None \<Rightarrow> [] | Some port \<Rightarrow> [BInt (uint port)]))"

fun protocol_decode :: "bt_value \<Rightarrow> protocol_info option" where
  "protocol_decode (BList (BInt p # rest)) =
     (if p < 0 \<or> 255 < p then None
      else case rest of
             [] \<Rightarrow> Some (word_of_int p, None)
           | BInt port # _ \<Rightarrow> if port < 0 \<or> 65535 < port then None else Some (word_of_int p, Some (word_of_int port))
           | _ \<Rightarrow> None)"
| "protocol_decode _ = None"

text \<open>\<^verbatim>\<open>set::emplace\<close>.\<close>

definition set_emplace :: "protocol_info \<Rightarrow> protocol_info list \<Rightarrow> protocol_info list" where
  "set_emplace p ps = (if p \<in> set ps then ps else insort p ps)"

definition policy_encode :: "oxenc \<Rightarrow> endian64 \<Rightarrow> exit_policy \<Rightarrow> (string \<times> bt_value) list" where
  "policy_encode X L p =
     (if ep_protocols p = [] then [] else [(''p'', BList (map protocol_encode (ep_protocols p)))]) @
     (if ep_ranges p = [] \<and> ep_ranges_v6 p = [] then []
      else [(''r'', BList (map (\<lambda>r. BStr (encode_range4 X r)) (ep_ranges p) @ map (\<lambda>r. BStr (encode_range6 L r)) (ep_ranges_v6 p)))])"

fun decode_ranges :: "oxenc \<Rightarrow> endian64 \<Rightarrow> bt_value list \<Rightarrow> exit_policy \<Rightarrow> exit_policy option" where
  "decode_ranges X L [] p = Some p"
| "decode_ranges X L (BStr enc # vs) p =
     (case decode_ip_range X L enc of
        None \<Rightarrow> None
      | Some (Inl r) \<Rightarrow> decode_ranges X L vs (p\<lparr>ep_ranges := ep_ranges p @ [r]\<rparr>)
      | Some (Inr r) \<Rightarrow> decode_ranges X L vs (p\<lparr>ep_ranges_v6 := ep_ranges_v6 p @ [r]\<rparr>))"
| "decode_ranges X L (_ # vs) p = None"

fun decode_protocols :: "bt_value list \<Rightarrow> exit_policy \<Rightarrow> exit_policy option" where
  "decode_protocols [] p = Some p"
| "decode_protocols (v # vs) p =
     (case protocol_decode v of
        None \<Rightarrow> None
      | Some x \<Rightarrow> decode_protocols vs (p\<lparr>ep_protocols := set_emplace x (ep_protocols p)\<rparr>))"

definition policy_decode :: "oxenc \<Rightarrow> endian64 \<Rightarrow> (string \<times> bt_value) list \<Rightarrow> exit_policy option" where
  "policy_decode X L d =
     (let empty = \<lparr>ep_ranges = [], ep_ranges_v6 = [], ep_protocols = []\<rparr>
      in do { (protos, c) \<leftarrow> bt_maybe_list X ''p'' (bt_at X d);
              p \<leftarrow> (case protos of None \<Rightarrow> Some empty | Some vs \<Rightarrow> decode_protocols vs empty);
              (rnges, c) \<leftarrow> bt_maybe_list X ''r'' c;
              (case rnges of None \<Rightarrow> Some p | Some vs \<Rightarrow> decode_ranges X L vs p) })"

text \<open>
  \<^verbatim>\<open>ExitPolicy::allow_ip_traffic\<close> for a packet with the given destination and protocol; \<open>inside4\<close>
  and \<open>inside6\<close> are the library's \<^verbatim>\<open>contains\<close> for the destination.  The port of a protocol entry
  is not looked at.
\<close>

definition matches_packet_proto :: "protocol_info \<Rightarrow> byte \<Rightarrow> bool" where
  "matches_packet_proto p proto \<longleftrightarrow> proto = fst p"

datatype packet_dest = Dest4 | Dest6 | DestOther

definition allow_ip_traffic ::
  "(ip_range4 \<Rightarrow> bool) \<Rightarrow> (ip_range6 \<Rightarrow> bool) \<Rightarrow> exit_policy \<Rightarrow> packet_dest \<Rightarrow> byte \<Rightarrow> bool" where
  "allow_ip_traffic inside4 inside6 p dest proto =
     (let accept_range = (case dest of
                            Dest4 \<Rightarrow> list_ex inside4 (ep_ranges p)
                          | Dest6 \<Rightarrow> list_ex inside6 (ep_ranges_v6 p)
                          | DestOther \<Rightarrow> False)
      in if \<not> accept_range then False
         else if ep_protocols p \<noteq> [] \<and> \<not> list_ex (\<lambda>x. matches_packet_proto x proto) (ep_protocols p) then False
         else True)"

section \<open>The contact\<close>

text \<open>\<^verbatim>\<open>protocol_flag\<close> is a byte of flags.\<close>

definition PROTO_IPV4 :: byte where "PROTO_IPV4 = 4"
definition PROTO_IPV6 :: byte where "PROTO_IPV6 = 8"
definition PROTO_PFS_PQ :: byte where "PROTO_PFS_PQ = 16"
definition PROTO_TCP_TUNNEL :: byte where "PROTO_TCP_TUNNEL = 32"

definition has_flag :: "byte \<Rightarrow> byte \<Rightarrow> bool" where
  "has_flag flags contains \<longleftrightarrow> flags AND contains = contains"

record client_contact =
  cc_pubkey :: bytes
  cc_intros :: "client_intro list"
  cc_srv :: "srv_data list"
  cc_protos :: byte
  cc_signed_at :: ms
  cc_exit_policy :: "exit_policy option"

definition CC_VERSION :: int where "CC_VERSION = 0"

definition cc_encode :: "oxenc \<Rightarrow> endian64 \<Rightarrow> client_contact \<Rightarrow> bytes" where
  "cc_encode X L cc = bt_dict X
     ([('''', BInt CC_VERSION), (''a'', BStr (cc_pubkey cc))] @
      (case cc_exit_policy cc of None \<Rightarrow> [] | Some p \<Rightarrow> [(''e'', BDict (policy_encode X L p))]) @
      [(''i'', BList (map (BDict \<circ> intro_encode) (cc_intros cc))), (''p'', BInt (uint (cc_protos cc)))] @
      (if cc_srv cc = [] then [] else [(''s'', BList (map (BDict \<circ> srv_encode) (cc_srv cc)))]))"

text \<open>A list whose elements must be dictionaries, each handed to a constructor that may throw.\<close>

fun dict_list :: "((string \<times> bt_value) list \<Rightarrow> 'a option) \<Rightarrow> bt_value list \<Rightarrow> 'a list option" where
  "dict_list f [] = Some []"
| "dict_list f (BDict d # vs) =
     (case f d of None \<Rightarrow> None | Some x \<Rightarrow> map_option ((#) x) (dict_list f vs))"
| "dict_list f (_ # vs) = None"

definition cc_decode_rest ::
  "oxenc \<Rightarrow> srv_data \<Rightarrow> bytes \<Rightarrow> client_contact \<Rightarrow> client_contact option" where
  "cc_decode_rest X fresh c cc =
     do { (vs, c) \<leftarrow> bt_require_list X ''i'' c;
          is \<leftarrow> dict_list (intro_decode X) vs;
          (p, c) \<leftarrow> (if sorted_wrt (\<lambda>i j. intro_expiry j \<le> intro_expiry i) is then bt_require_int X 0 255 ''p'' c else None);
          (srvs, c) \<leftarrow> bt_maybe_list X ''s'' c;
          srv \<leftarrow> (case srvs of None \<Rightarrow> Some [] | Some vs \<Rightarrow> dict_list (\<lambda>d. Some (srv_from_dict X fresh d)) vs);
          if bt_finish X c then Some (cc\<lparr>cc_intros := is, cc_protos := word_of_int p, cc_srv := srv\<rparr>) else None }"

definition cc_decode :: "oxenc \<Rightarrow> endian64 \<Rightarrow> srv_data \<Rightarrow> bytes \<Rightarrow> ms \<Rightarrow> client_contact option" where
  "cc_decode X L fresh buf signed_at =
     do { c \<leftarrow> bt_open X buf;
          (version, c) \<leftarrow> bt_require_int X 0 255 '''' c;
          (pk, c) \<leftarrow> (if version = CC_VERSION then bt_require_span X PUBKEY_SIZE ''a'' c else None);
          (e, c) \<leftarrow> bt_maybe_dict X ''e'' c;
          policy \<leftarrow> (case e of None \<Rightarrow> Some None | Some d \<Rightarrow> map_option Some (policy_decode X L d));
          cc_decode_rest X fresh c
            \<lparr>cc_pubkey = pk, cc_intros = [], cc_srv = [], cc_protos = 0, cc_signed_at = signed_at, cc_exit_policy = policy\<rparr> }"

text \<open>\<^verbatim>\<open>update_intros\<close> throws without introductions and sorts them, latest expiry first.\<close>

definition cc_update_intros :: "client_intro list \<Rightarrow> client_contact \<Rightarrow> client_contact option" where
  "cc_update_intros iset cc =
     (if iset = [] then None else Some (cc\<lparr>cc_intros := sort_key (\<lambda>i. - intro_expiry i) iset\<rparr>))"

definition cc_expiry :: "client_contact \<Rightarrow> int" where
  "cc_expiry cc = (if cc_intros cc = [] then 0 else intro_expiry (hd (cc_intros cc)))"

definition cc_is_expired :: "client_contact \<Rightarrow> ms \<Rightarrow> bool" where
  "cc_is_expired cc now \<longleftrightarrow> cc_intros cc = [] \<or> intro_is_expired (hd (cc_intros cc)) now"

section \<open>Blinded keys (\<^verbatim>\<open>crypto/keys.cpp\<close>)\<close>

text \<open>Scalar and curve operations of libsodium; \<open>base_noclamp\<close> gives a success flag and the point.\<close>

record curve_lib =
  sha512 :: "bytes \<Rightarrow> bytes"
  scalar_mul :: "bytes \<Rightarrow> bytes \<Rightarrow> bytes"
  scalar_add :: "bytes \<Rightarrow> bytes \<Rightarrow> bytes"
  base_noclamp :: "bytes \<Rightarrow> bool \<times> bytes"

definition CLIENT_CONTACT_DOMAIN :: bytes where
  "CLIENT_CONTACT_DOMAIN = string_bytes ''SessionRouterClientContact''"

record blinded_key =
  bk_pubkey :: bytes
  bk_scalar :: bytes
  bk_hash_data :: bytes

text \<open>\<^verbatim>\<open>Ed25519BlindedKey(root, blind_domain)\<close>; \<open>None\<close> when the blinding fails.\<close>

definition blinded_key_of :: "sodium \<Rightarrow> curve_lib \<Rightarrow> bytes \<Rightarrow> bytes \<Rightarrow> blinded_key option" where
  "blinded_key_of S B root blind_domain =
     (let a = sign_ed25519_sk_to_curve25519 S root;
          bfactor = blinding_scalar S (ed25519_to_pubkey root) blind_domain;
          scalar = scalar_mul B a bfactor;
          (good, pubkey) = base_noclamp B scalar
      in if \<not> good then None
         else Some \<lparr>bk_pubkey = pubkey, bk_scalar = scalar,
                    bk_hash_data = generichash_blake2b S 32 blind_domain [] (take 32 root)\<rparr>)"

text \<open>\<^verbatim>\<open>Ed25519BlindedKey::sign\<close>.\<close>

definition blinded_nonce :: "sodium \<Rightarrow> curve_lib \<Rightarrow> blinded_key \<Rightarrow> bytes \<Rightarrow> bytes" where
  "blinded_nonce S B k buf = core_ed25519_scalar_reduce S (sha512 B (bk_hash_data k @ buf))"

definition blinded_sign :: "sodium \<Rightarrow> curve_lib \<Rightarrow> blinded_key \<Rightarrow> bytes \<Rightarrow> bytes" where
  "blinded_sign S B k buf =
     (let nonce = blinded_nonce S B k buf;
          R = snd (base_noclamp B nonce);
          hram = core_ed25519_scalar_reduce S (sha512 B (R @ bk_pubkey k @ buf));
          sig_S = scalar_add B (scalar_mul B hram (bk_scalar k)) nonce
      in R @ sig_S)"

text \<open>
  Documented behaviour: a public key from a seed is the base point times the private scalar, so
  multiplying it by a factor is multiplying the scalars; Ed25519 verification accepts
  \<open>R || r + H(R || A || M) a\<close> for \<open>A = aG\<close> and \<open>R = rG\<close> with scalars that are not zero; results have
  32 bytes.
\<close>

definition curve_laws :: "sodium \<Rightarrow> handshake_lib \<Rightarrow> curve_lib \<Rightarrow> bool" where
  "curve_laws S H B \<longleftrightarrow>
     (\<forall>seed f. let b = base_noclamp B (scalar_mul B (sign_ed25519_sk_to_curve25519 S (snd (sign_seed_keypair S seed))) f)
        in scalarmult_ed25519_noclamp S f (fst (sign_seed_keypair S seed)) = (if fst b then Some (snd b) else None)) \<and>
     (\<forall>a. length (snd (base_noclamp B a)) = PUBKEY_SIZE) \<and> (\<forall>a b. length (scalar_add B a b) = 32) \<and>
     (\<forall>a r m. fst (base_noclamp B a) \<and> fst (base_noclamp B r) \<longrightarrow>
        (let A = snd (base_noclamp B a); R = snd (base_noclamp B r)
         in sign_verify_detached H A m
              (R @ scalar_add B (scalar_mul B (core_ed25519_scalar_reduce S (sha512 B (R @ A @ m))) a) r)))"

section \<open>Encryption and signature\<close>

text \<open>\<^verbatim>\<open>encrypt_and_sign\<close>: the contact with its signing time, and the message.\<close>

definition cc_encrypt_and_sign ::
  "sodium \<Rightarrow> oxenc \<Rightarrow> endian64 \<Rightarrow> handshake_lib \<Rightarrow> curve_lib \<Rightarrow> blinded_key \<Rightarrow> symm_nonce \<Rightarrow> ms \<Rightarrow> client_contact \<Rightarrow>
     client_contact \<times> bytes" where
  "cc_encrypt_and_sign S X L H B blinded nonce now cc =
     (let encrypted = xchacha20 S (cc_encode X L cc) (cc_pubkey cc) nonce;
          kvs = [(''i'', BStr (bk_pubkey blinded)), (''n'', BStr nonce), (''t'', BInt now), (''x'', BStr encrypted)]
      in (cc\<lparr>cc_signed_at := now\<rparr>,
          bt_dict X (kvs @ [(''~'', BStr (blinded_sign S B blinded (bt_signing_data H kvs)))])))"

text \<open>\<^verbatim>\<open>decrypt\<close>: the signature is checked with the key in the message.\<close>

definition cc_decrypt ::
  "sodium \<Rightarrow> oxenc \<Rightarrow> endian64 \<Rightarrow> handshake_lib \<Rightarrow> srv_data \<Rightarrow> bytes \<Rightarrow> bytes \<Rightarrow> client_contact option" where
  "cc_decrypt S X L H fresh enccc root =
     do { c \<leftarrow> bt_open X enccc;
          (blinded, c) \<leftarrow> bt_require_span X PUBKEY_SIZE ''i'' c;
          (nonce, c) \<leftarrow> bt_require_span X SYMM_NONCE_SIZE ''n'' c;
          (t, c) \<leftarrow> bt_require_int X (- (2 ^ 63)) (2 ^ 63 - 1) ''t'' c;
          (enc, c) \<leftarrow> bt_require_str X ''x'' c;
          c \<leftarrow> check_signature H blinded enccc c;
          cc_decode X L fresh (xchacha20 S enc root nonce) t }"

end
