(* ===== verification/Contact_Store.thy ===== *)
theory Contact_Store
  imports Client_Contact Nodedb
begin

text \<open>
  Where client contacts are kept: the database of encrypted contacts of a relay
  (\<^verbatim>\<open>contact/contactdb.cpp\<close>), the handlers that publish and find contacts and resolve names
  (\<^verbatim>\<open>link/link_manager.cpp\<close>), and the cache of contacts of a client (\<^verbatim>\<open>handlers/session.cpp\<close>).
\<close>

section \<open>The database (\<^verbatim>\<open>contactdb.cpp\<close>)\<close>

text \<open>Blinded public key to encrypted record and signing time.\<close>

type_synonym contact_db = "(bytes \<times> bytes \<times> ms) list"

definition get_encrypted_cc :: "contact_db \<Rightarrow> bytes \<Rightarrow> ms \<Rightarrow> bytes option" where
  "get_encrypted_cc cdb blinded_key now =
     (case map_of cdb blinded_key of
        None \<Rightarrow> None
      | Some (record, signed_at) \<Rightarrow> if signed_at + MAX_LIFETIME_ACCEPTED \<le> now then None else Some record)"

definition num_ccs :: "contact_db \<Rightarrow> nat" where
  "num_ccs cdb = length cdb"

definition purge_ccs :: "bool \<Rightarrow> bool \<Rightarrow> ms \<Rightarrow> contact_db \<Rightarrow> contact_db" where
  "purge_ccs is_stopping is_running now cdb =
     (if is_stopping \<or> \<not> is_running then cdb
      else filter (\<lambda>(_, _, signed_at). \<not> signed_at + MAX_LIFETIME_ACCEPTED < now) cdb)"

text \<open>
  \<^verbatim>\<open>put_cc\<close>: the result is \<open>None\<close> for an exception, otherwise whether the record was stored.  The stub
  inserted for a new key is erased again when the rest of the record is refused.
\<close>

definition put_cc :: "oxenc \<Rightarrow> handshake_lib \<Rightarrow> bytes \<Rightarrow> contact_db \<Rightarrow> bool option \<times> contact_db" where
  "put_cc X H enccc cdb =
     (case do { c \<leftarrow> bt_open X enccc;
                (blinded_pk, c) \<leftarrow> bt_require_span X PUBKEY_SIZE ''i'' c;
                (nonce, c) \<leftarrow> bt_require_span X SYMM_NONCE_SIZE ''n'' c;
                (t, c) \<leftarrow> bt_require_int X (- (2 ^ 63)) (2 ^ 63 - 1) ''t'' c;
                Some (blinded_pk, t, c) } of
        None \<Rightarrow> (None, cdb)
      | Some (blinded_pk, signed_at, c) \<Rightarrow>
          (let stale = (case map_of cdb blinded_pk of None \<Rightarrow> False | Some (_, t) \<Rightarrow> signed_at \<le> t)
           in if stale then (Some False, cdb)
              else case do { (x, c) \<leftarrow> bt_require_str X ''x'' c; check_signature H blinded_pk enccc c } of
                     None \<Rightarrow> (None, cdb)
                   | Some _ \<Rightarrow> (Some True, AList.update blinded_pk (enccc, signed_at) cdb)))"

section \<open>Handlers of a relay (\<^verbatim>\<open>link_manager.cpp\<close>)\<close>

text \<open>
  What a handler does with a request: one response, a command to another relay whose response is
  passed on, commands to several relays, or nothing; \<open>CcUndefined\<close> is an access past the end of a vector.
\<close>

datatype cc_reply =
    CcRespond bytes
  | CcForward router_id string bytes
  | CcForwardAll "router_id list" string bytes
  | CcSilent
  | CcUndefined

definition store_it :: "oxenc \<Rightarrow> handshake_lib \<Rightarrow> bytes \<Rightarrow> contact_db \<Rightarrow> cc_reply \<times> contact_db" where
  "store_it X H enc_cc cdb =
     (case put_cc X H enc_cc cdb of
        (None, cdb') \<Rightarrow> (CcRespond (ERROR_RESPONSE X), cdb')
      | (Some _, cdb') \<Rightarrow> (CcRespond (OK_RESPONSE X), cdb'))"

definition publish_parse :: "oxenc \<Rightarrow> bytes \<Rightarrow> (bytes \<times> int \<times> bytes \<times> ms) option" where
  "publish_parse X body =
     do { c \<leftarrow> bt_open X body;
          (enc_cc, c) \<leftarrow> bt_require_str X ''e'' c;
          (location, c) \<leftarrow> bt_require_int X (- (2 ^ 31)) (2 ^ 31 - 1) ''n'' c;
          d \<leftarrow> bt_open X enc_cc;
          (blinded_pk, d) \<leftarrow> bt_require_span X PUBKEY_SIZE ''i'' d;
          (t, d) \<leftarrow> bt_require_int X (- (2 ^ 63)) (2 ^ 63 - 1) ''t'' d;
          Some (enc_cc, location, blinded_pk, t) }"

definition handle_publish_cc ::
  "oxenc \<Rightarrow> handshake_lib \<Rightarrow> ms \<Rightarrow> router_id \<Rightarrow> bool \<Rightarrow> nodedb \<Rightarrow> bytes \<Rightarrow> bool \<Rightarrow> contact_db \<Rightarrow> cc_reply \<times> contact_db" where
  "handle_publish_cc X H now self service_node db body source_is_relay cdb =
     (case publish_parse X body of
        None \<Rightarrow> (CcRespond (ERROR_RESPONSE X), cdb)
      | Some (enc_cc, location, blinded_pk, signed_at) \<Rightarrow>
          if signed_at < now - MAX_LIFETIME_ACCEPTED then (CcRespond (EXPIRED_RESPONSE X), cdb)
          else if now + 10 * 60 * 1000 < signed_at then (CcRespond (FUTURE_RESPONSE X), cdb)
          else if \<not> service_node then (CcSilent, cdb)
          else let closest_rids = find_many_closest_to db blinded_pk (int CC_PUBLISH_LOCATIONS + 1)
               in if length closest_rids < CC_PUBLISH_LOCATIONS
                  then (CcRespond (serialize_status_response X ''No RCs available!''), cdb)
                  else if \<not> source_is_relay
                  then (if location < 0 \<or> int CC_PUBLISH_LOCATIONS \<le> location
                        then (CcRespond (serialize_status_response X
                                (if location \<noteq> 0 then ''INVALID PUBLISH LOCATION'' else ''MISSING PUBLISH LOCATION'')), cdb)
                        else let rid = closest_rids ! nat location
                             in if rid = self then store_it X H enc_cc cdb else (CcForward rid ''publish_cc'' body, cdb))
                  else if self \<in> set closest_rids then store_it X H enc_cc cdb
                  else (CcRespond (ERROR_RESPONSE X), cdb))"

text \<open>\<^verbatim>\<open>maybe<int>\<close>: absent, or an integer of the type's range; other values throw.\<close>

definition bt_maybe_int :: "oxenc \<Rightarrow> int \<Rightarrow> int \<Rightarrow> string \<Rightarrow> bytes \<Rightarrow> int option option" where
  "bt_maybe_int X lo hi key c =
     (case fst (bt_optional X key c) of
        None \<Rightarrow> Some None
      | Some (BInt v) \<Rightarrow> if lo \<le> v \<and> v \<le> hi then Some (Some v) else None
      | Some _ \<Rightarrow> None)"

definition find_parse :: "oxenc \<Rightarrow> bytes \<Rightarrow> (bytes \<times> int) option" where
  "find_parse X body =
     do { c \<leftarrow> bt_open X body;
          (blinded_pubkey, c) \<leftarrow> bt_require_span X PUBKEY_SIZE ''k'' c;
          n \<leftarrow> bt_maybe_int X (- (2 ^ 31)) (2 ^ 31 - 1) ''n'' c;
          Some (blinded_pubkey, case n of None \<Rightarrow> - 1 | Some i \<Rightarrow> i) }"

definition local_cc :: "oxenc \<Rightarrow> ms \<Rightarrow> bytes \<Rightarrow> contact_db \<Rightarrow> bytes option" where
  "local_cc X now blinded_pubkey cdb =
     map_option (\<lambda>cc. bt_dict X [(''!'', BStr (string_bytes ''OK'')), (''x'', BStr cc)]) (get_encrypted_cc cdb blinded_pubkey now)"

definition local_cc_or_fail :: "oxenc \<Rightarrow> ms \<Rightarrow> bytes \<Rightarrow> contact_db \<Rightarrow> cc_reply" where
  "local_cc_or_fail X now blinded_pubkey cdb =
     CcRespond (case local_cc X now blinded_pubkey cdb of Some r \<Rightarrow> r | None \<Rightarrow> NOT_FOUND_RESPONSE X)"

definition handle_find_cc ::
  "oxenc \<Rightarrow> ms \<Rightarrow> router_id \<Rightarrow> nodedb \<Rightarrow> bytes \<Rightarrow> bool \<Rightarrow> contact_db \<Rightarrow> cc_reply" where
  "handle_find_cc X now self db body source_is_relay cdb =
     (case find_parse X body of
        None \<Rightarrow> CcRespond (ERROR_RESPONSE X)
      | Some (blinded_pubkey, lookup_index) \<Rightarrow>
          if source_is_relay then local_cc_or_fail X now blinded_pubkey cdb
          else let closest_rids = find_many_closest_to db blinded_pubkey (int CC_PUBLISH_LOCATIONS);
                   relay_find_cc = bt_dict X [(''k'', BStr blinded_pubkey)]
               in if length closest_rids < CC_PUBLISH_LOCATIONS then CcRespond (ERROR_RESPONSE X)
                  else if 0 \<le> lookup_index
                  then (if length closest_rids \<le> nat lookup_index then CcUndefined
                        else let lookup_rid = closest_rids ! nat lookup_index
                             in if lookup_rid = self then local_cc_or_fail X now blinded_pubkey cdb
                                else CcForward lookup_rid ''find_cc'' relay_find_cc)
                  else (case (self \<in> set closest_rids, local_cc X now blinded_pubkey cdb) of
                          (True, Some r) \<Rightarrow> CcRespond r
                        | _ \<Rightarrow> CcForwardAll (filter (\<lambda>rid. rid \<noteq> self) closest_rids) ''find_cc'' relay_find_cc))"

text \<open>The response of the single forwarded \<^verbatim>\<open>find_cc\<close>, and of a forwarded \<^verbatim>\<open>publish_cc\<close>.\<close>

definition find_forwarded :: "oxenc \<Rightarrow> response \<Rightarrow> bytes" where
  "find_forwarded X resp = (case resp of RespTimeout \<Rightarrow> TIMEOUT_RESPONSE X | r \<Rightarrow> response_body r)"

definition publish_forwarded :: "response \<Rightarrow> bytes" where
  "publish_forwarded resp = response_body resp"

text \<open>
  The shared hook of the requests without index: the counter of outstanding responses and what is
  answered to the client.
\<close>

definition find_hook :: "oxenc \<Rightarrow> response \<Rightarrow> nat \<Rightarrow> nat \<times> bytes list" where
  "find_hook X msg remaining =
     (if remaining = 0 then (0, [])
      else case msg of
             RespOk b \<Rightarrow> (0, [b])
           | _ \<Rightarrow>
               (let remaining = remaining - 1
                in if remaining = 0 then (0, [])
                   else (remaining, [find_forwarded X msg])))"

fun find_hooks :: "oxenc \<Rightarrow> response list \<Rightarrow> nat \<Rightarrow> bytes list" where
  "find_hooks X [] remaining = []"
| "find_hooks X (msg # msgs) remaining =
     (let (remaining', out) = find_hook X msg remaining in out @ find_hooks X msgs remaining')"

text \<open>
  \<^verbatim>\<open>handle_path_resolve_sns\<close>; \<open>lookup\<close> is the oxen daemon's answer, and a router that is not a service
  node throws (\<open>None\<close>).
\<close>

definition handle_path_resolve_sns ::
  "oxenc \<Rightarrow> bool \<Rightarrow> (bytes \<Rightarrow> (bytes \<times> symm_nonce) option) \<Rightarrow> bytes \<Rightarrow> bytes option" where
  "handle_path_resolve_sns X has_oxend lookup body =
     (if \<not> has_oxend then None
      else Some (case do { c \<leftarrow> bt_open X body; (name_hash, c) \<leftarrow> bt_require_str X ''s'' c; Some name_hash } of
                   None \<Rightarrow> ERROR_RESPONSE X
                 | Some name_hash \<Rightarrow>
                     (case lookup name_hash of
                        Some (ciphertext, nonce) \<Rightarrow> bt_dict X [(''c'', BStr ciphertext), (''n'', BStr nonce)]
                      | None \<Rightarrow> NOT_FOUND_RESPONSE X)))"

section \<open>The cache of a client (\<^verbatim>\<open>handlers/session.cpp\<close>)\<close>

type_synonym cc_cache = "(router_id \<times> client_contact option \<times> ms) list"

definition NO_CC_CACHE_TIME :: ms where "NO_CC_CACHE_TIME = 15 * 1000"

text \<open>The new cache and the entry that the reference returned by the code denotes.\<close>

definition update_cc :: "ms \<Rightarrow> router_id \<Rightarrow> client_contact option \<Rightarrow> cc_cache \<Rightarrow> client_contact option \<times> cc_cache" where
  "update_cc now remote cc cache =
     (let new_exp = (case cc of Some cc \<Rightarrow> cc_expiry cc * 1000 | None \<Rightarrow> now + NO_CC_CACHE_TIME)
      in case map_of cache remote of
           None \<Rightarrow> (cc, AList.update remote (cc, new_exp) cache)
         | Some (entry, exp) \<Rightarrow>
             if entry = None \<or> exp < now \<or>
                (case (cc, entry) of (Some cc, Some old) \<Rightarrow> cc_signed_at old < cc_signed_at cc | _ \<Rightarrow> False)
             then (cc, AList.update remote (cc, new_exp) cache)
             else (entry, cache))"

text \<open>
  What a response to \<^verbatim>\<open>find_cc\<close> gives: a response that is not good, a status other than OK, a missing
  record or one that does not decrypt give nothing.
\<close>

definition bt_maybe_str :: "oxenc \<Rightarrow> string \<Rightarrow> bytes \<Rightarrow> (bytes option \<times> bytes) option" where
  "bt_maybe_str X key c =
     (case bt_optional X key c of
        (None, c) \<Rightarrow> Some (None, c)
      | (Some (BStr s), c) \<Rightarrow> Some (Some s, c)
      | (Some _, c) \<Rightarrow> None)"

definition cc_of_response ::
  "sodium \<Rightarrow> oxenc \<Rightarrow> endian64 \<Rightarrow> handshake_lib \<Rightarrow> srv_data \<Rightarrow> router_id \<Rightarrow> bool \<Rightarrow> bytes \<Rightarrow> client_contact option" where
  "cc_of_response S X L H fresh remote good body =
     (if \<not> good then None
      else do { c \<leftarrow> bt_open X body;
                (err, c) \<leftarrow> bt_maybe_str X ''!'' c;
                if err \<noteq> None \<and> err \<noteq> Some (string_bytes ''OK'') then None
                else do { (x, c) \<leftarrow> bt_require_str X ''x'' c; cc_decrypt S X L H fresh x remote } })"

section \<open>Names (\<^verbatim>\<open>contact/sns.cpp\<close>)\<close>

definition sns_char_ok :: "byte \<Rightarrow> bool" where
  "sns_char_ok ch \<longleftrightarrow> ch = 45 \<or> ch = 46 \<or> 97 \<le> ch \<and> ch \<le> 122 \<or> 48 \<le> ch \<and> ch \<le> 57"

definition is_valid_sns :: "bytes \<Rightarrow> bool" where
  "is_valid_sns sns_name =
     (if \<not> ends_with sns_name (string_bytes ''.loki'') then False
      else let name = take (length sns_name - 5) sns_name
           in if \<not> list_all sns_char_ok name then False
              else let primaryName = last (split_str name (string_bytes ''.'') False)
                   in if primaryName \<in> set (map string_bytes [''localhost'', ''sesh'', ''snode'', ''loki'']) then False
                      else if find_sub (string_bytes ''-'') primaryName = None then length primaryName \<le> 32
                      else if hd primaryName = 45 \<or> last primaryName = 45 then False
                      else if 63 < length primaryName then False
                      else if 4 \<le> length primaryName \<and> take 2 (drop 2 primaryName) = string_bytes ''--'' \<and>
                              take 2 primaryName \<noteq> string_bytes ''xn'' then False
                      else True)"

end
