(* ===== verification/Contact_Codec.thy ===== *)
theory Contact_Codec
  imports Client_Contact Session_Exchange
begin

text \<open>
  What encoding and decoding of client contacts guarantee: a decoded contact is well formed whatever
  bytes it came from, an encrypted and signed contact decrypts to itself, and the key it is signed
  with is the one anybody can compute from the client's public key.
\<close>

section \<open>Well-formed contacts\<close>

definition intro_wf :: "client_intro \<Rightarrow> bool" where
  "intro_wf i \<longleftrightarrow> length (intro_relay i) = PUBKEY_SIZE \<and> length (intro_hop i) = HOPID_SIZE \<and>
     - (2 ^ 63) \<le> intro_expiry i \<and> intro_expiry i \<le> 2 ^ 63 - 1"

definition policy_wf :: "exit_policy \<Rightarrow> bool" where
  "policy_wf p \<longleftrightarrow> list_all (\<lambda>r. r4_mask r \<le> 32) (ep_ranges p) \<and> list_all (\<lambda>r. r6_mask r \<le> 128) (ep_ranges_v6 p) \<and>
     sorted (ep_protocols p) \<and> distinct (ep_protocols p)"

definition cc_wf :: "client_contact \<Rightarrow> bool" where
  "cc_wf cc \<longleftrightarrow> length (cc_pubkey cc) = PUBKEY_SIZE \<and> list_all intro_wf (cc_intros cc) \<and>
     sorted_wrt (\<lambda>i j. intro_expiry j \<le> intro_expiry i) (cc_intros cc) \<and>
     (case cc_exit_policy cc of None \<Rightarrow> True | Some p \<Rightarrow> policy_wf p)"

lemma bt_require_span_length: "bt_require_span X n k c = Some (v, c') \<Longrightarrow> length v = n"
  by (auto simp: bt_require_span_def split: option.splits if_splits)

lemma bt_require_int_bounds: "bt_require_int X lo hi k c = Some (v, c') \<Longrightarrow> lo \<le> v \<and> v \<le> hi"
  by (auto simp: bt_require_int_def split: option.splits bt_value.splits if_splits)

lemma intro_decode_wf: "intro_decode X d = Some i \<Longrightarrow> intro_wf i"
  by (auto simp: intro_decode_def intro_wf_def Option.bind_eq_Some_conv
      dest: bt_require_span_length bt_require_int_bounds)

lemma dict_list_all: "dict_list f vs = Some xs \<Longrightarrow> (\<And>d x. f d = Some x \<Longrightarrow> P x) \<Longrightarrow> list_all P xs"
  by (induction f vs arbitrary: xs rule: dict_list.induct) (auto split: option.splits)

lemma decode_protocols_wf:
  "decode_protocols vs p = Some q \<Longrightarrow> policy_wf p \<Longrightarrow> policy_wf q"
  by (induction vs p rule: decode_protocols.induct)
    (auto simp: policy_wf_def set_emplace_def sorted_insort distinct_insort split: option.splits)

lemma decode_ip_range_masks:
  "decode_ip_range X L enc = Some (Inl r) \<Longrightarrow> r4_mask r \<le> 32"
  "decode_ip_range X L enc = Some (Inr r') \<Longrightarrow> r6_mask r' \<le> 128"
  by (auto simp: decode_ip_range_def decode_range4_def decode_range6_def not_less split: if_splits)

lemma decode_ranges_wf: "decode_ranges X L vs p = Some q \<Longrightarrow> policy_wf p \<Longrightarrow> policy_wf q"
  by (induction X L vs p rule: decode_ranges.induct)
    (auto simp: policy_wf_def dest: decode_ip_range_masks split: option.splits sum.splits)

lemma policy_decode_wf: "policy_decode X L d = Some p \<Longrightarrow> policy_wf p"
proof -
  have e: "policy_wf \<lparr>ep_ranges = [], ep_ranges_v6 = [], ep_protocols = []\<rparr>" by (simp add: policy_wf_def)
  assume "policy_decode X L d = Some p"
  then show ?thesis
    using e by (auto simp: policy_decode_def Let_def Option.bind_eq_Some_conv
        dest: decode_protocols_wf decode_ranges_wf split: option.splits)
qed

lemma cc_decode_rest_wf:
  "cc_decode_rest X fresh c cc = Some cc' \<Longrightarrow> cc_intros cc = [] \<Longrightarrow> cc_wf cc \<Longrightarrow> cc_wf cc'"
  by (auto simp: cc_decode_rest_def cc_wf_def Option.bind_eq_Some_conv
      intro: dict_list_all [OF _ intro_decode_wf] split: if_splits)

lemma cc_decode_wf: "cc_decode X L fresh buf t = Some cc \<Longrightarrow> cc_wf cc"
proof -
  assume "cc_decode X L fresh buf t = Some cc"
  then obtain pk c0 c1 c2 policy where span: "bt_require_span X PUBKEY_SIZE ''a'' c0 = Some (pk, c1)"
    and policy: "policy = None \<or> (\<exists>d p. policy = Some p \<and> policy_decode X L d = Some p)"
    and rest: "cc_decode_rest X fresh c2 \<lparr>cc_pubkey = pk, cc_intros = [], cc_srv = [], cc_protos = 0,
      cc_signed_at = t, cc_exit_policy = policy\<rparr> = Some cc"
    by (auto simp: cc_decode_def Option.bind_eq_Some_conv split: if_splits option.splits) blast+
  show ?thesis
    using policy bt_require_span_length [OF span]
    by (intro cc_decode_rest_wf [OF rest]) (auto simp: cc_wf_def dest: policy_decode_wf)
qed

lemma cc_decrypt_wf: "cc_decrypt S X L H fresh m root = Some cc \<Longrightarrow> cc_wf cc"
  by (auto simp: cc_decrypt_def Option.bind_eq_Some_conv dest: cc_decode_wf)

lemma cc_wf_latest: "cc_wf cc \<Longrightarrow> i \<in> set (cc_intros cc) \<Longrightarrow> intro_expiry i \<le> cc_expiry cc"
  by (cases "cc_intros cc") (auto simp: cc_wf_def cc_expiry_def)

lemma cc_wf_expired: "cc_wf cc \<Longrightarrow> cc_is_expired cc now \<longleftrightarrow> (\<forall>i \<in> set (cc_intros cc). intro_is_expired i now)"
  by (cases "cc_intros cc") (auto simp: cc_wf_def cc_is_expired_def intro_is_expired_def intro_expires_in_def)

section \<open>Round trips of the parts\<close>

lemma dict_list_roundtrip: "(\<forall>x \<in> set xs. f (g x) = Some x) \<Longrightarrow> dict_list f (map (BDict \<circ> g) xs) = Some xs"
  by (induction xs) auto

lemma dict_list_map_roundtrip: "(\<forall>x \<in> set xs. f (g x) = x) \<Longrightarrow> dict_list (\<lambda>d. Some (f d)) (map (BDict \<circ> g) xs) = Some xs"
  by (induction xs) auto

lemma intro_roundtrip:
  assumes "bt_reader_law X" and "intro_wf i"
  shows "intro_decode X (intro_encode i) = Some i"
  using assms
  by (simp add: intro_decode_def intro_encode_def intro_wf_def bt_require_int_def bt_require_span_def bt_require_str_def
      bt_reader [OF assms(1)] str_less)

lemma find_sub_byte:
  "c \<notin> set xs \<Longrightarrow> find_sub [c] xs = None"
  "c \<notin> set xs \<Longrightarrow> find_sub [c] (xs @ c # ys) = Some (length xs)"
  by (induction xs) auto

lemma split_two:
  assumes "c \<notin> set xs" and "c \<notin> set ys"
  shows "split_str (xs @ c # ys) [c] False = [xs, ys]"
  using assms by (simp add: split_str_def split_loop.simps [of False "[c]"] find_sub_byte)

lemma srv_piece_no_dot: "srv_check_piece p \<Longrightarrow> (46 :: byte) \<notin> set p"
  by (cases p) (auto simp: srv_check_piece_def srv_piece_chars_def string_bytes_def list_all_iff)

lemma require_u16_at:
  assumes "bt_reader_law X" and "dict_wf kvs" and "map_of kvs k = Some (BInt (uint w))"
  shows "require_u16 X k (bt_at X kvs) = Some (w, bt_at X (pairs_after k kvs))"
  using assms uint_bounded [of w] by (simp add: require_u16_def bt_require_int_def bt_reader)

lemma srv_roundtrip:
  assumes "bt_reader_law X" and "srv_is_valid d"
  shows "srv_from_dict X fresh (srv_encode d) = d"
proof -
  have "split_str (srv_service d @ 46 # srv_proto d) [46] False = [srv_service d, srv_proto d]"
    using assms(2) by (intro split_two srv_piece_no_dot) (simp_all add: srv_is_valid_def)
  then show ?thesis
    by (simp add: srv_from_dict_def srv_bt_decode_def srv_encode_def require_u16_at [OF assms(1)] bt_require_str_def
        bt_reader [OF assms(1)] str_less string_bytes_def Let_def)
qed

lemma range4_roundtrip: "endian_laws X \<Longrightarrow> r4_mask r \<le> 32 \<Longrightarrow> decode_ip_range X L (encode_range4 X r) = Some (Inl r)"
  by (simp add: decode_ip_range_def decode_range4_def encode_range4_def endian_laws_def nth_append not_less)

lemma range6_roundtrip: "endian64_laws L \<Longrightarrow> r6_mask r \<le> 128 \<Longrightarrow> decode_ip_range X L (encode_range6 L r) = Some (Inr r)"
  by (auto simp: decode_ip_range_def decode_range6_def encode_range6_def endian64_laws_def not_less
      dest: spec [of _ "r6_lo r"])

lemma decode_ranges_app:
  "decode_ranges X L (vs @ ws) p = Option.bind (decode_ranges X L vs p) (decode_ranges X L ws)"
  by (induction X L vs p rule: decode_ranges.induct) (auto split: option.splits sum.splits)

lemma decode_ranges4:
  assumes "endian_laws X" and "list_all (\<lambda>r. r4_mask r \<le> 32) rs"
  shows "decode_ranges X L (map (\<lambda>r. BStr (encode_range4 X r)) rs) p = Some (p\<lparr>ep_ranges := ep_ranges p @ rs\<rparr>)"
  using assms(2) by (induction rs arbitrary: p) (simp_all add: range4_roundtrip [OF assms(1)])

lemma decode_ranges6:
  assumes "endian64_laws L" and "list_all (\<lambda>r. r6_mask r \<le> 128) rs"
  shows "decode_ranges X L (map (\<lambda>r. BStr (encode_range6 L r)) rs) p = Some (p\<lparr>ep_ranges_v6 := ep_ranges_v6 p @ rs\<rparr>)"
  using assms(2) by (induction rs arbitrary: p) (simp_all add: range6_roundtrip [OF assms(1)])

lemma protocol_roundtrip: "protocol_decode (protocol_encode p) = Some p"
proof -
  obtain a b where p: "p = (a, b)" by (cases p)
  have a: "\<not> 255 < uint a" using uint_bounded [of a] by simp
  have b: "\<not> 65535 < uint w" for w :: u16 using uint_bounded [of w] by simp
  show ?thesis by (cases b) (simp_all add: p protocol_encode_def a b)
qed

lemma decode_protocols_roundtrip:
  "sorted (ep_protocols p @ ps) \<Longrightarrow> distinct (ep_protocols p @ ps) \<Longrightarrow>
   decode_protocols (map protocol_encode ps) p = Some (p\<lparr>ep_protocols := ep_protocols p @ ps\<rparr>)"
proof (induction ps arbitrary: p)
  case (Cons x ps)
  have "set_emplace x (ep_protocols p) = ep_protocols p @ [x]"
    using Cons.prems by (auto simp: set_emplace_def sorted_append intro!: sorted_insort_is_snoc)
  with Cons.IH [of "p\<lparr>ep_protocols := ep_protocols p @ [x]\<rparr>"] Cons.prems show ?case by (simp add: protocol_roundtrip)
qed simp

lemma protocol_encode_wf [simp]: "bt_wf (protocol_encode p)"
  by (simp add: protocol_encode_def split: option.splits)

lemma policy_encode_wf [simp]: "dict_wf (policy_encode X L p)"
  by (simp add: policy_encode_def list_all_iff str_less ball_Un)

lemma policy_roundtrip:
  assumes "bt_reader_law X" and "endian_laws X" and "endian64_laws L" and "policy_wf p"
  shows "policy_decode X L (policy_encode X L p) = Some p"
proof -
  let ?e = "\<lparr>ep_ranges = [], ep_ranges_v6 = [], ep_protocols = []\<rparr>"
  let ?protos = "BList (map protocol_encode (ep_protocols p))"
  let ?rs = "map (\<lambda>r. BStr (encode_range4 X r)) (ep_ranges p) @ map (\<lambda>r. BStr (encode_range6 L r)) (ep_ranges_v6 p)"
  have ps: "decode_protocols (map protocol_encode (ep_protocols p)) ?e = Some (?e\<lparr>ep_protocols := ep_protocols p\<rparr>)"
    using decode_protocols_roundtrip [of ?e "ep_protocols p"] assms(4) by (simp add: policy_wf_def)
  have rs: "decode_ranges X L ?rs q = Some (q\<lparr>ep_ranges := ep_ranges q @ ep_ranges p, ep_ranges_v6 := ep_ranges_v6 q @ ep_ranges_v6 p\<rparr>)" for q
    using assms(4) by (simp add: decode_ranges_app decode_ranges4 [OF assms(2)] decode_ranges6 [OF assms(3)] policy_wf_def)
  have wf: "dict_wf [(''p'', ?protos)]" "dict_wf [(''r'', BList ?rs)]" "dict_wf [(''p'', ?protos), (''r'', BList ?rs)]"
    by (simp_all add: list_all_iff str_less ball_Un)
  note rd = bt_reader [OF assms(1)]
  show ?thesis
    by (cases "ep_protocols p = []"; cases "ep_ranges p = [] \<and> ep_ranges_v6 p = []")
      (simp_all add: policy_decode_def policy_encode_def bt_maybe_list_def rd wf ps rs str_less Let_def
        del: dict_wf_simps(2) map_append)
qed

section \<open>The contact as a whole\<close>

lemma intro_encode_wf [simp]: "bt_wf (BDict (intro_encode i))"
  by (simp add: intro_encode_def str_less)

lemma srv_encode_wf [simp]: "bt_wf (BDict (srv_encode d))"
  by (simp add: srv_encode_def str_less)

lemma policy_encode_bt_wf [simp]: "bt_wf (BDict (policy_encode X L p))"
  using policy_encode_wf [of X L p] unfolding dict_wf_def by (simp add: list_all_iff)

lemma dict_lists_wf [simp]:
  "bt_wf (BList (map (BDict \<circ> intro_encode) is))" "bt_wf (BList (map (BDict \<circ> srv_encode) ss))"
  using intro_encode_wf srv_encode_wf by (simp_all add: list_all_iff)

definition cc_tail :: "client_contact \<Rightarrow> (string \<times> bt_value) list" where
  "cc_tail cc =
     [(''i'', BList (map (BDict \<circ> intro_encode) (cc_intros cc))), (''p'', BInt (uint (cc_protos cc)))] @
     (if cc_srv cc = [] then [] else [(''s'', BList (map (BDict \<circ> srv_encode) (cc_srv cc)))])"

lemma cc_tail_wf [simp]: "dict_wf (cc_tail cc)"
  by (simp add: cc_tail_def str_less del: bt_wf.simps(3))

lemma cc_decode_tail:
  assumes "bt_reader_law X" and "cc_wf cc" and "list_all srv_is_valid (cc_srv cc)"
  shows "cc_decode_rest X fresh (bt_at X (cc_tail cc)) cc0 =
     Some (cc0\<lparr>cc_intros := cc_intros cc, cc_protos := cc_protos cc, cc_srv := cc_srv cc\<rparr>)"
proof -
  let ?i = "(''i'', BList (map (BDict \<circ> intro_encode) (cc_intros cc)))" and ?p = "(''p'', BInt (uint (cc_protos cc)))"
    and ?s = "(''s'', BList (map (BDict \<circ> srv_encode) (cc_srv cc)))"
  have i: "dict_list (intro_decode X) (map (BDict \<circ> intro_encode) (cc_intros cc)) = Some (cc_intros cc)"
    using assms(2) by (intro dict_list_roundtrip ballI intro_roundtrip [OF assms(1)]) (auto simp: cc_wf_def list_all_iff)
  have s: "dict_list (\<lambda>d. Some (srv_from_dict X fresh d)) (map (BDict \<circ> srv_encode) (cc_srv cc)) = Some (cc_srv cc)"
    using assms(3) by (intro dict_list_map_roundtrip ballI srv_roundtrip [OF assms(1)]) (auto simp: list_all_iff)
  have wf: "dict_wf [?i, ?p, ?s]" "dict_wf [?p, ?s]" "dict_wf [?s]" "dict_wf [?i, ?p]" "dict_wf [?p]"
    by (simp_all add: str_less del: bt_wf.simps(3))
  have p: "\<not> 255 < uint (cc_protos cc)" using uint_bounded [of "cc_protos cc"] by simp
  have sorted: "sorted_wrt (\<lambda>i j. intro_expiry j \<le> intro_expiry i) (cc_intros cc)" using assms(2) by (simp add: cc_wf_def)
  note rd = bt_reader [OF assms(1)]
  show ?thesis
    by (cases "cc_srv cc = []")
      (use p sorted in \<open>simp_all add: cc_decode_rest_def cc_tail_def bt_require_list_def bt_maybe_list_def bt_require_int_def
        rd wf i s str_less not_less del: dict_wf_simps(2)\<close>)
qed

lemma cc_encode_tail:
  "cc_encode X L cc = bt_dict X
     ([('''', BInt CC_VERSION), (''a'', BStr (cc_pubkey cc))] @
      (case cc_exit_policy cc of None \<Rightarrow> [] | Some p \<Rightarrow> [(''e'', BDict (policy_encode X L p))]) @ cc_tail cc)"
  by (simp add: cc_encode_def cc_tail_def)

lemma cc_tail_keys: "kv \<in> set (cc_tail cc) \<Longrightarrow> fst kv \<in> {''i'', ''p'', ''s''}"
  by (auto simp: cc_tail_def split: if_splits)

lemma cc_tail_after:
  "k \<in> {'''', ''a'', ''e''} \<Longrightarrow> pairs_after k (cc_tail cc) = cc_tail cc" "k \<in> {'''', ''a'', ''e''} \<Longrightarrow> map_of (cc_tail cc) k = None"
  by (auto simp: cc_tail_def pairs_after_def str_less split: if_splits)

lemma cc_roundtrip:
  assumes "bt_reader_law X" and "endian_laws X" and "endian64_laws L" and "cc_wf cc" and "list_all srv_is_valid (cc_srv cc)"
  shows "cc_decode X L fresh (cc_encode X L cc) t = Some (cc\<lparr>cc_signed_at := t\<rparr>)"
proof -
  let ?e = "case cc_exit_policy cc of None \<Rightarrow> [] | Some p \<Rightarrow> [(''e'', BDict (policy_encode X L p))]"
  let ?v = "('''', BInt CC_VERSION)" and ?a = "(''a'', BStr (cc_pubkey cc))"
  have keys: "\<forall>k \<in> fst ` set (cc_tail cc). k \<in> {''i'', ''p'', ''s''}" using cc_tail_keys by blast
  have wf: "dict_wf (?v # ?a # ?e @ cc_tail cc)" "dict_wf (?a # ?e @ cc_tail cc)" "dict_wf (?e @ cc_tail cc)"
    using keys policy_encode_bt_wf [of X L] by (cases "cc_exit_policy cc"; force simp: str_less simp del: bt_wf.simps(4))+
  have at: "bt_open X (cc_encode X L cc) = Some (bt_at X (?v # ?a # ?e @ cc_tail cc))"
    using bt_reader(1) [OF assms(1) wf(1)] by (simp add: cc_encode_tail)
  have v: "bt_require_int X 0 255 '''' (bt_at X (?v # ?a # ?e @ cc_tail cc)) = Some (CC_VERSION, bt_at X (?a # ?e @ cc_tail cc))"
    using bt_reader(2) [OF assms(1) wf(1), of "''''"] by (simp add: bt_require_int_def CC_VERSION_def str_less)
  have a: "bt_require_span X PUBKEY_SIZE ''a'' (bt_at X (?a # ?e @ cc_tail cc)) = Some (cc_pubkey cc, bt_at X (?e @ cc_tail cc))"
    using bt_reader(2) [OF assms(1) wf(2), of "''a''"] assms(4)
    by (simp add: bt_require_span_def bt_require_str_def cc_wf_def cc_tail_after str_less split: option.splits)
  have e: "bt_maybe_dict X ''e'' (bt_at X (?e @ cc_tail cc)) =
      Some (map_option (policy_encode X L) (cc_exit_policy cc), bt_at X (cc_tail cc))"
    using bt_reader(3) [OF assms(1) wf(3), of "''e''"]
    by (simp add: bt_maybe_dict_def cc_tail_after split: option.splits)
  have p: "policy_decode X L (policy_encode X L p) = Some p" if "cc_exit_policy cc = Some p" for p
    using policy_roundtrip [OF assms(1-3)] assms(4) that by (simp add: cc_wf_def)
  show ?thesis
    by (simp add: cc_decode_def at v a e cc_decode_tail [OF assms(1,4,5)]) (cases "cc_exit_policy cc"; simp add: p)
qed

section \<open>Blinded keys\<close>

lemma blinded_pubkey:
  assumes "ed25519_laws S" and "curve_laws S H B" and "blinded_key_of S B (snd (sign_seed_keypair S seed)) bdom = Some b"
  shows "blind S (fst (sign_seed_keypair S seed)) bdom = Some (bk_pubkey b)"
    and "base_noclamp B (bk_scalar b) = (True, bk_pubkey b)" and "length (bk_pubkey b) = PUBKEY_SIZE"
proof -
  have pk: "ed25519_to_pubkey (snd (sign_seed_keypair S seed)) = fst (sign_seed_keypair S seed)"
    using assms(1) by (simp add: ed25519_laws_def ed25519_to_pubkey_def)
  show base: "base_noclamp B (bk_scalar b) = (True, bk_pubkey b)"
    using assms(3) by (auto simp: blinded_key_of_def Let_def split: prod.splits if_splits)
  show "blind S (fst (sign_seed_keypair S seed)) bdom = Some (bk_pubkey b)"
    using assms(2,3) pk by (auto simp: blinded_key_of_def blind_def curve_laws_def Let_def split: prod.splits if_splits)
  show "length (bk_pubkey b) = PUBKEY_SIZE"
    using assms(2) base unfolding curve_laws_def by (metis snd_conv)
qed

lemma blinded_sign_verifies:
  assumes "curve_laws S H B" and "base_noclamp B (bk_scalar b) = (True, bk_pubkey b)"
    and "fst (base_noclamp B (blinded_nonce S B b m))"
  shows "pubkey_verify H (bk_pubkey b) m (blinded_sign S B b m)" and "length (blinded_sign S B b m) = SIGNATURE_SIZE"
proof -
  from assms(1) have law: "fst (base_noclamp B a) \<Longrightarrow> fst (base_noclamp B r) \<Longrightarrow>
      sign_verify_detached H (snd (base_noclamp B a)) m (snd (base_noclamp B r) @ scalar_add B (scalar_mul B
        (core_ed25519_scalar_reduce S (sha512 B (snd (base_noclamp B r) @ snd (base_noclamp B a) @ m))) a) r)" for a r m
    unfolding curve_laws_def Let_def by blast
  show "pubkey_verify H (bk_pubkey b) m (blinded_sign S B b m)"
    using law [of "bk_scalar b" "blinded_nonce S B b m" m] assms(2,3)
    by (simp add: pubkey_verify_def blinded_sign_def Let_def)
  show "length (blinded_sign S B b m) = SIGNATURE_SIZE"
    using assms(1) by (simp add: blinded_sign_def curve_laws_def SIGNATURE_SIZE_def PUBKEY_SIZE_def Let_def)
qed

text \<open>What the signature of a contact covers.\<close>

definition cc_outer :: "sodium \<Rightarrow> oxenc \<Rightarrow> endian64 \<Rightarrow> bytes \<Rightarrow> symm_nonce \<Rightarrow> ms \<Rightarrow> client_contact \<Rightarrow> (string \<times> bt_value) list" where
  "cc_outer S X L signer nonce now cc =
     [(''i'', BStr signer), (''n'', BStr nonce), (''t'', BInt now),
      (''x'', BStr (xchacha20 S (cc_encode X L cc) (cc_pubkey cc) nonce))]"

text \<open>Any key can sign a contact: decryption checks the signature with the key in the message only.\<close>

lemma cc_decrypt_signed:
  assumes "xchacha20_laws S" and "bt_reader_law X" and "endian_laws X" and "endian64_laws L" and "signed_dict_law X H"
    and "cc_wf cc" and "list_all srv_is_valid (cc_srv cc)" and "length signer = PUBKEY_SIZE"
    and "length nonce = SYMM_NONCE_SIZE" and "- (2 ^ 63) \<le> now" and "now \<le> 2 ^ 63 - 1"
    and "length sig = SIGNATURE_SIZE" and "pubkey_verify H signer (bt_signing_data H (cc_outer S X L signer nonce now cc)) sig"
  shows "cc_decrypt S X L H fresh (bt_dict X (cc_outer S X L signer nonce now cc @ [(''~'', BStr sig)])) (cc_pubkey cc) =
     Some (cc\<lparr>cc_signed_at := now\<rparr>)"
proof -
  let ?kvs = "cc_outer S X L signer nonce now cc" and ?s = "(''~'', BStr sig)"
  have wf: "dict_wf (?kvs @ [?s])" by (simp add: cc_outer_def str_less)
  have sig: "check_signature H signer (bt_dict X (?kvs @ [?s])) (bt_at X [?s]) = Some (bt_at X [])"
    using assms(5,12,13) wf by (simp add: check_signature_def signed_dict_law_def)
  have dec: "xchacha20 S (xchacha20 S d k nonce) k nonce = d" for d k
    using assms(1) by (simp add: xchacha20_def xchacha20_laws_def)
  note rd = bt_reader [OF assms(2)]
  show ?thesis
    using sig assms(8-11)
    by (simp add: cc_decrypt_def cc_outer_def rd bt_require_span_def bt_require_str_def bt_require_int_def str_less dec
        cc_roundtrip [OF assms(2,3,4,6,7)])
qed

end
