(* ===== verification/Contact_Network.thy ===== *)
theory Contact_Network
  imports Contact_Store Contact_Codec
begin

text \<open>
  Client contacts in the network: what a client publishes through one relay another client finds
  through any other and decrypts to the same contact; and two defects of the contact handling.
\<close>

section \<open>Relays that hold contacts\<close>

record cc_relay =
  cr_nodedb :: nodedb
  cr_contacts :: contact_db

type_synonym cc_net = "router_id \<Rightarrow> cc_relay"

text \<open>A request sent down a path that ends at \<open>r\<close>, with the forwarding that the relay asks for.\<close>

definition publish_via :: "oxenc \<Rightarrow> handshake_lib \<Rightarrow> ms \<Rightarrow> router_id \<Rightarrow> bytes \<Rightarrow> cc_net \<Rightarrow> bytes option \<times> cc_net" where
  "publish_via X H now r body net =
     (case handle_publish_cc X H now r True (cr_nodedb (net r)) body False (cr_contacts (net r)) of
        (CcRespond b, cdb) \<Rightarrow> (Some b, net(r := (net r)\<lparr>cr_contacts := cdb\<rparr>))
      | (CcForward rid _ body', cdb) \<Rightarrow>
          (case handle_publish_cc X H now rid True (cr_nodedb (net rid)) body' True (cr_contacts (net rid)) of
             (CcRespond b, cdb') \<Rightarrow> (Some (publish_forwarded (RespOk b)), net(rid := (net rid)\<lparr>cr_contacts := cdb'\<rparr>))
           | _ \<Rightarrow> (None, net))
      | _ \<Rightarrow> (None, net))"

definition find_via :: "oxenc \<Rightarrow> ms \<Rightarrow> router_id \<Rightarrow> bytes \<Rightarrow> cc_net \<Rightarrow> bytes option" where
  "find_via X now r body net =
     (case handle_find_cc X now r (cr_nodedb (net r)) body False (cr_contacts (net r)) of
        CcRespond b \<Rightarrow> Some b
      | CcForward rid _ body' \<Rightarrow>
          (case handle_find_cc X now rid (cr_nodedb (net rid)) body' True (cr_contacts (net rid)) of
             CcRespond b \<Rightarrow> Some (find_forwarded X (RespOk b))
           | _ \<Rightarrow> None)
      | _ \<Rightarrow> None)"

definition same_view :: "router_id list \<Rightarrow> cc_net \<Rightarrow> bool" where
  "same_view rids net \<longleftrightarrow> distinct rids \<and>
     (\<forall>r \<in> set rids. distinct (registered_relays (cr_nodedb (net r))) \<and> set (registered_relays (cr_nodedb (net r))) = set rids)"

section \<open>Requests are read as they were written\<close>

lemma publish_parse_body:
  assumes "bt_reader_law X" and "dict_wf kvs" and "map_of kvs ''i'' = Some (BStr pk)" and "length pk = PUBKEY_SIZE"
    and "map_of (pairs_after ''i'' kvs) ''t'' = Some (BInt t)" and "dict_wf (pairs_after ''i'' kvs)"
    and "- (2 ^ 63) \<le> t" and "t \<le> 2 ^ 63 - 1" and "- (2 ^ 31) \<le> i" and "i \<le> 2 ^ 31 - 1"
  shows "publish_parse X (bt_dict X [(''e'', BStr (bt_dict X kvs)), (''n'', BInt i)]) = Some (bt_dict X kvs, i, pk, t)"
  using assms(2-)
  by (simp add: publish_parse_def bt_require_str_def bt_require_int_def bt_require_span_def bt_reader [OF assms(1)] str_less)

lemma find_parse_body:
  assumes "bt_reader_law X" and "length k = PUBKEY_SIZE"
  shows "- (2 ^ 31) \<le> i \<Longrightarrow> i \<le> 2 ^ 31 - 1 \<Longrightarrow> find_parse X (bt_dict X [(''k'', BStr k), (''n'', BInt i)]) = Some (k, i)"
    and "find_parse X (bt_dict X [(''k'', BStr k)]) = Some (k, - 1)"
  using assms(2)
  by (simp_all add: find_parse_def bt_maybe_int_def bt_require_span_def bt_require_str_def bt_reader [OF assms(1)] str_less)

section \<open>Storage\<close>

lemma put_cc_signed:
  assumes "bt_reader_law X" and "signed_dict_law X H" and "length signer = PUBKEY_SIZE" and "length nonce = SYMM_NONCE_SIZE"
    and "- (2 ^ 63) \<le> now" and "now \<le> 2 ^ 63 - 1" and "length sig = SIGNATURE_SIZE"
    and "pubkey_verify H signer (bt_signing_data H (cc_outer S X L signer nonce now cc)) sig"
    and "\<forall>rec t. map_of cdb signer = Some (rec, t) \<longrightarrow> t < now"
  shows "put_cc X H (bt_dict X (cc_outer S X L signer nonce now cc @ [(''~'', BStr sig)])) cdb =
     (Some True, AList.update signer (bt_dict X (cc_outer S X L signer nonce now cc @ [(''~'', BStr sig)]), now) cdb)"
proof -
  let ?kvs = "cc_outer S X L signer nonce now cc" and ?s = "(''~'', BStr sig)"
  have wf: "dict_wf (?kvs @ [?s])" by (simp add: cc_outer_def str_less)
  have sig: "check_signature H signer (bt_dict X (?kvs @ [?s])) (bt_at X [?s]) = Some (bt_at X [])"
    using assms(2,7,8) wf by (simp add: check_signature_def signed_dict_law_def)
  have stale: "\<not> (case map_of cdb signer of None \<Rightarrow> False | Some (_, t) \<Rightarrow> now \<le> t)"
    using assms(9) by (auto simp del: map_of_eq_Some_iff split: option.splits)
  show ?thesis
    using sig stale assms(3-6)
    by (simp add: put_cc_def cc_outer_def bt_reader [OF assms(1)] bt_require_span_def bt_require_str_def bt_require_int_def
        str_less Let_def)
qed

lemma closest_prefix: "0 < n \<Longrightarrow> n \<le> m \<Longrightarrow> find_many_closest_to db pk n = take (nat n) (find_many_closest_to db pk m)"
  by (simp add: find_many_closest_to_def min_def)

text \<open>In one view of the registered relays every relay sees the same location for an index.\<close>

lemma same_location:
  assumes "same_view rids net" and "r \<in> set rids" and "r' \<in> set rids" and "4 \<le> length rids" and "i < 4"
  shows "find_many_closest_to (cr_nodedb (net r)) pk 4 ! i = find_many_closest_to (cr_nodedb (net r')) pk 5 ! i"
    and "length (find_many_closest_to (cr_nodedb (net r)) pk 4) = 4" and "4 \<le> length (find_many_closest_to (cr_nodedb (net r)) pk 5)"
    and "find_many_closest_to (cr_nodedb (net r)) pk 5 ! i \<in> set rids"
    and "find_many_closest_to (cr_nodedb (net r)) pk 5 ! i \<in> set (find_many_closest_to (cr_nodedb (net r')) pk 5)"
proof -
  let ?db = "cr_nodedb (net r)" and ?db' = "cr_nodedb (net r')"
  have d: "distinct (registered_relays ?db)" "distinct (registered_relays ?db')"
    and s: "set (registered_relays ?db) = set rids" "set (registered_relays ?db') = set rids"
    using assms(1-3) by (auto simp: same_view_def)
  have len: "length (registered_relays ?db) = length rids" using d(1) s(1) assms(1) by (metis distinct_card same_view_def)
  note facts = closest_relays_agree_facts [OF d, unfolded s, OF refl]
  show l4: "length (find_many_closest_to ?db pk 4) = 4" using facts(3) [of pk 4] len assms(4) by simp
  show l5: "4 \<le> length (find_many_closest_to ?db pk 5)" using facts(3) [of pk 5] len assms(4) by simp
  show "find_many_closest_to ?db pk 4 ! i = find_many_closest_to ?db' pk 5 ! i"
    using closest_prefix [of 4 5 ?db pk] facts(1) [of pk 5] assms(5) by simp
  have "set (find_many_closest_to ?db pk 5) \<subseteq> set rids"
    using s(1) by (metis find_many_closest_to_def set_sort_closest set_take_subset empty_subsetI empty_set)
  moreover have "find_many_closest_to ?db pk 5 ! i \<in> set (find_many_closest_to ?db pk 5)"
    using l5 assms(5) by (intro nth_mem) simp
  ultimately show "find_many_closest_to ?db pk 5 ! i \<in> set rids"
    and "find_many_closest_to ?db pk 5 ! i \<in> set (find_many_closest_to ?db' pk 5)"
    using facts(1) [of pk 5] by auto
qed

definition cc_location :: "cc_net \<Rightarrow> router_id \<Rightarrow> bytes \<Rightarrow> nat \<Rightarrow> router_id" where
  "cc_location net r pk i = find_many_closest_to (cr_nodedb (net r)) pk 5 ! i"

definition publish_body :: "oxenc \<Rightarrow> bytes \<Rightarrow> nat \<Rightarrow> bytes" where
  "publish_body X enc i = bt_dict X [(''e'', BStr enc), (''n'', BInt (int i))]"

definition find_body :: "oxenc \<Rightarrow> bytes \<Rightarrow> nat \<Rightarrow> bytes" where
  "find_body X k i = bt_dict X [(''k'', BStr k), (''n'', BInt (int i))]"

lemma publish_stores:
  assumes X: "bt_reader_law X" and "signed_dict_law X H" and "length signer = PUBKEY_SIZE" and "length nonce = SYMM_NONCE_SIZE"
    and "- (2 ^ 63) \<le> now" and "now \<le> 2 ^ 63 - 1" and "length sig = SIGNATURE_SIZE"
    and "pubkey_verify H signer (bt_signing_data H (cc_outer S X L signer nonce now cc)) sig"
    and older: "\<forall>r rec t. map_of (cr_contacts (net r)) signer = Some (rec, t) \<longrightarrow> t < now"
    and view: "same_view rids net" and "a \<in> set rids" and "4 \<le> length rids" and "i < 4"
    and M: "M = bt_dict X (cc_outer S X L signer nonce now cc @ [(''~'', BStr sig)])"
    and loc: "loc = cc_location net a signer i"
  shows "publish_via X H now a (publish_body X M i) net =
     (Some (OK_RESPONSE X), net(loc := (net loc)\<lparr>cr_contacts := AList.update signer (M, now) (cr_contacts (net loc))\<rparr>))"
proof -
  have wf: "dict_wf (cc_outer S X L signer nonce now cc @ [(''~'', BStr sig)])" by (simp add: cc_outer_def str_less)
  have parse: "publish_parse X (publish_body X M i) = Some (M, int i, signer, now)"
    unfolding publish_body_def M
    by (rule publish_parse_body [OF X wf]) (use assms(3,5,6,13) in \<open>simp_all add: cc_outer_def str_less\<close>)
  have store: "store_it X H M (cr_contacts (net r)) = (CcRespond (OK_RESPONSE X), AList.update signer (M, now) (cr_contacts (net r)))" for r
    using put_cc_signed [OF X assms(2-8), of "cr_contacts (net r)"] older by (simp add: store_it_def M)
  note l = same_location [OF view assms(11) assms(11) assms(12,13), of signer]
  have rid: "loc \<in> set rids" using l(4) by (simp add: loc cc_location_def)
  have mine: "loc \<in> set (find_many_closest_to (cr_nodedb (net loc)) signer 5)"
    using same_location(5) [OF view assms(11) rid assms(12,13)] by (simp add: loc cc_location_def)
  have 4: "4 \<le> length (find_many_closest_to (cr_nodedb (net loc)) signer 5)"
    by (rule same_location(3) [OF view rid rid assms(12,13)])
  have at_a: "handle_publish_cc X H now a True (cr_nodedb (net a)) (publish_body X M i) False (cr_contacts (net a)) =
      (if loc = a then store_it X H M (cr_contacts (net a)) else (CcForward loc ''publish_cc'' (publish_body X M i), cr_contacts (net a)))"
    using l(3) assms(13)
    by (simp add: handle_publish_cc_def parse CC_PUBLISH_LOCATIONS_def lifetime_consts loc cc_location_def Let_def)
  have at_loc: "handle_publish_cc X H now loc True (cr_nodedb (net loc)) (publish_body X M i) True (cr_contacts (net loc)) =
      store_it X H M (cr_contacts (net loc))"
    using 4 mine by (simp add: handle_publish_cc_def parse CC_PUBLISH_LOCATIONS_def lifetime_consts Let_def)
  show ?thesis
    by (cases "loc = a") (simp_all add: publish_via_def at_a at_loc store publish_forwarded_def)
qed

lemma find_returns:
  assumes X: "bt_reader_law X" and "length k = PUBKEY_SIZE" and view: "same_view rids net" and "b \<in> set rids"
    and "4 \<le> length rids" and "i < 4" and "get_encrypted_cc (cr_contacts (net (cc_location net b k i))) k now = Some M"
  shows "find_via X now b (find_body X k i) net = Some (bt_dict X [(''!'', BStr (string_bytes ''OK'')), (''x'', BStr M)])"
proof -
  let ?loc = "cc_location net b k i"
  note l = same_location [OF view assms(4) assms(4) assms(5,6), of k]
  have eq: "find_many_closest_to (cr_nodedb (net b)) k 4 ! i = ?loc" using l(1) by (simp add: cc_location_def)
  have parse: "find_parse X (find_body X k i) = Some (k, int i)"
    using find_parse_body(1) [OF X assms(2), of "int i"] assms(6) by (simp add: find_body_def)
  have at_b: "handle_find_cc X now b (cr_nodedb (net b)) (find_body X k i) False (cr_contacts (net b)) =
      (if ?loc = b then local_cc_or_fail X now k (cr_contacts (net b)) else CcForward ?loc ''find_cc'' (bt_dict X [(''k'', BStr k)]))"
    using l(2) assms(6) eq by (simp add: handle_find_cc_def parse CC_PUBLISH_LOCATIONS_def Let_def)
  have at_loc: "handle_find_cc X now ?loc (cr_nodedb (net ?loc)) (bt_dict X [(''k'', BStr k)]) True (cr_contacts (net ?loc)) =
      local_cc_or_fail X now k (cr_contacts (net ?loc))"
    using find_parse_body(2) [OF X assms(2)] by (simp add: handle_find_cc_def)
  show ?thesis
    using assms(7) by (cases "?loc = b")
      (simp_all add: find_via_def at_b at_loc local_cc_or_fail_def local_cc_def find_forwarded_def)
qed

lemma cc_of_found:
  assumes "bt_reader_law X"
  shows "cc_of_response S X L H fresh root True (bt_dict X [(''!'', BStr (string_bytes ''OK'')), (''x'', BStr M)]) =
     cc_decrypt S X L H fresh M root"
  by (simp add: cc_of_response_def bt_maybe_str_def bt_require_str_def bt_reader [OF assms] str_less)

text \<open>The encrypted contact as the pairs the codec lemmas speak about.\<close>

lemma encrypt_and_sign_outer:
  "cc_encrypt_and_sign S X L H B b nonce now cc = (cc\<lparr>cc_signed_at := now\<rparr>,
     bt_dict X (cc_outer S X L (bk_pubkey b) nonce now cc @
       [(''~'', BStr (blinded_sign S B b (bt_signing_data H (cc_outer S X L (bk_pubkey b) nonce now cc))))]))"
  by (simp add: cc_encrypt_and_sign_def cc_outer_def Let_def)

section \<open>A contact and the key that signs it\<close>

definition cc_publishable ::
  "sodium \<Rightarrow> oxenc \<Rightarrow> endian64 \<Rightarrow> handshake_lib \<Rightarrow> curve_lib \<Rightarrow> bytes \<Rightarrow> blinded_key \<Rightarrow> symm_nonce \<Rightarrow> ms \<Rightarrow> client_contact \<Rightarrow> bool" where
  "cc_publishable S X L H B seed b nonce now cc \<longleftrightarrow>
     cc_wf cc \<and> list_all srv_is_valid (cc_srv cc) \<and> cc_pubkey cc = fst (sign_seed_keypair S seed) \<and>
     blinded_key_of S B (snd (sign_seed_keypair S seed)) CLIENT_CONTACT_DOMAIN = Some b \<and>
     length nonce = SYMM_NONCE_SIZE \<and> - (2 ^ 63) \<le> now \<and> now \<le> 2 ^ 63 - 1 \<and>
     fst (base_noclamp B (blinded_nonce S B b (bt_signing_data H (cc_outer S X L (bk_pubkey b) nonce now cc))))"

definition contact_laws :: "sodium \<Rightarrow> oxenc \<Rightarrow> endian64 \<Rightarrow> handshake_lib \<Rightarrow> curve_lib \<Rightarrow> bool" where
  "contact_laws S X L H B \<longleftrightarrow>
     sodium_laws S \<and> oxenc_laws X \<and> endian64_laws L \<and> signed_dict_law X H \<and> curve_laws S H B"

lemma contact_lawsD:
  assumes "contact_laws S X L H B"
  shows "xchacha20_laws S" "ed25519_laws S" "bt_reader_law X" "endian_laws X" "endian64_laws L" "signed_dict_law X H" "curve_laws S H B"
  using assms by (simp_all add: contact_laws_def sodium_laws_def oxenc_laws_def)

lemma publishable_facts:
  assumes "contact_laws S X L H B" and "cc_publishable S X L H B seed b nonce now cc"
  shows "blind S (cc_pubkey cc) CLIENT_CONTACT_DOMAIN = Some (bk_pubkey b)" and "length (bk_pubkey b) = PUBKEY_SIZE"
    and "pubkey_verify H (bk_pubkey b) (bt_signing_data H (cc_outer S X L (bk_pubkey b) nonce now cc))
      (blinded_sign S B b (bt_signing_data H (cc_outer S X L (bk_pubkey b) nonce now cc)))"
    and "length (blinded_sign S B b (bt_signing_data H (cc_outer S X L (bk_pubkey b) nonce now cc))) = SIGNATURE_SIZE"
proof -
  have k: "blinded_key_of S B (snd (sign_seed_keypair S seed)) CLIENT_CONTACT_DOMAIN = Some b"
    "cc_pubkey cc = fst (sign_seed_keypair S seed)"
    and r: "fst (base_noclamp B (blinded_nonce S B b (bt_signing_data H (cc_outer S X L (bk_pubkey b) nonce now cc))))"
    using assms(2) by (simp_all add: cc_publishable_def)
  note bp = blinded_pubkey [OF contact_lawsD(2,7) [OF assms(1)] k(1)]
  show "blind S (cc_pubkey cc) CLIENT_CONTACT_DOMAIN = Some (bk_pubkey b)" "length (bk_pubkey b) = PUBKEY_SIZE"
    using bp(1,3) k(2) by simp_all
  show "pubkey_verify H (bk_pubkey b) (bt_signing_data H (cc_outer S X L (bk_pubkey b) nonce now cc))
      (blinded_sign S B b (bt_signing_data H (cc_outer S X L (bk_pubkey b) nonce now cc)))"
    "length (blinded_sign S B b (bt_signing_data H (cc_outer S X L (bk_pubkey b) nonce now cc))) = SIGNATURE_SIZE"
    by (rule blinded_sign_verifies [OF contact_lawsD(7) [OF assms(1)] bp(2) r])+
qed

lemma publishable_decrypts:
  assumes "contact_laws S X L H B" and "cc_publishable S X L H B seed b nonce now cc"
  shows "cc_decrypt S X L H fresh (snd (cc_encrypt_and_sign S X L H B b nonce now cc)) (cc_pubkey cc) = Some (cc\<lparr>cc_signed_at := now\<rparr>)"
proof -
  have p: "cc_wf cc" "list_all srv_is_valid (cc_srv cc)" "length nonce = SYMM_NONCE_SIZE" "- (2 ^ 63) \<le> now" "now \<le> 2 ^ 63 - 1"
    using assms(2) unfolding cc_publishable_def by blast+
  note f = publishable_facts [OF assms]
  show ?thesis
    unfolding encrypt_and_sign_outer snd_conv
    by (rule cc_decrypt_signed [OF contact_lawsD(1,3-6) [OF assms(1)] p(1,2) f(2) p(3-5) f(4,3)])
qed

section \<open>A concrete curve and contact\<close>

definition demo_scalar :: "bytes \<Rightarrow> bytes \<Rightarrow> bytes" where
  "demo_scalar a b = buf_xor (fit 32 a) (fit 32 b)"

definition demo_curve :: curve_lib where
  "demo_curve =
     \<lparr>sha512 = (\<lambda>m. replicate 64 (mix m)), scalar_mul = demo_scalar, scalar_add = demo_scalar, base_noclamp = (\<lambda>a. (True, fit 32 a))\<rparr>"

definition demo_signatures :: handshake_lib where
  "demo_signatures = demo_handshake\<lparr>sign_verify_detached := (\<lambda>pk m s. s = replicate 64 (mix (pk @ m)) \<or>
     s = take 32 s @ demo_scalar (demo_scalar (replicate 32 (mix (take 32 s @ pk @ m))) pk) (take 32 s))\<rparr>"

definition demo_endian64 :: endian64 where
  "demo_endian64 = \<lparr>big64 = (\<lambda>w. rev (store_little 8 w)), load_big64 = (\<lambda>bs. load_little (rev (take 8 bs)))\<rparr>"

lemma load_little_Cons: "load_little (b # bs) = ucast b OR push_bit 8 (load_little bs)"
  by (simp add: load_little_def)

lemma load_store_aux:
  "m \<le> n \<Longrightarrow> load_little (map (\<lambda>i. ucast (drop_bit (8 * i) w)) [m..<n]) = take_bit (8 * (n - m)) (drop_bit (8 * m) (w :: u64))"
proof (induction "n - m" arbitrary: m)
  case 0
  then show ?case by (simp add: load_little_def)
next
  case (Suc k)
  then have "m < n" by simp
  then have e: "load_little (map (\<lambda>i. ucast (drop_bit (8 * i) w)) [m..<n]) =
      ucast (ucast (drop_bit (8 * m) w) :: byte) OR push_bit 8 (take_bit (8 * (n - Suc m)) (drop_bit (8 * Suc m) w))"
    using Suc.hyps(1) [of "Suc m"] Suc.hyps(2) by (simp add: upt_conv_Cons load_little_Cons)
  show ?case
    unfolding e using \<open>m < n\<close> by (intro bit_word_eqI) (auto simp: bit_simps)
qed

lemma load_store64: "load_little (store_little 8 w) = (w :: u64)"
  using load_store_aux [of 0 8 w] by (simp add: store_little_def take_bit_word_eq_self)

lemma fit_exact: "length xs = n \<Longrightarrow> fit n xs = xs"
  by (simp add: fit_def)

lemma demo_contact_laws: "contact_laws demo_sodium demo_oxenc demo_endian64 demo_signatures demo_curve"
proof -
  have "signed_dict_law demo_oxenc demo_signatures"
    using demo_signed_dict by (simp add: signed_dict_law_def demo_signatures_def)
  moreover have "endian64_laws demo_endian64" by (simp add: endian64_laws_def demo_endian64_def load_store64)
  moreover have "curve_laws demo_sodium demo_signatures demo_curve"
    by (simp add: curve_laws_def demo_sodium_def demo_curve_def demo_signatures_def demo_scalar_def demo_mult_def PUBKEY_SIZE_def
        buf_xor_commute fit_exact Let_def)
  ultimately show ?thesis
    using demo_sodium_laws demo_oxenc_laws by (simp add: contact_laws_def)
qed

definition demo_policy :: exit_policy where
  "demo_policy = \<lparr>ep_ranges = [\<lparr>r4_ip = 0, r4_mask = 0\<rparr>], ep_ranges_v6 = [\<lparr>r6_hi = 5, r6_lo = 7, r6_mask = 64\<rparr>],
     ep_protocols = [(6, None), (17, Some 53)]\<rparr>"

definition demo_srv :: srv_data where
  "demo_srv = \<lparr>srv_service = string_bytes ''_ssh'', srv_proto = string_bytes ''_tcp'', srv_priority = 1, srv_weight = 2,
     srv_port = 22, srv_target = []\<rparr>"

definition demo_cc :: client_contact where
  "demo_cc = \<lparr>cc_pubkey = demo_rid 7,
     cc_intros = [\<lparr>intro_relay = demo_rid 1, intro_hop = demo_hopid 1, intro_expiry = 900\<rparr>,
                  \<lparr>intro_relay = demo_rid 2, intro_hop = demo_hopid 2, intro_expiry = 600\<rparr>],
     cc_srv = [demo_srv], cc_protos = 28, cc_signed_at = 0, cc_exit_policy = Some demo_policy\<rparr>"

definition demo_blinded :: blinded_key where
  "demo_blinded = the (blinded_key_of demo_sodium demo_curve (demo_rid 7 @ demo_rid 7) CLIENT_CONTACT_DOMAIN)"

lemma demo_cc_wf: "cc_wf demo_cc" "list_all srv_is_valid (cc_srv demo_cc)" "cc_pubkey demo_cc = demo_rid 7"
proof -
  have "policy_wf demo_policy" by (simp add: policy_wf_def demo_policy_def)
  then show "cc_wf demo_cc"
    by (simp add: cc_wf_def demo_cc_def intro_wf_def PUBKEY_SIZE_def HOPID_SIZE_def)
  show "list_all srv_is_valid (cc_srv demo_cc)" by code_simp
  show "cc_pubkey demo_cc = demo_rid 7" by (simp add: demo_cc_def)
qed

lemma demo_publishable:
  "cc_publishable demo_sodium demo_oxenc demo_endian64 demo_signatures demo_curve (demo_rid 7) demo_blinded demo_nonce 1000 demo_cc"
  using demo_cc_wf
  by (simp add: cc_publishable_def demo_blinded_def blinded_key_of_def demo_sodium_def demo_curve_def SYMM_NONCE_SIZE_def Let_def)

section \<open>Properties of contacts\<close>

text \<open>
  C25: A client contact survives encryption and signing.  A well-formed contact, encrypted and signed
  with the client's blinded key, decrypts under the client's public key to the same contact (its
  introductions, SRV records, flags and exit policy) with the time of signing; and the key it is
  signed with is the one that everybody computes from the client's public key.
\<close>

theorem contact_roundtrip:
  assumes "contact_laws S X L H B" and "cc_publishable S X L H B seed b nonce now cc"
  shows "cc_decrypt S X L H fresh (snd (cc_encrypt_and_sign S X L H B b nonce now cc)) (cc_pubkey cc) =
       Some (fst (cc_encrypt_and_sign S X L H B b nonce now cc)) \<and>
     fst (cc_encrypt_and_sign S X L H B b nonce now cc) = cc\<lparr>cc_signed_at := now\<rparr> \<and>
     blind S (cc_pubkey cc) CLIENT_CONTACT_DOMAIN = Some (bk_pubkey b)"
  using publishable_decrypts [OF assms] publishable_facts(1) [OF assms] by (simp add: encrypt_and_sign_outer)

theorem contact_roundtrip_witness:
  "cc_decrypt demo_sodium demo_oxenc demo_endian64 demo_signatures demo_srv
     (snd (cc_encrypt_and_sign demo_sodium demo_oxenc demo_endian64 demo_signatures demo_curve demo_blinded demo_nonce 1000 demo_cc))
     (demo_rid 7) = Some (demo_cc\<lparr>cc_signed_at := 1000\<rparr>)"
  using contact_roundtrip [OF demo_contact_laws demo_publishable, of demo_srv] demo_cc_wf(3) by simp



text \<open>
  C24: A published contact is found.  In a network whose relays know the same registered relays, at
  least four of them, a client that publishes its contact to one of the four locations through any
  relay is told so; anybody who asks any relay for that location under the blinded key, computed
  from the client's public key alone, before the record is too old receives it and decrypts it to
  the contact that was published.
\<close>

theorem published_contact_found:
  assumes "contact_laws S X L H B" and "cc_publishable S X L H B seed b nonce now cc"
    and "same_view rids net" and "4 \<le> length rids" and "r \<in> set rids" and "r' \<in> set rids" and "i < CC_PUBLISH_LOCATIONS"
    and "\<forall>r rec t. map_of (cr_contacts (net r)) (bk_pubkey b) = Some (rec, t) \<longrightarrow> t < now"
    and "now' < now + MAX_LIFETIME_ACCEPTED"
  shows "\<exists>net' k resp.
     publish_via X H now r (publish_body X (snd (cc_encrypt_and_sign S X L H B b nonce now cc)) i) net = (Some (OK_RESPONSE X), net') \<and>
     blind S (cc_pubkey cc) CLIENT_CONTACT_DOMAIN = Some k \<and>
     find_via X now' r' (find_body X k i) net' = Some resp \<and>
     cc_of_response S X L H fresh (cc_pubkey cc) True resp = Some (cc\<lparr>cc_signed_at := now\<rparr>)"
proof -
  let ?k = "bk_pubkey b" and ?M = "snd (cc_encrypt_and_sign S X L H B b nonce now cc)" and ?loc = "cc_location net r (bk_pubkey b) i"
  let ?net' = "net(?loc := (net ?loc)\<lparr>cr_contacts := AList.update ?k (?M, now) (cr_contacts (net ?loc))\<rparr>)"
  note f = publishable_facts [OF assms(1,2)]
  have p: "length nonce = SYMM_NONCE_SIZE" "- (2 ^ 63) \<le> now" "now \<le> 2 ^ 63 - 1"
    using assms(2) unfolding cc_publishable_def by blast+
  have i: "i < 4" using assms(7) by (simp add: CC_PUBLISH_LOCATIONS_def)
  have pub: "publish_via X H now r (publish_body X ?M i) net = (Some (OK_RESPONSE X), ?net')"
    by (rule publish_stores [OF contact_lawsD(3,6) [OF assms(1)] f(2) p f(4,3) assms(8,3,5,4) i])
      (simp_all add: encrypt_and_sign_outer)
  have db: "cr_nodedb (?net' q) = cr_nodedb (net q)" for q by simp
  have view: "same_view rids ?net'" using assms(3) unfolding same_view_def db .
  have loc: "cc_location ?net' r' ?k i = ?loc"
    using same_location(1) [OF assms(3) assms(5,6,4) i, of ?k] same_location(1) [OF assms(3) assms(5,5,4) i, of ?k]
    unfolding cc_location_def db by simp
  have "get_encrypted_cc (cr_contacts (?net' ?loc)) ?k now' = Some ?M"
    using assms(9) by (simp add: get_encrypted_cc_def update_conv')
  then have "find_via X now' r' (find_body X ?k i) ?net' = Some (bt_dict X [(''!'', BStr (string_bytes ''OK'')), (''x'', BStr ?M)])"
    by (intro find_returns [OF contact_lawsD(3) [OF assms(1)] f(2) view assms(6,4) i]) (simp only: loc)
  with pub f(1) cc_of_found [OF contact_lawsD(3) [OF assms(1)]] publishable_decrypts [OF assms(1,2)] show ?thesis
    by (intro exI conjI) auto
qed

definition demo_cc_net :: cc_net where
  "demo_cc_net r = \<lparr>cr_nodedb = nodedb_new []\<lparr>registered_relays := map demo_rid [1, 2, 3, 4, 5]\<rparr>, cr_contacts = []\<rparr>"

theorem published_contact_found_witness:
  "\<exists>net' k resp.
     publish_via demo_oxenc demo_signatures 1000 (demo_rid 2) (publish_body demo_oxenc
       (snd (cc_encrypt_and_sign demo_sodium demo_oxenc demo_endian64 demo_signatures demo_curve demo_blinded demo_nonce 1000 demo_cc)) 3)
       demo_cc_net = (Some (OK_RESPONSE demo_oxenc), net') \<and>
     blind demo_sodium (demo_rid 7) CLIENT_CONTACT_DOMAIN = Some k \<and>
     find_via demo_oxenc 60000 (demo_rid 5) (find_body demo_oxenc k 3) net' = Some resp \<and>
     cc_of_response demo_sodium demo_oxenc demo_endian64 demo_signatures demo_srv (demo_rid 7) True resp =
       Some (demo_cc\<lparr>cc_signed_at := 1000\<rparr>)"
proof -
  have v: "same_view (map demo_rid [1, 2, 3, 4, 5]) demo_cc_net" by (simp add: same_view_def demo_cc_net_def)
  show ?thesis
    using published_contact_found [OF demo_contact_laws demo_publishable v, of "demo_rid 2" "demo_rid 5" 3 60000 demo_srv] demo_cc_wf(3)
    by (simp add: CC_PUBLISH_LOCATIONS_def lifetime_consts demo_cc_net_def)
qed

section \<open>Defects\<close>

text \<open>
  C27: Anybody can sign somebody else's contact.  A contact naming a client, signed with the key pair of
  any other party, is accepted when decrypted under that client's public key, since the signature is
  checked only with the key inside the message; once in the cache of a client, contacts with an
  earlier signing time, the genuine ones among them, are ignored until it expires.
\<close>

theorem foreign_contact_accepted:
  assumes "contact_laws S X L H B" and "sign_laws S H" and "cc_wf cc" and "list_all srv_is_valid (cc_srv cc)"
    and "length nonce = SYMM_NONCE_SIZE" and "- (2 ^ 63) \<le> t" and "t \<le> 2 ^ 63 - 1"
    and "(sk, pk) = (snd (sign_seed_keypair S stranger), fst (sign_seed_keypair S stranger))"
    and "now \<le> cc_expiry cc * 1000" and "cc_signed_at genuine \<le> t"
  shows "cc_decrypt S X L H fresh (signed_dict X H sk (cc_outer S X L pk nonce t cc)) (cc_pubkey cc) = Some (cc\<lparr>cc_signed_at := t\<rparr>) \<and>
     update_cc now remote (Some genuine) [(remote, Some (cc\<lparr>cc_signed_at := t\<rparr>), cc_expiry cc * 1000)] =
       (Some (cc\<lparr>cc_signed_at := t\<rparr>), [(remote, Some (cc\<lparr>cc_signed_at := t\<rparr>), cc_expiry cc * 1000)])"
proof
  have pk: "length pk = PUBKEY_SIZE" using contact_lawsD(2) [OF assms(1)] assms(8) by (simp add: ed25519_laws_def)
  have sig: "length (ed25519_sign H sk m) = SIGNATURE_SIZE" "pubkey_verify H pk m (ed25519_sign H sk m)" for m
    using assms(2,8) by (simp_all add: sign_laws_def ed25519_sign_def pubkey_verify_def)
  show "cc_decrypt S X L H fresh (signed_dict X H sk (cc_outer S X L pk nonce t cc)) (cc_pubkey cc) = Some (cc\<lparr>cc_signed_at := t\<rparr>)"
    unfolding signed_dict_def
    by (rule cc_decrypt_signed [OF contact_lawsD(1,3-6) [OF assms(1)] assms(3,4) pk assms(5-7) sig])
  show "update_cc now remote (Some genuine) [(remote, Some (cc\<lparr>cc_signed_at := t\<rparr>), cc_expiry cc * 1000)] =
       (Some (cc\<lparr>cc_signed_at := t\<rparr>), [(remote, Some (cc\<lparr>cc_signed_at := t\<rparr>), cc_expiry cc * 1000)])"
    using assms(9,10) by (simp add: update_cc_def Let_def)
qed

lemma demo_sign_laws: "sign_laws demo_sodium demo_signatures"
  by (simp add: sign_laws_def demo_signatures_def demo_handshake_def demo_sodium_def SIGNATURE_SIZE_def)

theorem foreign_contact_accepted_witness:
  "cc_decrypt demo_sodium demo_oxenc demo_endian64 demo_signatures demo_srv
     (signed_dict demo_oxenc demo_signatures (demo_rid 9 @ demo_rid 9)
       (cc_outer demo_sodium demo_oxenc demo_endian64 (demo_rid 9) demo_nonce 2000 demo_cc)) (demo_rid 7) =
       Some (demo_cc\<lparr>cc_signed_at := 2000\<rparr>) \<and>
   fst (update_cc 3000 (demo_rid 7) (Some (demo_cc\<lparr>cc_signed_at := 1000\<rparr>)) [(demo_rid 7, Some (demo_cc\<lparr>cc_signed_at := 2000\<rparr>), 900000)]) =
     Some (demo_cc\<lparr>cc_signed_at := 2000\<rparr>)"
  using foreign_contact_accepted [OF demo_contact_laws demo_sign_laws demo_cc_wf(1,2), of demo_nonce 2000 "demo_rid 9 @ demo_rid 9" "demo_rid 9"
      "demo_rid 9" 3000 "demo_cc\<lparr>cc_signed_at := 1000\<rparr>" demo_srv "demo_rid 7"] demo_cc_wf(3)
  by (simp add: demo_sodium_def SYMM_NONCE_SIZE_def cc_expiry_def) (simp add: demo_cc_def)

text \<open>
  A client can make a relay read past the end of a vector.  A \<^verbatim>\<open>find_cc\<close> request that came down a
  path with an index of four or more, up to the largest \<^verbatim>\<open>int\<close>, indexes the vector of the four closest
  relays with it unchecked, whatever the relay has stored.
\<close>

theorem find_cc_out_of_bounds:
  assumes "bt_reader_law X" and "length k = PUBKEY_SIZE" and "distinct (registered_relays db)"
    and "CC_PUBLISH_LOCATIONS \<le> length (registered_relays db)" and "CC_PUBLISH_LOCATIONS \<le> i" and "int i \<le> 2 ^ 31 - 1"
  shows "handle_find_cc X now self db (find_body X k i) False cdb = CcUndefined"
proof -
  have "length (find_many_closest_to db k (int CC_PUBLISH_LOCATIONS)) = CC_PUBLISH_LOCATIONS"
    using closest_relays_agree_facts(3) [OF assms(3,3) refl, of k "int CC_PUBLISH_LOCATIONS"] assms(4) by simp
  then show ?thesis
    using find_parse_body(1) [OF assms(1,2), of "int i"] assms(5,6) by (simp add: handle_find_cc_def find_body_def Let_def)
qed

theorem find_cc_out_of_bounds_witness:
  "handle_find_cc demo_oxenc 0 (demo_rid 1) (cr_nodedb (demo_cc_net (demo_rid 1))) (find_body demo_oxenc (demo_rid 7) 1000) False [] = CcUndefined"
proof -
  have "distinct (registered_relays (cr_nodedb (demo_cc_net (demo_rid 1))))" "length (registered_relays (cr_nodedb (demo_cc_net (demo_rid 1)))) = 5"
    by (simp_all add: demo_cc_net_def)
  then show ?thesis
    by (intro find_cc_out_of_bounds [OF demo_reader]) (simp_all add: PUBKEY_SIZE_def CC_PUBLISH_LOCATIONS_def)
qed

lemma find_hook_failed:
  "\<forall>b. m \<noteq> RespOk b \<Longrightarrow> find_hook X m (Suc n) = (n, if n = 0 then [] else [find_forwarded X m])"
  by (cases m) (simp_all add: find_hook_def Let_def)

text \<open>
  Requests without an index: when all \<open>n\<close> forwarded requests fail, the client gets \<open>n - 1\<close> answers,
  the first failure at once; the last response, which ought to trigger the answer, is dropped.
\<close>

theorem find_hook_misanswers:
  assumes "\<forall>m \<in> set msgs. \<forall>b. m \<noteq> RespOk b" and "length msgs = n"
  shows "find_hooks X msgs n = map (find_forwarded X) (butlast msgs)"
  using assms
proof (induction msgs arbitrary: n)
  case (Cons m msgs)
  then have "find_hooks X msgs (length msgs) = map (find_forwarded X) (butlast msgs)" by simp
  with Cons.prems show ?case by (auto simp: find_hook_failed)
qed simp

end
