(* ===== verification/Session_Paths.thy ===== *)
theory Session_Paths
  imports Session Contact_Store
begin

text \<open>
  The paths of an outbound session (\<^verbatim>\<open>session/session.cpp\<close>): closing paths near expiry, the choice of
  the current path, the choice of pivots from the introductions of a client contact, the builds
  that keep the number of paths up, and the updates of the introductions.
\<close>

section \<open>State\<close>

record path_conf =
  pc_target :: int \<comment> \<open>\<^verbatim>\<open>_target_paths\<close>\<close>
  pc_min_expiry :: ms
  pc_acceptable_expiry :: ms

text \<open>An outbound session is a session and a path handler; the rest belongs to sessions with clients.\<close>

record out_session =
  os_sess :: session
  os_paths :: path_handler
  os_intros :: "client_intro list"
  os_pivots :: "router_id list"
  os_intro_processed :: bool
  os_updating :: bool
  os_next_cc_update :: ms
  os_fail_count :: int
  os_cc_ok :: bool
  os_last_signed :: ms
  os_protos :: byte

definition CC_FETCH_STALE :: ms where "CC_FETCH_STALE = 10 * 60 * 1000"
definition CC_FETCH_BACKOFF :: ms where "CC_FETCH_BACKOFF = 990"
definition CC_FETCH_BACKOFF_MAX :: ms where "CC_FETCH_BACKOFF_MAX = 10 * 1000"

text \<open>
  What the operations read: keys and libraries, the clock, the draws; \<open>oe_step i\<close> is what the \<open>i\<close>-th
  build attempt of a loop draws and reads.
\<close>

record build_step =
  bst_build :: build_env
  bst_draws :: select_draws
  bst_now :: ms \<comment> \<open>the clock when the pivot is chosen\<close>
  bst_pick :: "nat \<Rightarrow> nat"

record out_env =
  oe_sodium :: sodium
  oe_oxenc :: oxenc
  oe_hs :: handshake_lib
  oe_keys :: router_keys
  oe_conf :: path_conf
  oe_select :: select_env
  oe_db :: nodedb
  oe_sent :: "router_id \<Rightarrow> bool"
  oe_rand :: init_rand
  oe_nonce :: symm_nonce
  oe_pick :: "nat \<Rightarrow> nat"
  oe_step :: "nat \<Rightarrow> build_step"

section \<open>Closing paths near expiry\<close>

text \<open>
  The scan over the active paths: whether a path of acceptable expiry was found, the paths to close,
  and those to close if one was found.
\<close>

fun close_scan ::
  "path_conf \<Rightarrow> ms \<Rightarrow> path_ref option \<Rightarrow> (path_ref \<times> path) list \<Rightarrow> bool \<times> path list \<times> path list \<Rightarrow> bool \<times> path list \<times> path list" where
  "close_scan conf now current [] acc = acc"
| "close_scan conf now current ((r, p) # ps) (found, close_me, maybe_close) =
     close_scan conf now current ps
       (if current = Some r then (found, close_me, maybe_close)
        else if pc_acceptable_expiry conf \<le> expires_in p now then (True, close_me, maybe_close)
        else if expires_in p now < pc_min_expiry conf then (found, close_me @ [p], maybe_close)
        else if \<not> found then (found, close_me, maybe_close @ [p])
        else (found, close_me, maybe_close))"

definition active_path_objs :: "ms \<Rightarrow> path_handler \<Rightarrow> (path_ref \<times> path) list" where
  "active_path_objs now st = List.map_filter (\<lambda>r. map_option (Pair r) (path_at st r)) (active_paths now st)"

definition close_old_paths :: "path_conf \<Rightarrow> ms \<Rightarrow> out_session \<Rightarrow> out_session" where
  "close_old_paths conf now os =
     (let (found, close_me, maybe_close) =
            close_scan conf now (s_path (os_sess os)) (active_path_objs now (os_paths os)) (False, [], [])
      in os\<lparr>os_paths := fold ph_drop_path (close_me @ (if found then maybe_close else [])) (os_paths os)\<rparr>)"

section \<open>The current path\<close>

text \<open>The paths \<^verbatim>\<open>select_new_current\<close> chooses from, in a session with a relay and with a client.\<close>

definition relay_candidates :: "path_conf \<Rightarrow> ms \<Rightarrow> path_handler \<Rightarrow> (path_ref \<times> hop_id) list \<times> (path_ref \<times> hop_id) list" where
  "relay_candidates conf now st =
     (let usable = filter (\<lambda>(r, p). pc_min_expiry conf \<le> expires_in p now) (active_path_objs now st);
          (good, fallback) = partition (\<lambda>(r, p). pc_acceptable_expiry conf \<le> expires_in p now) usable;
          name = map (\<lambda>(r, p). (r, terminal_hopid p))
      in (name good, name fallback))"

definition client_candidates ::
  "path_conf \<Rightarrow> ms \<Rightarrow> client_intro list \<Rightarrow> path_handler \<Rightarrow> (path_ref \<times> hop_id) list \<times> (path_ref \<times> hop_id) list" where
  "client_candidates conf now intros st =
     (let pairs = [(r, p, i). (r, p) \<leftarrow> active_path_objs now st, pc_min_expiry conf \<le> expires_in p now, i \<leftarrow> intros,
                   intro_relay i = terminal_rid p, pc_min_expiry conf \<le> intro_expires_in i now];
          (good, fallback) =
            partition (\<lambda>(r, p, i). pc_acceptable_expiry conf \<le> min (expires_in p now) (intro_expires_in i now)) pairs;
          name = map (\<lambda>(r, p, i). (r, intro_hop i))
      in (name good, name fallback))"

definition candidates :: "path_conf \<Rightarrow> ms \<Rightarrow> out_session \<Rightarrow> (path_ref \<times> hop_id) list \<times> (path_ref \<times> hop_id) list" where
  "candidates conf now os =
     (if s_is_relay (os_sess os) then relay_candidates conf now (os_paths os)
      else client_candidates conf now (os_intros os) (os_paths os))"

text \<open>What a new current path is drawn from.\<close>

definition current_choices :: "path_conf \<Rightarrow> ms \<Rightarrow> out_session \<Rightarrow> (path_ref \<times> hop_id) list" where
  "current_choices conf now os =
     (case candidates conf now os of (good, fallback) \<Rightarrow> if good = [] then fallback else good)"

text \<open>Whether the remote still runs a version before the ephemeral handshake.\<close>

definition use_old_init :: "nodedb \<Rightarrow> out_session \<Rightarrow> bool" where
  "use_old_init db os =
     (if s_is_relay (os_sess os)
      then (case get_rc db (na_pubkey (s_remote (os_sess os))) of Some rc \<Rightarrow> rc_version rc < [1, 1, 0] | None \<Rightarrow> False)
      else \<not> has_flag (os_protos os) PROTO_PFS_PQ)"

definition remote_accepts_tcp :: "out_session \<Rightarrow> bool option" where
  "remote_accepts_tcp os = (if os_protos os = 0 then None else Some (has_flag (os_protos os) PROTO_TCP_TUNNEL))"

definition select_new_current :: "out_env \<Rightarrow> ms \<Rightarrow> out_session \<Rightarrow> out_session \<times> link_send list" where
  "select_new_current E now os =
     (let choices = current_choices (oe_conf E) now os; s = os_sess os
      in if choices = [] then (os\<lparr>os_sess := s\<lparr>s_path := None, s_dead_path := True\<rparr>\<rparr>, [])
         else let (r, hopid) = choices ! oe_pick E (length choices)
              in case path_at (os_paths os) r of
                   None \<Rightarrow> (os, [])
                 | Some p \<Rightarrow>
                     (let (s', out) = switch_path (oe_sodium E) (oe_oxenc E) (oe_hs E) (oe_keys E) (ph_ctx (os_paths os)) now
                            (use_old_init (oe_db E) os) (oe_rand E) (oe_nonce E) r p s
                      in (os\<lparr>os_sess := s'\<rparr>, out)))"

text \<open>\<^verbatim>\<open>on_path_build_success\<close>.\<close>

definition current_gone :: "out_session \<Rightarrow> bool" where
  "current_gone os \<longleftrightarrow>
     (case s_path (os_sess os) of
        None \<Rightarrow> True
      | Some r \<Rightarrow> (case path_at (os_paths os) r of None \<Rightarrow> True | Some p \<Rightarrow> is_dead p))"

definition on_path_build_success :: "out_env \<Rightarrow> ms \<Rightarrow> out_session \<Rightarrow> out_session \<times> link_send list" where
  "on_path_build_success E now os = (if current_gone os then select_new_current E now os else (os, []))"

section \<open>Builds\<close>

text \<open>
  One call of \<^verbatim>\<open>build_path_to_remote\<close>: the object of the build sent, if any, or the exception of the
  onion.
\<close>

definition start_build ::
  "out_env \<Rightarrow> nat \<Rightarrow> router_id \<Rightarrow> ms \<Rightarrow> path_handler \<Rightarrow> (build_error + path_ref option) \<times> path_handler" where
  "start_build E i remote lifetime st =
     (case build_path_to_remote (bst_build (oe_step E i)) (oe_sent E) (oe_select E) (oe_db E) (bst_draws (oe_step E i))
             remote lifetime st of
        (Some (BuildThrew e), st') \<Rightarrow> (Inl e, st')
      | (Some (BuildSent r _ _), st') \<Rightarrow> (Inr (Some r), st')
      | (_, st') \<Rightarrow> (Inr None, st'))"

text \<open>
  In a session with a relay the loop stops at the first build that is not sent.  The results of the
  loops are the exception, if any, the number of builds sent and the state.
\<close>

fun relay_build_loop :: "out_env \<Rightarrow> router_id \<Rightarrow> nat \<Rightarrow> nat \<Rightarrow> path_handler \<Rightarrow> build_error option \<times> nat \<times> path_handler" where
  "relay_build_loop E remote sent 0 st = (None, sent, st)"
| "relay_build_loop E remote sent (Suc missing) st =
     (case start_build E sent remote MAX_LIFETIME st of
        (Inl e, st') \<Rightarrow> (Some e, sent, st')
      | (Inr None, st') \<Rightarrow> (None, sent, st')
      | (Inr (Some _), st') \<Rightarrow> relay_build_loop E remote (Suc sent) missing st')"

definition relay_update_paths :: "out_env \<Rightarrow> ms \<Rightarrow> ms \<Rightarrow> out_session \<Rightarrow> build_error option \<times> out_session" where
  "relay_update_paths E now steady_now os =
     (let needed = pc_target (oe_conf E) - int (num_paths now (os_paths os))
      in if needed \<le> 0 \<or> cooldown steady_now (os_paths os) then (None, os)
         else let (err, _, st) = relay_build_loop E (na_pubkey (s_remote (os_sess os))) 0 (nat needed) (os_paths os)
              in (err, os\<lparr>os_paths := st\<rparr>))"

subsection \<open>The pivot of a new path\<close>

definition paths_to :: "path_handler \<Rightarrow> router_id \<Rightarrow> nat" where
  "paths_to st rid =
     length (filter (\<lambda>(_, r). case path_at st r of None \<Rightarrow> False | Some p \<Rightarrow> terminal_rid p = rid) (ph_paths st))"

text \<open>The selection map and the least number of paths seen, in seconds of lifetime and hop id.\<close>

fun pivot_scan ::
  "path_conf \<Rightarrow> ms \<Rightarrow> path_handler \<Rightarrow> client_intro list \<Rightarrow> int \<times> (router_id \<times> int \<times> hop_id) list \<Rightarrow> int \<times> (router_id \<times> int \<times> hop_id) list" where
  "pivot_scan conf now st [] acc = acc"
| "pivot_scan conf now st (i # is) (min_path_count, select_from) =
     (let existing_count = int (paths_to st (intro_relay i));
          exp = min (intro_expires_in i now div 1000) (MAX_LIFETIME div 1000);
          sel = (if existing_count < min_path_count then [] else select_from)
      in pivot_scan conf now st is
           (if intro_expiry i * 1000 < now + pc_acceptable_expiry conf then (min_path_count, select_from)
            else if min_path_count < existing_count then (min_path_count, select_from)
            else (min min_path_count existing_count,
                  case map_of sel (intro_relay i) of
                    None \<Rightarrow> sel @ [(intro_relay i, exp, intro_hop i)]
                  | Some (old, _) \<Rightarrow> if old < exp then AList.update (intro_relay i) (exp, intro_hop i) sel else sel)))"

definition select_pivot :: "path_conf \<Rightarrow> ms \<Rightarrow> (nat \<Rightarrow> nat) \<Rightarrow> out_session \<Rightarrow> (router_id \<times> int \<times> hop_id) option" where
  "select_pivot conf now pick os =
     (let select_from = snd (pivot_scan conf now (os_paths os) (os_intros os) (2 ^ 31 - 1, []))
      in if select_from = [] then None else Some (select_from ! pick (length select_from)))"

text \<open>
  The loop of \<^verbatim>\<open>OutboundClientSession::update_paths\<close>: it goes on as long as a pivot can be chosen and
  paths are missing, whether builds are sent or not.  \<open>None\<close>: not ended after \<open>fuel\<close> rounds.
\<close>

fun client_build_loop ::
  "nat \<Rightarrow> out_env \<Rightarrow> int \<Rightarrow> nat \<Rightarrow> int \<Rightarrow> out_session \<Rightarrow> (build_error option \<times> int \<times> out_session) option" where
  "client_build_loop 0 E needed i sent os = None"
| "client_build_loop (Suc fuel) E needed i sent os =
     (if needed \<le> sent then Some (None, sent, os)
      else case select_pivot (oe_conf E) (bst_now (oe_step E i)) (bst_pick (oe_step E i)) os of
             None \<Rightarrow> Some (None, sent, os)
           | Some (rid, exp, hop) \<Rightarrow>
               (case start_build E i rid (exp * 1000) (os_paths os) of
                  (Inl e, st) \<Rightarrow> Some (Some e, sent, os\<lparr>os_paths := st\<rparr>)
                | (Inr None, st) \<Rightarrow> client_build_loop fuel E needed (Suc i) sent (os\<lparr>os_paths := st\<rparr>)
                | (Inr (Some r), st) \<Rightarrow>
                    (let st' = (case path_at st r of None \<Rightarrow> st | Some p \<Rightarrow> set_path_at r (p\<lparr>aligned_hopid := Some hop\<rparr>) st)
                     in client_build_loop fuel E needed (Suc i) (sent + 1) (os\<lparr>os_paths := st'\<rparr>))))"

subsection \<open>Sessions with clients\<close>

text \<open>Paths whose pivot or aligned hop id is not in the new introductions are dropped.\<close>

definition drop_unaligned :: "out_session \<Rightarrow> out_session" where
  "drop_unaligned os =
     (let pivots = map (\<lambda>i. (intro_relay i, Some (intro_hop i))) (os_intros os);
          drop = filter (\<lambda>p. (terminal_rid p, aligned_hopid p) \<notin> set pivots)
                   (List.map_filter (\<lambda>(_, r). path_at (os_paths os) r) (ph_paths (os_paths os)))
      in os\<lparr>os_paths := fold ph_drop_path drop (os_paths os), os_intro_processed := True\<rparr>)"

definition needed_paths :: "path_conf \<Rightarrow> ms \<Rightarrow> out_session \<Rightarrow> int" where
  "needed_paths conf now os =
     (let needed = pc_target conf - int (num_paths (now + pc_acceptable_expiry conf) (os_paths os))
      in case Option.bind (s_path (os_sess os)) (path_at (os_paths os)) of
           None \<Rightarrow> needed
         | Some p \<Rightarrow>
             if pc_min_expiry conf < expires_in p now \<and> expires_in p now < pc_acceptable_expiry conf then needed - 1 else needed)"

definition client_update_paths ::
  "nat \<Rightarrow> out_env \<Rightarrow> ms \<Rightarrow> ms \<Rightarrow> out_session \<Rightarrow> (build_error option \<times> out_session \<times> link_send list) option" where
  "client_update_paths fuel E now steady_now os =
     (if \<not> os_cc_ok os then Some (None, os, [])
      else let os = (if os_intro_processed os then os else drop_unaligned os);
               os = (if s_path (os_sess os) \<noteq> None \<and> current_gone os
                     then os\<lparr>os_sess := (os_sess os)\<lparr>s_path := None, s_dead_path := True\<rparr>\<rparr> else os);
               (os, out) = (if s_path (os_sess os) = None \<and> 0 < num_active_paths now now (os_paths os)
                            then select_new_current E now os else (os, []));
               needed = needed_paths (oe_conf E) now os
           in if needed \<le> 0 \<or> cooldown steady_now (os_paths os) then Some (None, os, out)
              else map_option (\<lambda>(err, _, os). (err, os, out)) (client_build_loop fuel E needed 0 0 os))"

section \<open>Introductions\<close>

text \<open>The fields \<^verbatim>\<open>update_intros\<close> sets before it updates the paths.\<close>

definition take_intros :: "ms \<Rightarrow> client_contact \<Rightarrow> out_session \<Rightarrow> out_session" where
  "take_intros now cc os =
     os\<lparr>os_fail_count := 0, os_next_cc_update := now + CC_FETCH_STALE, os_last_signed := cc_signed_at cc,
        os_protos := cc_protos cc, os_sess := (os_sess os)\<lparr>s_last_inbound := now\<rparr>, os_intros := cc_intros cc,
        os_pivots := remdups (map intro_relay (cc_intros cc))\<rparr>"

definition update_intros ::
  "nat \<Rightarrow> out_env \<Rightarrow> ms \<Rightarrow> ms \<Rightarrow> client_contact \<Rightarrow> out_session \<Rightarrow> (build_error option \<times> out_session \<times> link_send list) option" where
  "update_intros fuel E now steady_now cc os = client_update_paths fuel E now steady_now (take_intros now cc os)"

text \<open>\<^verbatim>\<open>refresh_intros\<close>: whether a lookup is started, and what its callback does with the answer.\<close>

definition refresh_intros :: "out_session \<Rightarrow> bool \<times> out_session" where
  "refresh_intros os = (if os_updating os then (False, os) else (True, os\<lparr>os_updating := True\<rparr>))"

definition intros_found ::
  "nat \<Rightarrow> out_env \<Rightarrow> ms \<Rightarrow> ms \<Rightarrow> client_contact option \<Rightarrow> out_session \<Rightarrow> (build_error option \<times> out_session \<times> link_send list) option" where
  "intros_found fuel E now steady_now cc os =
     (let os = os\<lparr>os_updating := False\<rparr>
      in case cc of
           Some cc \<Rightarrow>
             if \<not> os_cc_ok os \<and> cc_signed_at cc \<le> os_last_signed os then Some (None, os, [])
             else update_intros fuel E now steady_now cc (os\<lparr>os_cc_ok := True, os_intro_processed := False\<rparr>)
         | None \<Rightarrow>
             (let fails = os_fail_count os + 1
              in Some (None, os\<lparr>os_fail_count := fails,
                             os_next_cc_update := now + min (fails * CC_FETCH_BACKOFF) CC_FETCH_BACKOFF_MAX\<rparr>, [])))"

text \<open>A contact that arrives through the session: the cache decides which contact is used.\<close>

definition handle_client_contact ::
  "nat \<Rightarrow> out_env \<Rightarrow> endian64 \<Rightarrow> srv_data \<Rightarrow> ms \<Rightarrow> ms \<Rightarrow> bytes \<Rightarrow> cc_cache \<Rightarrow> out_session \<Rightarrow>
     cc_cache \<times> (build_error option \<times> out_session \<times> link_send list) option" where
  "handle_client_contact fuel E L fresh now steady_now payload cache os =
     (let remote = na_pubkey (s_remote (os_sess os))
      in case cc_decrypt (oe_sodium E) (oe_oxenc E) L (oe_hs E) fresh payload remote of
           None \<Rightarrow> (cache, Some (None, os, []))
         | Some cc \<Rightarrow>
             (case update_cc now remote (Some cc) cache of
                (None, cache') \<Rightarrow> (cache', Some (None, os, []))
              | (Some cc', cache') \<Rightarrow>
                  (cache', update_intros fuel E now steady_now cc' (os\<lparr>os_intro_processed := False\<rparr>))))"

text \<open>\<^verbatim>\<open>recv_close\<close> of the two outbound classes.\<close>

definition recv_close :: "ms \<Rightarrow> out_session \<Rightarrow> out_session" where
  "recv_close now os =
     (let os = os\<lparr>os_paths := invalidate_paths (os_paths os)\<rparr>
      in if s_is_relay (os_sess os) then os else os\<lparr>os_cc_ok := False, os_next_cc_update := now\<rparr>)"

text \<open>The end of \<^verbatim>\<open>OutboundClientSession::tick\<close>: when the introductions are fetched again.\<close>

definition intros_due :: "ms \<Rightarrow> out_session \<Rightarrow> bool" where
  "intros_due now os \<longleftrightarrow>
     \<not> s_closed (os_sess os) \<and> \<not> os_updating os \<and>
     (os_next_cc_update os \<le> now \<or> 30 * 1000 < now - s_last_inbound (os_sess os))"

section \<open>The tick\<close>

text \<open>
  What \<^verbatim>\<open>tick\<close> does for a session that is open and not marked unreachable: old paths are closed,
  expired ones dropped, missing ones built when the router is connected, paths pinged, due callbacks
  run, and the introductions fetched again when due.  The result has the exception that left the
  builds, the messages sent, the paths pinged, the callbacks run and whether a lookup was started.
\<close>

definition update_paths ::
  "nat \<Rightarrow> out_env \<Rightarrow> ms \<Rightarrow> ms \<Rightarrow> out_session \<Rightarrow> (build_error option \<times> out_session \<times> link_send list) option" where
  "update_paths fuel E now steady_now os =
     (if is_stopped (os_paths os) then Some (None, os, [])
      else if s_is_relay (os_sess os) then (let (err, os) = relay_update_paths E now steady_now os in Some (err, os, []))
      else client_update_paths fuel E now steady_now os)"

definition tick_rest :: "ms \<Rightarrow> ms \<Rightarrow> out_session \<Rightarrow> out_session \<times> nat list \<times> bool" where
  "tick_rest now steady_now os =
     (let (s, fired) = fire_waiting steady_now (os_sess os);
          os = os\<lparr>os_sess := s\<rparr>
      in if \<not> s_is_relay s \<and> intros_due now os then (let (started, os) = refresh_intros os in (os, fired, started))
         else (os, fired, False))"

definition out_tick ::
  "nat \<Rightarrow> out_env \<Rightarrow> bool \<Rightarrow> ms \<Rightarrow> ms \<Rightarrow> ms \<Rightarrow> out_session \<Rightarrow>
     (build_error option \<times> out_session \<times> link_send list \<times> path_ref list \<times> nat list \<times> bool) option" where
  "out_tick fuel E connected interval now steady_now os =
     (let os = close_old_paths (oe_conf E) now os;
          os = os\<lparr>os_paths := snd (expire_paths now (os_paths os))\<rparr>
      in if \<not> connected then (let (os, fired, started) = tick_rest now steady_now os in Some (None, os, [], [], fired, started))
         else case update_paths fuel E now steady_now os of
                None \<Rightarrow> None
              | Some (Some e, os, out) \<Rightarrow> Some (Some e, os, out, [], [], False)
              | Some (None, os, out) \<Rightarrow>
                  (let st = (os_paths os)\<lparr>ph_stats := snd (build_stats_update steady_now (ph_stats (os_paths os)))\<rparr>;
                       (pinged, st) = ping_paths interval now steady_now st;
                       (os, fired, started) = tick_rest now steady_now (os\<lparr>os_paths := st\<rparr>)
                   in Some (None, os, out, pinged, fired, started)))"

end
