(* ===== verification/Session_Pivots.thy ===== *)
theory Session_Pivots
  imports Session_Paths Instances
begin

text \<open>
  What the path management of outbound sessions guarantees: the choice of pivots, the paths that
  closing leaves alone, and when the build loop of a session with a client does not end.
\<close>

section \<open>The choice of a pivot\<close>

text \<open>Introductions that live long enough, and the lifetime in seconds of a path to one.\<close>

definition eligible :: "path_conf \<Rightarrow> ms \<Rightarrow> client_intro \<Rightarrow> bool" where
  "eligible conf now i \<longleftrightarrow> \<not> intro_expiry i * 1000 < now + pc_acceptable_expiry conf"

definition pivot_lifetime :: "ms \<Rightarrow> client_intro \<Rightarrow> int" where
  "pivot_lifetime now i = min (intro_expires_in i now div 1000) (MAX_LIFETIME div 1000)"

definition scan_entry :: "ms \<Rightarrow> path_handler \<Rightarrow> client_intro list \<Rightarrow> int \<Rightarrow> router_id \<times> int \<times> hop_id \<Rightarrow> bool" where
  "scan_entry now st is m e \<longleftrightarrow>
     int (paths_to st (fst e)) = m \<and>
     (\<exists>i \<in> set is. intro_relay i = fst e \<and> intro_hop i = snd (snd e) \<and> pivot_lifetime now i = fst (snd e)) \<and>
     (\<forall>j \<in> set is. intro_relay j = fst e \<longrightarrow> pivot_lifetime now j \<le> fst (snd e))"

definition scan_ok :: "ms \<Rightarrow> path_handler \<Rightarrow> client_intro list \<Rightarrow> int \<times> (router_id \<times> int \<times> hop_id) list \<Rightarrow> bool" where
  "scan_ok now st is acc \<longleftrightarrow>
     distinct (map fst (snd acc)) \<and> (\<forall>e \<in> set (snd acc). scan_entry now st is (fst acc) e) \<and>
     (\<forall>i \<in> set is. fst acc \<le> int (paths_to st (intro_relay i))) \<and>
     (\<forall>i \<in> set is. int (paths_to st (intro_relay i)) = fst acc \<longrightarrow> intro_relay i \<in> fst ` set (snd acc)) \<and>
     (is = [] \<longrightarrow> fst acc = 2 ^ 31 - 1) \<and> (is \<noteq> [] \<longrightarrow> snd acc \<noteq> [])"

definition scan_step ::
  "ms \<Rightarrow> path_handler \<Rightarrow> client_intro \<Rightarrow> int \<times> (router_id \<times> int \<times> hop_id) list \<Rightarrow> int \<times> (router_id \<times> int \<times> hop_id) list" where
  "scan_step now st i acc =
     (let n = int (paths_to st (intro_relay i)); sel = (if n < fst acc then [] else snd acc)
      in if fst acc < n then acc
         else (min (fst acc) n,
               case map_of sel (intro_relay i) of
                 None \<Rightarrow> sel @ [(intro_relay i, pivot_lifetime now i, intro_hop i)]
               | Some (old, _) \<Rightarrow>
                   if old < pivot_lifetime now i then AList.update (intro_relay i) (pivot_lifetime now i, intro_hop i) sel else sel))"

lemma pivot_scan_Cons:
  "pivot_scan conf now st (i # is) acc = pivot_scan conf now st is (if eligible conf now i then scan_step now st i acc else acc)"
  by (cases acc; cases "intro_expiry i * 1000 < now + pc_acceptable_expiry conf")
    (simp_all only: pivot_scan.simps scan_step_def eligible_def pivot_lifetime_def Let_def if_True if_False fst_conv snd_conv simp_thms)

lemma pivot_scan_fold:
  "pivot_scan conf now st is acc = fold (scan_step now st) (filter (eligible conf now) is) acc"
  by (induction "is" arbitrary: acc) (simp_all add: pivot_scan_Cons del: pivot_scan.simps(2))

lemma scan_entry_more:
  assumes "scan_entry now st is m e" and "intro_relay i = fst e \<Longrightarrow> pivot_lifetime now i \<le> fst (snd e)"
  shows "scan_entry now st (is @ [i]) m e"
  using assms by (auto simp: scan_entry_def)

lemma scan_step_ok:
  assumes ok: "scan_ok now st is acc" and small: "int (paths_to st (intro_relay i)) < 2 ^ 31 - 1"
  shows "scan_ok now st (is @ [i]) (scan_step now st i acc)"
proof -
  let ?n = "int (paths_to st (intro_relay i))" and ?m = "fst acc" and ?sel = "snd acc" and ?new = "(intro_relay i, pivot_lifetime now i, intro_hop i)"
  have d: "distinct (map fst ?sel)" and ent: "\<And>e. e \<in> set ?sel \<Longrightarrow> scan_entry now st is ?m e"
    and le: "\<And>j. j \<in> set is \<Longrightarrow> ?m \<le> int (paths_to st (intro_relay j))"
    and key: "\<And>j. j \<in> set is \<Longrightarrow> int (paths_to st (intro_relay j)) = ?m \<Longrightarrow> intro_relay j \<in> fst ` set ?sel"
    using ok by (auto simp: scan_ok_def)
  consider "?m < ?n" | "?n < ?m" | "?n = ?m" by linarith
  then show ?thesis
  proof cases
    case 1
    have "is \<noteq> []" using 1 small ok by (auto simp: scan_ok_def)
    have "scan_entry now st (is @ [i]) ?m e" if "e \<in> set ?sel" for e
      using 1 ent [OF that] by (intro scan_entry_more) (auto simp: scan_entry_def)
    with 1 ok \<open>is \<noteq> []\<close> show ?thesis by (auto simp: scan_ok_def scan_step_def Let_def)
  next
    case 2
    have "scan_entry now st (is @ [i]) ?n ?new" using 2 le by (fastforce simp: scan_entry_def)
    moreover have "intro_relay j = intro_relay i" if "j \<in> set is" "int (paths_to st (intro_relay j)) = ?n" for j
      using le [OF that(1)] that(2) 2 by simp
    ultimately show ?thesis
      using 2 le by (force simp: scan_ok_def scan_step_def Let_def min_def)
  next
    case 3
    show ?thesis
    proof (cases "map_of ?sel (intro_relay i)")
      case None
      then have fresh: "intro_relay i \<notin> fst ` set ?sel" by (simp add: map_of_eq_None_iff)
      have no: "intro_relay j \<noteq> intro_relay i" if "j \<in> set is" for j
        using key [OF that] fresh 3 by auto
      have "scan_entry now st (is @ [i]) ?m e" if "e \<in> set ?sel" for e
        using ent [OF that] fresh that by (intro scan_entry_more) (auto simp: image_iff)
      moreover have "scan_entry now st (is @ [i]) ?m ?new" using 3 no by (auto simp: scan_entry_def)
      ultimately show ?thesis
        using 3 None fresh d le key by (auto simp: scan_ok_def scan_step_def Let_def)
    next
      case (Some v)
      obtain old hop where v: "v = (old, hop)" by (cases v)
      have mem: "(intro_relay i, old, hop) \<in> set ?sel" using Some v map_of_SomeD by fastforce
      have only: "e = (intro_relay i, old, hop)" if "e \<in> set ?sel" "fst e = intro_relay i" for e
        using that mem d by (metis eq_key_imp_eq_value prod.collapse)
      let ?sel' = "if old < pivot_lifetime now i then AList.update (intro_relay i) (pivot_lifetime now i, intro_hop i) ?sel else ?sel"
      have keys: "fst ` set ?sel' = fst ` set ?sel" "distinct (map fst ?sel')"
        using mem d by (force simp: dom_update AList.distinct_update insert_absorb)+
      have "scan_entry now st (is @ [i]) ?m e" if e: "e \<in> set ?sel'" for e
      proof (cases "fst e = intro_relay i")
        case False
        then have "e \<in> set ?sel" using e by (auto dest: set_alist_update split: if_splits)
        with False show ?thesis using ent by (intro scan_entry_more) auto
      next
        case True
        show ?thesis
        proof (cases "old < pivot_lifetime now i")
          case False
          then have "e \<in> set ?sel" using e by simp
          then have "e = (intro_relay i, old, hop)" by (rule only) (rule True)
          moreover have "scan_entry now st (is @ [i]) ?m (intro_relay i, old, hop)"
            using False by (intro scan_entry_more ent mem) simp
          ultimately show ?thesis by simp
        next
          case upd: True
          then have "map_of ?sel' (intro_relay i) = Some (pivot_lifetime now i, intro_hop i)" by (simp add: update_conv')
          moreover have "map_of ?sel' (fst e) = Some (snd e)" by (rule map_of_is_SomeI [OF keys(2)]) (use e in simp)
          ultimately have "e = ?new" using True by (simp add: prod_eq_iff)
          moreover have "scan_entry now st (is @ [i]) ?m ?new"
            using upd ent [OF mem] 3 by (fastforce simp: scan_entry_def)
          ultimately show ?thesis by simp
        qed
      qed
      moreover have "intro_relay j \<in> fst ` set ?sel" if "j \<in> set (is @ [i])" "int (paths_to st (intro_relay j)) = ?m" for j
        using that key mem by force
      moreover have "?m \<le> int (paths_to st (intro_relay j))" if "j \<in> set (is @ [i])" for j
        using that le 3 by auto
      moreover have "?sel' \<noteq> []" using keys(1) mem by force
      moreover have "scan_step now st i acc = (?m, ?sel')" using 3 Some v by (simp add: scan_step_def)
      ultimately show ?thesis unfolding scan_ok_def by (simp only: fst_conv snd_conv keys) blast
    qed
  qed
qed

lemma scan_fold_ok:
  assumes "scan_ok now st is acc" and "\<forall>i \<in> set js. int (paths_to st (intro_relay i)) < 2 ^ 31 - 1"
  shows "scan_ok now st (is @ js) (fold (scan_step now st) js acc)"
  using assms
proof (induction js arbitrary: "is" acc)
  case (Cons j js)
  from Cons.IH [OF scan_step_ok [OF Cons.prems(1), of j]] Cons.prems(2) show ?case by simp
qed simp

lemma paths_to_le: "paths_to st rid \<le> length (ph_paths st)"
  by (simp add: paths_to_def)

lemma pivot_scan_ok:
  assumes "int (length (ph_paths st)) < 2 ^ 31 - 1"
  shows "scan_ok now st (filter (eligible conf now) is) (pivot_scan conf now st is (2 ^ 31 - 1, []))"
proof -
  have "int (paths_to st rid) < 2 ^ 31 - 1" for rid using paths_to_le [of st rid] assms by linarith
  then show ?thesis
    unfolding pivot_scan_fold using scan_fold_ok [of now st "[]" "(2 ^ 31 - 1, [])" "filter (eligible conf now) is"]
    by (simp add: scan_ok_def)
qed

lemma select_pivot_None:
  assumes "int (length (ph_paths (os_paths os))) < 2 ^ 31 - 1"
  shows "select_pivot conf now pick os = None \<longleftrightarrow> (\<forall>i \<in> set (os_intros os). \<not> eligible conf now i)"
proof -
  let ?acc = "pivot_scan conf now (os_paths os) (os_intros os) (2 ^ 31 - 1, [])" and ?el = "filter (eligible conf now) (os_intros os)"
  note ok = pivot_scan_ok [OF assms, of now conf "os_intros os"]
  have "snd ?acc = []" if "?el = []" using that by (simp add: pivot_scan_fold)
  moreover have "snd ?acc \<noteq> []" if "?el \<noteq> []" using ok that unfolding scan_ok_def by blast
  ultimately show ?thesis
    by (auto simp: select_pivot_def Let_def filter_empty_conv)
qed

lemma select_pivot_facts:
  assumes "int (length (ph_paths (os_paths os))) < 2 ^ 31 - 1" and "\<forall>n > 0. pick n < n"
    and "select_pivot conf now pick os = Some (rid, exp, hop)"
  shows "\<exists>i \<in> set (os_intros os). eligible conf now i \<and> intro_relay i = rid \<and> intro_hop i = hop \<and> pivot_lifetime now i = exp"
    and "j \<in> set (os_intros os) \<Longrightarrow> eligible conf now j \<Longrightarrow> paths_to (os_paths os) rid \<le> paths_to (os_paths os) (intro_relay j)"
    and "j \<in> set (os_intros os) \<Longrightarrow> eligible conf now j \<Longrightarrow> intro_relay j = rid \<Longrightarrow> pivot_lifetime now j \<le> exp"
proof -
  let ?acc = "pivot_scan conf now (os_paths os) (os_intros os) (2 ^ 31 - 1, [])"
  have "(rid, exp, hop) \<in> set (snd ?acc)"
    using assms(2,3) by (auto simp: select_pivot_def Let_def split: if_splits) (metis length_greater_0_conv nth_mem)
  then have e: "scan_entry now (os_paths os) (filter (eligible conf now) (os_intros os)) (fst ?acc) (rid, exp, hop)"
    and le: "\<forall>i \<in> set (filter (eligible conf now) (os_intros os)). fst ?acc \<le> int (paths_to (os_paths os) (intro_relay i))"
    using pivot_scan_ok [OF assms(1), of now conf "os_intros os"] unfolding scan_ok_def by blast+
  show "\<exists>i \<in> set (os_intros os). eligible conf now i \<and> intro_relay i = rid \<and> intro_hop i = hop \<and> pivot_lifetime now i = exp"
    using e by (auto simp: scan_entry_def)
  show "paths_to (os_paths os) rid \<le> paths_to (os_paths os) (intro_relay j)" if "j \<in> set (os_intros os)" "eligible conf now j"
    using e le that by (fastforce simp: scan_entry_def)
  show "pivot_lifetime now j \<le> exp" if "j \<in> set (os_intros os)" "eligible conf now j" "intro_relay j = rid"
    using e that by (auto simp: scan_entry_def)
qed

section \<open>Closing keeps what could be chosen\<close>

lemma map_filter_filter:
  assumes "\<And>x. x \<in> set xs \<Longrightarrow> P x \<Longrightarrow> f' x = f x" and "\<And>x y. x \<in> set xs \<Longrightarrow> f x = Some y \<Longrightarrow> Q y = P x"
  shows "List.map_filter f' (filter P xs) = filter Q (List.map_filter f xs)"
  using assms by (induction xs) (auto simp: map_filter_simps split: option.splits)

definition active_obj :: "ms \<Rightarrow> path_handler \<Rightarrow> hop_id \<times> path_ref \<Rightarrow> (path_ref \<times> path) option" where
  "active_obj now st e =
     (case path_at st (snd e) of None \<Rightarrow> None | Some p \<Rightarrow> if is_active p now then Some (snd e, p) else None)"

lemma active_path_objs_alt: "active_path_objs now st = List.map_filter (active_obj now st) (ph_paths st)"
proof -
  have "List.map_filter (\<lambda>r. map_option (Pair r) (path_at st r))
      (filter (\<lambda>r. case path_at st r of None \<Rightarrow> False | Some p \<Rightarrow> is_active p now) (map snd m)) = List.map_filter (active_obj now st) m" for m
    by (induction m) (auto simp: map_filter_simps active_obj_def split: option.splits)
  then show ?thesis by (simp add: active_path_objs_def active_paths_def)
qed

lemma active_objs_facts:
  assumes "ph_wf st" and "(r, p) \<in> set (active_path_objs now st)"
  shows "path_at st r = Some p" and "is_active p now" and "(edge_id p, r) \<in> set (ph_paths st)"
proof -
  obtain k where k: "(k, r) \<in> set (ph_paths st)" and p: "path_at st r = Some p" "is_active p now"
    using assms(2) by (force simp: active_path_objs_alt map_filter_def active_obj_def split: option.splits if_splits)
  then show "path_at st r = Some p" "is_active p now" by simp_all
  from k p assms(1) show "(edge_id p, r) \<in> set (ph_paths st)"
    by (auto simp: ph_wf_def entries_ok_def path_at_def)
qed

lemma active_objs_unique:
  assumes "ph_wf st" and "(r, p) \<in> set (active_path_objs now st)" and "(r', p') \<in> set (active_path_objs now st)"
    and "edge_id p = edge_id p'"
  shows "r = r' \<and> p = p'"
proof -
  from active_objs_facts(3) [OF assms(1,2)] active_objs_facts(3) [OF assms(1,3)] assms(1,4) have "r = r'"
    by (auto simp: ph_wf_def entries_ok_def dest: eq_key_imp_eq_value)
  with active_objs_facts(1) [OF assms(1,2)] active_objs_facts(1) [OF assms(1,3)] show ?thesis by simp
qed

lemma active_objs_drop:
  assumes "ph_wf st"
  shows "active_path_objs now (ph_drop_path q st) = filter (\<lambda>(r, p). edge_id p \<noteq> edge_id q) (active_path_objs now st)"
proof -
  have e: "map_option edge_id (path_at st (snd x)) = Some (fst x)" if "x \<in> set (ph_paths st)" for x
    using that assms by (auto simp: ph_wf_def entries_ok_def path_at_def)
  have at: "path_at (ph_drop_path q st) (snd x) = path_at st (snd x)" if "x \<in> set (ph_paths st)" "edge_id q \<noteq> fst x" for x
    using path_at_drop [OF assms, of "snd x" q] e [OF that(1)] that(2) by (auto simp: ph_drop_path_def path_at_def)
  have "List.map_filter (active_obj now (ph_drop_path q st)) (filter (\<lambda>x. edge_id q \<noteq> fst x) (ph_paths st)) =
      filter (\<lambda>(r, p). edge_id p \<noteq> edge_id q) (List.map_filter (active_obj now st) (ph_paths st))"
  proof (rule map_filter_filter)
    show "active_obj now (ph_drop_path q st) x = active_obj now st x" if "x \<in> set (ph_paths st)" "edge_id q \<noteq> fst x" for x
      using at [OF that] by (simp add: active_obj_def)
    show "(\<lambda>(r, p). edge_id p \<noteq> edge_id q) y = (edge_id q \<noteq> fst x)" if "x \<in> set (ph_paths st)" "active_obj now st x = Some y" for x y
      using e [OF that(1)] that(2) by (auto simp: active_obj_def split: option.splits if_splits)
  qed
  then show ?thesis
    by (simp add: active_path_objs_alt ph_drop_path_def AList.delete_eq case_prod_unfold)
qed

lemma active_objs_drops:
  "ph_wf st \<Longrightarrow> active_path_objs now (fold ph_drop_path qs st) =
     filter (\<lambda>(r, p). edge_id p \<notin> edge_id ` set qs) (active_path_objs now st)"
proof (induction qs arbitrary: st)
  case (Cons q qs)
  then show ?case
    by (simp add: ph_drop_path_wf active_objs_drop case_prod_unfold conj_commute)
qed simp

lemma close_scan_spec:
  assumes "close_scan conf now cur ps (found, cm, mb) = (found', cm', mb')"
  shows "found' \<longleftrightarrow> found \<or> (\<exists>(r, p) \<in> set ps. cur \<noteq> Some r \<and> pc_acceptable_expiry conf \<le> expires_in p now)"
    and "p \<in> set cm' \<Longrightarrow> p \<in> set cm \<or> (\<exists>r. (r, p) \<in> set ps \<and> cur \<noteq> Some r \<and> expires_in p now < pc_min_expiry conf \<and>
      expires_in p now < pc_acceptable_expiry conf)"
    and "p \<in> set mb' \<Longrightarrow> p \<in> set mb \<or> (\<exists>r. (r, p) \<in> set ps \<and> cur \<noteq> Some r \<and> expires_in p now < pc_acceptable_expiry conf)"
proof -
  have "(found' \<longleftrightarrow> found \<or> (\<exists>(r, p) \<in> set ps. cur \<noteq> Some r \<and> pc_acceptable_expiry conf \<le> expires_in p now)) \<and>
    (\<forall>p \<in> set cm'. p \<in> set cm \<or> (\<exists>r. (r, p) \<in> set ps \<and> cur \<noteq> Some r \<and> expires_in p now < pc_min_expiry conf \<and>
      expires_in p now < pc_acceptable_expiry conf)) \<and>
    (\<forall>p \<in> set mb'. p \<in> set mb \<or> (\<exists>r. (r, p) \<in> set ps \<and> cur \<noteq> Some r \<and> expires_in p now < pc_acceptable_expiry conf))"
    using assms
  proof (induction ps arbitrary: found cm mb)
    case (Cons e ps)
    obtain r p where e: "e = (r, p)" by (cases e)
    obtain f1 c1 m1 where acc: "(f1, c1, m1) =
      (if cur = Some r then (found, cm, mb)
        else if pc_acceptable_expiry conf \<le> expires_in p now then (True, cm, mb)
        else if expires_in p now < pc_min_expiry conf then (found, cm @ [p], mb)
        else if \<not> found then (found, cm, mb @ [p])
        else (found, cm, mb))"
      using prod_cases3 by metis
    have step: "close_scan conf now cur ps (f1, c1, m1) = (found', cm', mb')" using Cons.prems by (simp only: e close_scan.simps acc)
    have f: "f1 \<longleftrightarrow> found \<or> (cur \<noteq> Some r \<and> pc_acceptable_expiry conf \<le> expires_in p now)"
      and c: "q \<in> set c1 \<Longrightarrow> q \<in> set cm \<or> (q = p \<and> cur \<noteq> Some r \<and> expires_in p now < pc_min_expiry conf \<and>
        expires_in p now < pc_acceptable_expiry conf)"
      and m: "q \<in> set m1 \<Longrightarrow> q \<in> set mb \<or> (q = p \<and> cur \<noteq> Some r \<and> expires_in p now < pc_acceptable_expiry conf)" for q
      using acc by (auto split: if_splits)
    note IH = Cons.IH [OF step, THEN conjunct1] Cons.IH [OF step, THEN conjunct2, THEN conjunct1, rule_format]
      Cons.IH [OF step, THEN conjunct2, THEN conjunct2, rule_format]
    show ?case
    proof (intro conjI ballI)
      show "found' \<longleftrightarrow> found \<or> (\<exists>(r, p) \<in> set (e # ps). cur \<noteq> Some r \<and> pc_acceptable_expiry conf \<le> expires_in p now)"
        using IH(1) f by (simp add: e)
    next
      fix q assume "q \<in> set cm'"
      from IH(2) [OF this] c [of q] show "q \<in> set cm \<or> (\<exists>r. (r, q) \<in> set (e # ps) \<and> cur \<noteq> Some r \<and>
        expires_in q now < pc_min_expiry conf \<and> expires_in q now < pc_acceptable_expiry conf)"
        unfolding e by (elim disjE) auto
    next
      fix q assume "q \<in> set mb'"
      from IH(3) [OF this] m [of q] show "q \<in> set mb \<or> (\<exists>r. (r, q) \<in> set (e # ps) \<and> cur \<noteq> Some r \<and>
        expires_in q now < pc_acceptable_expiry conf)"
        unfolding e by (elim disjE) auto
    qed
  qed auto
  then show "found' \<longleftrightarrow> found \<or> (\<exists>(r, p) \<in> set ps. cur \<noteq> Some r \<and> pc_acceptable_expiry conf \<le> expires_in p now)"
    and "p \<in> set cm' \<Longrightarrow> p \<in> set cm \<or> (\<exists>r. (r, p) \<in> set ps \<and> cur \<noteq> Some r \<and> expires_in p now < pc_min_expiry conf \<and>
      expires_in p now < pc_acceptable_expiry conf)"
    and "p \<in> set mb' \<Longrightarrow> p \<in> set mb \<or> (\<exists>r. (r, p) \<in> set ps \<and> cur \<noteq> Some r \<and> expires_in p now < pc_acceptable_expiry conf)"
    by blast+
qed

lemma close_old_paths_objs:
  assumes wf: "ph_wf (os_paths os)"
  shows "\<exists>keep. active_path_objs now (os_paths (close_old_paths conf now os)) =
      filter (\<lambda>(r, p). keep r p) (active_path_objs now (os_paths os)) \<and>
    (\<forall>(r, p) \<in> set (active_path_objs now (os_paths os)).
       (s_path (os_sess os) = Some r \<longrightarrow> keep r p) \<and> (pc_acceptable_expiry conf \<le> expires_in p now \<longrightarrow> keep r p) \<and>
       (pc_min_expiry conf \<le> expires_in p now \<longrightarrow> \<not> keep r p \<longrightarrow>
         (\<exists>(r', p') \<in> set (active_path_objs now (os_paths os)). pc_acceptable_expiry conf \<le> expires_in p' now)))"
proof -
  let ?L = "active_path_objs now (os_paths os)"
  obtain found cm mb where s: "close_scan conf now (s_path (os_sess os)) ?L (False, [], []) = (found, cm, mb)"
    using prod_cases3 by blast
  define qs where "qs = cm @ (if found then mb else [])"
  note spec = close_scan_spec [OF s]
  have objs: "active_path_objs now (os_paths (close_old_paths conf now os)) = filter (\<lambda>(r, p). edge_id p \<notin> edge_id ` set qs) ?L"
    using active_objs_drops [OF wf, of now qs] by (simp add: close_old_paths_def s qs_def)
  have dropped: "s_path (os_sess os) \<noteq> Some r \<and> expires_in p now < pc_acceptable_expiry conf \<and> (expires_in p now < pc_min_expiry conf \<or> found)"
    if L: "(r, p) \<in> set ?L" and "edge_id p \<in> edge_id ` set qs" for r p
  proof -
    from that(2) obtain q where q: "q \<in> set qs" "edge_id p = edge_id q" by auto
    from q(1) obtain r' where r': "(r', q) \<in> set ?L" "s_path (os_sess os) \<noteq> Some r'" "expires_in q now < pc_acceptable_expiry conf"
      "expires_in q now < pc_min_expiry conf \<or> found"
      using spec(2,3) [of q] by (auto simp: qs_def split: if_splits)
    with active_objs_unique [OF wf L r'(1) q(2)] show ?thesis by simp
  qed
  have "found \<Longrightarrow> \<exists>(r', p') \<in> set ?L. pc_acceptable_expiry conf \<le> expires_in p' now" using spec(1) by auto
  with dropped show ?thesis
    by (intro exI [of _ "\<lambda>r p. edge_id p \<notin> edge_id ` set qs"]) (fastforce simp: objs)
qed

lemma active_paths_objs: "active_paths now st = map fst (active_path_objs now st)"
proof -
  have "filter (\<lambda>r. case path_at st r of None \<Rightarrow> False | Some p \<Rightarrow> is_active p now) rs = map fst (List.map_filter (\<lambda>r. map_option (Pair r) (path_at st r))
      (filter (\<lambda>r. case path_at st r of None \<Rightarrow> False | Some p \<Rightarrow> is_active p now) rs))" for rs
    by (induction rs) (auto simp: map_filter_simps split: option.splits)
  then show ?thesis by (simp add: active_path_objs_def active_paths_def)
qed

lemma close_old_relay_candidates:
  assumes wf: "ph_wf (os_paths os)" and le: "pc_min_expiry conf \<le> pc_acceptable_expiry conf"
    and c: "relay_candidates conf now (os_paths os) = (good, fallback)"
    and c': "relay_candidates conf now (os_paths (close_old_paths conf now os)) = (good', fallback')"
  shows "good' = good" and "good = [] \<Longrightarrow> fallback' = fallback"
proof -
  let ?L = "active_path_objs now (os_paths os)"
  from close_old_paths_objs [OF wf, of now conf] obtain keep where
    L': "active_path_objs now (os_paths (close_old_paths conf now os)) = filter (\<lambda>(r, p). keep r p) ?L" and
    k: "\<And>r p. (r, p) \<in> set ?L \<Longrightarrow> pc_acceptable_expiry conf \<le> expires_in p now \<Longrightarrow> keep r p"
    "\<And>r p. (r, p) \<in> set ?L \<Longrightarrow> pc_min_expiry conf \<le> expires_in p now \<Longrightarrow> \<not> keep r p \<Longrightarrow>
      \<exists>(r', p') \<in> set ?L. pc_acceptable_expiry conf \<le> expires_in p' now"
    by blast
  have g: "good = map (\<lambda>(r, p). (r, terminal_hopid p)) (filter (\<lambda>(r, p). pc_acceptable_expiry conf \<le> expires_in p now \<and> pc_min_expiry conf \<le> expires_in p now) ?L)"
    "fallback = map (\<lambda>(r, p). (r, terminal_hopid p)) (filter (\<lambda>(r, p). \<not> pc_acceptable_expiry conf \<le> expires_in p now \<and> pc_min_expiry conf \<le> expires_in p now) ?L)"
    using c by (auto simp: relay_candidates_def Let_def case_prod_unfold comp_def intro!: arg_cong [where f = "map _"] filter_cong)
  have g': "good' = map (\<lambda>(r, p). (r, terminal_hopid p)) (filter (\<lambda>(r, p). keep r p \<and> pc_acceptable_expiry conf \<le> expires_in p now \<and> pc_min_expiry conf \<le> expires_in p now) ?L)"
    "fallback' = map (\<lambda>(r, p). (r, terminal_hopid p)) (filter (\<lambda>(r, p). keep r p \<and> \<not> pc_acceptable_expiry conf \<le> expires_in p now \<and> pc_min_expiry conf \<le> expires_in p now) ?L)"
    using c' by (auto simp: relay_candidates_def L' Let_def case_prod_unfold comp_def intro!: arg_cong [where f = "map _"] filter_cong)
  show "good' = good"
    unfolding g g' using k(1) by (intro arg_cong [where f = "map _"] filter_cong) auto
  show "fallback' = fallback" if "good = []"
  proof -
    have "keep r p" if "(r, p) \<in> set ?L" "pc_min_expiry conf \<le> expires_in p now" for r p
      using k(2) [OF that] \<open>good = []\<close> le by (force simp: g filter_empty_conv)
    then show ?thesis
      unfolding g g' by (intro arg_cong [where f = "map _"] filter_cong) auto
  qed
qed

section \<open>How builds change the termini\<close>

definition termini :: "path_handler \<Rightarrow> hop_id \<Rightarrow> router_id option" where
  "termini st k = map_option terminal_rid (paths_view st k)"

lemma paths_to_zero:
  assumes "ph_wf st"
  shows "paths_to st rid = 0 \<longleftrightarrow> Some rid \<notin> range (termini st)"
proof -
  have m: "map_of (ph_paths st) k = Some r \<longleftrightarrow> (k, r) \<in> set (ph_paths st)" for k r
    using assms by (simp add: ph_wf_def entries_ok_def)
  have "Some rid = termini st k \<longleftrightarrow> (\<exists>r p. map_of (ph_paths st) k = Some r \<and> path_at st r = Some p \<and> terminal_rid p = rid)" for k
    by (cases "map_of (ph_paths st) k"; cases "path_at st (the (map_of (ph_paths st) k))") (auto simp: termini_def paths_view_def)
  then have "Some rid \<in> range (termini st) \<longleftrightarrow> (\<exists>k r p. map_of (ph_paths st) k = Some r \<and> path_at st r = Some p \<and> terminal_rid p = rid)"
    unfolding image_iff by simp
  then show ?thesis
    unfolding m by (force simp: paths_to_def filter_empty_conv split: option.splits)
qed

lemma length_paths_view:
  assumes "ph_wf st"
  shows "length (ph_paths st) = card (Map.dom (paths_view st))"
proof -
  have "paths_view st k = None \<longleftrightarrow> map_of (ph_paths st) k = None" for k
    using paths_view_Some [OF assms, of k] by (cases "map_of (ph_paths st) k") (auto simp: paths_view_def)
  then have "Map.dom (paths_view st) = fst ` set (ph_paths st)"
    by (simp add: dom_map_of_conv_image_fst [symmetric] Map.dom_def)
  moreover have "distinct (map fst (ph_paths st))" using assms by (simp add: ph_wf_def entries_ok_def)
  ultimately show ?thesis by (metis card_distinct distinct_card length_map list.set_map)
qed

lemma onion_terminus:
  assumes "path_build_onion S X R junk now (path_new self rnd rcs t) = Inr (p, m)" and "rcs \<noteq> []"
  shows "terminal_rid p = rc_router_id (last rcs)"
proof -
  have "map hop_ident (hops p) = map hop_ident (path_hops rnd 1 self (rnd 0) rcs)"
    using path_build_onion_ident(1) [OF assms(1)] by (simp add: path_new_def)
  moreover have "map router_id hs = map (fst \<circ> snd \<circ> snd) (map hop_ident hs)" for hs by (simp add: hop_ident_def)
  ultimately have "map router_id (hops p) = map rc_router_id rcs"
    by (simp only: path_hops_router_ids [of rnd 1 self "rnd 0" rcs, symmetric])
  then show ?thesis
    using assms(2) by (metis last_map list.map_disc_iff terminal_rid_def terminus_def)
qed

lemma start_build_cases:
  assumes wf: "ph_wf st" and ok: "rcs_ok (known_rcs (oe_db E))"
    and n: "1 \<le> sel_num_hops (oe_select E)" "sel_num_hops (oe_select E) \<le> BUILD_LENGTH"
    and s: "start_build E i remote l st = (Inr res, st')"
  shows "ph_wf st'"
    and "res = None \<Longrightarrow> paths_view st' = paths_view st"
    and "res = Some r \<Longrightarrow> get_rc (oe_db E) remote \<noteq> None \<and>
      (\<exists>k p. paths_view st k = None \<and> paths_view st' = (paths_view st)(k \<mapsto> p) \<and> terminal_rid p = remote)"
proof -
  let ?B = "bst_build (oe_step E i)"
  have "ph_wf st' \<and> (res = None \<longrightarrow> paths_view st' = paths_view st) \<and> (\<forall>r. res = Some r \<longrightarrow> get_rc (oe_db E) remote \<noteq> None \<and>
      (\<exists>k p. paths_view st k = None \<and> paths_view st' = (paths_view st)(k \<mapsto> p) \<and> terminal_rid p = remote))"
  proof (cases "select_hops_to_remote (oe_select E) (oe_db E) (ph_profiling st) (bst_draws (oe_step E i)) remote")
    case None
    then show ?thesis using s wf by (simp add: start_build_def build_path_to_remote_def)
  next
    case (Some rcs)
    obtain b st1 where b: "build ?B (oe_sent E) rcs (be_now ?B + l) st = (b, st1)" by fastforce
    note v = build_view [OF wf b] and h = selected_hops_facts [OF ok Some n]
    have st1: "st1 = st'" and bres: "case b of BuildSent r u msg \<Rightarrow> res = Some r | BuildThrew e \<Rightarrow> False | _ \<Rightarrow> res = None"
      using s by (auto simp: start_build_def build_path_to_remote_def Some b split: build_result.splits)
    have "ph_wf st'" using build_wf [OF wf, of ?B "oe_sent E" rcs "be_now ?B + l"] by (simp add: b st1)
    moreover have "get_rc (oe_db E) remote \<noteq> None"
      using Some by (auto simp: select_hops_to_remote_def split: option.splits)
    ultimately show ?thesis
      using v bres h by (cases b) (auto simp: st1 dest!: onion_terminus)
  qed
  then show "ph_wf st'" and "res = None \<Longrightarrow> paths_view st' = paths_view st"
    and "res = Some r \<Longrightarrow> get_rc (oe_db E) remote \<noteq> None \<and>
      (\<exists>k p. paths_view st k = None \<and> paths_view st' = (paths_view st)(k \<mapsto> p) \<and> terminal_rid p = remote)"
    by blast+
qed

lemma align_view:
  assumes "ph_wf st" and "path_at st r = Some p"
  shows "ph_wf (set_path_at r (p\<lparr>aligned_hopid := h\<rparr>) st)" and "termini (set_path_at r (p\<lparr>aligned_hopid := h\<rparr>) st) = termini st"
    and "ph_paths (set_path_at r (p\<lparr>aligned_hopid := h\<rparr>) st) = ph_paths st"
  using assms set_path_at_wf [OF assms(1), of r "p\<lparr>aligned_hopid := h\<rparr>"]
  by (auto simp: edge_def fun_eq_iff termini_def paths_view_def set_path_at_def path_at_def terminal_rid_def terminus_def
      split: bind_split)

subsection \<open>The build loop with a relay that cannot be reached\<close>

definition unserved :: "router_id \<Rightarrow> out_session \<Rightarrow> router_id set" where
  "unserved u os = {rid \<in> intro_relay ` set (os_intros os). rid \<noteq> u \<and> Some rid \<notin> range (termini (os_paths os))}"

definition stuck :: "int \<Rightarrow> client_intro \<Rightarrow> int \<Rightarrow> out_session \<Rightarrow> bool" where
  "stuck needed u sent os \<longleftrightarrow>
     ph_wf (os_paths os) \<and> u \<in> set (os_intros os) \<and> Some (intro_relay u) \<notin> range (termini (os_paths os)) \<and>
     sent + int (card (unserved (intro_relay u) os)) < needed \<and> int (length (ph_paths (os_paths os))) + (needed - sent) < 2 ^ 31 - 1"

lemma finite_unserved [simp]: "finite (unserved u os)"
  by (simp add: unserved_def)

lemma stuck_pivot:
  assumes "stuck needed u sent os" and "eligible conf now u" and "\<forall>n > 0. pick n < n"
  shows "\<exists>rid exp hop. select_pivot conf now pick os = Some (rid, exp, hop) \<and> rid \<in> intro_relay ` set (os_intros os) \<and>
    Some rid \<notin> range (termini (os_paths os))"
proof -
  have wf: "ph_wf (os_paths os)" and u: "u \<in> set (os_intros os)" "paths_to (os_paths os) (intro_relay u) = 0"
    and small: "int (length (ph_paths (os_paths os))) < 2 ^ 31 - 1"
    using assms(1) paths_to_zero by (auto simp: stuck_def)
  from select_pivot_None [OF small, of conf now pick] u(1) assms(2) obtain rid exp hop where
    s: "select_pivot conf now pick os = Some (rid, exp, hop)" by (cases "select_pivot conf now pick os") auto
  from select_pivot_facts(1) [OF small assms(3) s] have "rid \<in> intro_relay ` set (os_intros os)" by auto
  moreover from select_pivot_facts(2) [OF small assms(3) s u(1) assms(2)] u(2) have "Some rid \<notin> range (termini (os_paths os))"
    by (simp add: paths_to_zero [OF wf])
  ultimately show ?thesis using s by blast
qed

lemma stuck_unsent:
  assumes "stuck needed u sent os" and "ph_wf st" and "paths_view st = paths_view (os_paths os)"
  shows "stuck needed u sent (os\<lparr>os_paths := st\<rparr>)"
proof -
  have "termini st = termini (os_paths os)" using assms(3) by (simp add: termini_def fun_eq_iff)
  moreover have "length (ph_paths st) = length (ph_paths (os_paths os))"
    using assms length_paths_view [of st] length_paths_view [of "os_paths os"] by (simp add: stuck_def)
  ultimately show ?thesis using assms(1,2) by (simp add: stuck_def unserved_def)
qed

lemma stuck_sent:
  assumes st: "stuck needed u sent os" and wf: "ph_wf st" and v: "paths_view (os_paths os) k = None" "paths_view st = (paths_view (os_paths os))(k \<mapsto> p)"
    and p: "terminal_rid p \<noteq> intro_relay u" "terminal_rid p \<in> intro_relay ` set (os_intros os)"
    "Some (terminal_rid p) \<notin> range (termini (os_paths os))"
    and st': "ph_wf st'" "termini st' = termini st" "ph_paths st' = ph_paths st"
  shows "stuck needed u (sent + 1) (os\<lparr>os_paths := st'\<rparr>)"
proof -
  have t: "termini st' = (termini (os_paths os))(k \<mapsto> terminal_rid p)" using v(2) st'(2) by (simp add: termini_def fun_eq_iff)
  have k: "termini (os_paths os) k = None" using v(1) by (simp add: termini_def)
  have r: "range (termini st') = insert (Some (terminal_rid p)) (termini (os_paths os) ` (- {k}))" unfolding t by (auto simp: image_iff)
  have some: "Some x \<in> range (termini st') \<longleftrightarrow> x = terminal_rid p \<or> Some x \<in> range (termini (os_paths os))" for x
    unfolding r using k by (auto simp: image_iff)
  have "unserved (intro_relay u) (os\<lparr>os_paths := st'\<rparr>) = unserved (intro_relay u) os - {terminal_rid p}"
  proof -
    have "unserved (intro_relay u) (os\<lparr>os_paths := st'\<rparr>) =
        {rid \<in> intro_relay ` set (os_intros os). rid \<noteq> intro_relay u \<and> Some rid \<notin> range (termini st')}" by (simp add: unserved_def)
    then show ?thesis unfolding some by (auto simp: unserved_def)
  qed
  moreover have "terminal_rid p \<in> unserved (intro_relay u) os" using p by (simp add: unserved_def)
  then have "int (card (unserved (intro_relay u) os - {terminal_rid p})) + 1 = int (card (unserved (intro_relay u) os))"
    using card_Suc_Diff1 [OF finite_unserved] by fastforce
  moreover have "length (ph_paths st') = Suc (length (ph_paths (os_paths os)))"
  proof -
    have "finite (Map.dom (paths_view (os_paths os)))"
      by (rule finite_subset [OF _ finite_dom_map_of [of "ph_paths (os_paths os)"]]) (auto simp: paths_view_def bind_eq_Some_conv)
    then show ?thesis
      using st v wf length_paths_view [of st] length_paths_view [of "os_paths os"]
      by (simp add: stuck_def st'(3) domIff)
  qed
  ultimately show ?thesis using st st'(1) p(1) some by (simp add: stuck_def)
qed

lemma stuck_loop:
  assumes "rcs_ok (known_rcs (oe_db E))" and "1 \<le> sel_num_hops (oe_select E)" "sel_num_hops (oe_select E) \<le> BUILD_LENGTH"
    and "get_rc (oe_db E) (intro_relay u) = None"
    and "\<forall>j < i + n. eligible (oe_conf E) (bst_now (oe_step E j)) u \<and> (\<forall>m > 0. bst_pick (oe_step E j) m < m)"
    and "stuck needed u sent os"
  shows "client_build_loop n E needed i sent os = Some (err, sent', os') \<Longrightarrow> err \<noteq> None"
  using assms(5,6)
proof (induction n arbitrary: i sent os)
  case (Suc n)
  let ?S = "oe_step E i"
  have step: "\<forall>j < Suc i + n. eligible (oe_conf E) (bst_now (oe_step E j)) u \<and> (\<forall>m > 0. bst_pick (oe_step E j) m < m)"
    using Suc.prems(2) by simp
  have "\<not> needed \<le> sent" and wf: "ph_wf (os_paths os)" using Suc.prems(3) by (auto simp: stuck_def)
  from stuck_pivot [OF Suc.prems(3), of "oe_conf E" "bst_now ?S" "bst_pick ?S"] Suc.prems(2) obtain rid exp hop where
    s: "select_pivot (oe_conf E) (bst_now ?S) (bst_pick ?S) os = Some (rid, exp, hop)" and
    rid: "rid \<in> intro_relay ` set (os_intros os)" "Some rid \<notin> range (termini (os_paths os))" by auto
  obtain res st where b: "start_build E i rid (exp * 1000) (os_paths os) = (res, st)" by fastforce
  note loop = Suc.prems(1) [unfolded client_build_loop.simps s option.case prod.case b if_not_P [OF \<open>\<not> needed \<le> sent\<close>]]
  consider e where "res = Inl e" | "res = Inr None" | r where "res = Inr (Some r)" by (cases res) auto
  then show ?case
  proof cases
    case 1
    then show ?thesis using loop by auto
  next
    case 2
    note v = start_build_cases [OF wf assms(1-3) b [unfolded 2]]
    have "stuck needed u sent (os\<lparr>os_paths := st\<rparr>)" using v by (intro stuck_unsent [OF Suc.prems(3)]) auto
    from Suc.IH [OF _ step this] loop 2 show ?thesis by simp
  next
    case 3
    note v = start_build_cases [OF wf assms(1-3) b [unfolded 3]]
    from v(3) [OF refl] obtain k p where kp: "paths_view (os_paths os) k = None" "paths_view st = (paths_view (os_paths os))(k \<mapsto> p)"
      "terminal_rid p = rid" by blast
    have "rid \<noteq> intro_relay u" using v(3) [OF refl] assms(4) by auto
    define st' where "st' = (case path_at st r of None \<Rightarrow> st | Some q \<Rightarrow> set_path_at r (q\<lparr>aligned_hopid := Some hop\<rparr>) st)"
    have st': "ph_wf st'" "termini st' = termini st" "ph_paths st' = ph_paths st"
      using v(1) align_view [OF v(1), of r] by (auto simp: st'_def split: option.split)
    have "stuck needed u (sent + 1) (os\<lparr>os_paths := st'\<rparr>)"
      using kp(3) rid \<open>rid \<noteq> intro_relay u\<close> by (intro stuck_sent [OF Suc.prems(3) v(1) kp(1,2) _ _ _ st']) auto
    from Suc.IH [OF _ step this] loop 3 show ?thesis by (simp add: st'_def Let_def)
  qed
qed simp

section \<open>Properties\<close>

text \<open>
  C28: The pivot of a new path.  When some introduction lives long enough, the chosen relay is one of
  such an introduction, no such introduction's relay has fewer paths, and the lifetime and hop id are
  those of the longest-lived introduction at that relay (capped by the maximal lifetime of a path).  Otherwise there is none.
\<close>

theorem select_pivot_fewest:
  assumes "int (length (ph_paths (os_paths os))) < 2 ^ 31 - 1" and "\<forall>n > 0. pick n < n"
  shows "case select_pivot conf now pick os of
      None \<Rightarrow> (\<forall>i \<in> set (os_intros os). \<not> eligible conf now i)
    | Some (rid, exp, hop) \<Rightarrow>
        (\<exists>i \<in> set (os_intros os). eligible conf now i \<and> intro_relay i = rid \<and> intro_hop i = hop \<and> pivot_lifetime now i = exp) \<and>
        (\<forall>j \<in> set (os_intros os). eligible conf now j \<longrightarrow> paths_to (os_paths os) rid \<le> paths_to (os_paths os) (intro_relay j) \<and>
          (intro_relay j = rid \<longrightarrow> pivot_lifetime now j \<le> exp))"
  using select_pivot_None [OF assms(1), of conf now pick] select_pivot_facts [OF assms]
  by (auto split: option.split)

theorem select_pivot_fewest_witness:
  "\<forall>os. let a = \<lparr>intro_relay = [1], intro_hop = [7], intro_expiry = 900\<rparr>; b = \<lparr>intro_relay = [1], intro_hop = [8], intro_expiry = 950\<rparr>;
      c = \<lparr>intro_relay = [2], intro_hop = [9], intro_expiry = 3\<rparr>;
      conf = \<lparr>pc_target = 4, pc_min_expiry = 5000, pc_acceptable_expiry = 60000\<rparr>;
      os' = os\<lparr>os_paths := path_handler_new path_context_new profiling_new, os_intros := [a, b, c]\<rparr>
    in select_pivot conf 0 (\<lambda>_. 0) os' = Some ([1], 950, [8]) \<and> pivot_lifetime 0 a \<le> 950"
proof
  fix os :: out_session
  let ?a = "\<lparr>intro_relay = [1], intro_hop = [7], intro_expiry = 900\<rparr> :: client_intro"
  let ?b = "\<lparr>intro_relay = [1], intro_hop = [8], intro_expiry = 950\<rparr> :: client_intro"
  let ?c = "\<lparr>intro_relay = [2], intro_hop = [9], intro_expiry = 3\<rparr> :: client_intro"
  let ?conf = "\<lparr>pc_target = 4, pc_min_expiry = 5000, pc_acceptable_expiry = 60000\<rparr>"
  let ?os = "os\<lparr>os_paths := path_handler_new path_context_new profiling_new, os_intros := [?a, ?b, ?c]\<rparr>"
  have p: "select_pivot ?conf 0 (\<lambda>_. 0) ?os = Some ([1], 950, [8])"
    by (simp add: select_pivot_def paths_to_def path_handler_new_def intro_expires_in_def lifetime_consts)
  from select_pivot_fewest [of ?os "\<lambda>_. 0" ?conf 0] have "pivot_lifetime 0 ?a \<le> 950"
    unfolding p by (simp add: path_handler_new_def eligible_def)
  with p show "let a = ?a; b = ?b; c = ?c; conf = ?conf; os' = os\<lparr>os_paths := path_handler_new path_context_new profiling_new, os_intros := [a, b, c]\<rparr>
    in select_pivot conf 0 (\<lambda>_. 0) os' = Some ([1], 950, [8]) \<and> pivot_lifetime 0 a \<le> 950"
    unfolding Let_def by blast
qed

text \<open>
  C29: In a session with a relay, closing old paths never changes what the next current path is chosen
  from, and never closes the current path.
\<close>

theorem close_old_keeps_choices:
  assumes "ph_wf (os_paths os)" and "s_is_relay (os_sess os)" and "pc_min_expiry conf \<le> pc_acceptable_expiry conf"
  shows "current_choices conf now (close_old_paths conf now os) = current_choices conf now os \<and>
    (\<forall>r. s_path (os_sess os) = Some r \<and> r \<in> set (active_paths now (os_paths os)) \<longrightarrow>
       r \<in> set (active_paths now (os_paths (close_old_paths conf now os))))"
proof -
  obtain g f g' f' where c: "relay_candidates conf now (os_paths os) = (g, f)"
    "relay_candidates conf now (os_paths (close_old_paths conf now os)) = (g', f')" by fastforce
  note k = close_old_relay_candidates [OF assms(1,3) c]
  have sess: "os_sess (close_old_paths conf now os) = os_sess os"
    by (simp add: close_old_paths_def split: prod.split)
  have "current_choices conf now (close_old_paths conf now os) = current_choices conf now os"
    using k assms(2) c by (simp add: current_choices_def candidates_def sess)
  moreover have "r \<in> set (active_paths now (os_paths (close_old_paths conf now os)))"
    if "s_path (os_sess os) = Some r" "r \<in> set (active_paths now (os_paths os))" for r
    using close_old_paths_objs [OF assms(1), of now conf] that by (force simp: active_paths_objs)
  ultimately show ?thesis by blast
qed

text \<open>Of two active paths the one of acceptable expiry stays, the other is closed.\<close>

theorem close_old_keeps_choices_witness:
  "\<forall>os s. let p = demo_path demo_hops_p; q = (demo_path demo_hops_q)\<lparr>path_expiry := 20000\<rparr>;
      conf = \<lparr>pc_target = 4, pc_min_expiry = 5000, pc_acceptable_expiry = 60000\<rparr>;
      st = (path_handler_new (path_context_new\<lparr>path_objs := [0 \<mapsto> p, 1 \<mapsto> q]\<rparr>) profiling_new)\<lparr>
        ph_paths := [(edge_id q, 1), (edge_id p, 0)], ph_next_ref := 2\<rparr>;
      os' = os\<lparr>os_paths := st, os_sess := s\<lparr>s_is_relay := True, s_path := None\<rparr>\<rparr>
    in current_choices conf 0 (close_old_paths conf 0 os') = [(0, terminal_hopid p)] \<and>
       active_paths 0 (os_paths os') = [1, 0] \<and> active_paths 0 (os_paths (close_old_paths conf 0 os')) = [0]"
proof (intro allI)
  fix os :: out_session and s :: session
  let ?p = "demo_path demo_hops_p" and ?q = "(demo_path demo_hops_q)\<lparr>path_expiry := 20000\<rparr>"
  let ?conf = "\<lparr>pc_target = 4, pc_min_expiry = 5000, pc_acceptable_expiry = 60000\<rparr>"
  let ?st = "(path_handler_new (path_context_new\<lparr>path_objs := [0 \<mapsto> ?p, 1 \<mapsto> ?q]\<rparr>) profiling_new)\<lparr>
        ph_paths := [(edge_id ?q, 1), (edge_id ?p, 0)], ph_next_ref := 2\<rparr>"
  let ?os = "os\<lparr>os_paths := ?st, os_sess := s\<lparr>s_is_relay := True, s_path := None\<rparr>\<rparr>"
  have e: "edge_id ?q \<noteq> edge_id ?p" by (simp add: demo_path_def edge_def demo_hops_p_def demo_hops_q_def demo_hop_def demo_hopid_def)
  have a: "is_active ?p 0" "is_active ?q 0" "expires_in ?p 0 = 600000" "expires_in ?q 0 = 20000"
    by (simp_all add: demo_path_def is_active_def is_expired_def expires_in_def path_new_def)
  have wf: "ph_wf ?st" using e by (simp add: ph_wf_def path_handler_new_def path_context_new_def entries_ok_def)
  have at: "path_at ?st 0 = Some ?p" "path_at ?st 1 = Some ?q" "ph_paths ?st = [(edge_id ?q, 1), (edge_id ?p, 0)]"
    by (simp_all add: path_at_def path_handler_new_def path_context_new_def)
  have L: "active_path_objs 0 ?st = [(1, ?q), (0, ?p)]"
    using a(1,2) at by (simp add: active_path_objs_alt active_obj_def map_filter_simps)
  have "active_path_objs 0 (os_paths (close_old_paths ?conf 0 ?os)) = [(0, ?p)]"
    using active_objs_drops [OF wf, of 0 "[?q]"] e a L by (simp add: close_old_paths_def)
  moreover have "current_choices ?conf 0 ?os = [(0, terminal_hopid ?p)]"
    using L a by (simp add: current_choices_def candidates_def relay_candidates_def)
  ultimately have "current_choices ?conf 0 (close_old_paths ?conf 0 ?os) = [(0, terminal_hopid ?p)] \<and>
       active_paths 0 (os_paths ?os) = [1, 0] \<and> active_paths 0 (os_paths (close_old_paths ?conf 0 ?os)) = [0]"
    using close_old_keeps_choices [of ?os ?conf 0] wf L by (simp add: active_paths_objs)
  then show "let p = ?p; q = ?q; conf = ?conf;
      st = (path_handler_new (path_context_new\<lparr>path_objs := [0 \<mapsto> p, 1 \<mapsto> q]\<rparr>) profiling_new)\<lparr>
        ph_paths := [(edge_id q, 1), (edge_id p, 0)], ph_next_ref := 2\<rparr>;
      os' = os\<lparr>os_paths := st, os_sess := s\<lparr>s_is_relay := True, s_path := None\<rparr>\<rparr>
    in current_choices conf 0 (close_old_paths conf 0 os') = [(0, terminal_hopid p)] \<and>
       active_paths 0 (os_paths os') = [1, 0] \<and> active_paths 0 (os_paths (close_old_paths conf 0 os')) = [0]"
    unfolding Let_def by blast
qed

text \<open>
  C30: The build loop of a session with a client does not end normally while an introduction names a
  relay without a known contact, no path leads there, and fewer other relays are without a path than
  builds are needed: that relay is chosen again and again, no build is ever sent to it, and nothing
  counts the attempts.
\<close>

theorem unbuildable_intro_hangs:
  assumes "ph_wf (os_paths os)" and "rcs_ok (known_rcs (oe_db E))"
    and "1 \<le> sel_num_hops (oe_select E)" and "sel_num_hops (oe_select E) \<le> BUILD_LENGTH"
    and "u \<in> set (os_intros os)" and "get_rc (oe_db E) (intro_relay u) = None" and "paths_to (os_paths os) (intro_relay u) = 0"
    and "int (card {rid \<in> intro_relay ` set (os_intros os). rid \<noteq> intro_relay u \<and> paths_to (os_paths os) rid = 0}) < needed"
    and "int (length (ph_paths (os_paths os))) + needed < 2 ^ 31 - 1"
    and "\<forall>i < n. eligible (oe_conf E) (bst_now (oe_step E i)) u \<and> (\<forall>m > 0. bst_pick (oe_step E i) m < m)"
  shows "case client_build_loop n E needed 0 0 os of None \<Rightarrow> True | Some (err, sent, os') \<Rightarrow> err \<noteq> None"
proof -
  have "stuck needed u 0 os"
    using assms by (simp add: stuck_def unserved_def paths_to_zero [OF assms(1)])
  then show ?thesis
    using stuck_loop [OF assms(2-4,6), of 0 n needed 0 os] assms(10) by (auto split: option.split)
qed

text \<open>Two introductions, one at a known relay and one at an unknown relay, and two paths needed.\<close>

theorem unbuildable_intro_hangs_witness:
  "\<forall>E os n. let a = \<lparr>intro_relay = [1], intro_hop = [7], intro_expiry = 900\<rparr>; b = \<lparr>intro_relay = [2], intro_hop = [8], intro_expiry = 950\<rparr>;
      rc = \<lparr>rc_router_id = [1], rc_addr = [], rc_addr6 = None, rc_timestamp = 0, rc_netid = 0, rc_version = [], rc_payload = []\<rparr>;
      E' = E\<lparr>oe_db := nodedb_new []\<lparr>known_rcs := [([1], rc)]\<rparr>, oe_select := (oe_select E)\<lparr>sel_num_hops := 3\<rparr>,
        oe_conf := \<lparr>pc_target = 4, pc_min_expiry = 5000, pc_acceptable_expiry = 60000\<rparr>,
        oe_step := (\<lambda>i. (oe_step E i)\<lparr>bst_now := int i, bst_pick := (\<lambda>m. i mod m)\<rparr>)\<rparr>;
      os' = os\<lparr>os_paths := path_handler_new path_context_new profiling_new, os_intros := [a, b]\<rparr>
    in case client_build_loop (n mod 80000) E' 2 0 0 os' of None \<Rightarrow> True | Some (err, _) \<Rightarrow> err \<noteq> None"
proof (intro allI)
  fix E :: out_env and os :: out_session and n :: nat
  let ?a = "\<lparr>intro_relay = [1], intro_hop = [7], intro_expiry = 900\<rparr> :: client_intro"
  let ?b = "\<lparr>intro_relay = [2], intro_hop = [8], intro_expiry = 950\<rparr> :: client_intro"
  let ?rc = "\<lparr>rc_router_id = [1], rc_addr = [], rc_addr6 = None, rc_timestamp = 0, rc_netid = 0, rc_version = [], rc_payload = []\<rparr> :: relay_contact"
  let ?E = "E\<lparr>oe_db := nodedb_new []\<lparr>known_rcs := [([1], ?rc)]\<rparr>, oe_select := (oe_select E)\<lparr>sel_num_hops := 3\<rparr>,
        oe_conf := \<lparr>pc_target = 4, pc_min_expiry = 5000, pc_acceptable_expiry = 60000\<rparr>,
        oe_step := (\<lambda>i. (oe_step E i)\<lparr>bst_now := int i, bst_pick := (\<lambda>m. i mod m)\<rparr>)\<rparr>"
  let ?os = "os\<lparr>os_paths := path_handler_new path_context_new profiling_new, os_intros := [?a, ?b]\<rparr>"
  have "{rid \<in> intro_relay ` set (os_intros ?os). rid \<noteq> intro_relay ?b \<and> paths_to (os_paths ?os) rid = 0} = {[1]}"
    by (auto simp: paths_to_def path_handler_new_def)
  moreover have "ph_wf (path_handler_new path_context_new profiling_new)"
    by (simp add: ph_wf_def path_handler_new_def path_context_new_def)
  moreover have "\<forall>i < n mod 80000. int i < 80000" using mod_less_divisor [of 80000 n] by linarith
  ultimately have "case client_build_loop (n mod 80000) ?E 2 0 0 ?os of None \<Rightarrow> True | Some (err, _) \<Rightarrow> err \<noteq> None"
    using unbuildable_intro_hangs [of ?os ?E ?b 2 "n mod 80000"]
    by (fastforce simp: rcs_ok_def BUILD_LENGTH_def get_rc_def paths_to_def path_handler_new_def eligible_def split: option.splits)
  then show "let a = ?a; b = ?b; rc = ?rc;
      E' = E\<lparr>oe_db := nodedb_new []\<lparr>known_rcs := [([1], rc)]\<rparr>, oe_select := (oe_select E)\<lparr>sel_num_hops := 3\<rparr>,
        oe_conf := \<lparr>pc_target = 4, pc_min_expiry = 5000, pc_acceptable_expiry = 60000\<rparr>,
        oe_step := (\<lambda>i. (oe_step E i)\<lparr>bst_now := int i, bst_pick := (\<lambda>m. i mod m)\<rparr>)\<rparr>;
      os' = os\<lparr>os_paths := path_handler_new path_context_new profiling_new, os_intros := [a, b]\<rparr>
    in case client_build_loop (n mod 80000) E' 2 0 0 os' of None \<Rightarrow> True | Some (err, _) \<Rightarrow> err \<noteq> None"
    unfolding Let_def by simp
qed

end
