(* ===== verification/Endpoint_Paths.thy ===== *)
theory Endpoint_Paths
  imports Session_Paths Session_Table "HOL-Library.Signed_Division"
begin

text \<open>
  The inbound paths of a client (\<^verbatim>\<open>handlers/session.cpp\<close>): the expiry slots of new paths, the choice
  of their termini, the builds, and the publication of the client contact once they are up.
\<close>

section \<open>Expiry slots\<close>

definition MAX_LIFETIME_SLOTS :: nat where "MAX_LIFETIME_SLOTS = 4"

text \<open>\<^verbatim>\<open>_slot_fuzz\<close>, an ordered map from slots to seconds.\<close>

type_synonym fuzz_map = "(int \<times> int) list"

definition cleanup_old_fuzz :: "int \<Rightarrow> fuzz_map \<Rightarrow> fuzz_map" where
  "cleanup_old_fuzz oldest_slot m =
     (let rest = dropWhile (\<lambda>(k, _). k < oldest_slot) m in if rest \<noteq> [] then rest else m)"

text \<open>
  The rejection loop of \<^verbatim>\<open>inbound_path_fuzz\<close>; \<open>dist i\<close> is the \<open>i\<close>-th draw of the normal distribution,
  cast to an integer.
\<close>

partial_function (option) fuzz_loop :: "(nat \<Rightarrow> int) \<Rightarrow> nat \<Rightarrow> int option" where
  "fuzz_loop dist i =
     (let fuzz = (if dist i < 0 then - dist i else dist i)
      in if MAX_LIFETIME_FUZZ div 1000 < fuzz then fuzz_loop dist (Suc i) else Some fuzz)"

definition inbound_path_fuzz :: "(nat \<Rightarrow> int) \<Rightarrow> int \<Rightarrow> fuzz_map \<Rightarrow> (int \<times> fuzz_map) option" where
  "inbound_path_fuzz dist slot m =
     (let before = takeWhile (\<lambda>(k, _). k < slot) m; it = dropWhile (\<lambda>(k, _). k < slot) m;
          draw = map_option (\<lambda>fuzz. (fuzz, before @ (slot, fuzz) # it)) (fuzz_loop dist 0)
      in case it of [] \<Rightarrow> draw | (k, fuzz) # _ \<Rightarrow> if k = slot then Some (fuzz, m) else draw)"

text \<open>
  The slots of existing paths are counted relative to \<open>slot0\<close>; times are in seconds except the
  expiries of paths.  Division of durations truncates.
\<close>

fun count_slots :: "nat \<Rightarrow> int \<Rightarrow> int \<Rightarrow> int \<Rightarrow> ms list \<Rightarrow> int list \<Rightarrow> int list" where
  "count_slots slots slot_size basis slot0 [] slot_count = slot_count"
| "count_slots slots slot_size basis slot0 (t # es) slot_count =
     (let slot = (t - basis * 1000) sdiv (slot_size * 1000); j = nat (slot - slot0)
      in if slot < slot0 then count_slots slots slot_size basis slot0 es slot_count
         else if int slots \<le> slot - slot0 then count_slots slots slot_size basis slot0 es slot_count
         else count_slots slots slot_size basis slot0 es (slot_count[j := slot_count ! j + 1]))"

definition best_slot :: "nat \<Rightarrow> int list \<Rightarrow> nat" where
  "best_slot slots slot_count = fold (\<lambda>j best. if slot_count ! j \<le> slot_count ! best then j else best) [1..<slots] 0"

text \<open>The expiries of \<open>needed\<close> new paths; \<open>None\<close>: a fuzz was never drawn.\<close>

fun select_expiries ::
  "(nat \<Rightarrow> nat \<Rightarrow> int) \<Rightarrow> nat \<Rightarrow> int \<Rightarrow> int \<Rightarrow> int \<Rightarrow> nat \<Rightarrow> int list \<Rightarrow> fuzz_map \<Rightarrow> (int list \<times> int list \<times> fuzz_map) option" where
  "select_expiries dists slots slot_size basis slot0 0 slot_count m = Some ([], slot_count, m)"
| "select_expiries dists slots slot_size basis slot0 (Suc needed) slot_count m =
     (let best = best_slot slots slot_count; slot = slot0 + int best
      in case inbound_path_fuzz (dists needed) slot m of
           None \<Rightarrow> None
         | Some (fuzz, m') \<Rightarrow>
             map_option (\<lambda>(es, rest). ((basis + slot * slot_size + fuzz) # es, rest))
               (select_expiries dists slots slot_size basis slot0 needed (slot_count[best := slot_count ! best + 1]) m'))"

definition inbound_slots :: "int \<Rightarrow> nat" where
  "inbound_slots target_paths = nat (min target_paths (int MAX_LIFETIME_SLOTS))"

definition inbound_slot_size :: "int \<Rightarrow> int" where
  "inbound_slot_size target_paths = (MAX_LIFETIME div 1000) div int (inbound_slots target_paths)"

definition inbound_slot0 :: "int \<Rightarrow> int \<Rightarrow> ms \<Rightarrow> int" where
  "inbound_slot0 slot_size basis now = (now div 1000 - basis) sdiv slot_size + 1"

section \<open>New inbound paths\<close>

text \<open>
  What an update of the paths reads; the fields with an index are the draws and clocks of the
  \<open>i\<close>-th build, the \<open>k\<close>-th pass or the \<open>n\<close>-th slot.  \<open>ie_edges\<close> are the addresses of the connected edges.
\<close>

record inbound_env =
  ie_target :: int
  ie_pivot_reuse :: int
  ie_basis :: int
  ie_select :: select_env
  ie_db :: nodedb
  ie_edges :: "packed_addr list"
  ie_sent :: "router_id \<Rightarrow> bool"
  ie_build :: "nat \<Rightarrow> build_env"
  ie_draws :: "nat \<Rightarrow> select_draws"
  ie_sample :: "nat \<Rightarrow> nat \<Rightarrow> nat"
  ie_shuf :: "nat \<Rightarrow> relay_contact option list \<Rightarrow> relay_contact option list"
  ie_dist :: "nat \<Rightarrow> nat \<Rightarrow> int"

text \<open>\<^verbatim>\<open>Endpoint::unique_edge_range\<close>; a range is given by an address in it.\<close>

fun edge_range_loop :: "select_env \<Rightarrow> packed_addr list \<Rightarrow> packed_addr option \<Rightarrow> packed_addr option" where
  "edge_range_loop V [] network = network"
| "edge_range_loop V (ip # ips) None = edge_range_loop V ips (Some ip)"
| "edge_range_loop V (ip # ips) (Some net) =
     (if sel_in_net V (sel_netmask V) net ip then edge_range_loop V ips (Some net) else None)"

definition unique_edge_range :: "select_env \<Rightarrow> packed_addr list \<Rightarrow> packed_addr option" where
  "unique_edge_range V edges =
     (if sel_netmask V = 0 \<or> sample_env.se_service_node (sel_sample V) then None else edge_range_loop V edges None)"

definition inbound_filter :: "inbound_env \<Rightarrow> path_handler \<Rightarrow> relay_contact \<Rightarrow> bool" where
  "inbound_filter E st rc =
     (let V = ie_select E; used = int (paths_to st (rc_router_id rc))
      in if (case unique_edge_range V (ie_edges E) of None \<Rightarrow> False | Some net \<Rightarrow> sel_in_net V (sel_netmask V) net (rc_addr rc))
         then False
         else if 0 < used \<and> ie_pivot_reuse E \<le> used then False
         else \<not> is_bad_for_path (ph_profiling st) (rc_router_id rc) 1)"

text \<open>Why an update may stop early: an exception, or a read outside the program's own data.\<close>

datatype inbound_stop = OnionThrew build_error | NullPivot | ExpiryPastEnd

text \<open>One pass over sampled termini; \<open>i\<close> counts the builds begun.\<close>

fun inbound_builds ::
  "inbound_env \<Rightarrow> relay_contact option list \<Rightarrow> nat \<Rightarrow> int list \<Rightarrow> path_handler \<Rightarrow> inbound_stop option \<times> nat \<times> int list \<times> path_handler" where
  "inbound_builds E [] i es st = (None, i, es, st)"
| "inbound_builds E (None # rcs) i es st = (Some NullPivot, i, es, st)"
| "inbound_builds E (Some rc # rcs) i es st =
     (case select_hops_to_remote (ie_select E) (ie_db E) (ph_profiling st) (ie_draws E i) (rc_router_id rc) of
        None \<Rightarrow> inbound_builds E rcs (Suc i) es st
      | Some hop_rcs \<Rightarrow>
          (case es of
             [] \<Rightarrow> (Some ExpiryPastEnd, i, es, st)
           | e # es' \<Rightarrow>
               (case build (ie_build E i) (ie_sent E) hop_rcs (e * 1000) st of
                  (BuildThrew x, st') \<Rightarrow> (Some (OnionThrew x), i, es', st')
                | (_, st') \<Rightarrow> inbound_builds E rcs (Suc i) es' st')))"

function inbound_passes ::
  "inbound_env \<Rightarrow> nat \<Rightarrow> nat \<Rightarrow> int \<Rightarrow> int list \<Rightarrow> path_handler \<Rightarrow> inbound_stop option \<times> path_handler" where
  "inbound_passes E k i needed es st =
     (let new_pivots = get_n_random_rcs (sel_sample (ie_select E)) (ie_sample E k) (ie_shuf E k) (ie_db E) (nat needed) True
            (inbound_filter E st)
      in if new_pivots = [] then (None, st)
         else (case inbound_builds E new_pivots i es st of
                 (Some e, _, _, st') \<Rightarrow> (Some e, st')
               | (None, i', es', st') \<Rightarrow>
                   if 0 < needed - int (length new_pivots)
                   then inbound_passes E (Suc k) i' (needed - int (length new_pivots)) es' st' else (None, st')))"
  by pat_completeness auto
termination
  by (relation "measure (\<lambda>(E, k, i, needed, es, st). nat needed)") auto

text \<open>With one hop the edge is the terminus.\<close>

fun single_hop_builds ::
  "inbound_env \<Rightarrow> nat \<Rightarrow> nat \<Rightarrow> int list \<Rightarrow> path_handler \<Rightarrow> inbound_stop option \<times> path_handler" where
  "single_hop_builds E 0 i es st = (None, st)"
| "single_hop_builds E (Suc needed) i es st =
     (case select_first_hop (ie_db E) (ph_profiling st) (sel_remotes (ie_select E)) (ie_sample E i) (\<lambda>_. True) of
        None \<Rightarrow> (None, st)
      | Some only_hop \<Rightarrow>
          (case es of
             [] \<Rightarrow> (Some ExpiryPastEnd, st)
           | e # es' \<Rightarrow>
               (case build (ie_build E i) (ie_sent E) [only_hop] (e * 1000) st of
                  (BuildThrew x, st') \<Rightarrow> (Some (OnionThrew x), st')
                | (_, st') \<Rightarrow> single_hop_builds E needed (Suc i) es' st')))"

definition inbound_needed :: "inbound_env \<Rightarrow> ms \<Rightarrow> path_handler \<Rightarrow> int" where
  "inbound_needed E now st =
     (let max_paths = int (length (known_rcs (ie_db E))) * ie_pivot_reuse E
      in (if 10 < ie_target E \<and> max_paths < ie_target E then max_paths else ie_target E) - int (num_paths now st))"

definition inbound_expiries :: "inbound_env \<Rightarrow> ms \<Rightarrow> path_handler \<Rightarrow> fuzz_map \<Rightarrow> (int list \<times> int list \<times> fuzz_map) option" where
  "inbound_expiries E now st m =
     (let slots = inbound_slots (ie_target E); slot_size = inbound_slot_size (ie_target E);
          slot0 = inbound_slot0 slot_size (ie_basis E) now;
          es = List.map_filter (\<lambda>(_, r). map_option path_expiry (path_at st r)) (ph_paths st);
          slot_count = count_slots slots slot_size (ie_basis E) slot0 es (replicate MAX_LIFETIME_SLOTS 0)
      in select_expiries (ie_dist E) slots slot_size (ie_basis E) slot0 (nat (inbound_needed E now st)) slot_count
           (cleanup_old_fuzz slot0 m))"

definition inbound_update_paths ::
  "inbound_env \<Rightarrow> ms \<Rightarrow> ms \<Rightarrow> fuzz_map \<Rightarrow> path_handler \<Rightarrow> (inbound_stop option \<times> fuzz_map \<times> path_handler) option" where
  "inbound_update_paths E now steady_now m st =
     (let needed = inbound_needed E now st
      in if needed \<le> 0 \<or> cooldown steady_now st then Some (None, m, st)
         else case inbound_expiries E now st m of
                None \<Rightarrow> None
              | Some (es, _, m') \<Rightarrow>
                  (let (stop, st') = (if sel_num_hops (ie_select E) = 1 then single_hop_builds E (nat needed) 0 es st
                                      else inbound_passes E 0 0 needed es st)
                   in Some (stop, m', st')))"

section \<open>Publication of the client contact\<close>

text \<open>
  \<^verbatim>\<open>publish_client_contact\<close>: to the remote of every inbound session, and to the four locations over
  at most four random active paths.  \<open>sample\<close> is the sampled and shuffled list.
\<close>

definition publish_to_sessions ::
  "sodium \<Rightarrow> oxenc \<Rightarrow> path_context \<Rightarrow> ms \<Rightarrow> (nat \<Rightarrow> symm_nonce) \<Rightarrow> bytes \<Rightarrow> session_table \<Rightarrow> link_send list \<times> session_table" where
  "publish_to_sessions S X c now nonces encrypted_cc tbl =
     fold (\<lambda>(remote, r) (outs, tbl).
         case st_objs tbl r of
           None \<Rightarrow> (outs, tbl)
         | Some s \<Rightarrow>
             if s_is_outbound s then (outs, tbl)
             else (let (s', out) = session_publish_client_contact S X c now (nonces (length outs)) encrypted_cc s
                   in (outs @ out, put_session r s' tbl)))
       (st_sessions tbl) ([], tbl)"

definition publish_to_locations ::
  "sodium \<Rightarrow> oxenc \<Rightarrow> (nat \<Rightarrow> symm_nonce) \<Rightarrow> bytes \<Rightarrow> path list \<Rightarrow> link_send option list" where
  "publish_to_locations S X nonces encrypted_cc paths =
     map (\<lambda>location. publish_client_contact S X (paths ! (location mod length paths)) encrypted_cc (int location) (nonces location))
       [0..<CC_PUBLISH_LOCATIONS]"

text \<open>The response callback of a publication: the counters, and the result logged with the last one.\<close>

definition publish_response :: "path_control_response \<Rightarrow> int \<times> int \<Rightarrow> (int \<times> int) \<times> int option" where
  "publish_response resp counters =
     (let remaining = fst counters - 1; success = (if ok resp then snd counters + 1 else snd counters)
      in ((remaining, success), if remaining = 0 then Some success else None))"

definition local_intros :: "ms \<Rightarrow> path_handler \<Rightarrow> client_intro list" where
  "local_intros now st = map make_intro (map snd (active_path_objs now st))"

text \<open>
  \<^verbatim>\<open>update_and_publish_localcc\<close>: the new contact and its encrypted form; \<open>None\<close> when it is not
  published, an exception (no introductions) is \<open>Inl ()\<close>.
\<close>

definition update_and_publish_localcc ::
  "sodium \<Rightarrow> oxenc \<Rightarrow> endian64 \<Rightarrow> handshake_lib \<Rightarrow> curve_lib \<Rightarrow> blinded_key \<Rightarrow> symm_nonce \<Rightarrow> bool \<Rightarrow> ms \<Rightarrow> path_handler \<Rightarrow>
     client_contact \<Rightarrow> (unit + client_contact \<times> bytes) option" where
  "update_and_publish_localcc S X L H B blinded nonce is_reachable now st cc =
     (if \<not> is_reachable then None
      else case cc_update_intros (local_intros now st) cc of
             None \<Rightarrow> Some (Inl ())
           | Some cc' \<Rightarrow> Some (Inr (cc_encrypt_and_sign S X L H B blinded nonce now cc')))"

text \<open>\<^verbatim>\<open>SessionEndpoint::on_path_build_success\<close>: whether the contact is published.\<close>

definition inbound_build_publishes :: "bool \<Rightarrow> int \<Rightarrow> ms \<Rightarrow> path_handler \<Rightarrow> bool" where
  "inbound_build_publishes is_reachable target now st \<longleftrightarrow> is_reachable \<and> target \<le> int (num_active_paths now now st)"

section \<open>Lemmas on slots and fuzz\<close>

definition fuzz_in_bounds :: "int \<Rightarrow> bool" where
  "fuzz_in_bounds f \<longleftrightarrow> 0 \<le> f \<and> f \<le> MAX_LIFETIME_FUZZ div 1000"

definition fuzz_ok :: "fuzz_map \<Rightarrow> bool" where
  "fuzz_ok m \<longleftrightarrow> sorted_wrt (<) (map fst m) \<and> (\<forall>f \<in> snd ` set m. fuzz_in_bounds f)"

lemma fuzz_loop_bounds: "fuzz_loop dist i = Some f \<Longrightarrow> fuzz_in_bounds f"
  by (erule fuzz_loop.raw_induct [where P = "\<lambda>dist i f. fuzz_in_bounds f", rotated])
    (auto simp: fuzz_in_bounds_def Let_def not_less split: if_splits)

lemma fuzz_loop_returns:
  assumes "fuzz_in_bounds \<bar>dist (i + n)\<bar>"
  shows "\<exists>f. fuzz_loop dist i = Some f"
  using assms
proof (induction n arbitrary: i)
  case 0
  then show ?case by (subst fuzz_loop.simps) (auto simp: fuzz_in_bounds_def Let_def)
next
  case (Suc n)
  then show ?case by (subst fuzz_loop.simps) (auto simp: Let_def)
qed

lemma cleanup_fuzz_ok: "fuzz_ok m \<Longrightarrow> fuzz_ok (cleanup_old_fuzz oldest m)"
  using sorted_wrt_drop [of "(<)" "map fst m"]
  by (auto simp: fuzz_ok_def cleanup_old_fuzz_def Let_def dropWhile_eq_drop drop_map dest!: in_set_dropD)

text \<open>The fuzz of a slot is drawn once and kept.\<close>

lemma inbound_path_fuzz_cases:
  assumes "fuzz_ok m" and "inbound_path_fuzz dist slot m = Some (f, m')"
  shows "fuzz_ok m'" and "fuzz_in_bounds f" and "map_of m' slot = Some f"
proof -
  define A where "A = takeWhile (\<lambda>(k, _). k < slot) m"
  define B where "B = dropWhile (\<lambda>(k, _). k < slot) m"
  have m: "m = A @ B" by (simp add: A_def B_def)
  have A: "\<forall>p \<in> set A. fst p < slot" by (auto simp: A_def dest: set_takeWhileD)
  then have none: "map_of A slot = None" by (force simp: map_of_eq_None_iff)
  have res: "(case B of [] \<Rightarrow> map_option (\<lambda>f. (f, A @ (slot, f) # B)) (fuzz_loop dist 0)
    | (k, f) # _ \<Rightarrow> if k = slot then Some (f, m) else map_option (\<lambda>f. (f, A @ (slot, f) # B)) (fuzz_loop dist 0)) = Some (f, m')"
    using assms(2) unfolding inbound_path_fuzz_def Let_def A_def B_def .
  have "fuzz_ok m' \<and> fuzz_in_bounds f \<and> map_of m' slot = Some f"
  proof (cases "B \<noteq> [] \<and> fst (hd B) = slot")
    case True
    then obtain B' where "B = (slot, f) # B'" "m' = m" using res by (cases B) (auto split: if_splits)
    moreover from this none have "map_of m slot = Some f" by (simp add: m map_add_def)
    ultimately show ?thesis using assms(1) by (auto simp: fuzz_ok_def m)
  next
    case False
    then have l: "fuzz_loop dist 0 = Some f" and m': "m' = A @ (slot, f) # B"
      using res by (auto split: list.splits if_splits)
    have "slot < fst (hd B)" if "B \<noteq> []"
      using hd_dropWhile [of "\<lambda>(k, _). k < slot" m] that False by (auto simp: B_def split: prod.splits)
    moreover have "sorted_wrt (<) (map fst B)" "sorted_wrt (<) (map fst A)" and B: "\<forall>p \<in> set A. \<forall>q \<in> set B. fst p < fst q"
      using assms(1) by (auto simp: fuzz_ok_def m sorted_wrt_append)
    ultimately have "\<forall>q \<in> set B. slot < fst q" by (cases B) auto
    then have "sorted_wrt (<) (map fst m')"
      using A B \<open>sorted_wrt (<) (map fst B)\<close> \<open>sorted_wrt (<) (map fst A)\<close> by (auto simp: m' sorted_wrt_append)
    with none show ?thesis
      using assms(1) fuzz_loop_bounds [OF l] by (auto simp: fuzz_ok_def m m' map_add_def)
  qed
  then show "fuzz_ok m'" "fuzz_in_bounds f" "map_of m' slot = Some f" by simp_all
qed

lemma best_slot_fold:
  assumes "best < slots" and "\<forall>j \<in> set js. j < slots"
  shows "fold (\<lambda>j best. if cnt ! j \<le> cnt ! best then j else best) js best < slots \<and>
    (\<forall>j \<in> insert best (set js). cnt ! fold (\<lambda>j best. if cnt ! j \<le> cnt ! best then j else best) js best \<le> (cnt ! j :: int))"
  using assms
proof (induction js arbitrary: best)
  case (Cons j js)
  show ?case
  proof (cases "cnt ! j \<le> cnt ! best")
    case True
    with Cons.IH [of j] Cons.prems show ?thesis by fastforce
  next
    case False
    with Cons.IH [of best] Cons.prems show ?thesis by fastforce
  qed
qed simp

lemma best_slot_least:
  assumes "0 < slots"
  shows "best_slot slots cnt < slots" and "j < slots \<Longrightarrow> cnt ! best_slot slots cnt \<le> cnt ! j"
  using best_slot_fold [of 0 slots "[1..<slots]" cnt] assms
  by (auto simp: best_slot_def Suc_le_eq)

lemma select_expiries_facts:
  assumes "select_expiries dists slots len basis slot0 n cnt m = Some (es, cnt', m')" and "fuzz_ok m" and "0 < slots"
  shows "length es = n" and "fuzz_ok m'"
    and "\<forall>e \<in> set es. \<exists>j f. j < slots \<and> fuzz_in_bounds f \<and> e = basis + (slot0 + int j) * len + f"
proof -
  have "length es = n \<and> fuzz_ok m' \<and> (\<forall>e \<in> set es. \<exists>j f. j < slots \<and> fuzz_in_bounds f \<and> e = basis + (slot0 + int j) * len + f)"
    using assms(1,2)
  proof (induction n arbitrary: cnt m es)
    case (Suc n)
    let ?b = "best_slot slots cnt"
    obtain f m1 es1 where f: "inbound_path_fuzz (dists n) (slot0 + int ?b) m = Some (f, m1)"
      and es1: "select_expiries dists slots len basis slot0 n (cnt[?b := cnt ! ?b + 1]) m1 = Some (es1, cnt', m')"
      and es: "es = (basis + (slot0 + int ?b) * len + f) # es1"
      using Suc.prems(1) by (auto simp: Let_def split: option.splits)
    note f' = inbound_path_fuzz_cases [OF Suc.prems(2) f]
    from Suc.IH [OF es1 f'(1)] f'(2) best_slot_least(1) [OF assms(3), of cnt] show ?case
      unfolding es by auto
  qed simp
  then show "length es = n" and "fuzz_ok m'"
    and "\<forall>e \<in> set es. \<exists>j f. j < slots \<and> fuzz_in_bounds f \<and> e = basis + (slot0 + int j) * len + f"
    by simp_all
qed

lemma inbound_path_fuzz_returns:
  "fuzz_loop dist 0 = Some f \<Longrightarrow> \<exists>f' m'. inbound_path_fuzz dist slot m = Some (f', m')"
  unfolding inbound_path_fuzz_def Let_def
  by (cases "dropWhile (\<lambda>(k, _). k < slot) m") (auto simp del: dropWhile_eq_Nil_conv)

lemma select_expiries_returns:
  assumes "\<forall>i. \<exists>n. fuzz_in_bounds \<bar>dists i n\<bar>"
  shows "\<exists>r. select_expiries dists slots len basis slot0 n cnt m = Some r"
proof (induction n arbitrary: cnt m)
  case (Suc n)
  obtain k where "fuzz_in_bounds \<bar>dists n (0 + k)\<bar>" using assms by auto
  from fuzz_loop_returns [of "dists n" 0 k, OF this] obtain f where "fuzz_loop (dists n) 0 = Some f" ..
  from inbound_path_fuzz_returns [OF this] obtain f' m' where
    "inbound_path_fuzz (dists n) (slot0 + int (best_slot slots cnt)) m = Some (f', m')" by blast
  moreover obtain r where "select_expiries dists slots len basis slot0 n
      (cnt[best_slot slots cnt := cnt ! best_slot slots cnt + 1]) m' = Some r" using Suc.IH by blast
  ultimately show ?case by (cases r) (simp add: Let_def)
qed simp

text \<open>Slots are filled evenly: the fullest and the emptiest slot stay within one path of each other.\<close>

definition spread :: "nat \<Rightarrow> int list \<Rightarrow> bool" where
  "spread slots cnt \<longleftrightarrow> (\<forall>i < slots. \<forall>j < slots. cnt ! i \<le> cnt ! j + 1)"

lemma select_expiries_spread:
  assumes "select_expiries dists slots len basis slot0 n cnt m = Some (es, cnt', m')" and "0 < slots"
    and "slots \<le> length cnt" and "spread slots cnt"
  shows "spread slots cnt'"
  using assms(1,3,4)
proof (induction n arbitrary: cnt m es)
  case (Suc n)
  let ?b = "best_slot slots cnt"
  have "spread slots (cnt[?b := cnt ! ?b + 1])"
    unfolding spread_def
  proof (intro allI impI)
    fix i j assume "i < slots" "j < slots"
    then have "cnt ! i \<le> cnt ! j + 1" "cnt ! ?b \<le> cnt ! j" "cnt ! i \<le> cnt ! ?b + 1"
      using best_slot_least [OF assms(2), where cnt = cnt] Suc.prems(3) by (auto simp: spread_def)
    then show "cnt[?b := cnt ! ?b + 1] ! i \<le> cnt[?b := cnt ! ?b + 1] ! j + 1"
      using \<open>i < slots\<close> \<open>j < slots\<close> Suc.prems(2) best_slot_least(1) [OF assms(2), of cnt] by (auto simp: nth_list_update)
  qed
  then show ?case
    using Suc.prems Suc.IH by (auto simp: Let_def split: option.splits)
qed simp

text \<open>The arithmetic of slots: a new expiry lies after now and within what relays accept.\<close>

lemma inbound_slot_size_facts:
  assumes "1 \<le> target"
  shows "0 < inbound_slots target" and "inbound_slots target \<le> MAX_LIFETIME_SLOTS" and "0 < inbound_slot_size target"
    and "int (inbound_slots target) * inbound_slot_size target = MAX_LIFETIME div 1000"
proof -
  have "inbound_slots target \<in> {1, 2, 3, 4}" using assms by (auto simp: inbound_slots_def MAX_LIFETIME_SLOTS_def min_def)
  then show "0 < inbound_slots target" "inbound_slots target \<le> MAX_LIFETIME_SLOTS" "0 < inbound_slot_size target"
    "int (inbound_slots target) * inbound_slot_size target = MAX_LIFETIME div 1000"
    by (auto simp: inbound_slot_size_def MAX_LIFETIME_SLOTS_def lifetime_consts)
qed

lemma slot_expiry_bounds:
  assumes "basis * 1000 \<le> now" and "0 < len" and "int slots * len = MAX_LIFETIME div 1000" and "j < slots" and "fuzz_in_bounds f"
  defines "e \<equiv> basis + (inbound_slot0 len basis now + int j) * len + f"
  shows "now < e * 1000" and "e * 1000 - now \<le> MAX_LIFETIME_ACCEPTED"
proof -
  define q where "q = (now div 1000 - basis) div len"
  have "0 \<le> now div 1000 - basis" using assms(1) by linarith
  then have s0: "inbound_slot0 len basis now = q + 1"
    using assms(2) by (auto simp: inbound_slot0_def signed_divide_int_def q_def sgn_if)
  have lo: "q * len \<le> now div 1000 - basis" and hi: "now div 1000 - basis < q * len + len"
    using pos_mod_bound [OF assms(2), of "now div 1000 - basis"] pos_mod_sign [OF assms(2), of "now div 1000 - basis"]
      div_mult_mod_eq [of "now div 1000 - basis" len]
    unfolding q_def by linarith+
  have e: "e = basis + q * len + len + int j * len + f" by (simp add: e_def s0 algebra_simps)
  have f: "0 \<le> f" "f \<le> 180" using assms(5) by (auto simp: fuzz_in_bounds_def lifetime_consts)
  have j: "0 \<le> int j * len" "int j * len + len \<le> 1200"
    using assms(2,3,4) mult_right_mono [of "int j + 1" "int slots" len] by (auto simp: lifetime_consts algebra_simps)
  from hi e j f have "now div 1000 < e" by linarith
  then show "now < e * 1000" by linarith
  from lo e j f have "e \<le> now div 1000 + 1380" by linarith
  then show "e * 1000 - now \<le> MAX_LIFETIME_ACCEPTED" by (simp add: lifetime_consts)
qed

section \<open>Lemmas on builds\<close>

text \<open>Builds only add paths, and only with the given expiries.\<close>

definition grows :: "ms set \<Rightarrow> path_handler \<Rightarrow> path_handler \<Rightarrow> bool" where
  "grows T st st' \<longleftrightarrow>
     ph_wf st' \<and> (\<forall>k p. paths_view st k = Some p \<longrightarrow> paths_view st' k = Some p) \<and>
     (\<forall>k p. paths_view st' k = Some p \<longrightarrow> paths_view st k = Some p \<or> path_expiry p \<in> T)"

lemma grows_refl: "ph_wf st \<Longrightarrow> grows T st st"
  by (simp add: grows_def)

lemma grows_trans: "grows T st st1 \<Longrightarrow> grows T st1 st2 \<Longrightarrow> grows T st st2"
  unfolding grows_def by blast

lemma grows_mono: "grows T st st' \<Longrightarrow> T \<subseteq> T' \<Longrightarrow> grows T' st st'"
  unfolding grows_def by blast

lemma build_threw_fresh:
  assumes "build B sent rcs t st = (BuildThrew e, st')"
  shows "paths_view st (be_ids B 0) = None"
proof -
  have "can_build rcs st" using assms by (auto simp: build_def Let_def split: if_splits)
  then have id: "edge_id (path_new (be_self B) (be_ids B) rcs t) = be_ids B 0"
    by (auto simp: path_new_edge path_hops_first can_build_def)
  have "map_of (ph_paths st) (edge_id (path_new (be_self B) (be_ids B) rcs t)) = None"
    using assms \<open>can_build rcs st\<close> by (auto simp: build_def build_init_path_def Let_def split: option.splits)
  then show ?thesis by (simp add: paths_view_def id)
qed

lemma build_grows:
  assumes "ph_wf st" and "build B sent rcs t st = (res, st')"
  shows "grows {t} st st'"
proof -
  have wf: "ph_wf st'" using build_wf [OF assms(1), of B sent rcs t] by (simp add: assms(2))
  note v = build_view [OF assms]
  show ?thesis
  proof (cases res)
    case (BuildSent r u msg)
    with v obtain p where "paths_view st' = (paths_view st)(be_ids B 0 \<mapsto> p)" "paths_view st (be_ids B 0) = None"
      "path_build_onion (be_sodium B) (be_oxenc B) (be_rand B) (be_junk B) (be_now B) (path_new (be_self B) (be_ids B) rcs t) = Inr (p, msg)"
      by auto
    with wf path_build_onion_ident(2) show ?thesis by (fastforce simp: grows_def path_new_def)
  next
    case (BuildThrew e)
    with v build_threw_fresh [of B sent rcs t st e st'] assms(2) wf show ?thesis
      by (auto simp: grows_def path_new_def)
  qed (use v wf in \<open>simp_all add: grows_def\<close>)
qed

lemma inbound_builds_facts:
  assumes "inbound_builds E pivots i es st = (stop, i', es', st')" and "ph_wf st" and "None \<notin> set pivots"
    and "length pivots \<le> length es"
  shows "grows ((\<lambda>e. e * 1000) ` set es) st st' \<and> stop \<noteq> Some NullPivot \<and> stop \<noteq> Some ExpiryPastEnd \<and>
    set es' \<subseteq> set es \<and> length es - length pivots \<le> length es'"
  using assms
proof (induction pivots arbitrary: i es st)
  case Nil
  then show ?case by (simp add: grows_refl)
next
  case (Cons pivot rcs)
  obtain rc where rc: "pivot = Some rc" using Cons.prems(3) by (cases pivot) auto
  show ?case
  proof (cases "select_hops_to_remote (ie_select E) (ie_db E) (ph_profiling st) (ie_draws E i) (rc_router_id rc)")
    case None
    with Cons.prems have "inbound_builds E rcs (Suc i) es st = (stop, i', es', st')" by (simp add: rc)
    from Cons.IH [OF this] Cons.prems show ?thesis by auto
  next
    case (Some hop_rcs)
    obtain e es1 where es: "es = e # es1" using Cons.prems(4) by (cases es) auto
    obtain res st1 where b: "build (ie_build E i) (ie_sent E) hop_rcs (e * 1000) st = (res, st1)" by fastforce
    have g: "grows ((\<lambda>e. e * 1000) ` set es) st st1" by (rule grows_mono [OF build_grows [OF Cons.prems(2) b]]) (simp add: es)
    show ?thesis
    proof (cases "\<exists>x. res = BuildThrew x")
      case True
      then show ?thesis using Cons.prems(1) g by (auto simp: rc Some es b)
    next
      case False
      then have r: "inbound_builds E rcs (Suc i) es1 st1 = (stop, i', es', st')"
        using Cons.prems(1) by (cases res) (auto simp: rc Some es b)
      have "ph_wf st1" using g by (simp add: grows_def)
      from Cons.IH [OF r this] Cons.prems(3,4) have IH: "grows ((\<lambda>e. e * 1000) ` set es1) st1 st' \<and> stop \<noteq> Some NullPivot \<and>
        stop \<noteq> Some ExpiryPastEnd \<and> set es' \<subseteq> set es1 \<and> length es1 - length rcs \<le> length es'"
        by (simp add: es)
      then have "grows ((\<lambda>e. e * 1000) ` set es) st1 st'" by (intro grows_mono [OF conjunct1]) (auto simp: es)
      with IH show ?thesis using grows_trans [OF g] by (auto simp: es)
    qed
  qed
qed

lemma sampled_pivots:
  assumes "distinct rcs" and "\<forall>xs. mset (shuf xs) = mset xs"
  shows "None \<notin> set (sample_rcs V rnd shuf rcs n pred True)" and "length (sample_rcs V rnd shuf rcs n pred True) \<le> n"
proof -
  from sample_unshuffled [OF assms(1), of V rnd shuf n pred] obtain ys where
    ys: "sample_rcs V rnd shuf rcs n pred False = map Some ys" "length ys \<le> n" by fastforce
  have "mset (sample_rcs V rnd shuf rcs n pred True) = mset (sample_rcs V rnd shuf rcs n pred False)"
    using assms(2) by (simp add: sample_rcs_def Let_def split: prod.split)
  from mset_eq_setD [OF this] mset_eq_length [OF this] ys
  show "None \<notin> set (sample_rcs V rnd shuf rcs n pred True)" "length (sample_rcs V rnd shuf rcs n pred True) \<le> n" by auto
qed

lemma inbound_passes_facts:
  assumes "inbound_passes E k i needed es st = (stop, st')" and "ph_wf st" and "nat needed \<le> length es"
    and "rcs_ok (known_rcs (ie_db E))" and "\<forall>k xs. mset (ie_shuf E k xs) = mset xs"
  shows "grows ((\<lambda>e. e * 1000) ` set es) st st' \<and> stop \<noteq> Some NullPivot \<and> stop \<noteq> Some ExpiryPastEnd"
  using assms
proof (induction E k i needed es st rule: inbound_passes.induct)
  case (1 E k i needed es st)
  define pivots where "pivots = get_n_random_rcs (sel_sample (ie_select E)) (ie_sample E k) (ie_shuf E k) (ie_db E) (nat needed) True
    (inbound_filter E st)"
  have p: "None \<notin> set pivots" "length pivots \<le> nat needed"
    using sampled_pivots [OF rcs_ok_distinct [OF "1.prems"(4)], of "ie_shuf E k"] "1.prems"(5)
    by (simp_all add: pivots_def get_n_random_rcs_def)
  show ?case
  proof (cases "pivots = []")
    case True
    then show ?thesis using "1.prems"(1,2) by (simp add: pivots_def grows_refl)
  next
    case False
    obtain stop1 i1 es1 st1 where b: "inbound_builds E pivots i es st = (stop1, i1, es1, st1)" by (metis prod_cases4)
    note f = inbound_builds_facts [OF b "1.prems"(2) p(1)]
    have res: "(case stop1 of Some e \<Rightarrow> (Some e, st1) | None \<Rightarrow>
        if 0 < needed - int (length pivots) then inbound_passes E (Suc k) i1 (needed - int (length pivots)) es1 st1 else (None, st1)) = (stop, st')"
      using "1.prems"(1) False b unfolding inbound_passes.simps [of E k i needed es st] pivots_def [symmetric] Let_def
      by (auto split: option.splits)
    show ?thesis
    proof (cases "stop1 = None \<and> 0 < needed - int (length pivots)")
      case True
      then have "inbound_passes E (Suc k) i1 (needed - int (length pivots)) es1 st1 = (stop, st')" using res by simp
      moreover have "nat (needed - int (length pivots)) \<le> length es1" "ph_wf st1" "set es1 \<subseteq> set es"
        using f p(2) "1.prems"(3) by (auto simp: grows_def)
      ultimately have "grows ((\<lambda>e. e * 1000) ` set es1) st1 st' \<and> stop \<noteq> Some NullPivot \<and> stop \<noteq> Some ExpiryPastEnd"
        using "1.IH" [OF pivots_def False b [symmetric] _ refl refl] True "1.prems"(4,5) by blast
      moreover from this have "grows ((\<lambda>e. e * 1000) ` set es) st1 st'"
        using grows_mono [OF _ image_mono [OF \<open>set es1 \<subseteq> set es\<close>]] by blast
      ultimately show ?thesis using f p(2) "1.prems"(3) grows_trans by auto
    next
      case False
      then show ?thesis using f p(2) "1.prems"(3) res by (auto split: option.splits if_splits)
    qed
  qed
qed

lemma single_hop_facts:
  assumes "single_hop_builds E n i es st = (stop, st')" and "ph_wf st" and "n \<le> length es"
  shows "grows ((\<lambda>e. e * 1000) ` set es) st st' \<and> stop \<noteq> Some NullPivot \<and> stop \<noteq> Some ExpiryPastEnd"
  using assms
proof (induction n arbitrary: i es st)
  case 0
  then show ?case by (simp add: grows_refl)
next
  case (Suc n)
  show ?case
  proof (cases "select_first_hop (ie_db E) (ph_profiling st) (sel_remotes (ie_select E)) (ie_sample E i) (\<lambda>_. True)")
    case None
    then show ?thesis using Suc.prems by (simp add: grows_refl)
  next
    case (Some only_hop)
    obtain e es1 where es: "es = e # es1" using Suc.prems(3) by (cases es) auto
    obtain res st1 where b: "build (ie_build E i) (ie_sent E) [only_hop] (e * 1000) st = (res, st1)" by fastforce
    have g: "grows ((\<lambda>e. e * 1000) ` set es) st st1" by (rule grows_mono [OF build_grows [OF Suc.prems(2) b]]) (simp add: es)
    show ?thesis
    proof (cases "\<exists>x. res = BuildThrew x")
      case True
      then show ?thesis using Suc.prems(1) g by (auto simp: Some es b)
    next
      case False
      then have r: "single_hop_builds E n (Suc i) es1 st1 = (stop, st')"
        using Suc.prems(1) by (cases res) (auto simp: Some es b)
      have "ph_wf st1" using g by (simp add: grows_def)
      from Suc.IH [OF r this] Suc.prems(3) have IH: "grows ((\<lambda>e. e * 1000) ` set es1) st1 st' \<and> stop \<noteq> Some NullPivot \<and>
        stop \<noteq> Some ExpiryPastEnd" by (simp add: es)
      then have "grows ((\<lambda>e. e * 1000) ` set es) st1 st'" by (intro grows_mono [OF conjunct1]) (auto simp: es)
      with IH show ?thesis using grows_trans [OF g] by auto
    qed
  qed
qed

section \<open>Properties\<close>

lemma inbound_expiries_facts:
  assumes "inbound_expiries E now st m = Some (es, cnt, m')" and "fuzz_ok m" and "1 \<le> ie_target E" and "ie_basis E * 1000 \<le> now"
  shows "length es = nat (inbound_needed E now st)" and "fuzz_ok m'"
    and "e \<in> set es \<Longrightarrow> now < e * 1000 \<and> e * 1000 - now \<le> MAX_LIFETIME_ACCEPTED"
proof -
  note size = inbound_slot_size_facts [OF assms(3)]
  note facts = select_expiries_facts [OF assms(1) [unfolded inbound_expiries_def Let_def] cleanup_fuzz_ok [OF assms(2)] size(1)]
  show "length es = nat (inbound_needed E now st)" "fuzz_ok m'" by (fact facts(1,2))+
  assume "e \<in> set es"
  with facts(3) obtain j f where "j < inbound_slots (ie_target E)" "fuzz_in_bounds f" and
    e: "e = ie_basis E + (inbound_slot0 (inbound_slot_size (ie_target E)) (ie_basis E) now + int j) * inbound_slot_size (ie_target E) + f"
    by auto
  from slot_expiry_bounds [OF assms(4) size(3,4) this(1,2)] show "now < e * 1000 \<and> e * 1000 - now \<le> MAX_LIFETIME_ACCEPTED"
    unfolding e by simp
qed

lemma grows_new_expiry:
  assumes "grows T st st'" and "paths_view st' k = Some p" and "paths_view st k = None"
  shows "path_expiry p \<in> T"
  using assms unfolding grows_def by (metis option.distinct(1))

text \<open>
  C33: Updating the inbound paths of a client.  The update always returns (each fuzz is eventually
  drawn within bounds), never reads past the list of expiries it computed and never uses a null
  contact; existing paths stay, and every new path expires after now and no later than relays accept.
\<close>

theorem inbound_paths_accepted:
  assumes "ph_wf st" and "rcs_ok (known_rcs (ie_db E))" and "\<forall>k xs. mset (ie_shuf E k xs) = mset xs"
    and "fuzz_ok m" and "1 \<le> ie_target E" and "ie_basis E * 1000 \<le> now" and "\<forall>i. \<exists>n. fuzz_in_bounds \<bar>ie_dist E i n\<bar>"
  shows "\<exists>stop m' st'. inbound_update_paths E now steady_now m st = Some (stop, m', st') \<and>
    stop \<noteq> Some NullPivot \<and> stop \<noteq> Some ExpiryPastEnd \<and> fuzz_ok m' \<and> ph_wf st' \<and>
    (\<forall>k p. paths_view st k = Some p \<longrightarrow> paths_view st' k = Some p) \<and>
    (\<forall>k p. paths_view st' k = Some p \<and> paths_view st k = None \<longrightarrow>
       now < path_expiry p \<and> path_expiry p - now \<le> MAX_LIFETIME_ACCEPTED)"
proof (cases "inbound_needed E now st \<le> 0 \<or> cooldown steady_now st")
  case True
  then show ?thesis using assms(1,4) by (auto simp: inbound_update_paths_def)
next
  case False
  obtain es cnt m' where x: "inbound_expiries E now st m = Some (es, cnt, m')"
    using select_expiries_returns [OF assms(7)] unfolding inbound_expiries_def Let_def by (metis prod_cases3)
  note f = inbound_expiries_facts [OF x assms(4-6)]
  define res where "res = (if sel_num_hops (ie_select E) = 1 then single_hop_builds E (nat (inbound_needed E now st)) 0 es st
    else inbound_passes E 0 0 (inbound_needed E now st) es st)"
  obtain stop st' where r: "res = (stop, st')" by fastforce
  have g: "grows ((\<lambda>e. e * 1000) ` set es) st st' \<and> stop \<noteq> Some NullPivot \<and> stop \<noteq> Some ExpiryPastEnd"
    using r single_hop_facts [of E "nat (inbound_needed E now st)" 0 es st stop st']
      inbound_passes_facts [of E 0 0 "inbound_needed E now st" es st stop st'] assms(1-3) f(1)
    unfolding res_def by (simp split: if_splits)
  have new: "now < path_expiry p \<and> path_expiry p - now \<le> MAX_LIFETIME_ACCEPTED"
    if "paths_view st' k = Some p" "paths_view st k = None" for k p
    using grows_new_expiry [OF conjunct1 [OF g] that] f(3) by auto
  have "inbound_update_paths E now steady_now m st = Some (stop, m', st')"
    using False x r by (simp add: inbound_update_paths_def res_def split: if_splits)
  with g f(2) new show ?thesis unfolding grows_def by blast
qed

text \<open>A client that builds its first four paths; a fuzz of five minutes is drawn again.\<close>

theorem inbound_paths_accepted_witness:
  "\<forall>E. let rc = (\<lambda>i. \<lparr>rc_router_id = [i], rc_addr = [], rc_addr6 = None, rc_timestamp = 0, rc_netid = 0, rc_version = [], rc_payload = []\<rparr>);
       E' = E\<lparr>ie_target := 4, ie_pivot_reuse := 1, ie_basis := 1000, ie_db := nodedb_new []\<lparr>known_rcs := [([1], rc 1), ([2], rc 2)]\<rparr>,
         ie_shuf := (\<lambda>_. rev), ie_dist := (\<lambda>i n. if n = 0 then 300 else - 20)\<rparr>
     in \<exists>stop m' st'. inbound_update_paths E' 1234567 5 [] (path_handler_new path_context_new profiling_new) = Some (stop, m', st') \<and>
          stop \<noteq> Some ExpiryPastEnd \<and> ph_wf st'"
proof
  fix E :: inbound_env
  let ?rc = "\<lambda>i. \<lparr>rc_router_id = [i], rc_addr = [], rc_addr6 = None, rc_timestamp = 0, rc_netid = 0, rc_version = [], rc_payload = []\<rparr> :: relay_contact"
  let ?E = "E\<lparr>ie_target := 4, ie_pivot_reuse := 1, ie_basis := 1000, ie_db := nodedb_new []\<lparr>known_rcs := [([1], ?rc 1), ([2], ?rc 2)]\<rparr>,
         ie_shuf := (\<lambda>_. rev), ie_dist := (\<lambda>i n. if n = 0 then 300 else - 20)\<rparr>"
  let ?st = "path_handler_new path_context_new profiling_new"
  have "ph_wf ?st" by (simp add: ph_wf_def path_handler_new_def path_context_new_def)
  moreover have "\<forall>i. \<exists>n. fuzz_in_bounds \<bar>ie_dist ?E i n\<bar>"
    by (intro allI exI [of _ 1]) (simp add: fuzz_in_bounds_def lifetime_consts)
  ultimately have "\<exists>stop m' st'. inbound_update_paths ?E 1234567 5 [] ?st = Some (stop, m', st') \<and>
          stop \<noteq> Some ExpiryPastEnd \<and> ph_wf st'"
    using inbound_paths_accepted [of ?st ?E "[]" 1234567 5] by (auto simp: rcs_ok_def fuzz_ok_def)
  then show "let rc = ?rc;
       E' = E\<lparr>ie_target := 4, ie_pivot_reuse := 1, ie_basis := 1000, ie_db := nodedb_new []\<lparr>known_rcs := [([1], rc 1), ([2], rc 2)]\<rparr>,
         ie_shuf := (\<lambda>_. rev), ie_dist := (\<lambda>i n. if n = 0 then 300 else - 20)\<rparr>
     in \<exists>stop m' st'. inbound_update_paths E' 1234567 5 [] ?st = Some (stop, m', st') \<and> stop \<noteq> Some ExpiryPastEnd \<and> ph_wf st'"
    unfolding Let_def .
qed

end
