(* ===== verification/Endpoint_Lookup.thy ===== *)
theory Endpoint_Lookup
  imports Endpoint_Paths Instances
begin

text \<open>
  The lookups of a client (\<^verbatim>\<open>handlers/session.cpp\<close>): names resolved by a vote over several paths, and
  client contacts fetched from their four storage locations.
\<close>

section \<open>Requests over paths\<close>

text \<open>
  A control request is handed to the link layer only when the contact of the path's edge is known;
  otherwise nothing is sent and its response handler is dropped without being called
  (\<^verbatim>\<open>Endpoint::send_command\<close>).
\<close>

definition send_if_known :: "(router_id \<Rightarrow> bool) \<Rightarrow> path \<Rightarrow> link_send option \<Rightarrow> link_send option" where
  "send_if_known known p msg = (if known (router_id (edge p)) then msg else None)"

section \<open>Names\<close>

definition SNS_CACHE_TIME :: ms where "SNS_CACHE_TIME = 5 * 60 * 1000"

type_synonym sns_cache = "(bytes \<times> network_address option \<times> ms) list"

text \<open>What a response says: an address, that the name does not exist, nothing usable, or an exception.\<close>

datatype sns_vote = VoteAddr network_address | VoteNotFound | VoteUnreadable | VoteBad

definition sns_vote_of :: "sodium \<Rightarrow> oxenc \<Rightarrow> bytes \<Rightarrow> path_control_response \<Rightarrow> sns_vote" where
  "sns_vote_of S X name resp =
     (if \<not> ok resp then VoteBad
      else case bt_open X (pcr_body resp) of
             None \<Rightarrow> VoteBad
           | Some c \<Rightarrow>
               (case bt_maybe_str X ''!'' c of
                  None \<Rightarrow> VoteBad
                | Some (err, c) \<Rightarrow>
                    if err \<noteq> None \<and> err \<noteq> Some (string_bytes ''OK'')
                    then (if err = Some (string_bytes ''NOT FOUND'') then VoteNotFound else VoteBad)
                    else (case bt_require_str X ''c'' c of
                            None \<Rightarrow> VoteBad
                          | Some (ciphertext, c) \<Rightarrow>
                              (case bt_require_span X SYMM_NONCE_SIZE ''n'' c of
                                 None \<Rightarrow> VoteBad
                               | Some (nonce, c) \<Rightarrow>
                                   if \<not> bt_finish X c then VoteBad
                                   else case maybe_decrypt_name S ciphertext nonce name of
                                          Some pk \<Rightarrow> VoteAddr \<lparr>na_pubkey = pk, na_client = True\<rparr>
                                        | None \<Rightarrow> VoteUnreadable))))"

text \<open>
  The shared state of the response handlers of one lookup, and the calls of the callback: address,
  whether the answer is assertive, and its remaining validity.
\<close>

record sns_results =
  sr_result_count :: "(network_address \<times> int) list"
  sr_not_found_count :: int
  sr_remaining :: int
  sr_threshold :: int
  sr_called :: "(network_address option \<times> bool \<times> ms) list"

definition sns_answer :: "network_address option \<Rightarrow> bool \<Rightarrow> ms \<Rightarrow> sns_results \<Rightarrow> sns_results" where
  "sns_answer addr assertive ttl st = st\<lparr>sr_called := sr_called st @ [(addr, assertive, ttl)]\<rparr>"

text \<open>The answer is cached and the callback called.\<close>

definition sns_settle ::
  "ms \<Rightarrow> bytes \<Rightarrow> network_address option \<Rightarrow> sns_results \<times> sns_cache \<Rightarrow> sns_results \<times> sns_cache" where
  "sns_settle now name addr stc =
     (sns_answer addr True SNS_CACHE_TIME (fst stc), AList.update name (addr, now + SNS_CACHE_TIME) (snd stc))"

definition sns_count_vote :: "sns_vote \<Rightarrow> sns_results \<Rightarrow> sns_results" where
  "sns_count_vote v st =
     (case v of
        VoteNotFound \<Rightarrow> st\<lparr>sr_not_found_count := sr_not_found_count st + 1\<rparr>
      | VoteAddr a \<Rightarrow>
          st\<lparr>sr_result_count := AList.update a ((case map_of (sr_result_count st) a of None \<Rightarrow> 0 | Some n \<Rightarrow> n) + 1) (sr_result_count st)\<rparr>
      | _ \<Rightarrow> st)"

text \<open>The addresses with the most votes.\<close>

definition sns_best :: "(network_address \<times> int) list \<Rightarrow> network_address list \<times> int" where
  "sns_best counts =
     fold (\<lambda>(addr, n) (best, best_count).
         if best_count \<le> n then ((if best_count < n then [] else best) @ [addr], if best_count < n then n else best_count)
         else (best, best_count)) counts ([], 0)"

text \<open>What the last response handler decides when no answer reached the threshold; \<open>pick\<close> is drawn.\<close>

definition sns_last :: "(nat \<Rightarrow> nat) \<Rightarrow> ms \<Rightarrow> bytes \<Rightarrow> sns_results \<times> sns_cache \<Rightarrow> sns_results \<times> sns_cache" where
  "sns_last pick now name stc =
     (let st = fst stc
      in if sr_result_count st = []
         then (if 0 < sr_not_found_count st then sns_settle now name None stc else (sns_answer None False 0 st, snd stc))
         else let (best, best_count) = sns_best (sr_result_count st)
              in if best_count \<le> sr_not_found_count st then sns_settle now name None stc
                 else sns_settle now name (Some (best ! (if 1 < length best then pick (length best) else 0))) stc)"

definition sns_response :: "(nat \<Rightarrow> nat) \<Rightarrow> ms \<Rightarrow> bytes \<Rightarrow> sns_vote \<Rightarrow> sns_results \<times> sns_cache \<Rightarrow> sns_results \<times> sns_cache" where
  "sns_response pick now name v stc =
     (let st = (fst stc)\<lparr>sr_remaining := sr_remaining (fst stc) - 1\<rparr>
      in if sr_remaining st < 0 then (st, snd stc)
         else let st = sns_count_vote v st;
                  done = (\<lambda>addr. let (st', cache) = sns_settle now name addr (st, snd stc) in (st'\<lparr>sr_remaining := 0\<rparr>, cache));
                  rest = (if sr_remaining st = 0 then sns_last pick now name (st, snd stc) else (st, snd stc))
              in if v = VoteBad then rest
                 else if sr_threshold st \<le> sr_not_found_count st then done None
                 else case find (\<lambda>(_, n). sr_threshold st \<le> n) (sr_result_count st) of
                        Some (addr, _) \<Rightarrow> done (Some addr)
                      | None \<Rightarrow> rest)"

text \<open>
  \<^verbatim>\<open>resolve_sns\<close>: answered at once (an invalid name, a cached answer, no path), or requests over at most
  five active paths; the list has one entry per request, \<open>None\<close> where nothing was sent.
\<close>

datatype sns_start = SnsAnswered "network_address option \<times> bool \<times> ms" | SnsQueried "link_send option list" sns_results

definition sns_queried :: "nat \<Rightarrow> sns_results" where
  "sns_queried n =
     \<lparr>sr_result_count = [], sr_not_found_count = 0, sr_remaining = int n, sr_threshold = (int n + 1) div 2, sr_called = []\<rparr>"

definition resolve_sns_name ::
  "sodium \<Rightarrow> oxenc \<Rightarrow> (router_id \<Rightarrow> bool) \<Rightarrow> (nat \<Rightarrow> symm_nonce) \<Rightarrow> ms \<Rightarrow> path_handler \<Rightarrow> bytes \<Rightarrow> sns_cache \<Rightarrow>
     sns_start \<times> sns_cache" where
  "resolve_sns_name S X known nonces now st name cache =
     (let paths = take 5 (map snd (active_path_objs now st));
          start = (if paths = [] then SnsAnswered (None, False, 0)
                   else SnsQueried (map (\<lambda>(i, p). send_if_known known p (resolve_sns S X p (shorthash S name) (nonces i))) (enumerate 0 paths))
                          (sns_queried (length paths)))
      in if \<not> is_valid_sns name then (SnsAnswered (None, True, 0), cache)
         else case map_of cache name of
                Some (addr, exp) \<Rightarrow>
                  if now < exp then (SnsAnswered (addr, True, exp - now), cache) else (start, AList.delete name cache)
              | None \<Rightarrow> (start, cache))"

section \<open>Client contacts\<close>

text \<open>The counter the response handlers share, and the calls of the callback.\<close>

record cc_lookup =
  cl_remaining :: int
  cl_called :: "client_contact option list"

definition cc_lookup_response ::
  "ms \<Rightarrow> router_id \<Rightarrow> client_contact option \<Rightarrow> cc_lookup \<times> cc_cache \<Rightarrow> cc_lookup \<times> cc_cache" where
  "cc_lookup_response now remote cc lkc =
     (let lk = fst lkc; rem = cl_remaining lk - 1
      in case cc of
           Some _ \<Rightarrow>
             (let (ccc, cache) = update_cc now remote cc (snd lkc)
              in (lk\<lparr>cl_remaining := (if 0 < rem then 0 else rem),
                     cl_called := cl_called lk @ (if 0 \<le> rem then [ccc] else [])\<rparr>, cache))
         | None \<Rightarrow>
             if rem = 0
             then (let (ccc, cache) = update_cc now remote None (snd lkc)
                   in (lk\<lparr>cl_remaining := rem, cl_called := cl_called lk @ [ccc]\<rparr>, cache))
             else (lk\<lparr>cl_remaining := rem\<rparr>, snd lkc))"

datatype cc_start = CcAnswered "client_contact option" | CcRequested "link_send option list" cc_lookup

definition lookup_client_intro ::
  "sodium \<Rightarrow> oxenc \<Rightarrow> (router_id \<Rightarrow> bool) \<Rightarrow> (nat \<Rightarrow> symm_nonce) \<Rightarrow> ms \<Rightarrow> router_id \<Rightarrow> client_contact option \<Rightarrow> path_handler \<Rightarrow>
     router_id \<Rightarrow> bool \<Rightarrow> cc_cache \<Rightarrow> cc_start \<times> cc_cache" where
  "lookup_client_intro S X known nonces now self own st remote allow_cache cache =
     (let fetch = (\<lambda>cache.
            case blind S remote CLIENT_CONTACT_DOMAIN of
              None \<Rightarrow> (let (ccc, cache) = update_cc now remote None cache in (CcAnswered ccc, cache))
            | Some remote_key \<Rightarrow>
                (let paths = take 4 (map snd (active_path_objs now st));
                     request = (\<lambda>i. let p = paths ! (i mod length paths)
                                    in send_if_known known p (find_client_contact S X p remote_key (int i) (nonces i)))
                 in if paths = [] then (CcAnswered None, cache)
                    else (CcRequested (map request [0..<4]) \<lparr>cl_remaining = 4, cl_called = []\<rparr>, cache)))
      in if remote = self then (CcAnswered own, cache)
         else if \<not> allow_cache then fetch cache
         else case map_of cache remote of
                None \<Rightarrow> fetch cache
              | Some (cc, exp) \<Rightarrow> if exp \<le> now then fetch (AList.delete remote cache) else (CcAnswered cc, cache))"

section \<open>Authorisation\<close>

definition validate :: "bytes list \<Rightarrow> network_address list \<Rightarrow> network_address \<Rightarrow> bytes option \<Rightarrow> bool" where
  "validate tokens whitelist remote maybe_auth =
     (if tokens = [] \<and> whitelist = [] then True
      else if (case maybe_auth of Some a \<Rightarrow> a \<in> set tokens | None \<Rightarrow> False) then True
      else if remote \<in> set whitelist then True
      else False)"

section \<open>Lemmas on contact lookups\<close>

text \<open>All responses to a lookup, each with the time it arrives.\<close>

definition cc_responses :: "router_id \<Rightarrow> (ms \<times> client_contact option) list \<Rightarrow> cc_lookup \<times> cc_cache \<Rightarrow> cc_lookup \<times> cc_cache" where
  "cc_responses remote rs lkc = fold (\<lambda>(t, cc). cc_lookup_response t remote cc) rs lkc"

lemma cc_responses_simps [simp]:
  "cc_responses remote [] lkc = lkc"
  "cc_responses remote ((t, cc) # rs) lkc = cc_responses remote rs (cc_lookup_response t remote cc lkc)"
  by (simp_all add: cc_responses_def)



text \<open>The responses before the first contact change only the counter.\<close>

lemma cc_failed_responses:
  assumes "\<forall>r \<in> set rs. snd r = None" and "int (length rs) < cl_remaining lk"
  shows "cc_responses remote rs (lk, cache) = (lk\<lparr>cl_remaining := cl_remaining lk - int (length rs)\<rparr>, cache)"
  using assms
proof (induction rs arbitrary: lk)
  case (Cons r rs)
  then show ?case by (cases r) (simp add: cc_lookup_response_def)
qed simp


lemma cc_responses_append: "cc_responses remote (as @ bs) lkc = cc_responses remote bs (cc_responses remote as lkc)"
  by (simp add: cc_responses_def)


lemma cc_responses_failed:
  assumes "\<forall>r \<in> set rs. snd r = None" and "length rs \<le> 4"
  shows "length (cl_called (fst (cc_responses remote rs (\<lparr>cl_remaining = 4, cl_called = []\<rparr>, cache)))) = (if length rs = 4 then 1 else 0)"
proof (cases "length rs = 4")
  case False
  with assms cc_failed_responses [OF assms(1), of "\<lparr>cl_remaining = 4, cl_called = []\<rparr>"] show ?thesis by simp
next
  case True
  then obtain as t cc where rs: "rs = as @ [(t, cc)]" by (cases rs rule: rev_cases) auto
  then have "\<forall>r \<in> set as. snd r = None" "cc = None" "length as = 3" using assms(1) True by auto
  with cc_failed_responses [of as "\<lparr>cl_remaining = 4, cl_called = []\<rparr>" remote cache] show ?thesis
    by (simp add: rs cc_responses_append cc_lookup_response_def split: prod.split)
qed

section \<open>Lemmas on name lookups\<close>

text \<open>The responses to a lookup, each with its time and draw.\<close>

definition sns_responses ::
  "bytes \<Rightarrow> (ms \<times> (nat \<Rightarrow> nat) \<times> sns_vote) list \<Rightarrow> sns_results \<times> sns_cache \<Rightarrow> sns_results \<times> sns_cache" where
  "sns_responses name rs stc = fold (\<lambda>(t, pick, v). sns_response pick t name v) rs stc"

lemma sns_responses_simps [simp]:
  "sns_responses name [] stc = stc"
  "sns_responses name ((t, pick, v) # rs) stc = sns_responses name rs (sns_response pick t name v stc)"
  by (simp_all add: sns_responses_def)

lemma sns_late_responses:
  "sr_remaining st \<le> 0 \<Longrightarrow> sr_called (fst (sns_responses name rs (st, cache))) = sr_called st"
proof (induction rs arbitrary: st)
  case (Cons r rs)
  obtain t pick v where r: "r = (t, pick, v)" by (cases r)
  from Cons.prems have "sns_response pick t name v (st, cache) = (st\<lparr>sr_remaining := sr_remaining st - 1\<rparr>, cache)"
    by (simp add: sns_response_def)
  with Cons.IH [of "st\<lparr>sr_remaining := sr_remaining st - 1\<rparr>"] Cons.prems show ?case by (simp add: r)
qed simp

text \<open>The counts of an open lookup are the votes received.\<close>

definition votes :: "sns_vote \<Rightarrow> (ms \<times> (nat \<Rightarrow> nat) \<times> sns_vote) list \<Rightarrow> int" where
  "votes v rs = int (length (filter (\<lambda>(_, _, w). w = v) rs))"

definition sns_open :: "nat \<Rightarrow> (ms \<times> (nat \<Rightarrow> nat) \<times> sns_vote) list \<Rightarrow> sns_results \<Rightarrow> bool" where
  "sns_open n rs st \<longleftrightarrow>
     sr_remaining st = int n - int (length rs) \<and> sr_threshold st = (int n + 1) div 2 \<and> sr_called st = [] \<and>
     sr_not_found_count st = votes VoteNotFound rs \<and> distinct (map fst (sr_result_count st)) \<and>
     (\<forall>a. (case map_of (sr_result_count st) a of None \<Rightarrow> 0 | Some k \<Rightarrow> k) = votes (VoteAddr a) rs) \<and>
     (\<forall>(a, k) \<in> set (sr_result_count st). 0 < k)"

lemma votes_simps [simp]:
  "votes v [] = 0" "votes v (rs @ [(t, pick, w)]) = votes v rs + (if w = v then 1 else 0)"
  by (simp_all add: votes_def)

lemma sns_open_start: "sns_open n [] (sns_queried n)"
  by (simp add: sns_open_def sns_queried_def)

lemma sns_open_count:
  assumes "sns_open n rs st"
  shows "sns_open n (rs @ [(t, pick, v)]) (sns_count_vote v (st\<lparr>sr_remaining := sr_remaining st - 1\<rparr>))"
proof (cases v)
  case (VoteAddr a)
  let ?k = "case map_of (sr_result_count st) a of None \<Rightarrow> 0 | Some k \<Rightarrow> k"
  have "0 \<le> ?k" using assms by (auto simp: sns_open_def votes_def)
  then show ?thesis
    using assms by (auto simp: VoteAddr sns_open_def sns_count_vote_def AList.distinct_update update_conv' dest!: set_alist_update)
qed (use assms in \<open>auto simp: sns_open_def sns_count_vote_def\<close>)

fun vote_answer :: "sns_vote \<Rightarrow> network_address option" where
  "vote_answer (VoteAddr a) = Some a"
| "vote_answer _ = None"

definition is_answer :: "sns_vote \<Rightarrow> bool" where
  "is_answer v \<longleftrightarrow> v \<noteq> VoteUnreadable \<and> v \<noteq> VoteBad"

lemma votes_append: "votes v (as @ bs) = votes v as + votes v bs"
  by (simp add: votes_def)

lemma votes_nonneg [simp]: "0 \<le> votes v rs"
  by (simp add: votes_def)

lemma votes_disjoint: "v \<noteq> w \<Longrightarrow> votes v rs + votes w rs \<le> int (length rs)"
  unfolding votes_def by (induction rs) auto

text \<open>The state after a response while the counts are below the threshold for every answer but \<open>w\<close>.\<close>

lemma sns_step:
  assumes op: "sns_open n rs st" and w: "is_answer w" "votes w rs < (int n + 1) div 2"
    and others: "\<And>x. x \<noteq> w \<Longrightarrow> is_answer x \<Longrightarrow> votes x (rs @ [(t, pick, v)]) < (int n + 1) div 2"
    and more: "length rs < n"
  shows "if (int n + 1) div 2 \<le> votes w (rs @ [(t, pick, v)])
    then \<exists>st'. sns_response pick t name v (st, cache) = (st', AList.update name (vote_answer w, t + SNS_CACHE_TIME) cache) \<and>
      sr_remaining st' = 0 \<and> sr_called st' = [(vote_answer w, True, SNS_CACHE_TIME)]
    else Suc (length rs) < n \<longrightarrow> (\<exists>st'. sns_response pick t name v (st, cache) = (st', cache) \<and> sns_open n (rs @ [(t, pick, v)]) st')"
proof -
  let ?rs = "rs @ [(t, pick, v)]" and ?T = "(int n + 1) div 2"
  define st1 where "st1 = sns_count_vote v (st\<lparr>sr_remaining := sr_remaining st - 1\<rparr>)"
  have op1: "sns_open n ?rs st1" unfolding st1_def by (rule sns_open_count [OF op])
  have rem: "sr_remaining st1 = int n - int (length ?rs)" "sr_threshold st1 = ?T" "sr_called st1 = []"
    "sr_not_found_count st1 = votes VoteNotFound ?rs" using op1 by (simp_all add: sns_open_def)
  have all: "\<forall>a. (case map_of (sr_result_count st1) a of None \<Rightarrow> 0 | Some k \<Rightarrow> k) = votes (VoteAddr a) ?rs"
    using op1 unfolding sns_open_def by blast
  have cnt: "k = votes (VoteAddr a) ?rs" if "(a, k) \<in> set (sr_result_count st1)" for a k
  proof -
    have "map_of (sr_result_count st1) a = Some k" using op1 that by (simp add: sns_open_def)
    with spec [OF all, of a] show ?thesis by simp
  qed
  have resp: "sns_response pick t name v (st, cache) =
    (if v = VoteBad then (if sr_remaining st1 = 0 then sns_last pick t name (st1, cache) else (st1, cache))
     else if sr_threshold st1 \<le> sr_not_found_count st1
       then (let (st', cache) = sns_settle t name None (st1, cache) in (st'\<lparr>sr_remaining := 0\<rparr>, cache))
     else case find (\<lambda>(_, n). sr_threshold st1 \<le> n) (sr_result_count st1) of
       Some (addr, _) \<Rightarrow> (let (st', cache) = sns_settle t name (Some addr) (st1, cache) in (st'\<lparr>sr_remaining := 0\<rparr>, cache))
     | None \<Rightarrow> (if sr_remaining st1 = 0 then sns_last pick t name (st1, cache) else (st1, cache)))"
  proof -
    have "\<not> sr_remaining (st\<lparr>sr_remaining := sr_remaining st - 1\<rparr>) < 0" using more op by (simp add: sns_open_def)
    then show ?thesis by (simp only: sns_response_def st1_def Let_def fst_conv snd_conv if_False)
  qed
  show ?thesis
  proof (cases "?T \<le> votes w ?rs")
    case True
    with w have v: "v = w" by (auto split: if_splits)
    show ?thesis
    proof (cases w)
      case (VoteAddr a)
      have nf: "\<not> sr_threshold st1 \<le> sr_not_found_count st1" using others [of VoteNotFound] rem by (auto simp: VoteAddr is_answer_def)
      have "map_of (sr_result_count st1) a = Some (votes w ?rs)"
      proof -
        have "(case map_of (sr_result_count st1) a of None \<Rightarrow> 0 | Some k \<Rightarrow> k) = votes w ?rs"
          using spec [OF all, of a] by (simp only: VoteAddr)
        moreover have "0 < votes w ?rs" using True more by linarith
        ultimately show ?thesis by (auto split: option.splits)
      qed
      then have "(a, votes w ?rs) \<in> set (sr_result_count st1)" by (rule map_of_SomeD)
      then obtain b k where f: "find (\<lambda>(_, n). sr_threshold st1 \<le> n) (sr_result_count st1) = Some (b, k)"
        using True rem(2) by (cases "find (\<lambda>(_, n). sr_threshold st1 \<le> n) (sr_result_count st1)") (force simp: find_None_iff)+
      then have "(b, k) \<in> set (sr_result_count st1)" "?T \<le> k" using rem(2) by (auto simp: find_Some_iff in_set_conv_nth)
      then have "b = a" using others [of "VoteAddr b"] cnt by (force simp: VoteAddr is_answer_def)
      then show ?thesis
        using True nf f v rem(3) unfolding resp by (simp add: VoteAddr sns_settle_def sns_answer_def)
    next
      case VoteNotFound
      then show ?thesis
        using True v rem unfolding resp by (simp add: sns_settle_def sns_answer_def)
    qed (use w(1) in \<open>simp_all add: is_answer_def\<close>)
  next
    case False
    have low: "votes x ?rs < ?T" if "is_answer x" for x using False others [of x] that by (cases "x = w") auto
    have nf: "\<not> sr_threshold st1 \<le> sr_not_found_count st1" using low [of VoteNotFound] rem by (simp add: is_answer_def)
    have "\<not> ?T \<le> k" if "(a, k) \<in> set (sr_result_count st1)" for a k
      using low [of "VoteAddr a"] cnt [OF that] by (simp add: is_answer_def)
    then have "find (\<lambda>(_, n). sr_threshold st1 \<le> n) (sr_result_count st1) = None"
      using rem(2) by (auto simp: find_None_iff)
    with False nf rem(1) op1 show ?thesis unfolding resp by (auto split: if_splits)
  qed
qed

lemma sns_late_cache: "sr_remaining st \<le> 0 \<Longrightarrow> snd (sns_responses name rs (st, cache)) = cache"
proof (induction rs arbitrary: st)
  case (Cons r rs)
  obtain t pick v where r: "r = (t, pick, v)" by (cases r)
  from Cons.prems have "sns_response pick t name v (st, cache) = (st\<lparr>sr_remaining := sr_remaining st - 1\<rparr>, cache)"
    by (simp add: sns_response_def)
  with Cons.IH [of "st\<lparr>sr_remaining := sr_remaining st - 1\<rparr>"] Cons.prems show ?case by (simp add: r)
qed simp

lemma sns_majority:
  assumes "sns_open n as st" and "is_answer w" and "votes w as < (int n + 1) div 2" and "length (as @ bs) = n"
    and "int n < 2 * votes w (as @ bs)"
  shows "sr_called (fst (sns_responses name bs (st, cache))) = [(vote_answer w, True, SNS_CACHE_TIME)] \<and>
    map_option fst (map_of (snd (sns_responses name bs (st, cache))) name) = Some (vote_answer w)"
  using assms
proof (induction bs arbitrary: as st)
  case Nil
  then have "(int n + 1) div 2 \<le> votes w as" by simp
  with Nil.prems(3) show ?case by simp
next
  case (Cons r bs)
  obtain t pick v where r: "r = (t, pick, v)" by (cases r)
  let ?as = "as @ [(t, pick, v)]"
  have eq: "as @ r # bs = ?as @ bs" by (simp add: r)
  have others: "votes x ?as < (int n + 1) div 2" if "x \<noteq> w" for x
    using votes_disjoint [OF that, of "?as @ bs"] Cons.prems(4,5) votes_nonneg [of x bs] unfolding eq votes_append [of x ?as]
    by linarith
  have "length as < n" using Cons.prems(4) by simp
  note step = sns_step [OF Cons.prems(1-3) others this, of name cache]
  show ?case
  proof (cases "(int n + 1) div 2 \<le> votes w ?as")
    case True
    with step Cons.prems(4) obtain st' where
      "sns_response pick t name v (st, cache) = (st', AList.update name (vote_answer w, t + SNS_CACHE_TIME) cache)"
      "sr_remaining st' = 0" "sr_called st' = [(vote_answer w, True, SNS_CACHE_TIME)]"
      unfolding if_P [OF True] by auto
    then show ?thesis
      using sns_late_responses [of st' name bs] sns_late_cache [of st' name bs] by (simp add: r update_conv')
  next
    case False
    have "bs \<noteq> []" using False Cons.prems(5) unfolding eq by auto
    then have "Suc (length as) < n" using Cons.prems(4) by (cases bs) auto
    with step False obtain st' where st': "sns_response pick t name v (st, cache) = (st', cache)" "sns_open n ?as st'"
      unfolding if_not_P [OF False] by auto
    from Cons.IH [OF st'(2) Cons.prems(2)] False Cons.prems(4,5) show ?thesis by (simp add: r st'(1) votes_append)
  qed
qed

section \<open>Properties\<close>

text \<open>
  C32: Votes on names.  When every request of a name lookup is answered and more than half of the
  answers agree (on an address, or that the name does not exist), then the callback is called exactly
  once, with that answer, whatever the others say and in whatever order responses arrive; and that
  answer is cached.
\<close>

theorem sns_majority_wins:
  assumes "resolve_sns_name S X known nonces now st name cache = (SnsQueried msgs st0, cache0)"
    and "length rs = length msgs" and "is_answer w" and "int (length msgs) < 2 * votes w rs"
  shows "sr_called (fst (sns_responses name rs (st0, cache0))) = [(vote_answer w, True, SNS_CACHE_TIME)] \<and>
    map_option fst (map_of (snd (sns_responses name rs (st0, cache0))) name) = Some (vote_answer w)"
proof -
  have st0: "st0 = sns_queried (length msgs)"
    using assms(1) by (auto simp: resolve_sns_name_def Let_def split: if_splits option.splits)
  have "sns_open (length msgs) [] st0" by (simp add: st0 sns_open_start)
  moreover have "votes w [] < (int (length msgs) + 1) div 2" using assms(2,4) by (cases msgs) auto
  ultimately show ?thesis
    using sns_majority [of "length msgs" "[]" st0 w rs name cache0] assms(2-4) by simp
qed


section \<open>A session whose lookup is never answered\<close>

text \<open>
  The steps of an outbound session other than the callback of its contact lookup.  Paths and session
  fields may change in any way between them.
\<close>

inductive os_step :: "out_session \<Rightarrow> out_session \<Rightarrow> bool" where
  step_os_paths: "os_step os (os\<lparr>os_paths := st\<rparr>)"
| step_os_sess: "os_step os (os\<lparr>os_sess := s\<rparr>)"
| step_os_built: "os_step os (fst (on_path_build_success E now os))"
| step_os_close: "os_step os (recv_close now os)"
| step_os_pushed: "handle_client_contact fuel E L fresh now steady_now payload cache os = (cache', Some (err, os', out)) \<Longrightarrow> os_step os os'"
| step_os_tick: "out_tick fuel E connected interval now steady_now os = Some (err, os', out, pinged, fired, started) \<Longrightarrow> os_step os os'"

lemma select_new_current_updating: "os_updating (fst (select_new_current E now os)) = os_updating os"
  by (simp add: select_new_current_def Let_def split: prod.split option.split)

lemma close_old_updating [simp]: "os_updating (close_old_paths conf now os) = os_updating os"
  by (simp add: close_old_paths_def Let_def split: prod.split)

lemma client_build_loop_updating:
  "client_build_loop fuel E needed i sent os = Some (err, sent', os') \<Longrightarrow> os_updating os' = os_updating os"
proof (induction fuel arbitrary: i sent os)
  case (Suc fuel)
  show ?case
  proof (cases "needed \<le> sent \<or> select_pivot (oe_conf E) (bst_now (oe_step E i)) (bst_pick (oe_step E i)) os = None")
    case True
    then show ?thesis using Suc.prems by (cases "needed \<le> sent") auto
  next
    case False
    then obtain rid exp hop where p: "\<not> needed \<le> sent"
      "select_pivot (oe_conf E) (bst_now (oe_step E i)) (bst_pick (oe_step E i)) os = Some (rid, exp, hop)" by auto
    obtain res st where b: "start_build E i rid (exp * 1000) (os_paths os) = (res, st)" by fastforce
    note loop = Suc.prems [unfolded client_build_loop.simps p(2) option.case prod.case b if_not_P [OF p(1)]]
    consider e where "res = Inl e" | "res = Inr None" | r where "res = Inr (Some r)" by (cases res) auto
    then show ?thesis
    proof cases
      case 3
      with loop show ?thesis by (auto simp: Let_def dest!: Suc.IH)
    qed (use loop in \<open>auto dest!: Suc.IH\<close>)
  qed
qed simp

lemma client_update_paths_updating:
  assumes "client_update_paths fuel E now steady_now os = Some (err, os', out)"
  shows "os_updating os' = os_updating os"
proof (cases "os_cc_ok os")
  case True
  define os1 where "os1 = (if os_intro_processed os then os else drop_unaligned os)"
  define os2 where "os2 = (if s_path (os_sess os1) \<noteq> None \<and> current_gone os1
    then os1\<lparr>os_sess := (os_sess os1)\<lparr>s_path := None, s_dead_path := True\<rparr>\<rparr> else os1)"
  define sel where "sel = (if s_path (os_sess os2) = None \<and> 0 < num_active_paths now now (os_paths os2) then select_new_current E now os2 else (os2, []))"
  have "os_updating (fst sel) = os_updating os"
    by (simp add: sel_def os2_def os1_def select_new_current_updating drop_unaligned_def Let_def)
  moreover have "(if needed_paths (oe_conf E) now (fst sel) \<le> 0 \<or> cooldown steady_now (os_paths (fst sel)) then Some (None, fst sel, snd sel)
    else map_option (\<lambda>(err, _, os). (err, os, snd sel)) (client_build_loop fuel E (needed_paths (oe_conf E) now (fst sel)) 0 0 (fst sel))) =
      Some (err, os', out)"
    using assms by (simp only: client_update_paths_def Let_def True not_True_eq_False if_False os1_def [symmetric] os2_def [symmetric]
        sel_def [symmetric] case_prod_unfold)
  ultimately show ?thesis
    by (auto split: if_splits dest: client_build_loop_updating)
qed (use assms in \<open>simp add: client_update_paths_def\<close>)

lemma update_paths_updating:
  "update_paths fuel E now steady_now os = Some (err, os', out) \<Longrightarrow> os_updating os' = os_updating os"
  by (auto simp: update_paths_def relay_update_paths_def Let_def split: if_splits prod.splits dest: client_update_paths_updating)

lemma tick_rest_updating:
  assumes "tick_rest now steady_now os = (os', fired, started)" and "os_updating os"
  shows "os_updating os'" and "\<not> started"
  using assms by (auto simp: tick_rest_def refresh_intros_def intros_due_def Let_def split: prod.splits if_splits)

lemma out_tick_updating:
  assumes t: "out_tick fuel E connected interval now steady_now os = Some (err, os', out, pinged, fired, started)" and "os_updating os"
  shows "os_updating os' \<and> \<not> started"
proof -
  define os1 where "os1 = (close_old_paths (oe_conf E) now os)\<lparr>os_paths := snd (expire_paths now (os_paths (close_old_paths (oe_conf E) now os)))\<rparr>"
  have u1: "os_updating os1" using assms(2) by (simp add: os1_def)
  show ?thesis
  proof (cases connected)
    case False
    obtain os2 f2 s2 where r: "tick_rest now steady_now os1 = (os2, f2, s2)" by (metis prod_cases3)
    with t False have "os' = os2" "started = s2" by (auto simp: out_tick_def Let_def os1_def)
    with tick_rest_updating [OF r u1] show ?thesis by simp
  next
    case True
    with t obtain err1 os2 out2 where u: "update_paths fuel E now steady_now os1 = Some (err1, os2, out2)"
      by (auto simp: out_tick_def Let_def os1_def split: option.splits)
    have u2: "os_updating os2" using update_paths_updating [OF u] u1 by simp
    show ?thesis
    proof (cases err1)
      case (Some e)
      with t True u u2 show ?thesis by (simp add: out_tick_def Let_def os1_def)
    next
      case None
      obtain pinged1 st where p: "ping_paths interval now steady_now
          ((os_paths os2)\<lparr>ph_stats := snd (build_stats_update steady_now (ph_stats (os_paths os2)))\<rparr>) = (pinged1, st)" by fastforce
      obtain os3 f3 s3 where r: "tick_rest now steady_now (os2\<lparr>os_paths := st\<rparr>) = (os3, f3, s3)" by (metis prod_cases3)
      with t True u None p have "os' = os3" "started = s3" by (auto simp: out_tick_def Let_def os1_def)
      with tick_rest_updating [OF r] u2 show ?thesis by simp
    qed
  qed
qed

lemma os_step_updating: "os_step os os' \<Longrightarrow> os_updating os \<Longrightarrow> os_updating os'"
proof (induction rule: os_step.induct)
  case (step_os_built os E now)
  then show ?case by (simp add: on_path_build_success_def select_new_current_updating)
next
  case (step_os_pushed fuel E L fresh now steady_now payload cache os cache' err os' out)
  then show ?case
    by (auto simp: handle_client_contact_def Let_def update_intros_def take_intros_def split: option.splits prod.splits
        dest!: client_update_paths_updating)
next
  case (step_os_tick fuel E connected interval now steady_now os err os' out pinged fired started)
  then show ?case using out_tick_updating by blast
qed (simp_all add: recv_close_def Let_def)

interpretation lookup_pending: invariant_system os_updating os_step os_updating
  by unfold_locales (auto intro: os_step_updating)

text \<open>
  C34: A session whose contact lookup could not send one of its requests, because the contact of a
  path's edge is not known any more, and found no contact through the others: the callback is never
  called, the session keeps waiting for it, and no tick ever starts another lookup.
\<close>

theorem unsent_lookup_stalls:
  assumes "lookup_client_intro S X known nonces now self own st remote allow cache = (CcRequested msgs lk, cache0)"
    and "None \<in> set msgs" and "length rs \<le> length (filter (\<lambda>m. m \<noteq> None) msgs)" and "\<forall>r \<in> set rs. snd r = None"
    and "os_updating os" and "os_step\<^sup>*\<^sup>* os os'"
    and "out_tick fuel E connected interval t steady_now os' = Some (err, os'', out, pinged, fired, started)"
  shows "cl_called (fst (cc_responses remote rs (lk, cache0))) = [] \<and> os_updating os'' \<and> \<not> started"
proof -
  have lk: "lk = \<lparr>cl_remaining = 4, cl_called = []\<rparr>" and "length msgs = 4"
    using assms(1) by (auto simp: lookup_client_intro_def Let_def split: if_splits option.splits prod.splits)
  moreover have "length (filter (\<lambda>m. m \<noteq> None) msgs) < length msgs"
    using assms(2) by (intro length_filter_less [of None]) auto
  ultimately have "length rs < 4" using assms(3) by linarith
  then have "cl_called (fst (cc_responses remote rs (lk, cache0))) = []"
    using cc_responses_failed [OF assms(4), of remote cache0] by (simp add: lk)
  moreover have "os_updating os'" by (rule lookup_pending.reachable_inv [OF assms(5,6)])
  from out_tick_updating [OF assms(7) this] have "os_updating os'' \<and> \<not> started" .
  ultimately show ?thesis by simp
qed

section \<open>A client with two paths\<close>

definition demo_handler :: path_handler where
  "demo_handler =
     (path_handler_new (path_context_new\<lparr>path_objs := [0 \<mapsto> demo_path demo_hops_p, 1 \<mapsto> demo_path demo_hops_q]\<rparr>) profiling_new)\<lparr>
       ph_paths := [(edge_id (demo_path demo_hops_p), 0), (edge_id (demo_path demo_hops_q), 1)], ph_next_ref := 2\<rparr>"

lemma demo_handler_paths: "active_path_objs 5 demo_handler = [(0, demo_path demo_hops_p), (1, demo_path demo_hops_q)]"
  by (simp add: active_path_objs_def active_paths_def demo_handler_def path_handler_new_def path_at_def map_filter_simps
      demo_path_def is_active_def is_expired_def path_new_def)



definition demo_requests :: "(router_id \<Rightarrow> bool) \<Rightarrow> link_send option list" where
  "demo_requests known =
     map (\<lambda>i. let p = [demo_path demo_hops_p, demo_path demo_hops_q] ! (i mod 2)
        in send_if_known known p (find_client_contact demo_sodium demo_oxenc p
          (the (blind demo_sodium (demo_rid 7) CLIENT_CONTACT_DOMAIN)) (int i) demo_nonce)) [0..<4]"

lemma demo_lookup:
  "lookup_client_intro demo_sodium demo_oxenc known (\<lambda>_. demo_nonce) 5 (demo_rid 9) None demo_handler (demo_rid 7) True [] =
     (CcRequested (demo_requests known) \<lparr>cl_remaining = 4, cl_called = []\<rparr>, [])"
proof -
  obtain k where "blind demo_sodium (demo_rid 7) CLIENT_CONTACT_DOMAIN = Some k" by (simp add: blind_def demo_sodium_def demo_mult_def)
  moreover have "remote = demo_rid 7 \<Longrightarrow> remote \<noteq> demo_rid 9" for remote by simp
  ultimately show ?thesis by (simp add: lookup_client_intro_def demo_handler_paths demo_requests_def numeral_2_eq_2)
qed



text \<open>Nothing could be sent; the next tick of the waiting session, not connected to any edge.\<close>

theorem unsent_lookup_stalls_witness:
  "\<forall>E os. let tick = out_tick 0 E False 0 10 10 (os\<lparr>os_updating := True\<rparr>)
    in \<exists>os'' fired started. tick = Some (None, os'', [], [], fired, started) \<and> os_updating os'' \<and> \<not> started"
proof (intro allI)
  fix E :: out_env and os :: out_session
  let ?os = "os\<lparr>os_updating := True\<rparr>"
  obtain os'' fired started where t: "out_tick 0 E False 0 10 10 ?os = Some (None, os'', [], [], fired, started)"
    by (simp add: out_tick_def Let_def case_prod_unfold) (metis prod.collapse)
  have "set (demo_requests (\<lambda>_. False)) = {None}" by (simp add: demo_requests_def send_if_known_def Let_def image_constant_conv)
  with unsent_lookup_stalls [OF demo_lookup, of "\<lambda>_. False" "[]" ?os ?os, OF _ _ _ _ rtranclp.rtrancl_refl t]
  have "os_updating os'' \<and> \<not> started" by simp
  with t show "let tick = out_tick 0 E False 0 10 10 ?os
    in \<exists>os'' fired started. tick = Some (None, os'', [], [], fired, started) \<and> os_updating os'' \<and> \<not> started" by auto
qed

definition demo_name :: bytes where "demo_name = string_bytes ''abc.loki''"

lemma demo_name_valid: "is_valid_sns demo_name"
  by code_simp

theorem sns_majority_wins_witness:
  "\<forall>a. sr_called (fst (sns_responses demo_name [(6, id, VoteAddr a), (7, id, VoteAddr a)] (sns_queried 2, []))) =
     [(Some a, True, SNS_CACHE_TIME)]"
proof
  fix a
  let ?rs = "[(6, id, VoteAddr a), (7, id, VoteAddr a)] :: (ms \<times> (nat \<Rightarrow> nat) \<times> sns_vote) list"
  obtain msgs where m: "resolve_sns_name demo_sodium demo_oxenc (\<lambda>_. True) (\<lambda>_. demo_nonce) 5 demo_handler demo_name [] =
      (SnsQueried msgs (sns_queried 2), [])" "length msgs = 2"
    by (simp add: resolve_sns_name_def demo_handler_paths demo_name_valid numeral_2_eq_2)
  from sns_majority_wins [OF m(1), of ?rs "VoteAddr a"] m(2)
  show "sr_called (fst (sns_responses demo_name ?rs (sns_queried 2, []))) = [(Some a, True, SNS_CACHE_TIME)]"
    by (simp add: votes_def is_answer_def)
qed

end
