(* ===== verification/Ip_Packet.thy ===== *)
theory Ip_Packet
  imports Prelude
begin

unbundle bit_operations_syntax

text \<open>
  IP packets (\<^verbatim>\<open>net/ip_headers.hpp\<close>, \<^verbatim>\<open>net/ip_packet.hpp\<close>, \<^verbatim>\<open>net/ip_packet.cpp\<close>): the fields the code reads and writes,
  one's complement checksums and their incremental update when addresses are replaced, and the
  packets the router makes itself.  The code reads integers of the packet in the byte order of the machine, so the byte
  order is a parameter.
\<close>

section \<open>Integers in memory\<close>

text \<open>
  The byte order of the machine, and the conversions between it and network order, which are functions of
  oxenc (\<^verbatim>\<open>host_to_big\<close> and \<^verbatim>\<open>big_to_host\<close>, the same function for one width).
\<close>

record machine =
  little :: bool
  swap16 :: "u16 \<Rightarrow> u16"
  swap32 :: "u32 \<Rightarrow> u32"

definition word16 :: "byte \<Rightarrow> byte \<Rightarrow> u16" where
  "word16 hi lo = push_bit 8 (ucast hi) OR ucast lo"

definition load16 :: "machine \<Rightarrow> nat \<Rightarrow> bytes \<Rightarrow> u16" where
  "load16 M i bs = (if little M then word16 (bs ! Suc i) (bs ! i) else word16 (bs ! i) (bs ! Suc i))"

definition store16 :: "machine \<Rightarrow> u16 \<Rightarrow> bytes" where
  "store16 M w = (if little M then [ucast w, ucast (drop_bit 8 w)] else [ucast (drop_bit 8 w), ucast w])"

definition load32 :: "machine \<Rightarrow> nat \<Rightarrow> bytes \<Rightarrow> u32" where
  "load32 M i bs = (if little M then push_bit 16 (ucast (load16 M (i + 2) bs)) OR ucast (load16 M i bs)
                    else push_bit 16 (ucast (load16 M i bs)) OR ucast (load16 M (i + 2) bs))"

definition store32 :: "machine \<Rightarrow> u32 \<Rightarrow> bytes" where
  "store32 M w = (if little M then store16 M (ucast w) @ store16 M (ucast (drop_bit 16 w))
                  else store16 M (ucast (drop_bit 16 w)) @ store16 M (ucast w))"

definition machine_laws :: "machine \<Rightarrow> bool" where
  "machine_laws M \<longleftrightarrow>
     (\<forall>w. store16 M (swap16 M w) = [ucast (drop_bit 8 w), ucast w]) \<and> (\<forall>w. swap16 M (swap16 M w) = w) \<and>
     (\<forall>w. store32 M (swap32 M w) = [ucast (drop_bit 24 w), ucast (drop_bit 16 w), ucast (drop_bit 8 w), ucast w]) \<and>
     (\<forall>w. swap32 M (swap32 M w) = w)"

section \<open>Checksums\<close>

definition TCP_CSUM_OFF :: nat where "TCP_CSUM_OFF = 16"
definition UDP_CSUM_OFF :: nat where "UDP_CSUM_OFF = 6"
definition ICMP_CSUM_OFF :: nat where "ICMP_CSUM_OFF = 2"
definition ICMPv4_HEADER_SIZE :: nat where "ICMPv4_HEADER_SIZE = 8"
definition ICMPv6_HEADER_SIZE :: nat where "ICMPv6_HEADER_SIZE = 4"

definition PROTO_TCP :: byte where "PROTO_TCP = 0x06"
definition PROTO_UDP :: byte where "PROTO_UDP = 0x11"
definition PROTO_ICMP6 :: byte where "PROTO_ICMP6 = 0x3A"
definition PROTO_UDP_LITE :: byte where "PROTO_UDP_LITE = 0x88"

definition add32_cs :: "u32 \<Rightarrow> u32" where
  "add32_cs x = (x AND 0xFFFF) + drop_bit 16 x"

definition sub32_cs :: "u32 \<Rightarrow> u32" where
  "sub32_cs x = add32_cs (NOT x)"

definition add32x4_cs :: "u32 list \<Rightarrow> u32" where
  "add32x4_cs x = add32_cs (x ! 0) + add32_cs (x ! 1) + add32_cs (x ! 2) + add32_cs (x ! 3)"

definition sub32x4_cs :: "u32 list \<Rightarrow> u32" where
  "sub32x4_cs x = sub32_cs (x ! 0) + sub32_cs (x ! 1) + sub32_cs (x ! 2) + sub32_cs (x ! 3)"

text \<open>The two lines that carry the upper half into the lower one, which every checksum function has.\<close>

definition fold_cs :: "u32 \<Rightarrow> u16" where
  "fold_cs x = (let s = (x AND 0xFFFF) + drop_bit 16 x in ucast (s + drop_bit 16 s))"

fun sum16 :: "machine \<Rightarrow> u32 \<Rightarrow> bytes \<Rightarrow> u32" where
  "sum16 M s (a # b # r) = sum16 M (s + ucast (load16 M 0 [a, b])) r"
| "sum16 M s [a] = s + ucast (load16 M 0 [a, 0])"
| "sum16 M s [] = s"

definition ip_checksum :: "machine \<Rightarrow> bytes \<Rightarrow> u16" where
  "ip_checksum M buf = NOT (fold_cs (sum16 M 0 buf))"

definition update_ipv4_checksum :: "machine \<Rightarrow> u16 \<Rightarrow> u32 \<Rightarrow> u32 \<Rightarrow> u32 \<Rightarrow> u32 \<Rightarrow> u16" where
  "update_ipv4_checksum M old_sum old_src old_dest new_src new_dest =
     fold_cs (ucast old_sum + add32_cs old_src + add32_cs old_dest + sub32_cs (swap32 M new_src) + sub32_cs (swap32 M new_dest))"

definition update_ipv4_tcp_checksum :: "machine \<Rightarrow> u16 \<Rightarrow> u32 \<Rightarrow> u32 \<Rightarrow> u32 \<Rightarrow> u32 \<Rightarrow> u16" where
  "update_ipv4_tcp_checksum M old_sum old_src old_dest new_src new_dest =
     (let new_sum = update_ipv4_checksum M old_sum old_src old_dest new_src new_dest
      in if new_sum = 0xFFFF then 0 else new_sum)"

definition update_ipv4_udp_checksum :: "machine \<Rightarrow> u16 \<Rightarrow> u32 \<Rightarrow> u32 \<Rightarrow> u32 \<Rightarrow> u32 \<Rightarrow> u16" where
  "update_ipv4_udp_checksum M old_sum old_src old_dest new_src new_dest =
     (if old_sum = 0 then old_sum else update_ipv4_checksum M old_sum old_src old_dest new_src new_dest)"

definition update_ipv6_checksum :: "u16 \<Rightarrow> u32 list \<Rightarrow> u32 list \<Rightarrow> u32 list \<Rightarrow> u32 list \<Rightarrow> u16" where
  "update_ipv6_checksum old_sum old_src old_dest new_src new_dest =
     fold_cs (ucast old_sum + add32x4_cs old_src + add32x4_cs old_dest + sub32x4_cs new_src + sub32x4_cs new_dest)"

text \<open>The payload is updated in place; one that does not hold the checksum is left alone.\<close>

definition update_ipv6_proto_checksum ::
  "machine \<Rightarrow> bytes \<Rightarrow> nat \<Rightarrow> nat \<Rightarrow> u32 list \<Rightarrow> u32 list \<Rightarrow> u32 list \<Rightarrow> u32 list \<Rightarrow> bytes" where
  "update_ipv6_proto_checksum M payload fragoff chksumoff old_src old_dest new_src new_dest =
     (if chksumoff < fragoff \<or> length payload < chksumoff - fragoff + 2 then payload
      else let off = chksumoff - fragoff;
               check = update_ipv6_checksum (load16 M off payload) old_src old_dest new_src new_dest
           in write_span off (store16 M (if check = 0xFFFF then 0 else check)) payload)"

section \<open>Headers\<close>

definition MIN_PACKET_SIZE :: nat where "MIN_PACKET_SIZE = 20"

definition IP_HEADER :: nat where "IP_HEADER = 20"
definition IPV6_HEADER :: nat where "IPV6_HEADER = 40"
definition UDP_HEADER :: nat where "UDP_HEADER = 8"

definition packet_zero :: "nat \<Rightarrow> bytes option" where
  "packet_zero sz = (if sz \<noteq> 0 \<and> sz < MIN_PACKET_SIZE then None else Some (replicate sz 0))"

definition packet_of :: "bytes \<Rightarrow> bytes option" where
  "packet_of buf = (if length buf < MIN_PACKET_SIZE then None else Some buf)"

definition hdr_version :: "bytes \<Rightarrow> nat" where "hdr_version pkt = unat (drop_bit 4 (pkt ! 0))"
definition hdr_len :: "bytes \<Rightarrow> nat" where "hdr_len pkt = unat (pkt ! 0 AND 0x0F)"

definition is_ipv4 :: "bytes \<Rightarrow> bool" where
  "is_ipv4 pkt \<longleftrightarrow> IP_HEADER \<le> length pkt \<and> hdr_version pkt = 4"

definition is_ipv6 :: "bytes \<Rightarrow> bool" where
  "is_ipv6 pkt \<longleftrightarrow> IPV6_HEADER \<le> length pkt \<and> hdr_version pkt = 6"

definition header_size :: "bytes \<Rightarrow> nat" where
  "header_size pkt = (if is_ipv4 pkt then hdr_len pkt * 4 else if is_ipv6 pkt then 40 else 0)"

definition payload_size :: "bytes \<Rightarrow> nat" where
  "payload_size pkt = (let hsz = header_size pkt in if length pkt \<le> hsz then 0 else length pkt - hsz)"

definition protocol :: "bytes \<Rightarrow> byte" where
  "protocol pkt = (if is_ipv4 pkt then pkt ! 9 else if is_ipv6 pkt then pkt ! 6 else 0)"

definition s_d_port :: "machine \<Rightarrow> nat \<Rightarrow> bytes \<Rightarrow> u16 option" where
  "s_d_port M offset pkt =
     (if (protocol pkt = PROTO_TCP \<or> protocol pkt = PROTO_UDP) \<and> header_size pkt + 4 \<le> length pkt
      then Some (swap16 M (load16 M (header_size pkt + offset) pkt)) else None)"

definition source_port :: "machine \<Rightarrow> bytes \<Rightarrow> u16 option" where "source_port M = s_d_port M 0"
definition dest_port :: "machine \<Rightarrow> bytes \<Rightarrow> u16 option" where "dest_port M = s_d_port M 2"

definition source_ipv4 :: "machine \<Rightarrow> bytes \<Rightarrow> u32 option" where
  "source_ipv4 M pkt = (if is_ipv4 pkt then Some (swap32 M (load32 M 12 pkt)) else None)"
definition dest_ipv4 :: "machine \<Rightarrow> bytes \<Rightarrow> u32 option" where
  "dest_ipv4 M pkt = (if is_ipv4 pkt then Some (swap32 M (load32 M 16 pkt)) else None)"

text \<open>IPv6 addresses are the 16 bytes of an \<^verbatim>\<open>in6_addr\<close>.\<close>

definition source_ipv6 :: "bytes \<Rightarrow> bytes option" where
  "source_ipv6 pkt = (if is_ipv6 pkt then Some (subspan 8 16 pkt) else None)"
definition dest_ipv6 :: "bytes \<Rightarrow> bytes option" where
  "dest_ipv6 pkt = (if is_ipv6 pkt then Some (subspan 24 16 pkt) else None)"

definition udp_data :: "bytes \<Rightarrow> bytes" where
  "udp_data pkt = (if protocol pkt \<noteq> PROTO_UDP \<or> payload_size pkt < 8 then [] else drop (header_size pkt + 8) pkt)"

text \<open>
  Traffic class and flow label: the class is in the lower half of the first byte and the upper half of the second, the
  label in the rest.  The conversion of the lower 16 bits of the label is applied to a 32-bit value, and the result is
  truncated when it is stored.
\<close>

definition tclass :: "bytes \<Rightarrow> byte" where
  "tclass pkt = push_bit 4 (pkt ! 0) OR drop_bit 4 (pkt ! 1)"

definition set_tclass :: "byte \<Rightarrow> bytes \<Rightarrow> bytes" where
  "set_tclass tcl pkt =
     pkt[0 := (pkt ! 0 AND 0xF0) OR drop_bit 4 tcl, 1 := push_bit 4 (tcl mod 0xF) OR (pkt ! 1 AND 0x0F)]"

definition flowlabel :: "machine \<Rightarrow> bytes \<Rightarrow> u32" where
  "flowlabel M pkt = push_bit 16 (ucast (pkt ! 1 AND 0x0F)) OR ucast (swap16 M (load16 M 2 pkt))"

definition set_flowlabel :: "machine \<Rightarrow> u32 \<Rightarrow> bytes \<Rightarrow> bytes" where
  "set_flowlabel M label pkt =
     write_span 2 (store16 M (ucast (swap32 M (label AND 0xFFFF))))
       (pkt[1 := (pkt ! 1 AND 0xF0) OR (ucast (drop_bit 16 label) AND 0x0F)])"

section \<open>Replacing addresses\<close>

text \<open>
  IPv4.  \<open>None\<close>: memory outside the packet is accessed.  The checksum of a TCP segment is looked for at its offset from
  the start of the payload, also in a fragment that starts later.
\<close>

definition frag_offset :: "machine \<Rightarrow> bytes \<Rightarrow> nat" where
  "frag_offset M pkt = unat (swap16 M (load16 M 6 pkt) AND 0x1FFF) * 8"

definition update_ipv4_transport :: "machine \<Rightarrow> u32 \<Rightarrow> u32 \<Rightarrow> bytes \<Rightarrow> bytes option" where
  "update_ipv4_transport M src dst pkt =
     (let ihs = hdr_len pkt * 4; sz = length pkt; frag_off = frag_offset M pkt;
          rewrite = (\<lambda>off f. if ihs + off + 2 \<le> sz
                             then Some (write_span (ihs + off) (store16 M (f M (load16 M (ihs + off) pkt) (load32 M 12 pkt) (load32 M 16 pkt) src dst)) pkt)
                             else None)
      in if sz < ihs then Some pkt
         else if pkt ! 9 = PROTO_TCP
         then (if frag_off \<le> TCP_CSUM_OFF \<and> TCP_CSUM_OFF - frag_off + 2 \<le> sz - ihs
               then rewrite TCP_CSUM_OFF update_ipv4_tcp_checksum else Some pkt)
         else if pkt ! 9 = PROTO_UDP \<or> pkt ! 9 = PROTO_UDP_LITE
         then (if frag_off \<le> UDP_CSUM_OFF \<and> UDP_CSUM_OFF + 2 \<le> sz - ihs
               then rewrite UDP_CSUM_OFF update_ipv4_udp_checksum else Some pkt)
         else Some pkt)"

definition update_ipv4_address :: "machine \<Rightarrow> u32 \<Rightarrow> u32 \<Rightarrow> bytes \<Rightarrow> bytes option" where
  "update_ipv4_address M src dst pkt =
     (if length pkt < IP_HEADER then None
      else map_option (\<lambda>pkt.
             let checksum = update_ipv4_checksum M (load16 M 10 pkt) (load32 M 12 pkt) (load32 M 16 pkt) src dst
             in write_span 16 (store32 M (swap32 M dst)) (write_span 12 (store32 M (swap32 M src)) (write_span 10 (store16 M checksum) pkt)))
           (update_ipv4_transport M src dst pkt))"

text \<open>
  IPv6.  The walk over extension headers: it ends at the transport header (protocol, offset of the fragment, offset of
  the payload), or the packet is too short for a header, or the bytes of a header are read although they
  are not there.
\<close>

datatype ext_walk = ExtOutside | ExtShort | ExtEnd byte nat nat

function ext_headers :: "byte \<Rightarrow> nat \<Rightarrow> bytes \<Rightarrow> ext_walk" where
  "ext_headers nextproto off payload =
     (if nextproto = 0 \<or> nextproto = 43 \<or> nextproto = 60
      then (if length payload < 2 then ExtOutside
            else let addlen = (unat (payload ! 1) + 1) * 8
                 in if length payload < addlen then ExtShort
                    else ext_headers (payload ! 0) (off + addlen) (drop addlen payload))
      else if nextproto = 44
      then (if length payload < 4 then ExtOutside
            else let fragoff = unat ((push_bit 8 (ucast (payload ! 2)) :: u16) OR (ucast (payload ! 3) AND 0xFC))
                 in if length payload < 8 then ExtShort
                    else if fragoff \<noteq> 0 then ExtEnd (payload ! 0) fragoff (off + 8)
                    else ext_headers (payload ! 0) (off + 8) (drop 8 payload))
      else ExtEnd nextproto 0 off)"
  by pat_completeness auto
termination
  by (relation "measure (\<lambda>(_, _, payload). length payload)") auto

declare ext_headers.simps [simp del]

definition csum_off :: "byte \<Rightarrow> nat option" where
  "csum_off nextproto =
     (if nextproto = PROTO_TCP then Some TCP_CSUM_OFF
      else if nextproto = PROTO_ICMP6 then Some ICMP_CSUM_OFF
      else if nextproto = PROTO_UDP \<or> nextproto = PROTO_UDP_LITE then Some UDP_CSUM_OFF
      else None)"

definition words4 :: "machine \<Rightarrow> bytes \<Rightarrow> u32 list" where
  "words4 M a = map (\<lambda>i. load32 M i a) [0, 4, 8, 12]"

definition update_ipv6_address :: "machine \<Rightarrow> bytes \<Rightarrow> bytes \<Rightarrow> u32 option \<Rightarrow> bytes \<Rightarrow> bytes option" where
  "update_ipv6_address M src dst label pkt =
     (if length pkt \<le> IPV6_HEADER then Some pkt
      else let pkt1 = (case label of Some l \<Rightarrow> set_flowlabel M l pkt | None \<Rightarrow> pkt);
               pkt2 = write_span 24 dst (write_span 8 src pkt1);
               payload = drop IPV6_HEADER pkt2
           in case ext_headers (pkt ! 6) 0 payload of
                ExtOutside \<Rightarrow> None
              | ExtShort \<Rightarrow> Some pkt2
              | ExtEnd nextproto fragoff off \<Rightarrow>
                  (case csum_off nextproto of
                     None \<Rightarrow> Some pkt2
                   | Some c \<Rightarrow>
                       Some (take (IPV6_HEADER + off) pkt2 @
                         update_ipv6_proto_checksum M (drop off payload) fragoff c (words4 M (subspan 8 16 pkt)) (words4 M (subspan 24 16 pkt))
                           (words4 M src) (words4 M dst))))"

definition clear_addresses :: "machine \<Rightarrow> bytes \<Rightarrow> bytes option" where
  "clear_addresses M pkt =
     (if is_ipv4 pkt then update_ipv4_address M 0 0 pkt
      else if is_ipv6 pkt then update_ipv6_address M (replicate 16 0) (replicate 16 0) None pkt
      else Some pkt)"

section \<open>Packets made by the router\<close>

definition ipv6_proto_checksum :: "machine \<Rightarrow> bytes \<Rightarrow> bytes \<Rightarrow> u16" where
  "ipv6_proto_checksum M hdr payload =
     (let sum = add32x4_cs (words4 M (subspan 8 16 hdr)) + add32x4_cs (words4 M (subspan 24 16 hdr)) + ucast (load16 M 4 hdr)
                + (if little M then push_bit 8 (ucast (hdr ! 6)) else ucast (hdr ! 6));
          sum = (if odd (length payload) then sum + (if little M then ucast (last payload) else push_bit 8 (ucast (last payload))) else sum);
          payload = (if odd (length payload) then butlast payload else payload)
      in NOT (fold_cs (sum16 M sum payload)))"

definition icmp4_unreachable :: "machine \<Rightarrow> bytes \<Rightarrow> bytes" where
  "icmp4_unreachable M pkt =
     (let orig_prefix = take (min (hdr_len pkt * 4 + 32) (length pkt)) pkt;
          pkt_size = IP_HEADER + ICMPv4_HEADER_SIZE + length orig_prefix;
          hdr = [0x45, 0] @ store16 M (swap16 M (of_nat pkt_size)) @ [0, 0] @ store16 M (swap16 M 0x4000) @ [pkt ! 8, 1] @ [0, 0] @
                subspan 16 4 pkt @ subspan 12 4 pkt;
          icmp = [3, 1, 0, 0, 0, 0, 0, 0] @ orig_prefix
      in write_span 10 (store16 M (ip_checksum M hdr)) hdr @ write_span 2 (store16 M (ip_checksum M icmp)) icmp)"

definition icmp6_unreachable :: "machine \<Rightarrow> bytes \<Rightarrow> bytes" where
  "icmp6_unreachable M pkt =
     (let n = min (IPV6_HEADER + 32) (length pkt);
          orig_prefix = take (n - n mod 4) pkt;
          payload_size = ICMPv6_HEADER_SIZE + 4 + length orig_prefix;
          hdr = [0x60, 0, 0, 0] @ store16 M (swap16 M (of_nat payload_size)) @ [58, pkt ! 7] @ subspan 24 16 pkt @ subspan 8 16 pkt;
          icmp = [1, 3, 0, 0] @ [0, 0, 0, 0] @ orig_prefix
      in hdr @ write_span 2 (store16 M (ipv6_proto_checksum M hdr icmp)) icmp)"

definition make_icmp_unreachable :: "machine \<Rightarrow> bytes \<Rightarrow> bytes option" where
  "make_icmp_unreachable M pkt =
     (if is_ipv4 pkt then Some (icmp4_unreachable M pkt)
      else if is_ipv6 pkt then Some (icmp6_unreachable M pkt)
      else None)"

text \<open>The addresses are given by the 16 bytes they are written as.\<close>

definition make_udp_packet :: "machine \<Rightarrow> bytes \<Rightarrow> u16 \<Rightarrow> bytes \<Rightarrow> u16 \<Rightarrow> bytes \<Rightarrow> bytes" where
  "make_udp_packet M src sport dest dport payload =
     (let hdr = [0x60, 0, 0, 0] @ store16 M (swap16 M (of_nat (UDP_HEADER + length payload))) @ [PROTO_UDP, 255] @ src @ dest;
          udp = store16 M (swap16 M sport) @ store16 M (swap16 M dport) @
                store16 M (swap16 M (of_nat (length payload + UDP_HEADER))) @ [0, 0] @ payload;
          checksum = ipv6_proto_checksum M hdr udp;
          checksum = (if checksum = 0 then 0xFFFF else checksum)
      in hdr @ write_span 6 (store16 M checksum) udp)"

section \<open>Lemmas on words in memory\<close>

lemma unat_lt8: "unat (b :: byte) < 256" using unsigned_less [of b] by simp
lemma unat_lt16: "unat (w :: u16) < 65536" using unsigned_less [of w] by simp
lemma unat_lt32: "unat (w :: u32) < 4294967296" using unsigned_less [of w] by simp

lemma unat_ucast_8_16 [simp]: "unat (ucast (b :: byte) :: u16) = unat b"
  using unat_lt8 [of b] by (simp add: unsigned_ucast_eq take_bit_eq_mod)

lemma unat_ucast_16_32 [simp]: "unat (ucast (w :: u16) :: u32) = unat w"
  using unat_lt16 [of w] by (simp add: unsigned_ucast_eq take_bit_eq_mod)

lemma unat_ucast_32_16: "unat (ucast (w :: u32) :: u16) = unat w mod 65536"
  by (simp add: unsigned_ucast_eq take_bit_eq_mod)

lemma unat_word16: "unat (word16 hi lo) = 256 * unat hi + unat lo"
proof -
  have "push_bit 8 (ucast hi :: u16) OR ucast lo = push_bit 8 (ucast hi) + ucast lo"
    by (rule disjunctive_add [symmetric]) (auto simp: bit_simps dest: bit_imp_le_length)
  moreover have "unat (push_bit 8 (ucast hi :: u16)) = 256 * unat hi"
    using unat_lt8 [of hi] by (simp add: push_bit_eq_mult unat_word_ariths)
  ultimately show ?thesis
    unfolding word16_def using unat_lt8 [of hi] unat_lt8 [of lo] by (simp add: unat_word_ariths)
qed

lemma word16_split: "word16 (ucast (drop_bit 8 w)) (ucast w) = w"
  unfolding word16_def by (rule bit_eqI) (auto simp: bit_simps)

lemma load16_store16 [simp]: "load16 M 0 (store16 M w) = w"
  by (simp add: load16_def store16_def word16_split)

lemma length_store16 [simp]: "length (store16 M w) = 2"
  by (simp add: store16_def)

lemma length_store32 [simp]: "length (store32 M w) = 4"
  by (simp add: store32_def)

lemma unat_and_FFFF: "unat (x AND 0xFFFF :: u32) = unat x mod 65536"
proof -
  have "x AND 0xFFFF = take_bit 16 x" by (simp add: take_bit_eq_mask mask_eq_exp_minus_1)
  then have "unat (x AND 0xFFFF) = take_bit 16 (unat x)" by (simp only: unsigned_take_bit_eq)
  then show ?thesis by (simp add: take_bit_eq_mod)
qed

lemma unat_drop16: "unat (drop_bit 16 x :: u32) = unat x div 65536"
  unfolding unat_drop_bit_eq by (simp add: drop_bit_eq_div)


section \<open>One's complement sums\<close>

text \<open>Checksums are sums of 16-bit words modulo 65535, the sum zero apart.\<close>

lemma unat_add32_cs: "unat (add32_cs x) = unat x mod 65536 + unat x div 65536"
proof -
  have "unat x mod 65536 + unat x div 65536 < 2 ^ 32" using unat_lt32 [of x] by simp
  then show ?thesis unfolding add32_cs_def by (simp add: unat_word_ariths unat_and_FFFF unat_drop16)
qed

lemma add32_cs_bound: "unat (add32_cs x) \<le> 131070"
proof -
  have "unat x div 65536 < 65536" "unat x mod 65536 < 65536" using unat_lt32 [of x] by (simp_all add: less_mult_imp_div_less)
  then show ?thesis unfolding unat_add32_cs by linarith
qed

lemma unat_not32: "unat (NOT x :: u32) = 4294967295 - unat x"
proof -
  have "NOT x = - 1 - x" by (simp add: not_eq_complement)
  then show ?thesis by (simp add: unat_sub unsigned_minus_1_eq_mask mask_eq_exp_minus_1)
qed

lemma halves_complement: "n < 4294967296 \<Longrightarrow> (4294967295 - n) mod 65536 + (4294967295 - n) div 65536 + (n mod 65536 + n div 65536) = (131070 :: nat)"
proof -
  assume n: "n < 4294967296"
  define q r where "q = n div 65536" and "r = n mod 65536"
  have qr: "n = 65536 * q + r" "r < 65536" "q < 65536"
    using n by (auto simp: q_def r_def less_mult_imp_div_less)
  define c d where "c = 65535 - q" and "d = 65535 - r"
  have cd: "c + q = 65535" "d + r = 65535" using qr by (auto simp: c_def d_def)
  then have "4294967295 - n = 65536 * c + d" using qr(1) by linarith
  with qr cd show ?thesis by simp
qed

lemma sub32_cs_complement: "unat (sub32_cs x) + unat (add32_cs x) = 131070"
  using halves_complement [OF unat_lt32 [of x]] unfolding sub32_cs_def unat_add32_cs unat_not32 by simp

lemma carry_nat: "s \<le> 131070 \<Longrightarrow> (s + s div 65536) mod 65536 = (if s < 65536 then s else s - 65535 :: nat)"
  by (auto simp: not_less le_mod_geq)

lemma unat_fold_cs:
  "unat (fold_cs x) = (let s = unat (add32_cs x) in if s < 65536 then s else s - 65535)"
proof -
  let ?s = "add32_cs x"
  have "unat (?s + drop_bit 16 ?s) = unat ?s + unat ?s div 65536"
    using add32_cs_bound [of x] by (simp add: unat_word_ariths unat_drop16)
  then show ?thesis
    using carry_nat [OF add32_cs_bound [of x]] unfolding fold_cs_def add32_cs_def [symmetric] Let_def unat_ucast_32_16 by simp
qed

lemma halves_mod: "(n mod 65536 + n div 65536) mod 65535 = (n :: nat) mod 65535"
proof -
  have "n = 65536 * (n div 65536) + n mod 65536" by simp
  also have "\<dots> = (n mod 65536 + n div 65536) + 65535 * (n div 65536)" by simp
  finally show ?thesis by (metis mod_mult_self2)
qed

lemma fold_cs_mod: "unat (fold_cs x) mod 65535 = unat x mod 65535"
  using halves_mod [of "unat x"] unfolding unat_fold_cs Let_def unat_add32_cs [symmetric] by (auto simp: not_less le_mod_geq)

lemma fold_cs_0: "fold_cs x = 0 \<longleftrightarrow> x = 0"
proof -
  have "unat (fold_cs x) = 0 \<longleftrightarrow> unat (add32_cs x) = 0" unfolding unat_fold_cs Let_def by auto
  also have "\<dots> \<longleftrightarrow> unat x = 0" unfolding unat_add32_cs by (metis add_is_0 div_mult_mod_eq mod_0 div_0 mult_0)
  finally show ?thesis by (simp add: unat_eq_0)
qed

text \<open>The sum of the words of a buffer as a number, an odd last byte padded.\<close>

fun nsum :: "machine \<Rightarrow> bytes \<Rightarrow> nat" where
  "nsum M (a # b # r) = unat (load16 M 0 [a, b]) + nsum M r"
| "nsum M [a] = unat (load16 M 0 [a, 0])"
| "nsum M [] = 0"

lemma nsum_append: "even (length xs) \<Longrightarrow> nsum M (xs @ ys) = nsum M xs + nsum M ys"
  by (induction M xs rule: nsum.induct) simp_all

lemma nsum_store16 [simp]: "nsum M (store16 M w) = unat w"
  by (cases "little M") (simp_all add: store16_def load16_def word16_split)

lemma nsum_bound: "nsum M bs \<le> 65535 * ((length bs + 1) div 2)"
proof (induction M bs rule: nsum.induct)
  case (1 M a b r)
  then show ?case using unat_lt16 [of "load16 M 0 [a, b]"] by simp
next
  case (2 M a)
  then show ?case using unat_lt16 [of "load16 M 0 [a, 0]"] by simp
qed simp

lemma unat_sum16: "unat s + nsum M bs < 4294967296 \<Longrightarrow> unat (sum16 M s bs) = unat s + nsum M bs"
  by (induction M s bs rule: sum16.induct) (auto simp: unat_word_ariths)

lemma unat_not16: "unat (NOT x :: u16) = 65535 - unat x"
proof -
  have "NOT x = - 1 - x" by (simp add: not_eq_complement)
  then show ?thesis by (simp add: unat_sub unsigned_minus_1_eq_mask mask_eq_exp_minus_1)
qed

lemma fold_cs_FFFF: "NOT (fold_cs x) = 0 \<longleftrightarrow> 0 < unat x \<and> 65535 dvd unat x"
proof -
  have "NOT (fold_cs x) = 0 \<longleftrightarrow> unat (fold_cs x) = 65535"
    using unat_not16 [of "fold_cs x"] unat_lt16 [of "fold_cs x"] by (auto simp: unat_eq_0 [symmetric] simp del: unat_eq_0)
  also have "\<dots> \<longleftrightarrow> unat (fold_cs x) \<noteq> 0 \<and> unat (fold_cs x) mod 65535 = 0"
    using unat_lt16 [of "fold_cs x"] by (auto simp: mod_eq_0_iff_dvd dest!: dvd_imp_le elim!: dvdE)
  also have "\<dots> \<longleftrightarrow> 0 < unat x \<and> 65535 dvd unat x"
    using fold_cs_0 [of x] by (auto simp: fold_cs_mod mod_eq_0_iff_dvd [symmetric] unat_gt_0 unat_eq_0)
  finally show ?thesis .
qed

lemma ip_checksum_valid:
  "length bs \<le> 131072 \<Longrightarrow> ip_checksum M bs = 0 \<longleftrightarrow> 0 < nsum M bs \<and> 65535 dvd nsum M bs"
proof -
  assume "length bs \<le> 131072"
  then have "nsum M bs < 4294967296" using nsum_bound [of M bs] by linarith
  then show ?thesis unfolding ip_checksum_def fold_cs_FFFF using unat_sum16 [of 0 M bs] by simp
qed

section \<open>Writing into a packet\<close>

lemma take_write_span_inside:
  "i + length new \<le> n \<Longrightarrow> n \<le> length bs \<Longrightarrow> take n (write_span i new bs) = write_span i new (take n bs)"
  by (rule nth_equalityI) (auto simp: write_span_def nth_append)

lemma take_write_span_before: "n \<le> i \<Longrightarrow> i \<le> length bs \<Longrightarrow> take n (write_span i new bs) = take n bs"
  by (simp add: write_span_def min_def)

lemma drop_write_span_after: "i + length new \<le> n \<Longrightarrow> n \<le> length bs \<Longrightarrow> drop n (write_span i new bs) = drop n bs"
  by (rule nth_equalityI) (auto simp: write_span_def nth_append)

lemma drop_write_span_inside:
  "n \<le> i \<Longrightarrow> i \<le> length bs \<Longrightarrow> drop n (write_span i new bs) = write_span (i - n) new (drop n bs)"
  by (simp add: write_span_def min_def drop_take add.commute)

lemma subspan_write_span_same: "i + length new \<le> length bs \<Longrightarrow> n = length new \<Longrightarrow> subspan i n (write_span i new bs) = new"
  by (simp add: write_span_def subspan_def)

lemma subspan_write_span_after:
  "i + length new \<le> j \<Longrightarrow> i + length new \<le> length bs \<Longrightarrow> subspan j n (write_span i new bs) = subspan j n bs"
  by (simp add: write_span_def subspan_def min_def)

lemma subspan_write_span_before:
  "j + n \<le> i \<Longrightarrow> i \<le> length bs \<Longrightarrow> subspan j n (write_span i new bs) = subspan j n bs"
  by (rule nth_equalityI) (auto simp: write_span_def subspan_def nth_append)

lemma nth_write_span:
  "i + length new \<le> length bs \<Longrightarrow> k < length bs \<Longrightarrow>
     write_span i new bs ! k = (if i \<le> k \<and> k < i + length new then new ! (k - i) else bs ! k)"
  by (auto simp: write_span_def nth_append)

lemma nsum_write_span:
  assumes "even i" and "even (length new)" and "i + length new \<le> length bs"
  shows "nsum M (write_span i new bs) + nsum M (subspan i (length new) bs) = nsum M bs + nsum M new"
proof -
  have "bs = take i bs @ subspan i (length new) bs @ drop (i + length new) bs"
    unfolding subspan_def by (metis add.commute append_take_drop_id drop_drop)
  then have "nsum M bs = nsum M (take i bs) + (nsum M (subspan i (length new) bs) + nsum M (drop (i + length new) bs))"
    using assms by (metis nsum_append length_take length_subspan min_absorb2 add_leD1)
  moreover have "nsum M (write_span i new bs) = nsum M (take i bs) + (nsum M new + nsum M (drop (i + length new) bs))"
    unfolding write_span_def using assms by (simp add: nsum_append)
  ultimately show ?thesis by simp
qed

lemma load16_subspan: "i + 2 \<le> length bs \<Longrightarrow> unat (load16 M i bs) = nsum M (subspan i 2 bs)"
proof -
  assume "i + 2 \<le> length bs"
  then have "subspan i 2 bs = [bs ! i, bs ! Suc i]"
    by (simp add: subspan_def numeral_2_eq_2 take_Suc_conv_app_nth)
  then show ?thesis by (simp add: load16_def)
qed

lemma unat_halves32: "unat (push_bit 16 (ucast (a :: u16)) OR ucast (b :: u16) :: u32) = 65536 * unat a + unat b"
proof -
  have "push_bit 16 (ucast a :: u32) OR ucast b = push_bit 16 (ucast a) + ucast b"
    by (rule disjunctive_add [symmetric]) (auto simp: bit_simps dest: bit_imp_le_length)
  moreover have "unat (push_bit 16 (ucast a :: u32)) = 65536 * unat a"
    using unat_lt16 [of a] by (simp add: push_bit_eq_mult unat_word_ariths)
  ultimately show ?thesis using unat_lt16 [of a] unat_lt16 [of b] by (simp add: unat_word_ariths)
qed

lemma nsum_load32: "i + 4 \<le> length bs \<Longrightarrow> unat (add32_cs (load32 M i bs)) = nsum M (subspan i 4 bs)"
proof -
  assume i: "i + 4 \<le> length bs"
  have "subspan i 4 bs = subspan i 2 bs @ subspan (i + 2) 2 bs"
    by (simp add: subspan_def take_add [of 2 2, simplified] drop_drop add.commute)
  then have "nsum M (subspan i 4 bs) = unat (load16 M i bs) + unat (load16 M (i + 2) bs)"
    using i by (simp add: nsum_append load16_subspan)
  then show ?thesis
    unfolding unat_add32_cs load32_def using unat_lt16 [of "load16 M i bs"] unat_lt16 [of "load16 M (i + 2) bs"]
    by (auto simp: unat_halves32)
qed

lemma nsum_store32 [simp]: "nsum M (store32 M w) = unat (add32_cs w)"
proof -
  have "unat (ucast (drop_bit 16 w) :: u16) = unat w div 65536"
    using unat_lt32 [of w] unfolding unat_ucast_32_16 unat_drop16 by (simp add: less_mult_imp_div_less)
  then show ?thesis unfolding store32_def unat_add32_cs by (auto simp: nsum_append unat_ucast_32_16)
qed

end
