(* ===== verification/Ip_Update.thy ===== *)
theory Ip_Update
  imports Ip_Packet
begin

unbundle bit_operations_syntax

text \<open>
  What the code guarantees of IP packets: replacing addresses keeps valid packets valid, the packets the router makes
  are valid, and where checksums of fragments, of UDP over IPv6 and of short packets go wrong.
\<close>

section \<open>Incremental updates\<close>

text \<open>Old checksum plus old address words and new checksum plus new address words agree modulo 65535.\<close>

lemma update_ipv4_checksum_mod:
  "(unat (update_ipv4_checksum M c s d s' d') + unat (add32_cs (swap32 M s')) + unat (add32_cs (swap32 M d'))) mod 65535 =
     (unat c + unat (add32_cs s) + unat (add32_cs d)) mod 65535"
proof -
  define x where "x = ucast c + add32_cs s + add32_cs d + sub32_cs (swap32 M s') + sub32_cs (swap32 M d')"
  let ?n = "unat c + unat (add32_cs s) + unat (add32_cs d) + unat (sub32_cs (swap32 M s')) + unat (sub32_cs (swap32 M d'))"
  have "?n \<le> 65535 + 4 * 131070"
    using unat_lt16 [of c] add32_cs_bound [of s] add32_cs_bound [of d] sub32_cs_complement [of "swap32 M s'"]
      sub32_cs_complement [of "swap32 M d'"] by linarith
  then have x: "unat x = ?n" by (simp add: x_def unat_word_ariths)
  let ?N = "unat (add32_cs (swap32 M s')) + unat (add32_cs (swap32 M d'))"
  have "(unat (fold_cs x) + ?N) mod 65535 = (unat x + ?N) mod 65535" by (metis fold_cs_mod mod_add_left_eq)
  also have "unat x + ?N = unat c + unat (add32_cs s) + unat (add32_cs d) + 65535 * 4"
    unfolding x using sub32_cs_complement [of "swap32 M s'"] sub32_cs_complement [of "swap32 M d'"] by linarith
  also have "\<dots> mod 65535 = (unat c + unat (add32_cs s) + unat (add32_cs d)) mod 65535" by (rule mod_mult_self2)
  finally show ?thesis unfolding update_ipv4_checksum_def x_def [symmetric] by (simp only: add.assoc)
qed

lemma update_ipv4_checksum_nonzero: "c \<noteq> 0 \<Longrightarrow> update_ipv4_checksum M c s d s' d' \<noteq> 0"
proof -
  assume c: "c \<noteq> 0"
  define x where "x = ucast c + add32_cs s + add32_cs d + sub32_cs (swap32 M s') + sub32_cs (swap32 M d')"
  let ?n = "unat c + unat (add32_cs s) + unat (add32_cs d) + unat (sub32_cs (swap32 M s')) + unat (sub32_cs (swap32 M d'))"
  have "?n \<le> 65535 + 4 * 131070"
    using unat_lt16 [of c] add32_cs_bound [of s] add32_cs_bound [of d] sub32_cs_complement [of "swap32 M s'"]
      sub32_cs_complement [of "swap32 M d'"] by linarith
  then have "unat x = ?n" by (simp add: x_def unat_word_ariths)
  moreover have "0 < unat c" using c by (simp add: unat_gt_0)
  ultimately have "x \<noteq> 0" by (auto simp: unat_eq_0 [symmetric])
  then show ?thesis by (simp add: update_ipv4_checksum_def x_def [symmetric] fold_cs_0)
qed

lemma update_ipv4_tcp_checksum_mod:
  "(unat (update_ipv4_tcp_checksum M c s d s' d') + unat (add32_cs (swap32 M s')) + unat (add32_cs (swap32 M d'))) mod 65535 =
     (unat c + unat (add32_cs s) + unat (add32_cs d)) mod 65535"
proof -
  have "unat (update_ipv4_tcp_checksum M c s d s' d') mod 65535 = unat (update_ipv4_checksum M c s d s' d') mod 65535"
    by (simp add: update_ipv4_tcp_checksum_def Let_def)
  then show ?thesis
    unfolding update_ipv4_checksum_mod [of M c s d s' d', symmetric] by (simp only: add.assoc) (rule mod_add_cong [OF _ refl])
qed

text \<open>What a receiver checks of an IPv4 packet that is not a later fragment.\<close>

definition pseudo4 :: "bytes \<Rightarrow> bytes" where
  "pseudo4 pkt = (let n = length pkt - hdr_len pkt * 4
     in subspan 12 4 pkt @ subspan 16 4 pkt @ [0, pkt ! 9] @ [of_nat (n div 256), of_nat n])"

definition transport4_valid :: "machine \<Rightarrow> bytes \<Rightarrow> bool" where
  "transport4_valid M pkt \<longleftrightarrow>
     (let p = drop (hdr_len pkt * 4) pkt
      in if pkt ! 9 = PROTO_TCP then 20 \<le> length p \<and> ip_checksum M (pseudo4 pkt @ p) = 0
         else if pkt ! 9 = PROTO_UDP then 8 \<le> length p \<and> (load16 M UDP_CSUM_OFF p = 0 \<or> ip_checksum M (pseudo4 pkt @ p) = 0)
         else True)"

definition ipv4_valid :: "machine \<Rightarrow> bytes \<Rightarrow> bool" where
  "ipv4_valid M pkt \<longleftrightarrow>
     is_ipv4 pkt \<and> 5 \<le> hdr_len pkt \<and> hdr_len pkt * 4 \<le> length pkt \<and> length pkt \<le> 65535 \<and> frag_offset M pkt = 0 \<and>
     ip_checksum M (take (hdr_len pkt * 4) pkt) = 0 \<and> transport4_valid M pkt"

lemma word16_0 [simp]: "word16 a b = 0 \<longleftrightarrow> a = 0 \<and> b = 0"
  using unat_word16 [of a b] by (auto simp: unat_eq_0 [symmetric] simp del: unat_eq_0)

lemma nsum_pos: "x \<in> set bs \<Longrightarrow> x \<noteq> 0 \<Longrightarrow> 0 < nsum M bs"
proof (induction M bs rule: nsum.induct)
  case (1 M a b r)
  then show ?case by (auto simp: load16_def unat_gt_0)
next
  case (2 M a)
  then show ?case by (auto simp: load16_def unat_gt_0)
qed simp

lemma valid_by_sum:
  assumes "ip_checksum M bs = 0" and "nsum M bs mod 65535 = nsum M bs' mod 65535" and "0 < nsum M bs'"
    and "length bs \<le> 131072" and "length bs' \<le> 131072"
  shows "ip_checksum M bs' = 0"
  using assms ip_checksum_valid [of bs M] ip_checksum_valid [of bs' M] by (simp add: dvd_eq_mod_eq_0)


lemma mod_cancel_nat: "((a :: nat) + c) mod m = (b + c) mod m \<Longrightarrow> a mod m = b mod m"
  by (auto simp: nat_mod_eq_iff)

lemma load16_drop: "k + i + 2 \<le> length bs \<Longrightarrow> load16 M i (drop k bs) = load16 M (k + i) bs"
  by (simp add: load16_def)

lemma load32_subspan: "i + 4 \<le> length bs \<Longrightarrow> subspan i 4 bs = store32 M w \<Longrightarrow> load32 M i bs = w"
proof -
  assume i: "i + 4 \<le> length bs" and s: "subspan i 4 bs = store32 M w"
  have "bs ! (i + k) = store32 M w ! k" if "k < 4" for k
    unfolding s [symmetric] subspan_def using i that by simp
  from this [of 0] this [of 1] this [of 2] this [of 3]
  have "load16 M i bs = load16 M 0 (store32 M w)" "load16 M (i + 2) bs = load16 M 2 (store32 M w)"
    by (simp_all add: load16_def numeral_2_eq_2 numeral_3_eq_3)
  then have "load32 M i bs = load32 M 0 (store32 M w)" by (simp add: load32_def numeral_2_eq_2)
  also have "\<dots> = w"
  proof -
    have "word16 (ucast (drop_bit 8 (ucast v :: u16))) (ucast (ucast v :: u16)) = (ucast v :: u16)" for v :: u32
      by (rule word16_split)
    moreover have "push_bit 16 (ucast (ucast (drop_bit 16 w) :: u16)) OR ucast (ucast w :: u16) = w"
      by (rule bit_eqI) (auto simp: bit_simps)
    ultimately show ?thesis by (simp add: load32_def store32_def load16_def store16_def)
  qed
  finally show ?thesis .
qed

lemma rewrite_sum:
  assumes "even k" and "even off" and "k + off + 2 \<le> length pkt"
    and "(unat w + N) mod 65535 = (unat (load16 M (k + off) pkt) + A) mod 65535"
  shows "(nsum M (drop k (write_span (k + off) (store16 M w) pkt)) + N) mod 65535 = (nsum M (drop k pkt) + A) mod 65535"
proof -
  let ?p = "drop k pkt" and ?c = "unat (load16 M (k + off) pkt)"
  have "nsum M (write_span off (store16 M w) ?p) + ?c = nsum M ?p + unat w"
    using nsum_write_span [of off "store16 M w" ?p M] assms(2,3) load16_subspan [of off ?p M] load16_drop [of k off pkt M] by simp
  then have "(nsum M (write_span off (store16 M w) ?p) + N + ?c) mod 65535 = (nsum M ?p + (unat w + N)) mod 65535"
    by (simp add: algebra_simps)
  also have "\<dots> = (nsum M ?p + (?c + A)) mod 65535" by (rule mod_add_cong [OF refl assms(4)])
  also have "nsum M ?p + (?c + A) = nsum M ?p + A + ?c" by simp
  finally have "(nsum M (write_span off (store16 M w) ?p) + N) mod 65535 = (nsum M ?p + A) mod 65535" by (rule mod_cancel_nat)
  then show ?thesis using assms(3) by (simp add: drop_write_span_inside)
qed

definition csum_bytes :: "bytes \<Rightarrow> nat set" where
  "csum_bytes pkt = (let off = hdr_len pkt * 4 + (if pkt ! 9 = PROTO_TCP then TCP_CSUM_OFF else UDP_CSUM_OFF)
     in if pkt ! 9 = PROTO_TCP \<or> pkt ! 9 = PROTO_UDP \<or> pkt ! 9 = PROTO_UDP_LITE then {off, Suc off} else {})"

lemmas csum_offs = TCP_CSUM_OFF_def UDP_CSUM_OFF_def ICMP_CSUM_OFF_def
lemmas proto_nums = PROTO_TCP_def PROTO_UDP_def PROTO_UDP_LITE_def PROTO_ICMP6_def

lemma protos_distinct [simp]:
  "PROTO_TCP \<noteq> PROTO_UDP" "PROTO_UDP \<noteq> PROTO_TCP" "PROTO_TCP \<noteq> PROTO_UDP_LITE" "PROTO_UDP_LITE \<noteq> PROTO_TCP"
  "PROTO_UDP \<noteq> PROTO_UDP_LITE" "PROTO_UDP_LITE \<noteq> PROTO_UDP" "PROTO_TCP \<noteq> PROTO_ICMP6" "PROTO_UDP \<noteq> PROTO_ICMP6"
  "PROTO_UDP_LITE \<noteq> PROTO_ICMP6" "PROTO_ICMP6 \<noteq> PROTO_TCP" "PROTO_ICMP6 \<noteq> PROTO_UDP" "PROTO_ICMP6 \<noteq> PROTO_UDP_LITE"
  by (simp_all add: proto_nums)

lemma update_ipv4_transport_keeps:
  fixes M :: machine and src dst :: u32 and pkt :: bytes
  assumes v: "ipv4_valid M pkt"
  defines "N \<equiv> unat (add32_cs (swap32 M src)) + unat (add32_cs (swap32 M dst))"
    and "A \<equiv> unat (add32_cs (load32 M 12 pkt)) + unat (add32_cs (load32 M 16 pkt))" and "k \<equiv> hdr_len pkt * 4"
  shows "\<exists>pkt1. update_ipv4_transport M src dst pkt = Some pkt1 \<and> length pkt1 = length pkt \<and> take k pkt1 = take k pkt \<and>
    (\<forall>i < length pkt. i \<notin> csum_bytes pkt \<longrightarrow> pkt1 ! i = pkt ! i) \<and>
    (pkt ! 9 = PROTO_TCP \<or> pkt ! 9 = PROTO_UDP \<and> load16 M UDP_CSUM_OFF (drop k pkt) \<noteq> 0 \<longrightarrow>
       (nsum M (drop k pkt1) + N) mod 65535 = (nsum M (drop k pkt) + A) mod 65535) \<and>
    (pkt ! 9 = PROTO_UDP \<and> load16 M UDP_CSUM_OFF (drop k pkt) = 0 \<longrightarrow> load16 M UDP_CSUM_OFF (drop k pkt1) = 0)"
proof -
  have k: "even k" "k \<le> length pkt" "20 \<le> k" and fr: "frag_offset M pkt = 0" and tv: "transport4_valid M pkt"
    using v by (auto simp: ipv4_valid_def k_def)
  let ?w = "\<lambda>off w. write_span (k + off) (store16 M w) pkt"
  have wr: "length (?w off w) = length pkt \<and> take k (?w off w) = take k pkt \<and>
      (\<forall>i < length pkt. i \<noteq> k + off \<and> i \<noteq> Suc (k + off) \<longrightarrow> ?w off w ! i = pkt ! i) \<and> load16 M off (drop k (?w off w)) = w"
    if "k + off + 2 \<le> length pkt" for off w
    using that load16_store16 [of M w]
    by (auto simp: take_write_span_before nth_write_span load16_def)
  consider (tcp) "pkt ! 9 = PROTO_TCP" | (udp) "pkt ! 9 = PROTO_UDP \<or> pkt ! 9 = PROTO_UDP_LITE"
    | (other) "pkt ! 9 \<noteq> PROTO_TCP" "pkt ! 9 \<noteq> PROTO_UDP" "pkt ! 9 \<noteq> PROTO_UDP_LITE" by blast
  then show ?thesis
  proof cases
    case tcp
    then have l: "k + TCP_CSUM_OFF + 2 \<le> length pkt" using tv k by (auto simp: transport4_valid_def Let_def k_def csum_offs)
    let ?s = "update_ipv4_tcp_checksum M (load16 M (k + TCP_CSUM_OFF) pkt) (load32 M 12 pkt) (load32 M 16 pkt) src dst"
    have "update_ipv4_transport M src dst pkt = Some (?w TCP_CSUM_OFF ?s)"
      using tcp l k fr by (simp add: update_ipv4_transport_def Let_def k_def [symmetric] not_less le_diff_conv2 add.commute)
    moreover have "(nsum M (drop k (?w TCP_CSUM_OFF ?s)) + N) mod 65535 = (nsum M (drop k pkt) + A) mod 65535"
      using rewrite_sum [of k TCP_CSUM_OFF pkt ?s N M A] update_ipv4_tcp_checksum_mod [of M "load16 M (k + TCP_CSUM_OFF) pkt" "load32 M 12 pkt" "load32 M 16 pkt" src dst] k l
      by (simp add: csum_offs N_def A_def add.assoc)
    ultimately show ?thesis
      using wr [OF l, of ?s] tcp by (auto simp: csum_bytes_def Let_def k_def [symmetric])
  next
    case udp
    show ?thesis
    proof (cases "k + UDP_CSUM_OFF + 2 \<le> length pkt")
      case l: True
      let ?c = "load16 M (k + UDP_CSUM_OFF) pkt"
      let ?s = "update_ipv4_udp_checksum M ?c (load32 M 12 pkt) (load32 M 16 pkt) src dst"
      have "update_ipv4_transport M src dst pkt = Some (?w UDP_CSUM_OFF ?s)"
        using udp l k fr by (auto simp: update_ipv4_transport_def Let_def k_def [symmetric] not_less le_diff_conv2 add.commute)
      moreover have "(nsum M (drop k (?w UDP_CSUM_OFF ?s)) + N) mod 65535 = (nsum M (drop k pkt) + A) mod 65535" if "?c \<noteq> 0"
        using rewrite_sum [of k UDP_CSUM_OFF pkt ?s N M A] update_ipv4_checksum_mod [of M ?c "load32 M 12 pkt" "load32 M 16 pkt" src dst] k l that
        by (simp add: csum_offs N_def A_def add.assoc update_ipv4_udp_checksum_def)
      moreover have "load16 M UDP_CSUM_OFF (drop k pkt) = ?c" using l by (simp add: load16_drop)
      moreover have "?s = 0" if "?c = 0" using that by (simp add: update_ipv4_udp_checksum_def)
      ultimately show ?thesis
        using wr [OF l, of ?s] udp by (auto simp: csum_bytes_def Let_def k_def [symmetric])
    next
      case False
      then have "pkt ! 9 \<noteq> PROTO_UDP" using tv k by (auto simp: transport4_valid_def Let_def k_def csum_offs)
      moreover have "update_ipv4_transport M src dst pkt = Some pkt"
        using udp False k by (auto simp: update_ipv4_transport_def Let_def k_def [symmetric])
      ultimately show ?thesis using udp by auto
    qed
  next
    case other
    then show ?thesis by (auto simp: update_ipv4_transport_def Let_def)
  qed
qed


text \<open>The writes into the header.\<close>

definition set_header4 :: "machine \<Rightarrow> u16 \<Rightarrow> u32 \<Rightarrow> u32 \<Rightarrow> bytes \<Rightarrow> bytes" where
  "set_header4 M c s d pkt = write_span 16 (store32 M d) (write_span 12 (store32 M s) (write_span 10 (store16 M c) pkt))"

lemma set_header4_facts:
  assumes "20 \<le> length pkt"
  shows "length (set_header4 M c s d pkt) = length pkt"
    and "i < length pkt \<Longrightarrow> i < 10 \<or> 20 \<le> i \<Longrightarrow> set_header4 M c s d pkt ! i = pkt ! i"
    and "subspan 12 4 (set_header4 M c s d pkt) = store32 M s" and "subspan 16 4 (set_header4 M c s d pkt) = store32 M d"
    and "20 \<le> k \<Longrightarrow> k \<le> length pkt \<Longrightarrow> take k (set_header4 M c s d pkt) = set_header4 M c s d (take k pkt)"
    and "20 \<le> k \<Longrightarrow> k \<le> length pkt \<Longrightarrow> drop k (set_header4 M c s d pkt) = drop k pkt"
  using assms unfolding set_header4_def
  by (auto simp: nth_write_span subspan_write_span_same subspan_write_span_before take_write_span_inside drop_write_span_after)

lemma set_header4_sum:
  assumes "20 \<le> length h" and "(unat c + (unat (add32_cs s) + unat (add32_cs d))) mod 65535 =
      (unat (load16 M 10 h) + (nsum M (subspan 12 4 h) + nsum M (subspan 16 4 h))) mod 65535"
  shows "nsum M (set_header4 M c s d h) mod 65535 = nsum M h mod 65535"
proof -
  let ?h1 = "write_span 10 (store16 M c) h"
  let ?h2 = "write_span 12 (store32 M s) ?h1"
  have "nsum M ?h1 + unat (load16 M 10 h) = nsum M h + unat c"
    using nsum_write_span [of 10 "store16 M c" h M] assms(1) by (simp add: load16_subspan)
  moreover have "nsum M ?h2 + nsum M (subspan 12 4 h) = nsum M ?h1 + unat (add32_cs s)"
    using nsum_write_span [of 12 "store32 M s" ?h1 M] assms(1) by (simp add: subspan_write_span_after)
  moreover have "nsum M (set_header4 M c s d h) + nsum M (subspan 16 4 h) = nsum M ?h2 + unat (add32_cs d)"
    using nsum_write_span [of 16 "store32 M d" ?h2 M] assms(1) by (simp add: subspan_write_span_after set_header4_def)
  ultimately have "nsum M (set_header4 M c s d h) + (unat (load16 M 10 h) + (nsum M (subspan 12 4 h) + nsum M (subspan 16 4 h))) =
      nsum M h + (unat c + (unat (add32_cs s) + unat (add32_cs d)))" by linarith
  then have "(nsum M (set_header4 M c s d h) + (unat (load16 M 10 h) + (nsum M (subspan 12 4 h) + nsum M (subspan 16 4 h)))) mod 65535 =
      (nsum M h + (unat (load16 M 10 h) + (nsum M (subspan 12 4 h) + nsum M (subspan 16 4 h)))) mod 65535"
    using mod_add_cong [OF refl assms(2), of "nsum M h"] by simp
  then show ?thesis by (rule mod_cancel_nat)
qed

lemma nsum_pseudo4:
  assumes "20 \<le> length pkt"
  shows "nsum M (pseudo4 pkt @ p) = nsum M (subspan 12 4 pkt) + nsum M (subspan 16 4 pkt) +
    nsum M ([0, pkt ! 9] @ [of_nat ((length pkt - hdr_len pkt * 4) div 256), of_nat (length pkt - hdr_len pkt * 4)]) + nsum M p"
  using assms unfolding pseudo4_def Let_def by (simp add: nsum_append)

lemma pseudo4_pos: "pkt ! 9 \<noteq> 0 \<Longrightarrow> 20 \<le> length pkt \<Longrightarrow> 0 < nsum M (pseudo4 pkt @ p)"
  by (rule nsum_pos [of "pkt ! 9"]) (auto simp: pseudo4_def Let_def)

lemma length_pseudo4: "20 \<le> length pkt \<Longrightarrow> length (pseudo4 pkt) = 12"
  by (simp add: pseudo4_def Let_def)

text \<open>
  C35: Replacing the addresses of an IPv4 packet.  A valid packet (version, header length, header checksum, and the
  TCP or UDP checksum over the pseudo header) that is not a later fragment becomes a valid packet of the same
  length with the new addresses, on machines of either byte order; no byte but the addresses and the two
  checksums changes, and a UDP packet without a checksum stays one without.
\<close>

theorem update_ipv4_address_valid:
  assumes "machine_laws M" and "ipv4_valid M pkt"
  shows "\<exists>pkt'. update_ipv4_address M src dst pkt = Some pkt' \<and> ipv4_valid M pkt' \<and> length pkt' = length pkt \<and>
    source_ipv4 M pkt' = Some src \<and> dest_ipv4 M pkt' = Some dst \<and>
    (\<forall>i < length pkt. (i < 10 \<or> 20 \<le> i) \<and> i \<notin> csum_bytes pkt \<longrightarrow> pkt' ! i = pkt ! i)"
proof -
  define k where "k = hdr_len pkt * 4"
  have l: "20 \<le> k" "k \<le> length pkt" "length pkt \<le> 65535" and ip: "is_ipv4 pkt"
    and h: "ip_checksum M (take k pkt) = 0" and fr: "frag_offset M pkt = 0" and tv: "transport4_valid M pkt"
    using assms(2) by (auto simp: ipv4_valid_def k_def)
  obtain pkt1 where t: "update_ipv4_transport M src dst pkt = Some pkt1" "length pkt1 = length pkt" "take k pkt1 = take k pkt"
      "\<forall>i < length pkt. i \<notin> csum_bytes pkt \<longrightarrow> pkt1 ! i = pkt ! i"
    and sums: "pkt ! 9 = PROTO_TCP \<or> pkt ! 9 = PROTO_UDP \<and> load16 M UDP_CSUM_OFF (drop k pkt) \<noteq> 0 \<Longrightarrow>
       (nsum M (drop k pkt1) + (unat (add32_cs (swap32 M src)) + unat (add32_cs (swap32 M dst)))) mod 65535 =
       (nsum M (drop k pkt) + (unat (add32_cs (load32 M 12 pkt)) + unat (add32_cs (load32 M 16 pkt)))) mod 65535"
      "pkt ! 9 = PROTO_UDP \<and> load16 M UDP_CSUM_OFF (drop k pkt) = 0 \<Longrightarrow> load16 M UDP_CSUM_OFF (drop k pkt1) = 0"
    using update_ipv4_transport_keeps [OF assms(2), of src dst] unfolding k_def [symmetric] by blast
  define c where "c = update_ipv4_checksum M (load16 M 10 pkt1) (load32 M 12 pkt1) (load32 M 16 pkt1) src dst"
  define pkt' where "pkt' = set_header4 M c (swap32 M src) (swap32 M dst) pkt1"
  have u: "update_ipv4_address M src dst pkt = Some pkt'"
    using l t(1) by (simp add: update_ipv4_address_def pkt'_def c_def set_header4_def Let_def IP_HEADER_def)
  note f = set_header4_facts [where pkt = pkt1 and M = M and c = c and s = "swap32 M src" and d = "swap32 M dst", folded pkt'_def]
  have len: "length pkt' = length pkt" using f(1) l t(2) by simp
  have "pkt1 ! i = pkt ! i" if "i < k" for i using t(3) that by (metis nth_take)
  then have same: "pkt' ! i = pkt ! i" if "i < 10" for i using f(2) [of i] that l t(2) by simp
  then have ip': "is_ipv4 pkt'" "hdr_len pkt' = hdr_len pkt" "pkt' ! 9 = pkt ! 9" "frag_offset M pkt' = 0" "pkt' ! 0 = pkt ! 0"
    using ip fr len by (simp_all add: is_ipv4_def hdr_version_def hdr_len_def frag_offset_def load16_def split: if_splits)
  have addr: "subspan 12 4 pkt' = store32 M (swap32 M src)" "subspan 16 4 pkt' = store32 M (swap32 M dst)" using f(3,4) l t(2) by simp_all
  have swap: "swap32 M (swap32 M w) = w" for w using assms(1) by (simp add: machine_laws_def)
  from addr have src: "source_ipv4 M pkt' = Some src" "dest_ipv4 M pkt' = Some dst"
    using ip' swap len l by (simp_all add: source_ipv4_def dest_ipv4_def load32_subspan)
  have tk: "take k pkt' = set_header4 M c (swap32 M src) (swap32 M dst) (take k pkt)" using f(5) [of k] l t(2,3) by simp
  have ne: "pkt ! 0 \<noteq> 0" using ip by (auto simp: is_ipv4_def hdr_version_def)
  have sub: "subspan j 4 (take k pkt) = subspan j 4 pkt" "load32 M j pkt1 = load32 M j pkt" if "j + 4 \<le> 20" for j
    using that l t(3) \<open>\<And>i. i < k \<Longrightarrow> pkt1 ! i = pkt ! i\<close> by (simp_all add: subspan_def take_drop [symmetric] drop_take load32_def load16_def min_def)
  have c10: "load16 M 10 pkt1 = load16 M 10 (take k pkt)"
    using \<open>\<And>i. i < k \<Longrightarrow> pkt1 ! i = pkt ! i\<close> l by (simp add: load16_def)
  have "(unat c + (unat (add32_cs (swap32 M src)) + unat (add32_cs (swap32 M dst)))) mod 65535 =
      (unat (load16 M 10 (take k pkt)) + (nsum M (subspan 12 4 pkt) + nsum M (subspan 16 4 pkt))) mod 65535"
    using update_ipv4_checksum_mod [of M "load16 M 10 pkt1" "load32 M 12 pkt1" "load32 M 16 pkt1" src dst] l
    unfolding c_def c10 by (simp add: sub nsum_load32 add.assoc)
  then have "nsum M (take k pkt') mod 65535 = nsum M (take k pkt) mod 65535"
    unfolding tk using l by (intro set_header4_sum) (simp_all add: sub)
  moreover have "0 < nsum M (take k pkt')"
    using ne ip' l len by (intro nsum_pos [of "pkt ! 0"]) (auto simp: in_set_conv_nth intro!: exI [of _ 0])
  ultimately have hv: "ip_checksum M (take k pkt') = 0" using valid_by_sum [OF h] l len by simp
  have dk: "drop k pkt' = drop k pkt1" using f(6) [of k] l t(2) by simp
  have "ip_checksum M (pseudo4 pkt' @ drop k pkt') = 0"
    if "ip_checksum M (pseudo4 pkt @ drop k pkt) = 0"
      and p: "pkt ! 9 = PROTO_TCP \<or> pkt ! 9 = PROTO_UDP \<and> load16 M UDP_CSUM_OFF (drop k pkt) \<noteq> 0"
  proof (rule valid_by_sum [OF that(1)])
    show "nsum M (pseudo4 pkt @ drop k pkt) mod 65535 = nsum M (pseudo4 pkt' @ drop k pkt') mod 65535"
      using mod_add_cong [OF sums(1) [OF p] refl, of "nsum M ([0, pkt ! 9] @ [of_nat ((length pkt - k) div 256), of_nat (length pkt - k)])"] l len
      unfolding dk by (simp add: nsum_pseudo4 addr ip' nsum_load32 k_def [symmetric] ac_simps)
    show "0 < nsum M (pseudo4 pkt' @ drop k pkt')"
      using p ip' l len by (intro pseudo4_pos) (auto simp: proto_nums)
  qed (use l len in \<open>simp_all add: length_pseudo4\<close>)
  then have tv': "transport4_valid M pkt'"
    using tv sums(2) unfolding transport4_valid_def Let_def ip' k_def [symmetric] len dk length_drop
    by (cases "load16 M UDP_CSUM_OFF (drop k pkt) = 0") (auto simp: t(2))
  show ?thesis
    using u ip' hv tv' src len l f(2) t(2,4) assms(2) unfolding ipv4_valid_def by (auto simp: k_def)
qed


section \<open>Replacing IPv6 addresses\<close>

lemma unat_add4:
  assumes "unat (a :: u32) \<le> 131070" and "unat b \<le> 131070" and "unat c \<le> 131070" and "unat d \<le> 131070"
  shows "unat (a + b + c + d) = unat a + unat b + unat c + unat d"
  using assms by (simp add: unat_word_ariths)

lemma unat_add32x4:
  "unat (add32x4_cs x) = unat (add32_cs (x ! 0)) + unat (add32_cs (x ! 1)) + unat (add32_cs (x ! 2)) + unat (add32_cs (x ! 3))"
  unfolding add32x4_cs_def by (intro unat_add4 add32_cs_bound)

lemma nsum_words4: "length a = 16 \<Longrightarrow> unat (add32x4_cs (words4 M a)) = nsum M a"
proof -
  assume l: "length a = 16"
  let ?n = "\<lambda>i. nsum M (subspan i 4 a)"
  have "a = subspan 0 4 a @ subspan 4 4 a @ subspan 8 4 a @ subspan 12 4 a"
    using l by (intro nth_equalityI) (auto simp: subspan_def nth_append)
  then have "nsum M a = nsum M (subspan 0 4 a @ subspan 4 4 a @ subspan 8 4 a @ subspan 12 4 a)" by (rule arg_cong)
  also have "\<dots> = ?n 0 + (?n 4 + (?n 8 + ?n 12))" using l by (simp add: nsum_append)
  finally have s: "nsum M a = \<dots>" .
  have "unat (add32_cs (load32 M i a)) = ?n i" if "i + 4 \<le> 16" for i using that l by (simp add: nsum_load32)
  from this [of 0] this [of 4] this [of 8] this [of 12] show ?thesis
    unfolding unat_add32x4 words4_def s by simp
qed

lemma add32x4_bound: "unat (add32x4_cs x) \<le> 524280"
  unfolding unat_add32x4
  using add32_cs_bound [of "x ! 0"] add32_cs_bound [of "x ! 1"] add32_cs_bound [of "x ! 2"] add32_cs_bound [of "x ! 3"] by linarith





text \<open>What a receiver checks of an IPv6 packet that is not a later fragment.\<close>

definition pseudo6 :: "bytes \<Rightarrow> byte \<Rightarrow> nat \<Rightarrow> bytes" where
  "pseudo6 pkt proto n =
     subspan 8 16 pkt @ subspan 24 16 pkt @ [of_nat (n div 16777216), of_nat (n div 65536), of_nat (n div 256), of_nat n] @ [0, 0, 0, proto]"

definition ipv6_valid :: "machine \<Rightarrow> bytes \<Rightarrow> bool" where
  "ipv6_valid M pkt \<longleftrightarrow>
     is_ipv6 pkt \<and> IPV6_HEADER < length pkt \<and> length pkt \<le> 65575 \<and>
     (case ext_headers (pkt ! 6) 0 (drop IPV6_HEADER pkt) of
        ExtEnd proto fragoff off \<Rightarrow>
          fragoff = 0 \<and>
          (let p = drop (IPV6_HEADER + off) pkt
           in case csum_off proto of
                Some c \<Rightarrow> c + 2 \<le> length p \<and> ip_checksum M (pseudo6 pkt proto (length p) @ p) = 0
              | None \<Rightarrow> True)
      | _ \<Rightarrow> False)"







lemma nsum_pseudo6:
  assumes "40 \<le> length pkt"
  shows "nsum M (pseudo6 pkt proto n @ p) = nsum M (subspan 8 16 pkt) + nsum M (subspan 24 16 pkt) +
    nsum M ([of_nat (n div 16777216), of_nat (n div 65536), of_nat (n div 256), of_nat n] @ [0, 0, 0, proto]) + nsum M p"
  using assms unfolding pseudo6_def by (simp add: nsum_append)




lemma csum_off_cases: "csum_off proto = Some c \<Longrightarrow> even c \<and> proto \<noteq> 0"
  by (auto simp: csum_off_def csum_offs proto_nums split: if_splits)



section \<open>Packets made by the router\<close>

text \<open>Filling in a checksum whose field was zero makes the sum a multiple of 65535.\<close>

lemma filled_sum:
  assumes "even c" and "c + 2 \<le> length p" and "load16 M c p = 0" and "unat s = base + nsum M p"
    and "unat w mod 65535 = unat (NOT (fold_cs s)) mod 65535"
  shows "(base + nsum M (write_span c (store16 M w) p)) mod 65535 = 0"
proof -
  have "nsum M (write_span c (store16 M w) p) = nsum M p + unat w"
    using nsum_write_span [of c "store16 M w" p M] assms(1-3) load16_subspan [of c p M] by simp
  then have "(base + nsum M (write_span c (store16 M w) p)) mod 65535 = (unat s + unat w) mod 65535" using assms(4) by (simp add: add.assoc)
  also have "\<dots> = (unat (fold_cs s) + unat (NOT (fold_cs s))) mod 65535"
    by (rule mod_add_cong [OF fold_cs_mod [symmetric] assms(5)])
  also have "unat (fold_cs s) + unat (NOT (fold_cs s)) = 65535" unfolding unat_not16 using unat_lt16 [of "fold_cs s"] by simp
  finally show ?thesis by simp
qed

lemma unat_ucast_8_32 [simp]: "unat (ucast (b :: byte) :: u32) = unat b"
  using unat_lt8 [of b] by (simp add: unsigned_ucast_eq take_bit_eq_mod)

lemma unat_high8: "unat (push_bit 8 (ucast (b :: byte)) :: u32) = 256 * unat b"
  using unat_lt8 [of b] by (simp add: push_bit_eq_mult unat_word_ariths)

lemma ipv6_proto_sum:
  assumes "40 \<le> length hdr" and "length payload \<le> 65575"
  shows "\<exists>s. ipv6_proto_checksum M hdr payload = NOT (fold_cs s) \<and>
    unat s = nsum M (subspan 8 16 hdr) + nsum M (subspan 24 16 hdr) + unat (load16 M 4 hdr) + nsum M [0, hdr ! 6] + nsum M payload"
proof -
  let ?a = "nsum M (subspan 8 16 hdr) + nsum M (subspan 24 16 hdr) + unat (load16 M 4 hdr) + nsum M [0, hdr ! 6]"
  define s0 :: u32 where "s0 = add32x4_cs (words4 M (subspan 8 16 hdr)) + add32x4_cs (words4 M (subspan 24 16 hdr)) + ucast (load16 M 4 hdr)
    + (if little M then push_bit 8 (ucast (hdr ! 6)) else ucast (hdr ! 6))"
  have p: "unat (if little M then push_bit 8 (ucast (hdr ! 6)) else ucast (hdr ! 6) :: u32) = nsum M [0, hdr ! 6]"
    by (simp add: load16_def unat_word16 unat_high8)
  have ab: "?a \<le> 2 * 524280 + 2 * 65535"
    using add32x4_bound [of "words4 M (subspan 8 16 hdr)"] add32x4_bound [of "words4 M (subspan 24 16 hdr)"] assms(1)
      unat_lt16 [of "load16 M 4 hdr"] nsum_bound [of M "[0, hdr ! 6]"] by (simp add: nsum_words4)
  then have s0: "unat s0 = ?a"
    unfolding s0_def using assms(1) by (simp add: unat_word_ariths nsum_words4 p del: nsum.simps)
  have "(length payload + 1) div 2 \<le> 32788" using assms(2) by simp
  then have pb: "nsum M payload \<le> 65535 * 32788" using nsum_bound [of M payload] by linarith
  show ?thesis
  proof (cases "odd (length payload)")
    case True
    let ?l = "if little M then ucast (last payload) else push_bit 8 (ucast (last payload)) :: u32"
    have l: "unat ?l = nsum M [last payload]" by (simp add: load16_def unat_word16 unat_high8)
    have "payload = butlast payload @ [last payload]" using True by (metis append_butlast_last_id even_zero list.size(3))
    then have n: "nsum M payload = nsum M (butlast payload) + nsum M [last payload]"
      using nsum_append [of "butlast payload" M "[last payload]"] True by simp
    have "unat (s0 + ?l) = ?a + nsum M [last payload]" using s0 l ab pb n by (simp add: unat_word_ariths del: nsum.simps)
    moreover from this have "unat (sum16 M (s0 + ?l) (butlast payload)) = ?a + nsum M payload"
      using unat_sum16 [of "s0 + ?l" M "butlast payload"] n ab pb by linarith
    ultimately show ?thesis using True unfolding ipv6_proto_checksum_def Let_def s0_def [symmetric] by auto
  next
    case False
    then show ?thesis
      using unat_sum16 [of s0 M payload] s0 ab pb unfolding ipv6_proto_checksum_def Let_def s0_def [symmetric] by auto
  qed
qed

lemma length_field:
  assumes "machine_laws M" and "n < 65536"
  shows "store16 M (swap16 M (of_nat n)) = [of_nat (n div 256), of_nat n]"
proof -
  have "n div 256 = drop_bit 8 n" by (simp add: drop_bit_eq_div)
  then have "(ucast (drop_bit 8 (of_nat n :: u16)) :: byte) = of_nat (n div 256)"
    by (intro bit_eqI) (simp add: bit_simps)
  moreover have "(ucast (of_nat n :: u16) :: byte) = of_nat n"
    by (rule bit_eqI) (simp add: bit_simps)
  ultimately show ?thesis using assms(1) by (simp add: machine_laws_def)
qed


lemma load16_append: "length a = i \<Longrightarrow> load16 M i (a @ store16 M w @ r) = w"
  using load16_store16 [of M w] by (simp add: load16_def nth_append split: if_splits)

lemma made6_valid:
  assumes M: "machine_laws M" and l: "length src = 16" "length dst = 16" "length p \<le> 65535"
    and c: "csum_off proto = Some c" "c + 2 \<le> length p" "load16 M c p = 0"
    and hdr_def: "hdr = [0x60, 0, 0, 0] @ store16 M (swap16 M (of_nat (length p))) @ [proto, hl] @ src @ dst"
    and w: "unat w mod 65535 = unat (ipv6_proto_checksum M hdr p) mod 65535"
    and r_def: "r = hdr @ write_span c (store16 M w) p"
  shows "ipv6_valid M r" and "source_ipv6 r = Some src" and "dest_ipv6 r = Some dst" and "header_size r = 40" and "protocol r = proto"
    and "length r = 40 + length p"
proof -
  have f: "store16 M (swap16 M (of_nat (length p))) = [of_nat (length p div 256), of_nat (length p)]"
    using length_field [OF M] l(3) by simp
  let ?a = "[0x60, 0, 0, 0, of_nat (length p div 256), of_nat (length p), proto, hl]"
  have h: "hdr = [0x60, 0, 0, 0, of_nat (length p div 256), of_nat (length p), proto, hl] @ src @ dst" by (simp add: hdr_def f)
  have lh: "length hdr = 40" using l by (simp add: h)
  show lr: "length r = 40 + length p" using lh c(2) by (simp add: r_def)
  have v: "hdr_version r = 6" by (simp add: hdr_version_def r_def h)
  have i: "is_ipv6 r" using v lr by (simp add: is_ipv6_def IPV6_HEADER_def)
  moreover have "\<not> is_ipv4 r" using v by (simp add: is_ipv4_def)
  ultimately show "header_size r = 40" "protocol r = proto" by (simp_all add: header_size_def protocol_def r_def h)
  have sub: "subspan 8 16 r = src" "subspan 24 16 r = dst" "subspan 8 16 hdr = src" "subspan 24 16 hdr = dst"
    using l subspan_append_mid [of ?a 8 src 16 dst] subspan_append_mid [of ?a 8 src 16 "dst @ write_span c (store16 M w) p"]
      subspan_append_mid [of "?a @ src" 24 dst 16 "[]"] subspan_append_mid [of "?a @ src" 24 dst 16 "write_span c (store16 M w) p"]
    unfolding r_def h by simp_all
  then show s: "source_ipv6 r = Some src" "dest_ipv6 r = Some dst" using i by (simp_all add: source_ipv6_def dest_ipv6_def)
  have d: "drop 40 r = write_span c (store16 M w) p" using lh by (simp add: r_def)
  have e: "ext_headers (r ! 6) 0 (drop 40 r) = ExtEnd proto 0 0"
    using c(1) by (auto simp: r_def h ext_headers.simps [of proto] csum_off_def proto_nums split: if_splits)
  obtain t where t: "ipv6_proto_checksum M hdr p = NOT (fold_cs t)"
    "unat t = nsum M src + nsum M dst + unat (load16 M 4 hdr) + nsum M [0, hdr ! 6] + nsum M p"
    using ipv6_proto_sum [of hdr p M] lh l(3) sub by auto
  let ?n = "[of_nat (length p div 16777216), of_nat (length p div 65536), of_nat (length p div 256), of_nat (length p)] @ [0, 0, 0, proto] :: bytes"
  have "nsum M ?n = unat (load16 M 4 hdr) + nsum M [0, hdr ! 6]" using l(3) by (simp add: h load16_def unat_word16)
  then have "unat t = (nsum M src + nsum M dst + nsum M ?n) + nsum M p" using t(2) by simp
  from filled_sum [OF _ c(2,3) this w [unfolded t(1)]] csum_off_cases [OF c(1)]
  have "(nsum M src + nsum M dst + nsum M ?n + nsum M (drop 40 r)) mod 65535 = 0" by (simp add: d)
  then have "nsum M (pseudo6 r proto (length p) @ drop 40 r) mod 65535 = 0" using lr by (simp only: nsum_pseudo6 sub le_add1)
  moreover have "0 < nsum M (pseudo6 r proto (length p) @ drop 40 r)"
    using csum_off_cases [OF c(1)] by (intro nsum_pos [of proto]) (auto simp: pseudo6_def)
  moreover have "length (pseudo6 r proto (length p) @ drop 40 r) \<le> 131072" using l lr by (simp add: pseudo6_def)
  ultimately have "ip_checksum M (pseudo6 r proto (length p) @ drop 40 r) = 0" by (simp only: ip_checksum_valid dvd_eq_mod_eq_0)
  then show "ipv6_valid M r" using i lr e c(1,2) l(3) by (auto simp: ipv6_valid_def IPV6_HEADER_def Let_def)
qed

lemma make_udp_packet_ok:
  assumes "machine_laws M" and "length src = 16" and "length dst = 16" and "length payload \<le> 65527"
  shows "let pkt = make_udp_packet M src sport dst dport payload
    in ipv6_valid M pkt \<and> source_ipv6 pkt = Some src \<and> dest_ipv6 pkt = Some dst \<and>
       source_port M pkt = Some sport \<and> dest_port M pkt = Some dport \<and> load16 M 46 pkt \<noteq> 0 \<and> udp_data pkt = payload"
proof -
  define p where "p = store16 M (swap16 M sport) @ store16 M (swap16 M dport) @
    store16 M (swap16 M (of_nat (length payload + UDP_HEADER))) @ [0, 0] @ payload"
  define hdr where "hdr = [0x60, 0, 0, 0] @ store16 M (swap16 M (of_nat (length p))) @ [PROTO_UDP, 255] @ src @ dst"
  define w where "w = (if ipv6_proto_checksum M hdr p = 0 then 0xFFFF else ipv6_proto_checksum M hdr p)"
  have lp: "length p = 8 + length payload" by (simp add: p_def)
  have wm: "unat w mod 65535 = unat (ipv6_proto_checksum M hdr p) mod 65535" by (simp add: w_def)
  have z: "load16 M UDP_CSUM_OFF p = 0" by (simp add: p_def load16_def csum_offs nth_append)
  let ?r = "hdr @ write_span UDP_CSUM_OFF (store16 M w) p"
  have r: "make_udp_packet M src sport dst dport payload = ?r"
    by (simp add: make_udp_packet_def Let_def w_def hdr_def lp UDP_HEADER_def csum_offs p_def add.commute)
  have c: "csum_off PROTO_UDP = Some UDP_CSUM_OFF" "UDP_CSUM_OFF + 2 \<le> length p"
    using lp by (simp_all add: csum_off_def csum_offs)
  have l: "length p \<le> 65535" using lp assms(4) by simp
  note v = made6_valid [OF assms(1-3) l c z hdr_def wm refl]
  have lh: "length hdr = 40" using assms(2,3) by (simp add: hdr_def)
  have at: "load16 M (40 + i) ?r = load16 M i (write_span UDP_CSUM_OFF (store16 M w) p)" for i
    using lh by (simp add: load16_def nth_append)
  have swap: "swap16 M (swap16 M x) = x" for x using assms(1) by (simp add: machine_laws_def)
  have ports: "swap16 M (load16 M 0 p) = sport" "swap16 M (load16 M 2 p) = dport"
    using load16_append [of "[]" 0] load16_append [of "store16 M (swap16 M sport)" 2] by (simp_all add: p_def swap)
  have "load16 M i (write_span UDP_CSUM_OFF (store16 M w) p) = load16 M i p" if "i = 0 \<or> i = 2" for i
    using that lp by (auto simp: load16_def nth_write_span csum_offs)
  then have "source_port M ?r = Some sport" "dest_port M ?r = Some dport"
    using v(4-6) at [of 0] at [of 2] ports lp by (simp_all add: source_port_def dest_port_def s_d_port_def)
  moreover have "load16 M UDP_CSUM_OFF (write_span UDP_CSUM_OFF (store16 M w) p) = w"
    using load16_store16 [of M w] lp by (simp add: load16_def nth_write_span csum_offs split: if_splits)
  then have "load16 M 46 ?r \<noteq> 0" using at [of UDP_CSUM_OFF] by (simp add: csum_offs w_def)
  moreover have "udp_data ?r = payload"
    using v(4-6) lh lp by (simp add: udp_data_def payload_size_def Let_def) (simp add: write_span_def csum_offs p_def)
  ultimately show ?thesis unfolding r Let_def using v(1-3) by blast
qed

text \<open>
  C37: Packets the router makes from datagrams that arrive on mapped ports.  The packet is a valid IPv6 packet with the given
  addresses and ports, its checksum is not zero, and the payload read from it is the datagram, for datagrams of up to
  65527 bytes.
\<close>

theorem make_udp_packet_valid:
  assumes "machine_laws M" and "length src = 16" and "length dst = 16" and "length payload \<le> 65527"
  shows "let pkt = make_udp_packet M src sport dst dport payload
    in ipv6_valid M pkt \<and> source_ipv6 pkt = Some src \<and> dest_ipv6 pkt = Some dst \<and>
       source_port M pkt = Some sport \<and> dest_port M pkt = Some dport \<and> load16 M 46 pkt \<noteq> 0 \<and> udp_data pkt = payload"
  by (rule make_udp_packet_ok [OF assms])

lemma load32_cong: "i + 4 \<le> length a \<Longrightarrow> j + 4 \<le> length b \<Longrightarrow> subspan i 4 a = subspan j 4 b \<Longrightarrow> load32 M i a = load32 M j b"
proof -
  assume l: "i + 4 \<le> length a" "j + 4 \<le> length b" and s: "subspan i 4 a = subspan j 4 b"
  have "a ! (i + k) = b ! (j + k)" if "k < 4" for k
    using arg_cong [OF s, of "\<lambda>xs. xs ! k"] l that by (simp add: subspan_def)
  from this [of 0] this [of 1] this [of 2] this [of 3] show ?thesis
    by (simp add: load32_def load16_def numeral_2_eq_2 numeral_3_eq_3)
qed

lemma filled_checksum:
  assumes "even c" and "c + 2 \<le> length p" and "load16 M c p = 0" and "length p \<le> 131072" and "x \<in> set (take c p)" and "x \<noteq> 0"
  shows "ip_checksum M (write_span c (store16 M (ip_checksum M p)) p) = 0"
proof -
  let ?p = "write_span c (store16 M (ip_checksum M p)) p"
  have "(length p + 1) div 2 \<le> 65536" using assms(4) by simp
  then have "nsum M p < 4294967296" using nsum_bound [of M p] by linarith
  then have "unat (sum16 M 0 p) = 0 + nsum M p" using unat_sum16 [of 0 M p] by simp
  from filled_sum [OF assms(1-3) this, of "ip_checksum M p"] have "nsum M ?p mod 65535 = 0" by (simp add: ip_checksum_def)
  moreover have "0 < nsum M ?p" using assms(5,6) by (intro nsum_pos [of x]) (auto simp: write_span_def)
  moreover have "length ?p \<le> 131072" using assms(2,4) by simp
  ultimately show ?thesis by (simp only: ip_checksum_valid dvd_eq_mod_eq_0)
qed

lemma icmp4_unreachable_valid:
  assumes "machine_laws M" and "is_ipv4 pkt"
  defines "r \<equiv> icmp4_unreachable M pkt" and "n \<equiv> min (hdr_len pkt * 4 + 32) (length pkt)"
  shows "ipv4_valid M r" and "ip_checksum M (drop 20 r) = 0" and "source_ipv4 M r = dest_ipv4 M pkt" and "dest_ipv4 M r = source_ipv4 M pkt"
    and "drop 28 r = take n pkt" and "protocol r = 1"
proof -
  have l: "20 \<le> length pkt" using assms(2) by (simp add: is_ipv4_def IP_HEADER_def)
  have "hdr_len pkt \<le> 15"
  proof -
    have "pkt ! 0 AND 0x0F \<le> 0x0F" by (rule word_and_le1)
    then show ?thesis by (simp add: hdr_len_def word_le_nat_alt)
  qed
  then have n: "n \<le> 92" "n \<le> length pkt" by (auto simp: n_def)
  then have ln: "length (take n pkt) = n" by simp
  define hdr where "hdr = [0x45, 0] @ store16 M (swap16 M (of_nat (28 + n))) @ [0, 0] @ store16 M (swap16 M 0x4000) @ [pkt ! 8, 1] @ [0, 0] @
    subspan 16 4 pkt @ subspan 12 4 pkt"
  define icmp where "icmp = [3, 1, 0, 0, 0, 0, 0, 0] @ take n pkt"
  let ?h = "write_span 10 (store16 M (ip_checksum M hdr)) hdr" and ?i = "write_span 2 (store16 M (ip_checksum M icmp)) icmp"
  have r: "r = ?h @ ?i"
    unfolding r_def icmp4_unreachable_def Let_def n_def [symmetric] ln hdr_def icmp_def by (simp add: IP_HEADER_def ICMPv4_HEADER_SIZE_def)
  have lh: "length hdr = 20" "length ?h = 20" using l by (simp_all add: hdr_def)
  have li: "length ?i = 8 + n" using n by (simp add: icmp_def)
  have h: "ip_checksum M ?h = 0"
    by (rule filled_checksum [of _ _ _ "0x45"]) (use lh in \<open>simp_all add: hdr_def load16_def nth_append\<close>)
  have i: "ip_checksum M ?i = 0"
    by (rule filled_checksum [of _ _ _ 3]) (use n in \<open>simp_all add: icmp_def load16_def\<close>)
  show "ip_checksum M (drop 20 r) = 0" using i lh by (simp add: r)
  show "drop 28 r = take n pkt" using lh by (simp add: r) (simp add: write_span_def icmp_def)
  have b: "r ! j = hdr ! j" if "j < 10" for j using lh that by (simp add: r nth_append nth_write_span)
  have b0: "r ! 0 = 0x45" and b9: "r ! 9 = 1" using b [of 0] b [of 9] by (simp_all add: hdr_def nth_append)
  have ip: "is_ipv4 r" "hdr_len r = 5" using b0 lh li by (simp_all add: is_ipv4_def hdr_version_def hdr_len_def IP_HEADER_def r)
  then show "protocol r = 1" using b9 by (simp add: protocol_def)
  have swap: "swap16 M (swap16 M x) = x" for x using assms(1) by (simp add: machine_laws_def)
  have "load16 M 6 r = load16 M 6 hdr" using b [of 6] b [of 7] by (simp add: load16_def)
  also have "\<dots> = swap16 M 0x4000"
    using load16_append [of "[0x45, 0] @ store16 M (swap16 M (of_nat (28 + n))) @ [0, 0]" 6 M] by (simp add: hdr_def)
  finally have f: "frag_offset M r = 0" by (simp add: frag_offset_def swap)
  have a: "subspan j 4 r = subspan j 4 hdr" if "j = 12 \<or> j = 16" for j
    unfolding subspan_def using lh that by (intro nth_equalityI) (auto simp: r nth_append nth_write_span)
  have "subspan 12 4 hdr = subspan 16 4 pkt" "subspan 16 4 hdr = subspan 12 4 pkt"
    using l by (simp_all add: hdr_def subspan_def)
  then have "load32 M 12 r = load32 M 16 pkt" "load32 M 16 r = load32 M 12 pkt"
    using a lh l by (simp_all add: load32_cong r)
  then show "source_ipv4 M r = dest_ipv4 M pkt" "dest_ipv4 M r = source_ipv4 M pkt"
    using ip assms(2) by (simp_all add: source_ipv4_def dest_ipv4_def)
  show "ipv4_valid M r"
    using ip f h lh li n b9 by (simp add: ipv4_valid_def transport4_valid_def proto_nums) (simp add: r)
qed


lemma icmp6_unreachable_valid:
  assumes "machine_laws M" and "is_ipv6 pkt"
  defines "r \<equiv> icmp6_unreachable M pkt" and "n \<equiv> min 72 (length pkt) - min 72 (length pkt) mod 4"
  shows "ipv6_valid M r" and "source_ipv6 r = dest_ipv6 pkt" and "dest_ipv6 r = source_ipv6 pkt" and "drop 48 r = take n pkt"
    and "protocol r = PROTO_ICMP6"
proof -
  have l: "40 \<le> length pkt" using assms(2) by (simp add: is_ipv6_def IPV6_HEADER_def)
  have n: "n \<le> 72" "n \<le> length pkt" by (auto simp: n_def)
  then have ln: "length (take n pkt) = n" by simp
  define p where "p = [1, 3, 0, 0] @ [0, 0, 0, 0] @ take n pkt"
  define hdr where "hdr = [0x60, 0, 0, 0] @ store16 M (swap16 M (of_nat (length p))) @ [PROTO_ICMP6, pkt ! 7] @ subspan 24 16 pkt @ subspan 8 16 pkt"
  let ?w = "ipv6_proto_checksum M hdr p"
  have lp: "length p = 8 + n" using ln by (simp add: p_def)
  have r: "r = hdr @ write_span ICMP_CSUM_OFF (store16 M ?w) p"
    unfolding r_def icmp6_unreachable_def Let_def IPV6_HEADER_def ICMPv6_HEADER_SIZE_def hdr_def lp
    by (simp add: n_def [symmetric] min_absorb2 [OF n(2)] p_def csum_offs PROTO_ICMP6_def)
  have c: "csum_off PROTO_ICMP6 = Some ICMP_CSUM_OFF" "ICMP_CSUM_OFF + 2 \<le> length p" "load16 M ICMP_CSUM_OFF p = 0"
    using lp by (simp_all add: csum_off_def csum_offs p_def load16_def)
  have a: "length (subspan 24 16 pkt) = 16" "length (subspan 8 16 pkt) = 16" and lp': "length p \<le> 65535" using l lp n by simp_all
  note v = made6_valid [OF assms(1) a lp' c hdr_def refl r]
  show "ipv6_valid M r" by (rule v(1))
  show "protocol r = PROTO_ICMP6" by (rule v(5))
  show "source_ipv6 r = dest_ipv6 pkt" "dest_ipv6 r = source_ipv6 pkt"
    using v(2,3) assms(2) by (simp_all add: source_ipv6_def [of pkt] dest_ipv6_def [of pkt])
  have "length hdr = 40" using a by (simp add: hdr_def)
  then show "drop 48 r = take n pkt" by (simp add: r) (simp add: write_span_def csum_offs p_def)
qed

text \<open>
  C38: Answers to packets that cannot be delivered.  For an IPv4 or IPv6 packet the router makes a valid ICMP packet of the same version,
  both of whose checksums hold for IPv4 (the IPv6 header has none), from the destination of the packet to its source, with a prefix of
  the packet as its body.
\<close>

theorem icmp_unreachable_valid:
  assumes "machine_laws M" and "is_ipv4 pkt \<or> is_ipv6 pkt"
  shows "\<exists>r. make_icmp_unreachable M pkt = Some r \<and>
    (if is_ipv4 pkt
     then ipv4_valid M r \<and> protocol r = 1 \<and> ip_checksum M (drop 20 r) = 0 \<and> source_ipv4 M r = dest_ipv4 M pkt \<and> dest_ipv4 M r = source_ipv4 M pkt \<and>
       drop 28 r = take (min (hdr_len pkt * 4 + 32) (length pkt)) pkt
     else ipv6_valid M r \<and> protocol r = PROTO_ICMP6 \<and> source_ipv6 r = dest_ipv6 pkt \<and> dest_ipv6 r = source_ipv6 pkt \<and>
       drop 48 r = take (min 72 (length pkt) - min 72 (length pkt) mod 4) pkt)"
  using icmp4_unreachable_valid [OF assms(1), of pkt] icmp6_unreachable_valid [OF assms(1), of pkt] assms(2)
  unfolding make_icmp_unreachable_def by auto

section \<open>Defects\<close>



text \<open>
  C39: A TCP segment whose checksum is in its second fragment.  For the fragment at offset eight the code still takes the start of the payload for
  the start of the segment: the checksum, at offset eight of the payload, stays that of the old addresses and two bytes of the segment's
  options or data are rewritten instead; when the payload ends before them, memory behind the packet is changed.
\<close>

theorem tcp_fragment_misplaced:
  assumes "is_ipv4 pkt" and "pkt ! 9 = PROTO_TCP" and "5 \<le> hdr_len pkt" and "frag_offset M pkt = 8" and "hdr_len pkt * 4 + 10 \<le> length pkt"
  defines "payload \<equiv> hdr_len pkt * 4"
  shows "if length pkt < payload + 18 then update_ipv4_address M src dst pkt = None
    else \<exists>pkt'. update_ipv4_address M src dst pkt = Some pkt' \<and> load16 M (payload + 8) pkt' = load16 M (payload + 8) pkt \<and>
      load16 M (payload + 16) pkt' =
        update_ipv4_tcp_checksum M (load16 M (payload + 16) pkt) (load32 M 12 pkt) (load32 M 16 pkt) src dst"
proof -
  have l: "20 \<le> payload" "payload + 10 \<le> length pkt" using assms(3,5) by (auto simp: payload_def)
  define w where "w = update_ipv4_tcp_checksum M (load16 M (payload + 16) pkt) (load32 M 12 pkt) (load32 M 16 pkt) src dst"
  let ?p = "write_span (payload + 16) (store16 M w) pkt"
  have t: "update_ipv4_transport M src dst pkt = (if payload + 18 \<le> length pkt then Some ?p else None)"
    using assms(2,4) l unfolding update_ipv4_transport_def Let_def payload_def [symmetric] w_def by (auto simp: csum_offs)
  show ?thesis
  proof (cases "payload + 18 \<le> length pkt")
    case True
    obtain c where u: "update_ipv4_address M src dst pkt = Some (set_header4 M c (swap32 M src) (swap32 M dst) ?p)"
      using t True l by (simp add: update_ipv4_address_def set_header4_def Let_def IP_HEADER_def)
    have h: "set_header4 M c (swap32 M src) (swap32 M dst) ?p ! i = ?p ! i" if "20 \<le> i" "i < length pkt" for i
      using set_header4_facts(2) [of ?p i] that True l by simp
    have "load16 M (payload + 8) (set_header4 M c (swap32 M src) (swap32 M dst) ?p) = load16 M (payload + 8) pkt"
      using True l by (simp add: load16_def h nth_write_span)
    moreover have "load16 M (payload + 16) (set_header4 M c (swap32 M src) (swap32 M dst) ?p) = w"
      using True l load16_store16 [of M w] by (simp add: load16_def h nth_write_span split: if_splits)
    ultimately show ?thesis using True u by (simp add: not_less w_def)
  next
    case False
    then show ?thesis using t l by (simp add: update_ipv4_address_def)
  qed
qed



text \<open>On a little-endian machine the lower 16 bits of a flow label are lost: they are swapped as part of a wider integer.\<close>

lemma flowlabel_lost:
  assumes "machine_laws M" and "little M" and "4 \<le> length pkt"
  shows "load16 M 2 (set_flowlabel M l pkt) = 0"
proof -
  let ?x = "swap32 M (l AND 0xFFFF)"
  have "store32 M ?x = [ucast (drop_bit 24 (l AND 0xFFFF)), ucast (drop_bit 16 (l AND 0xFFFF)), ucast (drop_bit 8 (l AND 0xFFFF)), ucast (l AND 0xFFFF)]"
    using assms(1) unfolding machine_laws_def by blast
  moreover have "drop_bit 16 (l AND 0xFFFF) = 0" "drop_bit 24 (l AND 0xFFFF) = 0"
    by (rule bit_eqI; auto simp: bit_simps dest: bit_imp_le_length)+
  ultimately have "store16 M (ucast ?x) = [0, 0]" using assms(2) by (simp add: store32_def store16_def)
  then show ?thesis
    using assms(3) unfolding set_flowlabel_def by (simp add: load16_def nth_write_span)
qed

section \<open>Concrete packets\<close>

definition demo_machine :: machine where
  "demo_machine = \<lparr>little = True, swap16 = (\<lambda>w. word16 (ucast w) (ucast (drop_bit 8 w))),
     swap32 = (\<lambda>w. push_bit 24 (ucast (ucast w :: byte)) OR push_bit 16 (ucast (ucast (drop_bit 8 w) :: byte)) OR
       push_bit 8 (ucast (ucast (drop_bit 16 w) :: byte)) OR ucast (ucast (drop_bit 24 w) :: byte))\<rparr>"

lemma bit_swap32:
  "n < 32 \<Longrightarrow> bit (swap32 demo_machine w) n = bit w (if n < 8 then n + 24 else if n < 16 then n + 8 else if n < 24 then n - 8 else n - 24)"
  by (auto simp: demo_machine_def bit_simps not_less add.commute dest: bit_imp_le_length)

lemma demo_machine_laws: "machine_laws demo_machine"
proof -
  have "store16 demo_machine (swap16 demo_machine w) = [ucast (drop_bit 8 w), ucast w]" for w
    by (auto simp: demo_machine_def store16_def word16_def intro!: bit_eqI simp: bit_simps)
  moreover have "swap16 demo_machine (swap16 demo_machine w) = w" for w
    by (rule bit_eqI) (auto simp: demo_machine_def word16_def bit_simps)
  moreover have "store32 demo_machine (swap32 demo_machine w) = [ucast (drop_bit 24 w), ucast (drop_bit 16 w), ucast (drop_bit 8 w), ucast w]" for w
    by (simp add: demo_machine_def store32_def store16_def; intro conjI bit_eqI; simp add: bit_simps; fastforce dest: bit_imp_le_length)
  moreover have "swap32 demo_machine (swap32 demo_machine w) = w" for w
  proof (rule bit_eqI)
    fix n assume "possible_bit TYPE(u32) n"
    then have "n < 32" by simp
    then consider "n < 8" | "8 \<le> n" "n < 16" | "16 \<le> n" "n < 24" | "24 \<le> n" "n < 32" by linarith
    then show "bit (swap32 demo_machine (swap32 demo_machine w)) n = bit w n" by cases (auto simp: bit_swap32)
  qed
  ultimately show ?thesis by (simp add: machine_laws_def)
qed

definition demo_segment :: bytes where
  "demo_segment = [69, 0, 0, 42, 0, 7, 64, 0, 64, 6, 38, 197, 10, 0, 0, 1, 10, 0, 0, 2, 31, 144, 0, 80, 0, 0, 0, 1, 0, 0, 0, 2, 80, 16, 1, 0, 18, 132,
     0, 0, 104, 105]"

lemma demo_segment_valid: "ipv4_valid demo_machine demo_segment"
  by code_simp

theorem update_ipv4_address_valid_witness:
  "\<exists>pkt'. update_ipv4_address demo_machine 0 0 demo_segment = Some pkt' \<and> ipv4_valid demo_machine pkt' \<and> length pkt' = 42 \<and>
    source_ipv4 demo_machine pkt' = Some 0 \<and> dest_ipv4 demo_machine pkt' = Some 0 \<and> pkt' ! 40 = 104"
  using update_ipv4_address_valid [OF demo_machine_laws demo_segment_valid, of 0 0]
  by (fastforce simp: demo_segment_def csum_bytes_def hdr_len_def csum_offs Let_def)

definition demo_in6 :: "byte \<Rightarrow> bytes" where "demo_in6 b = replicate 15 0 @ [b]"

lemma length_demo_in6 [simp]: "length (demo_in6 b) = 16" by (simp add: demo_in6_def)

theorem make_udp_packet_valid_witness:
  "ipv6_valid demo_machine (make_udp_packet demo_machine (demo_in6 1) 53 (demo_in6 2) 54 [104, 105]) \<and>
   udp_data (make_udp_packet demo_machine (demo_in6 1) 53 (demo_in6 2) 54 [104, 105]) = [104, 105]"
  using make_udp_packet_valid [OF demo_machine_laws, of "demo_in6 1" "demo_in6 2" "[104, 105]" 53 54] by (simp add: Let_def)


theorem icmp_unreachable_valid_witness:
  "\<exists>r. make_icmp_unreachable demo_machine demo_segment = Some r \<and> ipv4_valid demo_machine r \<and> ip_checksum demo_machine (drop 20 r) = 0 \<and>
    drop 28 r = demo_segment"
proof -
  have "is_ipv4 demo_segment" using demo_segment_valid by (simp add: ipv4_valid_def)
  moreover have "take (min (hdr_len demo_segment * 4 + 32) (length demo_segment)) demo_segment = demo_segment"
    by (simp add: demo_segment_def hdr_len_def)
  ultimately show ?thesis using icmp_unreachable_valid [OF demo_machine_laws, of demo_segment] by auto
qed

definition demo_fragment :: bytes where
  "demo_fragment = [69, 0, 0, 32, 0, 7, 0, 1, 64, 6, 102, 206, 10, 0, 0, 1, 10, 0, 0, 2] @ replicate 12 0"

theorem tcp_fragment_misplaced_witness: "update_ipv4_address demo_machine 0 0 demo_fragment = None"
proof -
  have "is_ipv4 demo_fragment" "demo_fragment ! 9 = PROTO_TCP" "5 \<le> hdr_len demo_fragment" "frag_offset demo_machine demo_fragment = 8"
    "hdr_len demo_fragment * 4 + 10 \<le> length demo_fragment" "length demo_fragment < hdr_len demo_fragment * 4 + 18"
    by code_simp+
  then show ?thesis using tcp_fragment_misplaced [of demo_fragment demo_machine 0 0] by simp
qed


end
