(* ===== verification/Spec2Isabelle.thy ===== *)
theory Spec2Isabelle
  imports Rc_Network Path_Handler Session_Runs Contact_Network Session_Pivots Endpoint_Lookup Ip_Update
begin

text \<open>
  Session Router is an onion router.  Relays are registered on a blockchain and know each other's
  contacts; clients build paths of up to eight relays, publish at which relays they can be reached,
  and talk to each other and to relays in encrypted sessions over such paths.  This development
  translates the protocol core of the program, the code under \<^verbatim>\<open>src/src\<close>, into executable
  definitions and proves what the parts promise to each other.

  \<^bold>\<open>How the parts interact.\<close>  The node database holds relay contacts, which arrive by gossip, fetches and
  bootstrap.  Hop selection draws relays from it, skipping those that profiling calls bad.  A path
  handler builds paths along the selected hops: it makes the onion of build frames, sends it to the
  edge, and keeps a table of paths, which expire.  Relays peel a frame each and store a transit hop in
  their path context; path control and session messages travel along these hops.  An endpoint is a
  path handler for inbound paths: it publishes their ends as introductions of its client contact and
  holds tables of sessions by tag and by remote.  An outbound session is a path handler too: it looks up the
  remote's contact, builds paths to its introductions, runs the handshake and carries data.

  \<^bold>\<open>Conventions.\<close>  A class is a record, an enum or tagged union a datatype, an operation a function of the
  same name from the state to the new state and what it sends, calls back or raises.  Hash maps are
  association lists in iteration order; objects held by pointers of several tables are in a
  store and referred to by their key.  An exception or an undefined access of the code is a value: an error constructor, or
  None where the kind does not matter.  Times are integers in milliseconds (\<open>ms\<close>) or seconds as in
  the code, and words have their width where they wrap.  Random draws, the clock and hash iteration
  order are arguments.  A loop that may not end is a \<^verbatim>\<open>partial_function\<close> whose value None means that
  it does not return, or has fuel.

  \<^bold>\<open>Code outside the repository.\<close>  libsodium, ML-KEM, oxenc and zstd are records of functions (\<open>sodium\<close>, \<open>handshake_lib\<close>,
  \<open>curve_lib\<close>, \<open>oxenc\<close>, \<open>endian64\<close>), arguments of every definition that uses them; predicates such as \<open>sodium_laws\<close> and \<open>oxenc_laws\<close>
  state documented behaviour of single functions (sizes, decryption undoes encryption, both
  sides of a key exchange agree, a produced dictionary reads back).  Instances gives
  concrete functions for all of them and proves the laws, so no property rests on unsatisfiable hypotheses.

  \<^bold>\<open>Theories.\<close>
  \<^item> Prelude, Crypto, Oxenc, Instances: buffers and xor (\<^verbatim>\<open>util/aligned.hpp\<close>), key derivation, onion
    layers, blinding and name decryption (\<^verbatim>\<open>crypto/\<close>), serialisation, and the concrete libraries.
    Prelude has the locale \<open>invariant_system\<close> (states reachable by steps keep an invariant), interpreted for
    the path context, the node database, the path handler, gossip floods, session tables, stranded tags and pending
    lookups; Path_Build has \<open>frame_codec\<close>, interpreted for both frame versions; Path_Context has \<open>hop_table\<close>.
  \<^item> Relay_Contact, Nodedb, Profiling, Hop_Select: \<^verbatim>\<open>contact/relay_contact.cpp\<close>, \<^verbatim>\<open>nodedb.cpp\<close>, \<^verbatim>\<open>profiling.cpp\<close> and
    \<^verbatim>\<open>select_hops_to_remote\<close> with the sampling under it.  Shown: fresh contacts replace older ones only, relay ids are accepted by
    majority, storage locations depend on the registered relays only, tickets are used once, counters match
    path outcomes, and every selected path is valid.
  \<^item> Rc_Exchange, Rc_Network: gossip, fetches and bootstrap of \<^verbatim>\<open>link/link_manager.cpp\<close> and \<^verbatim>\<open>nodedb.cpp\<close>, on both sides.
    Shown: floods end and reach every connected relay, a fetch catches up, the honest majority wins,
    bootstrapping hands over contacts and is retried.
  \<^item> Path, Path_Build, Path_Context, Path_Relay, Net_Build, Net_Control, Net_Session: \<^verbatim>\<open>path/\<close> and the path handlers of
    \<^verbatim>\<open>link/link_manager.cpp\<close>, composed over a network of relays, which is a function from router ids to
    router states.  The theorems of this theory are on these: a build establishes the path, a control
    request is answered, a session message is delivered.
  \<^item> Path_Handler: \<^verbatim>\<open>path/path_handler.cpp\<close>.  Shown: the table invariant in all runs, refinement of an abstract map
    from ids to paths, which builds leave a path behind, and the bounds of the pause after failures.
  \<^item> Session, Session_Exchange, Session_Table, Session_Runs: \<^verbatim>\<open>session/session.cpp\<close> and the session tables of
    \<^verbatim>\<open>handlers/session.cpp\<close>.  Shown: the handshake agrees on keys, forged acceptances change nothing, data
    arrives, and the tables are consistent in every run.
  \<^item> Session_Paths, Session_Pivots: \<^verbatim>\<open>update_paths\<close>, \<^verbatim>\<open>select_new_current\<close>, \<^verbatim>\<open>close_old_paths\<close> and the tick of outbound sessions.
    Shown: which pivot is chosen, what closing keeps, and when the build loop does not end.
  \<^item> Client_Contact, Contact_Codec, Contact_Store, Contact_Network: \<^verbatim>\<open>contact/client_contact.cpp\<close>, \<^verbatim>\<open>net/policy.cpp\<close>, SRV
    records, the database of encrypted contacts, the handlers that publish and find contacts and the
    cache of a client.  Shown: the round trip, well-formedness of whatever decodes, and that a published contact is found.
  \<^item> Endpoint_Paths, Endpoint_Lookup: inbound paths, publication, name and contact lookups of
    \<^verbatim>\<open>handlers/session.cpp\<close>.  Shown: new inbound paths have acceptable expiries, votes on names, and that
    lookups are answered once.
  \<^item> Ip_Packet, Ip_Update: \<^verbatim>\<open>net/ip_packet.cpp\<close> and its headers, for machines of either byte order.  Shown: replacing addresses keeps valid packets
    valid, the ICMP and UDP packets the router makes are valid, and which checksums of fragments and of UDP over IPv6 go wrong.

  \<^bold>\<open>Bounds and fuel.\<close>  A path has at most eight hops (\<open>BUILD_LENGTH\<close>), the number of frames in the code.  The
  drivers \<open>build_along\<close> and \<open>control_along\<close> recurse on the number of hops left, and are given the length of the
  path, which suffices by the theorems above.  The random loops \<open>fuzz_loop\<close> and \<open>next_tag\<close> return when an acceptable
  draw exists, a hypothesis of the property; the build loop of a session has fuel, and the property on
  it says that no fuel is enough.  Gossip floods have an explicit bound on the number of deliveries.

  \<^bold>\<open>Defects.\<close>  Theorems of kind error state what the code does where this is not what it means to: for example
  a contact signed by a stranger is accepted, an index sent by a client is not checked, a tag of a
  closed session stays, a lookup whose request is dropped stalls its session.

  \<^bold>\<open>Not modelled.\<close>  QUIC connections below \<^verbatim>\<open>send_command\<close> and the iteration over relay connections (\<^verbatim>\<open>link/endpoint.cpp\<close>), which
  are calls of the quic library and its event loop; start-up, timers and shutdown of the router; the tun device, routes, sockets
  and platform calls, the TCP tunnel, RPC and the daemon, which are input and output around the modelled core.  Also left out are parts
  beside the path and session protocol: option files (\<^verbatim>\<open>config/\<close>), the printing and parsing of addresses (\<^verbatim>\<open>address/\<close>),
  DNS messages and their handler (\<^verbatim>\<open>dns/\<close>, its SRV records apart), the schedule of reachability tests (\<^verbatim>\<open>consensus/\<close>), thread queues, and the
  port maps of an endpoint.  Files are written through a queue of disk operations; logging is left out throughout.
\<close>

section \<open>Paths end to end\<close>

text \<open>
  C1: A path build succeeds end to end.  For any list of at most eight relays (no two
  consecutive ones equal), fresh distinct hop ids, and relays that accept the request, the onion
  that \<^verbatim>\<open>path_build_onion\<close> produces is decoded by each relay in turn to exactly the hop the
  client recorded, every relay forwards to the next, the response is OK, and afterwards every
  relay of the path has the hop stored under both ids with the secrets the client has.
\<close>

theorem path_build_establishes:
  assumes "buildable S X net rnd rcs (word_of_int (round_seconds (t - now)))"
    and "\<forall>i. frame_rand_ok (R i)" and "length pad = (BUILD_LENGTH - length rcs) * BUILD_FRAME_SIZE"
    and "\<forall>n. length (junk n) = BUILD_FRAME_SIZE"
  shows "\<exists>p frames net'.
     path_build_onion S X R pad now (path_new self rnd rcs t) = Inr (p, frames) \<and>
     map router_id (hops p) = map rc_router_id rcs \<and>
     build_along S X now' junk (length rcs) net (router_id (edge p)) frames from = (net', RespOk (OK_RESPONSE X)) \<and>
     path_working net' from p"
  by (rule path_build_works [OF assms]) blast

theorem path_build_establishes_witness:
  "\<exists>p frames net'.
     path_build_onion demo_sodium demo_oxenc demo_rand (replicate 845 0) 0
       (path_new (demo_rid 9) demo_hopid demo_rcs 600000) = Inr (p, frames) \<and>
     map router_id (hops p) = [demo_rid 1, demo_rid 2, demo_rid 1] \<and>
     build_along demo_sodium demo_oxenc 100 demo_junk 3 demo_relay (router_id (edge p)) frames (PeerConn 7) =
       (net', RespOk (OK_RESPONSE demo_oxenc)) \<and>
     path_working net' (PeerConn 7) p"
  using path_build_establishes [of demo_sodium demo_oxenc demo_relay demo_hopid demo_rcs 600000 0 demo_rand
      "replicate 845 0" demo_junk "demo_rid 9" 100 "PeerConn 7"] demo_buildable demo_draw_sizes
  by (simp add: demo_rcs_facts build_consts round_seconds_def del: build_along.simps)

text \<open>
  C2: Path control requests are answered end to end.  On a path in working order, a request
  sent with \<^verbatim>\<open>send_path_control_message\<close> is peeled by the relays, invokes the named handler with
  the given body at the terminus, and what that handler responds is what the client's callback
  receives, without error or timeout.
\<close>

theorem path_control_answered:
  assumes "sodium_laws S" and "oxenc_laws X" and "path_working net from p"
    and "length n = SYMM_NONCE_SIZE" and "length rn = SYMM_NONCE_SIZE"
    and "name \<in> set path_requests" and "answer (Invoke name req) = Some b"
  shows "\<exists>msg.
     send_path_control_message S X p (string_bytes name) req n =
       Some (SendCommand (PeerRelay (router_id (edge p))) ''path_control'' msg) \<and>
     control_response S (Some p) (control_along S X answer rn (length (hops p)) net (router_id (edge p)) msg) =
       \<lparr>pcr_body = b, pcr_timed_out = False, pcr_error = False\<rparr>"
  by (rule control_round_trip [where answer = answer and req = req, OF assms]) blast

theorem path_control_answered_witness:
  "\<exists>msg.
     send_path_control_message demo_sodium demo_oxenc (demo_path demo_hops_p) (string_bytes ''path_ping'') [] demo_nonce =
       Some (SendCommand (PeerRelay (demo_rid 1)) ''path_control'' msg) \<and>
     control_response demo_sodium (Some (demo_path demo_hops_p))
       (control_along demo_sodium demo_oxenc (\<lambda>_. Some [1, 2]) demo_nonce 2 demo_net (demo_rid 1) msg) =
       \<lparr>pcr_body = [1, 2], pcr_timed_out = False, pcr_error = False\<rparr>"
  using path_control_answered [OF demo_sodium_laws demo_oxenc_laws demo_path_working(1), of demo_nonce demo_nonce
      "''path_ping''" "\<lambda>_. Some [1, 2]" "[]" "[1, 2]"]
  by (simp add: SYMM_NONCE_SIZE_def path_requests_def demo_path_facts del: control_along.simps)

text \<open>
  C3: Session messages are delivered end to end.  A data or control message for the pivot id of
  another client's path, sent up the sender's path, is turned around at the common terminus
  and reaches the connection of the other client, whose handler recovers exactly the
  encrypted session payload, the session tag and the original nonce.
\<close>

theorem session_message_delivered:
  assumes "sodium_laws S" and "oxenc_laws X" and "path_working net from p" and "path_working net (PeerConn c) q"
    and "terminal_rid q = terminal_rid p" and "terminal_hopid q \<noteq> terminal_hopid p"
    and "length n = SYMM_NONCE_SIZE" and "12 < length enc" and "\<not> unknown_message_type type control"
    and "\<not> is_service_node r" and "get_path (path_ctx r) (rxid (edge q)) = Some q"
    and "encrypt_path_message S p (session_body X enc tag (terminal_hopid q)) n type False = Some msg"
  shows "\<exists>m. session_along S X control (length (hops p) + length (hops q)) net (router_id (edge p)) msg = ToClient c m \<and>
     receive_session S X control r m = session_deliver type control enc tag n (FromPath (rxid (edge q)))"
  by (rule session_end_to_end [OF assms])

theorem session_message_delivered_witness:
  "\<exists>msg m. encrypt_path_message demo_sodium (demo_path demo_hops_p)
        (session_body demo_oxenc (replicate 20 1) 5 (demo_hopid 11)) demo_nonce MSG_DATA False = Some msg \<and>
     session_along demo_sodium demo_oxenc False 4 demo_net (demo_rid 1) msg = ToClient 8 m \<and>
     receive_session demo_sodium demo_oxenc False demo_client m = SessionData (replicate 20 1) 5 demo_nonce"
proof -
  obtain msg where msg: "encrypt_path_message demo_sodium (demo_path demo_hops_p)
      (session_body demo_oxenc (replicate 20 1) 5 (demo_hopid 11)) demo_nonce MSG_DATA False = Some msg"
    by (simp add: encrypt_path_message_plain Let_def)
  show ?thesis
    using session_message_delivered [OF demo_sodium_laws demo_oxenc_laws demo_path_working, of demo_nonce
        "replicate 20 1" MSG_DATA False demo_client 5 msg] demo_client_path msg
    by (auto simp: SYMM_NONCE_SIZE_def demo_path_facts unknown_message_type_def session_deliver_def msg_defs
        simp del: session_along.simps)
qed

end
